(* ===== verification/Prelude.thy ===== *)
theory Prelude
  imports Complex_Main "HOL-Library.Word" "HOL-Library.Char_ord" "HOL-Library.List_Lexorder"
begin

text \<open>
  Shared vocabulary of the development: Go strings as byte strings, Go errors as optional
  values, the first-failing-check combinator that models a chain of early returns, and the
  generic lemmas on lists and maps that the component theories use.
\<close>

named_theorems ok_simps \<open>when a chain of checks returns no error\<close>
named_theorems row_simps \<open>projections and updates of stored rows\<close>

type_synonym gostr = string

text \<open>A Go \<open>error\<close> result: \<open>None\<close> is nil, \<open>Some e\<close> the error returned.\<close>

type_synonym 'e goerror = "'e option"

text \<open>
  A function body that is a sequence of \<open>if cond { return err }\<close> statements returns the
  first error of the sequence.
\<close>

fun first_error :: "'e goerror list \<Rightarrow> 'e goerror" where
  "first_error [] = None"
| "first_error (Some e # cs) = Some e"
| "first_error (None # cs) = first_error cs"

definition fail_if :: "bool \<Rightarrow> 'e \<Rightarrow> 'e goerror" where
  "fail_if b e = (if b then Some e else None)"

lemma first_error_None [ok_simps]: "first_error cs = None \<longleftrightarrow> (\<forall>c \<in> set cs. c = None)"
  by (induction cs rule: first_error.induct) auto

lemma first_error_Some_mem: "first_error cs = Some e \<Longrightarrow> Some e \<in> set cs"
  by (induction cs rule: first_error.induct) auto

lemma fail_if_None [ok_simps]: "fail_if b e = None \<longleftrightarrow> \<not> b"
  by (simp add: fail_if_def)

lemma fail_if_Some: "fail_if b e = Some e' \<longleftrightarrow> b \<and> e' = e"
  by (auto simp: fail_if_def)

lemma first_error_append: "first_error (xs @ ys) = (case first_error xs of None \<Rightarrow> first_error ys | Some e \<Rightarrow> Some e)"
  by (induction xs rule: first_error.induct) auto

lemma first_error_cong_None:
  "list_all2 (\<lambda>a b. a = None \<longleftrightarrow> b = None) xs ys \<Longrightarrow> first_error xs = None \<longleftrightarrow> first_error ys = None"
  by (simp add: first_error_None list_all2_conv_all_nth all_set_conv_all_nth)

text \<open>Association lists with unique keys: a Go map whose iteration order is not relied on.\<close>

fun upsert :: "'k \<Rightarrow> 'v \<Rightarrow> ('k \<times> 'v) list \<Rightarrow> ('k \<times> 'v) list" where
  "upsert k v [] = [(k, v)]"
| "upsert k v ((k', v') # m) = (if k = k' then (k, v) # m else (k', v') # upsert k v m)"

definition remove_key :: "'k \<Rightarrow> ('k \<times> 'v) list \<Rightarrow> ('k \<times> 'v) list" where
  "remove_key k m = filter (\<lambda>(k', _). k' \<noteq> k) m"

abbreviation keys_of :: "('k \<times> 'v) list \<Rightarrow> 'k list" where
  "keys_of m \<equiv> map fst m"

lemma map_of_upsert [simp]: "map_of (upsert k v m) = (map_of m)(k \<mapsto> v)"
  by (induction k v m rule: upsert.induct) auto

lemma set_keys_upsert [simp]: "fst ` set (upsert k v m) = insert k (fst ` set m)"
  by (induction k v m rule: upsert.induct) auto

lemma distinct_keys_upsert [simp]: "distinct (keys_of (upsert k v m)) = distinct (keys_of m)"
  by (induction k v m rule: upsert.induct) auto

lemma upsert_new: "k \<notin> fst ` set m \<Longrightarrow> upsert k v m = m @ [(k, v)]"
  by (induction k v m rule: upsert.induct) auto

lemma length_upsert: "length (upsert k v m) = (if k \<in> fst ` set m then length m else Suc (length m))"
  by (induction k v m rule: upsert.induct) auto

lemma map_of_remove_key [simp]: "map_of (remove_key k m) = (map_of m)(k := None)"
  by (induction m) (auto simp: remove_key_def)

lemma set_keys_remove_key [simp]: "fst ` set (remove_key k m) = fst ` set m - {k}"
  by (force simp: remove_key_def)

lemma distinct_keys_remove_key: "distinct (keys_of m) \<Longrightarrow> distinct (keys_of (remove_key k m))"
  by (induction m) (auto simp: remove_key_def)

lemma list_all_remove_key: "list_all P m \<Longrightarrow> list_all P (remove_key k m)"
  by (auto simp: remove_key_def list_all_iff)

lemma length_remove_key_le: "length (remove_key k m) \<le> length m"
  by (simp add: remove_key_def)

lemma length_remove_key:
  "distinct (keys_of m) \<Longrightarrow> length (remove_key k m) = (if k \<in> fst ` set m then length m - 1 else length m)"
proof (induction m)
  case Nil
  then show ?case by (simp add: remove_key_def)
next
  case (Cons p m)
  have "length m \<noteq> 0" if "k \<in> fst ` set m" using that by auto
  with Cons show ?case by (cases p) (auto simp: remove_key_def)
qed

text \<open>A left fold that stops at the first error: the Go loop \<open>for ... { if err { return } }\<close>.\<close>

fun fold_err :: "('s \<Rightarrow> 'a \<Rightarrow> 'e + 's) \<Rightarrow> 's \<Rightarrow> 'a list \<Rightarrow> 'e + 's" where
  "fold_err f s [] = Inr s"
| "fold_err f s (x # xs) = (case f s x of Inl e \<Rightarrow> Inl e | Inr s' \<Rightarrow> fold_err f s' xs)"

lemma fold_err_invariant:
  assumes "fold_err f s xs = Inr s'" and "P s"
    and "\<And>s x s'. x \<in> set xs \<Longrightarrow> P s \<Longrightarrow> f s x = Inr s' \<Longrightarrow> P s'"
  shows "P s'"
  using assms
proof (induction xs arbitrary: s)
  case Nil
  then show ?case by simp
next
  case (Cons x xs)
  from Cons.prems(1) obtain s1 where s1: "f s x = Inr s1" "fold_err f s1 xs = Inr s'"
    by (auto split: sum.splits)
  have "P s1" using Cons.prems(3)[of x s s1] s1(1) Cons.prems(2) by simp
  show ?case
    by (rule Cons.IH[OF s1(2) \<open>P s1\<close>]) (use Cons.prems(3) in auto)
qed

lemma fold_err_total:
  assumes "P s" and "\<And>s x. x \<in> set xs \<Longrightarrow> P s \<Longrightarrow> \<exists>s'. f s x = Inr s' \<and> P s'"
  shows "\<exists>s'. fold_err f s xs = Inr s' \<and> P s'"
  using assms
proof (induction xs arbitrary: s)
  case Nil
  then show ?case by simp
next
  case (Cons x xs)
  then obtain s1 where "f s x = Inr s1" "P s1" by force
  with Cons show ?case by auto
qed

lemma fold_err_append:
  "fold_err f s (xs @ ys) = (case fold_err f s xs of Inl e \<Rightarrow> Inl e | Inr s' \<Rightarrow> fold_err f s' ys)"
  by (induction f s xs rule: fold_err.induct) (auto split: sum.splits)

lemma distinct_filter_map: "distinct (map f xs) \<Longrightarrow> distinct (map f (filter P xs))"
  by (induction xs) auto

lemma takeWhile_dropWhile_all: "\<forall>x \<in> set xs. \<not> P x \<Longrightarrow> dropWhile P xs = xs"
  by (cases xs) auto

lemma sorted_wrt_keys_filter: "sorted xs \<Longrightarrow> sorted (filter P xs)"
  by (simp add: sorted_wrt_filter)

end
