(* ===== verification/Go_Runtime.thy ===== *)
theory Go_Runtime
  imports Prelude
begin

text \<open>
  The parts of the Go language and standard library the program uses: signed 64-bit
  integers with their wrap-around, UTF-8 decoding, \<open>unicode.IsSpace\<close> and
  \<open>unicode.IsControl\<close>, the string functions of package \<open>strings\<close>, decimal and
  hexadecimal printing. Strings are byte strings, as in Go; a \<open>char\<close> is one byte.
\<close>

subsection \<open>Signed 64-bit integers\<close>

type_synonym i64 = int

definition max_i64 :: i64 where "max_i64 = 9223372036854775807"

definition min_i64 :: i64 where "min_i64 = - 9223372036854775808"

definition is_i64 :: "int \<Rightarrow> bool" where "is_i64 x \<longleftrightarrow> min_i64 \<le> x \<and> x \<le> max_i64"

text \<open>Two's-complement wrap-around of an exact result.\<close>

definition wrap64 :: "int \<Rightarrow> i64" where
  "wrap64 x = (x + 9223372036854775808) mod 18446744073709551616 - 9223372036854775808"

definition i64_add :: "i64 \<Rightarrow> i64 \<Rightarrow> i64" where "i64_add a b = wrap64 (a + b)"

definition i64_sub :: "i64 \<Rightarrow> i64 \<Rightarrow> i64" where "i64_sub a b = wrap64 (a - b)"

definition i64_mul :: "i64 \<Rightarrow> i64 \<Rightarrow> i64" where "i64_mul a b = wrap64 (a * b)"

text \<open>Go division truncates towards zero.\<close>

definition go_div :: "int \<Rightarrow> int \<Rightarrow> int" where
  "go_div a b = sgn a * sgn b * (\<bar>a\<bar> div \<bar>b\<bar>)"

definition go_mod :: "int \<Rightarrow> int \<Rightarrow> int" where
  "go_mod a b = a - b * go_div a b"

lemma wrap64_id [simp]: "is_i64 x \<Longrightarrow> wrap64 x = x"
  by (simp add: wrap64_def is_i64_def min_i64_def max_i64_def)

lemma wrap64_range [simp]: "is_i64 (wrap64 x)"
proof -
  have "0 \<le> (x + 9223372036854775808) mod 18446744073709551616"
    "(x + 9223372036854775808) mod 18446744073709551616 < 18446744073709551616" by simp_all
  then show ?thesis unfolding wrap64_def is_i64_def min_i64_def max_i64_def by linarith
qed

lemma i64_ops_range [simp]: "is_i64 (i64_add a b)" "is_i64 (i64_sub a b)" "is_i64 (i64_mul a b)"
  by (simp_all add: i64_add_def i64_sub_def i64_mul_def)

lemma i64_add_exact: "is_i64 (a + b) \<Longrightarrow> i64_add a b = a + b"
  by (simp add: i64_add_def)

lemma i64_sub_exact: "is_i64 (a - b) \<Longrightarrow> i64_sub a b = a - b"
  by (simp add: i64_sub_def)

lemma i64_sub_nonneg: "\<lbrakk>is_i64 a; is_i64 b; 0 \<le> a; 0 \<le> b\<rbrakk> \<Longrightarrow> i64_sub a b = a - b"
  by (rule i64_sub_exact) (simp add: is_i64_def min_i64_def max_i64_def)

lemma go_div_nonneg: "0 \<le> a \<Longrightarrow> 0 < b \<Longrightarrow> go_div a b = a div b"
  by (cases "a = 0") (simp_all add: go_div_def)

lemma is_i64_between: "\<lbrakk>is_i64 b; 0 \<le> a; a \<le> b\<rbrakk> \<Longrightarrow> is_i64 a"
  by (simp add: is_i64_def min_i64_def)

subsection \<open>Bytes and UTF-8\<close>

definition byte :: "char \<Rightarrow> nat" where "byte c = of_char c"

lemma byte_less [simp]: "byte c < 256"
  unfolding byte_def by (metis mod_less_divisor of_char_mod_256 zero_less_numeral)

definition cont_byte :: "nat \<Rightarrow> nat \<Rightarrow> char \<Rightarrow> bool" where
  "cont_byte lo hi c \<longleftrightarrow> lo \<le> byte c \<and> byte c \<le> hi"

abbreviation cont :: "char \<Rightarrow> bool" where "cont \<equiv> cont_byte 128 191"

definition rune_error :: nat where "rune_error = 65533"

text \<open>
  \<open>utf8.DecodeRuneInString\<close>: the first rune and the bytes it occupies. An ill-formed
  prefix is the replacement character of width one.
\<close>

definition low6 :: "char \<Rightarrow> nat" where "low6 c = byte c mod 64"

definition decode_rune :: "char \<Rightarrow> gostr \<Rightarrow> nat \<times> nat" where
  "decode_rune c rest =
    (let b = byte c in
     if b < 128 then (b, 1)
     else if b < 194 then (rune_error, 1)
     else if b < 224 then
       (if 1 \<le> length rest \<and> cont (rest ! 0) then (b mod 32 * 64 + low6 (rest ! 0), 2)
        else (rune_error, 1))
     else if b < 240 then
       (if 2 \<le> length rest
          \<and> cont_byte (if b = 224 then 160 else 128) (if b = 237 then 159 else 191) (rest ! 0)
          \<and> cont (rest ! 1)
        then (b mod 16 * 4096 + low6 (rest ! 0) * 64 + low6 (rest ! 1), 3)
        else (rune_error, 1))
     else if b < 245 then
       (if 3 \<le> length rest
          \<and> cont_byte (if b = 240 then 144 else 128) (if b = 244 then 143 else 191) (rest ! 0)
          \<and> cont (rest ! 1) \<and> cont (rest ! 2)
        then (b mod 8 * 262144 + low6 (rest ! 0) * 4096 + low6 (rest ! 1) * 64 + low6 (rest ! 2), 4)
        else (rune_error, 1))
     else (rune_error, 1))"

lemma decode_rune_width: "1 \<le> snd (decode_rune c rest) \<and> snd (decode_rune c rest) \<le> Suc (length rest)"
  by (simp add: decode_rune_def Let_def)

text \<open>\<open>for _, r := range s\<close>: the runes of a string with the bytes each occupies.\<close>

function runes :: "gostr \<Rightarrow> (nat \<times> gostr) list" where
  "runes [] = []"
| "runes (c # cs) =
    (let (r, w) = decode_rune c cs in (r, take w (c # cs)) # runes (drop w (c # cs)))"
  by pat_completeness auto
termination
proof (relation "measure length", goal_cases)
  case 1
  then show ?case by simp
next
  case (2 c cs x r w)
  then have "1 \<le> w" using decode_rune_width[of c cs] by (metis snd_conv)
  then show ?case by simp
qed

definition rune_count :: "gostr \<Rightarrow> nat" where "rune_count s = length (runes s)"

definition rune_list :: "gostr \<Rightarrow> nat list" where "rune_list s = map fst (runes s)"

lemma runes_concat [simp]: "concat (map snd (runes s)) = s"
  by (induction s rule: runes.induct) (auto simp: Let_def split: prod.splits)

lemma decode_rune_ascii: "byte c < 128 \<Longrightarrow> decode_rune c cs = (byte c, 1)"
  by (simp add: decode_rune_def)

lemma runes_ascii: "\<forall>c \<in> set s. byte c < 128 \<Longrightarrow> runes s = map (\<lambda>c. (byte c, [c])) s"
  by (induction s) (simp_all add: decode_rune_ascii)

lemma runes_ascii_Cons: "byte c < 128 \<Longrightarrow> runes (c # cs) = (byte c, [c]) # runes cs"
  by (simp add: decode_rune_ascii)

lemma rune_count_le: "rune_count s \<le> length s"
proof (induction s rule: runes.induct)
  case (2 c cs)
  obtain r w where rw: "decode_rune c cs = (r, w)" by (cases "decode_rune c cs")
  have "1 \<le> w" "w \<le> Suc (length cs)" using decode_rune_width[of c cs] rw by auto
  then show ?case using "2.IH"[of "(r, w)" r w] rw by (simp add: rune_count_def)
qed (simp add: rune_count_def)

lemma runes_eq_Nil [simp]: "runes s = [] \<longleftrightarrow> s = []"
  by (cases s) (auto simp: Let_def split: prod.splits)

text \<open>\<open>utf8.EncodeRune\<close>; surrogates and out-of-range values encode the replacement character.\<close>

definition encode_rune :: "nat \<Rightarrow> gostr" where
  "encode_rune r0 =
    (let r = (if 1114111 < r0 \<or> (55296 \<le> r0 \<and> r0 \<le> 57343) then rune_error else r0) in
     if r < 128 then [char_of r]
     else if r < 2048 then [char_of (192 + r div 64), char_of (128 + r mod 64)]
     else if r < 65536 then
       [char_of (224 + r div 4096), char_of (128 + r div 64 mod 64), char_of (128 + r mod 64)]
     else [char_of (240 + r div 262144), char_of (128 + r div 4096 mod 64),
           char_of (128 + r div 64 mod 64), char_of (128 + r mod 64)])"

subsection \<open>Character classes\<close>

text \<open>\<open>unicode.IsControl\<close>: category Cc, which lies in Latin-1.\<close>

definition is_control :: "nat \<Rightarrow> bool" where
  "is_control r \<longleftrightarrow> r < 32 \<or> (127 \<le> r \<and> r < 160)"

text \<open>\<open>unicode.IsSpace\<close>: the White\_Space property.\<close>

definition is_space :: "nat \<Rightarrow> bool" where
  "is_space r \<longleftrightarrow> (9 \<le> r \<and> r \<le> 13) \<or> r = 32 \<or> r = 133 \<or> r = 160 \<or> r = 5760
     \<or> (8192 \<le> r \<and> r \<le> 8202) \<or> r = 8232 \<or> r = 8233 \<or> r = 8239 \<or> r = 8287 \<or> r = 12288"

subsection \<open>Package strings\<close>

text \<open>
  \<open>strings.TrimSpace\<close>. White-space runes start with a lead byte, so decoding from the left
  finds the same trailing runes as decoding backwards from the end.
\<close>

definition trim_space :: "gostr \<Rightarrow> gostr" where
  "trim_space s =
    concat (map snd (rev (dropWhile (is_space \<circ> fst) (rev (dropWhile (is_space \<circ> fst) (runes s))))))"

definition has_prefix :: "gostr \<Rightarrow> gostr \<Rightarrow> bool" where
  "has_prefix s p \<longleftrightarrow> take (length p) s = p"

definition has_suffix :: "gostr \<Rightarrow> gostr \<Rightarrow> bool" where
  "has_suffix s p \<longleftrightarrow> length p \<le> length s \<and> drop (length s - length p) s = p"

definition trim_prefix :: "gostr \<Rightarrow> gostr \<Rightarrow> gostr" where
  "trim_prefix s p = (if has_prefix s p then drop (length p) s else s)"

fun contains :: "gostr \<Rightarrow> gostr \<Rightarrow> bool" where
  "contains [] p \<longleftrightarrow> p = []"
| "contains (c # cs) p \<longleftrightarrow> has_prefix (c # cs) p \<or> contains cs p"

text \<open>\<open>strings.ContainsAny\<close> with an ASCII set of characters.\<close>

definition contains_any :: "gostr \<Rightarrow> gostr \<Rightarrow> bool" where
  "contains_any s chars \<longleftrightarrow> list_ex (\<lambda>c. c \<in> set chars) s"

text \<open>\<open>strings.Split\<close> on a one-byte separator: never empty.\<close>

fun split_on :: "char \<Rightarrow> gostr \<Rightarrow> gostr list" where
  "split_on d [] = [[]]"
| "split_on d (c # cs) =
    (if c = d then [] # split_on d cs
     else (case split_on d cs of [] \<Rightarrow> [[c]] | p # ps \<Rightarrow> (c # p) # ps))"

text \<open>\<open>strings.Cut\<close> on a one-byte separator.\<close>

fun cut_on :: "char \<Rightarrow> gostr \<Rightarrow> gostr \<times> gostr \<times> bool" where
  "cut_on d [] = ([], [], False)"
| "cut_on d (c # cs) =
    (if c = d then ([], cs, True)
     else (case cut_on d cs of (a, b, ok) \<Rightarrow> (c # a, b, ok)))"

text \<open>\<open>strings.ReplaceAll\<close> of one byte by another, \<open>strings.TrimRight\<close> on one byte.\<close>

definition replace_char :: "char \<Rightarrow> char \<Rightarrow> gostr \<Rightarrow> gostr" where
  "replace_char a b s = map (\<lambda>c. if c = a then b else c) s"

definition trim_right_char :: "char \<Rightarrow> gostr \<Rightarrow> gostr" where
  "trim_right_char d s = rev (dropWhile (\<lambda>c. c = d) (rev s))"

fun join_with :: "gostr \<Rightarrow> gostr list \<Rightarrow> gostr" where
  "join_with sep [] = []"
| "join_with sep [x] = x"
| "join_with sep (x # y # ys) = x @ sep @ join_with sep (y # ys)"

text \<open>
  \<open>strings.ToLower\<close>: ASCII letters by arithmetic, other runes by the Unicode case table,
  which is the parameter \<open>ulow\<close> (data of the Go distribution, not code of the program);
  ill-formed bytes become the encoded replacement character.
\<close>

definition lower_rune :: "(nat \<Rightarrow> nat) \<Rightarrow> nat \<Rightarrow> nat" where
  "lower_rune ulow r = (if r < 128 then (if 65 \<le> r \<and> r \<le> 90 then r + 32 else r) else ulow r)"

definition to_lower :: "(nat \<Rightarrow> nat) \<Rightarrow> gostr \<Rightarrow> gostr" where
  "to_lower ulow s = concat (map (\<lambda>(r, _). encode_rune (lower_rune ulow r)) (runes s))"

definition upper_ascii :: "gostr \<Rightarrow> gostr" where
  "upper_ascii s = map (\<lambda>c. if 97 \<le> byte c \<and> byte c \<le> 122 then char_of (byte c - 32) else c) s"

subsection \<open>Printing\<close>

definition digit_char :: "nat \<Rightarrow> char" where
  "digit_char d = (if d < 10 then char_of (48 + d) else char_of (87 + d))"

fun nat_str :: "nat \<Rightarrow> gostr" where
  "nat_str n = (if n < 10 then [digit_char n] else nat_str (n div 10) @ [digit_char (n mod 10)])"

declare nat_str.simps [simp del]

definition int_str :: "int \<Rightarrow> gostr" where
  "int_str i = (if i < 0 then CHR ''-'' # nat_str (nat (- i)) else nat_str (nat i))"

definition hex_byte :: "char \<Rightarrow> gostr" where
  "hex_byte c = [digit_char (byte c div 16), digit_char (byte c mod 16)]"

definition hex_encode :: "gostr \<Rightarrow> gostr" where
  "hex_encode s = concat (map hex_byte s)"

definition is_hex_char :: "char \<Rightarrow> bool" where
  "is_hex_char c \<longleftrightarrow> (48 \<le> byte c \<and> byte c \<le> 57) \<or> (97 \<le> byte c \<and> byte c \<le> 102) \<or> (65 \<le> byte c \<and> byte c \<le> 70)"

text \<open>Zero-padded decimal of a given width, \<open>%02d\<close>, \<open>%04d\<close>.\<close>

definition pad_str :: "nat \<Rightarrow> nat \<Rightarrow> gostr" where
  "pad_str w n = (let s = nat_str n in replicate (w - length s) (CHR ''0'') @ s)"

subsection \<open>Lemmas on strings\<close>

lemma guarded_nth_prefix:
  assumes "\<And>k. k < n \<Longrightarrow> k < length pre \<Longrightarrow> (pre @ post) ! k = pre ! k"
    and "snd (if n \<le> length (pre @ post) \<and> P (\<lambda>k. (pre @ post) ! k) then (f (\<lambda>k. (pre @ post) ! k), Suc n) else (e, 1)) \<le> Suc (length pre)"
    and "\<And>g h. (\<And>k. k < n \<Longrightarrow> g k = h k) \<Longrightarrow> P g = P h \<and> f g = f h"
  shows "(if n \<le> length pre \<and> P (\<lambda>k. pre ! k) then (f (\<lambda>k. pre ! k), Suc n) else (e, 1))
    = (if n \<le> length (pre @ post) \<and> P (\<lambda>k. (pre @ post) ! k) then (f (\<lambda>k. (pre @ post) ! k), Suc n) else (e, 1 :: nat))"
proof (cases "n \<le> length pre")
  case True
  then have "P (\<lambda>k. pre ! k) = P (\<lambda>k. (pre @ post) ! k) \<and> f (\<lambda>k. pre ! k) = f (\<lambda>k. (pre @ post) ! k)"
    by (intro assms(3)) (simp add: nth_append)
  with True show ?thesis by simp
next
  case False
  with assms(2) show ?thesis by (auto split: if_splits)
qed

lemma decode_rune_prefix:
  assumes "snd (decode_rune c (pre @ post)) \<le> Suc (length pre)"
  shows "decode_rune c pre = decode_rune c (pre @ post)"
proof -
  consider (1) "byte c < 194" | (2) "194 \<le> byte c" "byte c < 224" | (3) "224 \<le> byte c" "byte c < 240"
    | (4) "240 \<le> byte c" "byte c < 245" | (5) "245 \<le> byte c" by linarith
  then show ?thesis
  proof cases
    case 1
    then show ?thesis by (simp add: decode_rune_def Let_def)
  next
    case 2
    then have d: "decode_rune c r = (if 1 \<le> length r \<and> cont (r ! 0)
        then (byte c mod 32 * 64 + low6 (r ! 0), Suc 1) else (rune_error, 1))" for r
      by (simp add: decode_rune_def Let_def)
    show ?thesis unfolding d
      by (rule guarded_nth_prefix[where n = 1 and P = "\<lambda>g. cont (g 0)"
            and f = "\<lambda>g. byte c mod 32 * 64 + low6 (g 0)"])
        (use assms in \<open>simp_all add: d nth_append\<close>)
  next
    case 3
    then have d: "decode_rune c r = (if 2 \<le> length r \<and> cont_byte (if byte c = 224 then 160 else 128)
          (if byte c = 237 then 159 else 191) (r ! 0) \<and> cont (r ! 1)
        then (byte c mod 16 * 4096 + low6 (r ! 0) * 64 + low6 (r ! 1), Suc 2) else (rune_error, 1))" for r
      unfolding decode_rune_def Let_def by simp
    show ?thesis unfolding d
      by (rule guarded_nth_prefix[where n = 2 and P = "\<lambda>g. cont_byte (if byte c = 224 then 160 else 128)
            (if byte c = 237 then 159 else 191) (g 0) \<and> cont (g 1)"
            and f = "\<lambda>g. byte c mod 16 * 4096 + low6 (g 0) * 64 + low6 (g 1)"])
        (use assms in \<open>simp_all add: d nth_append\<close>)
  next
    case 4
    then have d: "decode_rune c r = (if 3 \<le> length r \<and> cont_byte (if byte c = 240 then 144 else 128)
          (if byte c = 244 then 143 else 191) (r ! 0) \<and> cont (r ! 1) \<and> cont (r ! 2)
        then (byte c mod 8 * 262144 + low6 (r ! 0) * 4096 + low6 (r ! 1) * 64 + low6 (r ! 2), Suc 3)
        else (rune_error, 1))" for r
      unfolding decode_rune_def Let_def by simp
    show ?thesis unfolding d
      by (rule guarded_nth_prefix[where n = 3 and P = "\<lambda>g. cont_byte (if byte c = 240 then 144 else 128)
            (if byte c = 244 then 143 else 191) (g 0) \<and> cont (g 1) \<and> cont (g 2)"
            and f = "\<lambda>g. byte c mod 8 * 262144 + low6 (g 0) * 4096 + low6 (g 1) * 64 + low6 (g 2)"])
        (use assms in \<open>simp_all add: d nth_append\<close>)
  next
    case 5
    then show ?thesis by (simp add: decode_rune_def Let_def)
  qed
qed

lemma runes_split_prefix: "runes s = xs @ ys \<Longrightarrow> runes (concat (map snd xs)) = xs"
proof (induction xs arbitrary: s)
  case Nil
  then show ?case by simp
next
  case (Cons x xs)
  obtain c cs where s: "s = c # cs" using Cons.prems by (cases s) auto
  obtain r w where rw: "decode_rune c cs = (r, w)" by (cases "decode_rune c cs")
  have w: "1 \<le> w" "w \<le> Suc (length cs)" using decode_rune_width[of c cs] rw by auto
  have x: "x = (r, take w (c # cs))" and rest: "runes (drop w (c # cs)) = xs @ ys"
    using Cons.prems s rw by auto
  have IH: "runes (concat (map snd xs)) = xs" using Cons.IH[OF rest] .
  have "drop w (c # cs) = concat (map snd xs) @ concat (map snd ys)"
    using runes_concat[of "drop w (c # cs)"] rest by simp
  then have cs: "cs = (take (w - 1) cs @ concat (map snd xs)) @ concat (map snd ys)"
    using w by (metis append.assoc append_take_drop_id drop_Cons' not_one_le_zero)
  let ?pre = "take (w - 1) cs @ concat (map snd xs)"
  have "snd (decode_rune c (?pre @ concat (map snd ys))) \<le> Suc (length ?pre)"
    using rw cs w by simp
  then have dec: "decode_rune c ?pre = (r, w)" using decode_rune_prefix cs rw by metis
  have "take w (c # cs) = c # take (w - 1) cs" using w by (cases w) auto
  moreover have "take w (c # ?pre) = c # take (w - 1) cs" "drop w (c # ?pre) = concat (map snd xs)"
    using w by (cases w; auto)+
  ultimately show ?case using x dec IH by simp
qed

lemma runes_split_suffix: "runes s = xs @ ys \<Longrightarrow> runes (concat (map snd ys)) = ys"
proof (induction xs arbitrary: s)
  case Nil
  then show ?case using runes_concat[of s] by simp
next
  case (Cons x xs)
  then show ?case by (cases s) (auto simp: Let_def split: prod.splits)
qed

text \<open>Trimming on the decoded runes, with the lemmas that make \<open>trim_space\<close> idempotent.\<close>

definition trim_runes :: "(nat \<times> gostr) list \<Rightarrow> (nat \<times> gostr) list" where
  "trim_runes rs = rev (dropWhile (is_space \<circ> fst) (rev (dropWhile (is_space \<circ> fst) rs)))"

lemma rev_dropWhile_rev: "xs = rev (dropWhile P (rev xs)) @ rev (takeWhile P (rev xs))"
proof -
  have "rev (rev xs) = rev (takeWhile P (rev xs) @ dropWhile P (rev xs))"
    by (simp only: takeWhile_dropWhile_id)
  then show ?thesis by (simp only: rev_rev_ident rev_append)
qed

lemma trim_runes_split: "\<exists>xs ys. rs = xs @ trim_runes rs @ ys"
proof -
  let ?P = "is_space \<circ> fst"
  have "rs = takeWhile ?P rs @ dropWhile ?P rs" by simp
  also have "dropWhile ?P rs = trim_runes rs @ rev (takeWhile ?P (rev (dropWhile ?P rs)))"
    unfolding trim_runes_def by (rule rev_dropWhile_rev)
  finally show ?thesis by blast
qed

lemma runes_trim_space: "runes (trim_space s) = trim_runes (runes s)"
proof -
  obtain xs ys where "runes s = xs @ trim_runes (runes s) @ ys" using trim_runes_split by blast
  then have "runes (concat (map snd (trim_runes (runes s) @ ys))) = trim_runes (runes s) @ ys"
    by (rule runes_split_suffix)
  then show ?thesis unfolding trim_space_def using runes_split_prefix
    by (metis trim_runes_def)
qed

lemma dropWhile_fixed: "xs = [] \<or> \<not> P (hd xs) \<Longrightarrow> dropWhile P xs = xs"
  by (cases xs) auto

lemma trim_runes_idem: "trim_runes (trim_runes rs) = trim_runes rs"
proof -
  let ?P = "is_space \<circ> fst"
  define m where "m = dropWhile ?P rs"
  define t where "t = rev (dropWhile ?P (rev m))"
  have m: "m = t @ rev (takeWhile ?P (rev m))" unfolding t_def by (rule rev_dropWhile_rev)
  have "t = [] \<or> \<not> ?P (hd t)"
  proof (cases "t = []")
    case False
    then have "hd m = hd t" using m hd_append2[OF False] by metis
    moreover have "m \<noteq> []" using m False by (metis append_is_Nil_conv)
    ultimately show ?thesis using hd_dropWhile[of ?P rs] unfolding m_def by metis
  qed simp
  then have "dropWhile ?P t = t" by (rule dropWhile_fixed)
  moreover have "dropWhile ?P (rev t) = rev t" unfolding t_def by simp
  ultimately show ?thesis unfolding trim_runes_def m_def[symmetric] t_def[symmetric] by simp
qed

lemma trim_space_idem [simp]: "trim_space (trim_space s) = trim_space s"
proof -
  have "trim_space t = concat (map snd (trim_runes (runes t)))" for t
    by (simp add: trim_space_def trim_runes_def)
  then show ?thesis by (metis runes_trim_space trim_runes_idem)
qed


lemma trim_space_subset: "set (trim_space s) \<subseteq> set s"
proof -
  obtain xs ys where e: "runes s = xs @ trim_runes (runes s) @ ys" using trim_runes_split by blast
  have "s = concat (map snd (runes s))" by simp
  also have "\<dots> = concat (map snd xs) @ trim_space s @ concat (map snd ys)"
    by (subst e) (simp add: trim_space_def trim_runes_def)
  finally show ?thesis by (metis UnCI set_append subsetI)
qed

lemma trim_space_decomp: "\<exists>a b. s = a @ trim_space s @ b"
proof -
  obtain xs ys where e: "runes s = xs @ trim_runes (runes s) @ ys" using trim_runes_split by blast
  have "s = concat (map snd (runes s))" by simp
  also have "\<dots> = concat (map snd xs) @ trim_space s @ concat (map snd ys)"
    by (subst e) (simp add: trim_space_def trim_runes_def)
  finally show ?thesis by blast
qed

lemma length_trim_space_le: "length (trim_space s) \<le> length s"
  using trim_space_decomp[of s] by (metis le_add1 le_add2 le_trans length_append)

lemma trim_space_Nil [simp]: "trim_space [] = []"
  by (simp add: trim_space_def)

lemma trim_space_fixed:
  "\<forall>c \<in> set s. byte c < 128 \<and> \<not> is_space (byte c) \<Longrightarrow> trim_space s = s"
  by (simp add: trim_space_def runes_ascii takeWhile_dropWhile_all rev_map[symmetric] comp_def)

lemma split_on_not_Nil [simp]: "split_on d s \<noteq> []"
  by (cases s) (auto split: list.splits)

lemma split_on_no_sep: "p \<in> set (split_on d s) \<Longrightarrow> d \<notin> set p"
  by (induction d s arbitrary: p rule: split_on.induct) (auto split: list.splits if_splits)

lemma split_on_subset: "p \<in> set (split_on d s) \<Longrightarrow> set p \<subseteq> set s"
proof (induction d s arbitrary: p rule: split_on.induct)
  case (2 d c cs)
  show ?case
  proof (cases "c = d")
    case True
    with 2 show ?thesis by fastforce
  next
    case False
    obtain q qs where q: "split_on d cs = q # qs" by (cases "split_on d cs") auto
    with 2 False show ?thesis by fastforce
  qed
qed simp

lemma split_on_append_sep: "d \<notin> set x \<Longrightarrow> split_on d (x @ d # s) = x # split_on d s"
  by (induction x) auto

lemma split_on_single: "d \<notin> set x \<Longrightarrow> split_on d x = [x]"
  by (induction x) auto

lemma split_join_with:
  "xs \<noteq> [] \<Longrightarrow> list_all (\<lambda>x. d \<notin> set x) xs \<Longrightarrow> split_on d (join_with [d] xs) = xs"
  by (induction "[d]" xs rule: join_with.induct) (auto simp: split_on_single split_on_append_sep)

lemma join_split_on: "join_with [d] (split_on d s) = s"
proof (induction d s rule: split_on.induct)
  case (2 d c cs)
  obtain q qs where q: "split_on d cs = q # qs" by (cases "split_on d cs") auto
  with 2 show ?case by (cases qs; cases "c = d") auto
qed simp

lemma set_replace_char: "a \<noteq> b \<Longrightarrow> a \<notin> set (replace_char a b s)"
  by (auto simp: replace_char_def)

lemma has_prefix_append [simp]: "has_prefix (p @ s) p"
  by (simp add: has_prefix_def)

lemma has_prefix_iff: "has_prefix s p \<longleftrightarrow> (\<exists>t. s = p @ t)"
  unfolding has_prefix_def by (metis append_eq_conv_conj append_take_drop_id)

lemma trim_prefix_append [simp]: "trim_prefix (p @ s) p = s"
  by (simp add: trim_prefix_def)

lemma contains_iff: "contains s p \<longleftrightarrow> (\<exists>a b. s = a @ p @ b)"
proof (induction s p rule: contains.induct)
  case (2 c cs p)
  show ?case (is "_ \<longleftrightarrow> ?R")
  proof
    assume "contains (c # cs) p"
    then show ?R
    proof (cases "has_prefix (c # cs) p")
      case True
      then show ?thesis by (metis append_Nil has_prefix_iff)
    next
      case False
      then obtain a b where "cs = a @ p @ b" using 2 \<open>contains (c # cs) p\<close> by auto
      then show ?thesis by (metis append_Cons)
    qed
  next
    assume ?R
    then obtain a b where "c # cs = a @ p @ b" by blast
    then show "contains (c # cs) p"
    proof (cases a)
      case Nil
      then have "has_prefix (c # cs) p" using \<open>c # cs = a @ p @ b\<close> by (simp add: has_prefix_iff)
      then show ?thesis by simp
    next
      case (Cons x a')
      then have "contains cs p" using 2 \<open>c # cs = a @ p @ b\<close> by auto
      then show ?thesis by simp
    qed
  qed
qed auto

lemma digit_char_byte: "d < 16 \<Longrightarrow> byte (digit_char d) = (if d < 10 then 48 + d else 87 + d)"
  by (simp add: digit_char_def byte_def of_char_of)

lemma hex_encode_Nil [simp]: "hex_encode [] = []" and
  hex_encode_Cons [simp]: "hex_encode (c # s) = hex_byte c @ hex_encode s"
  by (simp_all add: hex_encode_def)

lemma length_hex_encode [simp]: "length (hex_encode s) = 2 * length s"
  by (induction s) (simp_all add: hex_byte_def)

lemma byte_div16 [simp]: "byte c div 16 < 16"
  using byte_less[of c] less_mult_imp_div_less[of "byte c" 16 16] by simp

lemma hex_byte_chars: "d \<in> set (hex_byte c) \<Longrightarrow> \<exists>n < 16. d = digit_char n"
proof -
  assume "d \<in> set (hex_byte c)"
  then consider "d = digit_char (byte c div 16)" | "d = digit_char (byte c mod 16)"
    by (auto simp: hex_byte_def)
  then show ?thesis
  proof cases
    case 1
    then show ?thesis using byte_div16 by blast
  next
    case 2
    moreover have "byte c mod 16 < 16" by simp
    ultimately show ?thesis by blast
  qed
qed

lemma hex_encode_chars: "d \<in> set (hex_encode s) \<Longrightarrow> \<exists>n < 16. d = digit_char n"
  by (induction s) (auto dest: hex_byte_chars)

lemma hex_encode_hex: "list_all is_hex_char (hex_encode s)"
proof -
  have "is_hex_char (digit_char n)" if "n < 16" for n
    using that by (cases "n < 10") (simp_all add: is_hex_char_def digit_char_byte)
  then show ?thesis using hex_encode_chars by (auto simp: list_all_iff)
qed

lemma digit_char_inj:
  assumes "m < 16" "n < 16" "digit_char m = digit_char n"
  shows "m = n"
proof -
  have "(if m < 10 then 48 + m else 87 + m) = (if n < 10 then 48 + n else 87 + n)"
    using digit_char_byte[OF assms(1)] digit_char_byte[OF assms(2)] assms(3) by simp
  then show ?thesis by (cases "m < 10"; cases "n < 10") simp_all
qed

lemma byte_inj: "byte a = byte b \<Longrightarrow> a = b"
  by (simp add: byte_def)

lemma hex_byte_inj: "hex_byte a = hex_byte b \<Longrightarrow> a = b"
proof -
  assume "hex_byte a = hex_byte b"
  then have "digit_char (byte a div 16) = digit_char (byte b div 16)"
    "digit_char (byte a mod 16) = digit_char (byte b mod 16)" by (auto simp: hex_byte_def)
  moreover have "byte a div 16 < 16" "byte b div 16 < 16" by simp_all
  ultimately have "byte a div 16 = byte b div 16" "byte a mod 16 = byte b mod 16"
    by (auto intro: digit_char_inj)
  then show "a = b" by (metis byte_inj div_mod_decomp)
qed

lemma hex_encode_inj: "hex_encode s = hex_encode t \<Longrightarrow> s = t"
proof (induction s arbitrary: t)
  case Nil
  then show ?case by (cases t) (auto simp: hex_byte_def)
next
  case (Cons c s)
  then obtain d u where t: "t = d # u" by (cases t) (auto simp: hex_byte_def)
  have "hex_byte c = hex_byte d" "hex_encode s = hex_encode u"
    using Cons.prems t by (auto simp: hex_byte_def)
  with Cons.IH t show ?case by (simp add: hex_byte_inj)
qed

end
