(* ===== verification/Sha256.thy ===== *)
theory Sha256
  imports Go_Runtime
begin

unbundle bit_operations_syntax

text \<open>
  Package \<open>crypto/sha256\<close> of the Go standard library (FIPS 180-4), executable, on byte
  strings. The program relies on it for event IDs, session IDs, source identities and
  constant-time comparisons; the development uses only its length and determinism.
\<close>

type_synonym u32 = "32 word"

definition sha_k :: "u32 list" where
  "sha_k = [1116352408, 1899447441, 3049323471, 3921009573, 961987163, 1508970993,
    2453635748, 2870763221, 3624381080, 310598401, 607225278, 1426881987,
    1925078388, 2162078206, 2614888103, 3248222580, 3835390401, 4022224774,
    264347078, 604807628, 770255983, 1249150122, 1555081692, 1996064986,
    2554220882, 2821834349, 2952996808, 3210313671, 3336571891, 3584528711,
    113926993, 338241895, 666307205, 773529912, 1294757372, 1396182291,
    1695183700, 1986661051, 2177026350, 2456956037, 2730485921, 2820302411,
    3259730800, 3345764771, 3516065817, 3600352804, 4094571909, 275423344,
    430227734, 506948616, 659060556, 883997877, 958139571, 1322822218,
    1537002063, 1747873779, 1955562222, 2024104815, 2227730452, 2361852424,
    2428436474, 2756734187, 3204031479, 3329325298]"

definition sha_h0 :: "u32 list" where
  "sha_h0 = [1779033703, 3144134277, 1013904242, 2773480762, 1359893119, 2600822924,
    528734635, 1541459225]"

definition rotr :: "nat \<Rightarrow> u32 \<Rightarrow> u32" where
  "rotr n x = drop_bit n x OR push_bit (32 - n) x"

definition be32 :: "char list \<Rightarrow> u32" where
  "be32 bs = foldl (\<lambda>acc c. acc * 256 + of_nat (byte c)) 0 bs"

definition u32_bytes :: "u32 \<Rightarrow> gostr" where
  "u32_bytes w = map (\<lambda>k. char_of (unat (drop_bit k w AND 255))) [24, 16, 8, 0]"

fun be_bytes :: "nat \<Rightarrow> nat \<Rightarrow> gostr" where
  "be_bytes 0 n = []"
| "be_bytes (Suc k) n = be_bytes k (n div 256) @ [char_of (n mod 256)]"

definition sha_pad :: "gostr \<Rightarrow> gostr" where
  "sha_pad msg =
    (let l = length msg; z = (119 - l mod 64) mod 64
     in msg @ [char_of (128 :: nat)] @ replicate z (char_of (0 :: nat)) @ be_bytes 8 (8 * l))"

function chunks :: "nat \<Rightarrow> 'a list \<Rightarrow> 'a list list" where
  "chunks n xs = (if n = 0 \<or> xs = [] then [] else take n xs # chunks n (drop n xs))"
  by pat_completeness auto
termination by (relation "measure (\<lambda>(n, xs). length xs)") auto

declare chunks.simps [simp del]

text \<open>The message schedule, most recent word first.\<close>

fun sha_extend :: "nat \<Rightarrow> u32 list \<Rightarrow> u32 list" where
  "sha_extend 0 ws = ws"
| "sha_extend (Suc n) ws =
    (let a = ws ! 14; b = ws ! 1;
         s0 = rotr 7 a XOR rotr 18 a XOR drop_bit 3 a;
         s1 = rotr 17 b XOR rotr 19 b XOR drop_bit 10 b
     in sha_extend n ((ws ! 15 + s0 + ws ! 6 + s1) # ws))"

type_synonym sha_state = "u32 \<times> u32 \<times> u32 \<times> u32 \<times> u32 \<times> u32 \<times> u32 \<times> u32"

fun sha_round :: "sha_state \<Rightarrow> u32 \<times> u32 \<Rightarrow> sha_state" where
  "sha_round (a, b, c, d, e, f, g, h) (k, w) =
    (let s1 = rotr 6 e XOR rotr 11 e XOR rotr 25 e;
         ch = (e AND f) XOR (NOT e AND g);
         t1 = h + s1 + ch + k + w;
         s0 = rotr 2 a XOR rotr 13 a XOR rotr 22 a;
         maj = (a AND b) XOR (a AND c) XOR (b AND c);
         t2 = s0 + maj
     in (t1 + t2, a, b, c, d + t1, e, f, g))"

fun sha_block :: "sha_state \<Rightarrow> gostr \<Rightarrow> sha_state" where
  "sha_block (a, b, c, d, e, f, g, h) block =
    (let ws = rev (sha_extend 48 (rev (map be32 (chunks 4 block))));
         (a', b', c', d', e', f', g', h') = foldl sha_round (a, b, c, d, e, f, g, h) (zip sha_k ws)
     in (a + a', b + b', c + c', d + d', e + e', f + f', g + g', h + h'))"

definition sha_init :: sha_state where
  "sha_init = (sha_h0 ! 0, sha_h0 ! 1, sha_h0 ! 2, sha_h0 ! 3, sha_h0 ! 4, sha_h0 ! 5, sha_h0 ! 6, sha_h0 ! 7)"

definition sha256_sum :: "gostr \<Rightarrow> gostr" where
  "sha256_sum msg =
    (case foldl sha_block sha_init (chunks 64 (sha_pad msg)) of (a, b, c, d, e, f, g, h) \<Rightarrow>
      concat (map u32_bytes [a, b, c, d, e, f, g, h]))"

lemma length_sha256_sum [simp]: "length (sha256_sum msg) = 32"
  by (simp add: sha256_sum_def u32_bytes_def split: prod.split)

end
