(* ===== verification/Float64.thy ===== *)
theory Float64
  imports Go_Runtime "HOL-Library.Log_Nat"
begin

text \<open>
  IEEE 754 binary64 as Go's \<open>float64\<close> computes it: finite values are rationals, every
  operation is the exact result rounded to nearest, ties to even, with gradual underflow and
  overflow to infinity. The sign of zero is not represented; the program never observes it.
\<close>

datatype f64 = Fin rat | PInf | NInf | NaN

text \<open>Rounding a rational to an integer, ties to even.\<close>

definition round_even :: "rat \<Rightarrow> int" where
  "round_even q =
    (let f = \<lfloor>q\<rfloor>; r = q - of_int f
     in if r < 1 / 2 then f else if r > 1 / 2 then f + 1 else if even f then f else f + 1)"

text \<open>The binary exponent of a positive rational.\<close>

definition rat_exponent :: "rat \<Rightarrow> int" where
  "rat_exponent q =
    (let (a, b) = quotient_of q; e = bitlen a - bitlen b
     in if q < 2 powi e then e - 1 else e)"

text \<open>The exponent of the unit in the last place, 53 bits of precision above \<open>2\<close> to the \<open>-1074\<close>.\<close>

definition ulp_exponent :: "rat \<Rightarrow> int" where
  "ulp_exponent q = max (rat_exponent q - 52) (- 1074)"

definition round_pos :: "rat \<Rightarrow> rat" where
  "round_pos q = (let u = 2 powi ulp_exponent q in of_int (round_even (q / u)) * u)"

definition round64 :: "rat \<Rightarrow> f64" where
  "round64 q =
    (if q = 0 then Fin 0
     else if 0 < q then (let r = round_pos q in if r < 2 powi 1024 then Fin r else PInf)
     else (let r = round_pos (- q) in if r < 2 powi 1024 then Fin (- r) else NInf))"

definition f64_of_int :: "int \<Rightarrow> f64" where "f64_of_int n = round64 (of_int n)"

fun f64_add :: "f64 \<Rightarrow> f64 \<Rightarrow> f64" where
  "f64_add NaN _ = NaN"
| "f64_add _ NaN = NaN"
| "f64_add PInf NInf = NaN"
| "f64_add NInf PInf = NaN"
| "f64_add PInf _ = PInf"
| "f64_add _ PInf = PInf"
| "f64_add NInf _ = NInf"
| "f64_add _ NInf = NInf"
| "f64_add (Fin a) (Fin b) = round64 (a + b)"

fun f64_neg :: "f64 \<Rightarrow> f64" where
  "f64_neg NaN = NaN"
| "f64_neg PInf = NInf"
| "f64_neg NInf = PInf"
| "f64_neg (Fin a) = Fin (- a)"

definition f64_inf_signed :: "bool \<Rightarrow> f64" where
  "f64_inf_signed neg = (if neg then NInf else PInf)"

fun f64_mul :: "f64 \<Rightarrow> f64 \<Rightarrow> f64" where
  "f64_mul NaN _ = NaN"
| "f64_mul _ NaN = NaN"
| "f64_mul (Fin a) (Fin b) = round64 (a * b)"
| "f64_mul (Fin a) PInf = (if a = 0 then NaN else f64_inf_signed (a < 0))"
| "f64_mul (Fin a) NInf = (if a = 0 then NaN else f64_inf_signed (0 < a))"
| "f64_mul PInf (Fin b) = (if b = 0 then NaN else f64_inf_signed (b < 0))"
| "f64_mul NInf (Fin b) = (if b = 0 then NaN else f64_inf_signed (0 < b))"
| "f64_mul PInf PInf = PInf"
| "f64_mul NInf NInf = PInf"
| "f64_mul PInf NInf = NInf"
| "f64_mul NInf PInf = NInf"

text \<open>Division; the program only divides by positive values, so a zero divisor is positive zero.\<close>

fun f64_div :: "f64 \<Rightarrow> f64 \<Rightarrow> f64" where
  "f64_div NaN _ = NaN"
| "f64_div _ NaN = NaN"
| "f64_div (Fin a) (Fin b) =
    (if b = 0 then (if a = 0 then NaN else f64_inf_signed (a < 0)) else round64 (a / b))"
| "f64_div (Fin a) _ = Fin 0"
| "f64_div PInf (Fin b) = f64_inf_signed (b < 0)"
| "f64_div NInf (Fin b) = f64_inf_signed (0 \<le> b)"
| "f64_div _ _ = NaN"

fun f64_less :: "f64 \<Rightarrow> f64 \<Rightarrow> bool" where
  "f64_less (Fin a) (Fin b) = (a < b)"
| "f64_less (Fin a) PInf = True"
| "f64_less NInf (Fin b) = True"
| "f64_less NInf PInf = True"
| "f64_less _ _ = False"

fun f64_le :: "f64 \<Rightarrow> f64 \<Rightarrow> bool" where
  "f64_le (Fin a) (Fin b) = (a \<le> b)"
| "f64_le (Fin a) PInf = True"
| "f64_le NInf (Fin b) = True"
| "f64_le NInf PInf = True"
| "f64_le PInf PInf = True"
| "f64_le NInf NInf = True"
| "f64_le _ _ = False"

definition f64_is_nan :: "f64 \<Rightarrow> bool" where "f64_is_nan x \<longleftrightarrow> x = NaN"

definition f64_is_inf :: "f64 \<Rightarrow> bool" where "f64_is_inf x \<longleftrightarrow> x = PInf \<or> x = NInf"

subsection \<open>Rounding is monotone and exact on representable values\<close>

lemma round_even_of_int [simp]: "round_even (of_int n) = n"
  by (simp add: round_even_def)

lemma round_even_bounds: "of_int \<lfloor>q\<rfloor> \<le> (of_int (round_even q) :: rat)" "round_even q \<le> \<lfloor>q\<rfloor> + 1"
  by (simp_all add: round_even_def Let_def)

lemma round_even_mono:
  assumes "p \<le> q" shows "round_even p \<le> round_even q"
proof (cases "\<lfloor>p\<rfloor> = \<lfloor>q\<rfloor>")
  case True
  then have "p - of_int \<lfloor>p\<rfloor> \<le> q - of_int \<lfloor>q\<rfloor>" using assms by simp
  then show ?thesis using True by (simp add: round_even_def Let_def)
next
  case False
  then have "\<lfloor>p\<rfloor> + 1 \<le> \<lfloor>q\<rfloor>" using floor_mono[OF assms] by linarith
  moreover have "\<lfloor>q\<rfloor> \<le> round_even q" using round_even_bounds(1)[of q] by simp
  ultimately show ?thesis using round_even_bounds(2)[of p] by linarith
qed

lemma bitlen_range:
  assumes "0 < a"
  shows "2 powi (bitlen a - 1) \<le> (of_int a :: rat)" "(of_int a :: rat) < 2 powi bitlen a"
proof -
  have b: "2 ^ nat (bitlen a - 1) \<le> a" "a < 2 ^ nat (bitlen a)" using bitlen_bounds[OF assms] by auto
  have nn: "0 \<le> bitlen a - 1" "0 \<le> bitlen a" using assms bitlen_eq_zero_iff[of a] bitlen_nonneg[of a] by linarith+
  have "(of_int (2 ^ nat (bitlen a - 1)) :: rat) \<le> of_int a" using b(1) by (subst of_int_le_iff)
  then show "2 powi (bitlen a - 1) \<le> (of_int a :: rat)" using nn by (simp add: power_int_nonneg_exp)
  have "(of_int a :: rat) < of_int (2 ^ nat (bitlen a))" using b(2) by (subst of_int_less_iff)
  then show "(of_int a :: rat) < 2 powi bitlen a" using nn by (simp add: power_int_nonneg_exp)
qed

lemma rat_exponent_range:
  assumes "0 < q"
  shows "2 powi rat_exponent q \<le> q" "q < 2 powi (rat_exponent q + 1)"
proof -
  obtain a b where ab: "quotient_of q = (a, b)" by (cases "quotient_of q")
  have b: "0 < b" using quotient_of_denom_pos[OF ab] .
  have q: "q = of_int a / of_int b" using quotient_of_div[OF ab] .
  have a: "0 < a" using assms q b by (simp add: zero_less_divide_iff)
  let ?e = "bitlen a - bitlen b"
  have "q < 2 powi bitlen a / 2 powi (bitlen b - 1)"
    unfolding q using bitlen_range[OF a] bitlen_range[OF b] b a
    by (intro frac_less) auto
  also have "\<dots> = 2 powi (?e + 1)" by (subst power_int_diff[symmetric]) (auto simp: algebra_simps)
  finally have up: "q < 2 powi (?e + 1)" .
  have "2 powi (?e - 1) = (2 powi (bitlen a - 1) / 2 powi bitlen b :: rat)"
    by (subst power_int_diff[symmetric]) (auto simp: algebra_simps)
  also have "\<dots> \<le> q"
    unfolding q using bitlen_range[OF a] bitlen_range[OF b] b a by (intro frac_le) auto
  finally have lo: "2 powi (?e - 1) \<le> q" .
  show "2 powi rat_exponent q \<le> q" "q < 2 powi (rat_exponent q + 1)"
    using up lo by (simp_all add: rat_exponent_def ab Let_def)
qed

lemma rat_exponent_mono:
  assumes "0 < p" "p \<le> q" shows "rat_exponent p \<le> rat_exponent q"
proof (rule ccontr)
  assume "\<not> ?thesis"
  then have "rat_exponent q + 1 \<le> rat_exponent p" by simp
  then have "(2 :: rat) powi (rat_exponent q + 1) \<le> 2 powi rat_exponent p"
    by (intro power_int_increasing) auto
  then show False using rat_exponent_range[of p] rat_exponent_range[of q] assms by linarith
qed

lemma round_pos_nonneg: "0 \<le> q \<Longrightarrow> 0 \<le> round_pos q"
proof -
  assume "0 \<le> q"
  then have "0 \<le> q / 2 powi ulp_exponent q" by simp
  then have "0 \<le> round_even (q / 2 powi ulp_exponent q)" using round_even_mono[of 0] round_even_of_int[of 0] by simp
  then show ?thesis by (simp add: round_pos_def Let_def)
qed

lemma round_pos_ge_binade:
  assumes "0 < q" "- 1074 \<le> rat_exponent q - 52"
  shows "2 powi rat_exponent q \<le> round_pos q"
proof -
  let ?u = "2 powi (rat_exponent q - 52) :: rat"
  have u: "ulp_exponent q = rat_exponent q - 52" using assms(2) by (simp add: ulp_exponent_def)
  have s: "2 powi rat_exponent q = 2 ^ 52 * ?u" by (simp add: power_int_diff)
  have "of_int (2 ^ 52) \<le> q / ?u"
    using rat_exponent_range(1)[OF assms(1)] s by (simp add: field_simps)
  then have "2 ^ 52 \<le> round_even (q / ?u)" using round_even_mono round_even_of_int by metis
  then have "(of_int (2 ^ 52) :: rat) \<le> of_int (round_even (q / ?u))" by (subst of_int_le_iff)
  then have "2 ^ 52 * ?u \<le> of_int (round_even (q / ?u)) * ?u" by (intro mult_right_mono) auto
  then show ?thesis using s by (simp add: round_pos_def u Let_def)
qed

lemma round_pos_le_binade:
  assumes "p < 2 powi e" "ulp_exponent p \<le> e"
  shows "round_pos p \<le> 2 powi e"
proof -
  let ?u = "2 powi ulp_exponent p :: rat"
  let ?n = "2 ^ nat (e - ulp_exponent p) :: int"
  have s: "2 powi e = of_int ?n * ?u"
    using assms(2) by (simp add: power_int_nonneg_exp[symmetric] power_int_add[symmetric])
  have "p / ?u \<le> of_int ?n" using assms(1) s by (simp add: field_simps)
  then have "round_even (p / ?u) \<le> ?n" using round_even_mono round_even_of_int by metis
  then have "(of_int (round_even (p / ?u)) :: rat) \<le> of_int ?n" by (subst of_int_le_iff)
  then have "of_int (round_even (p / ?u)) * ?u \<le> of_int ?n * ?u" by (intro mult_right_mono) auto
  then show ?thesis using s by (simp add: round_pos_def Let_def)
qed

lemma round_pos_mono:
  assumes "0 < p" "p \<le> q" shows "round_pos p \<le> round_pos q"
proof (cases "ulp_exponent p = ulp_exponent q")
  case True
  let ?u = "2 powi ulp_exponent q :: rat"
  have "round_even (p / ?u) \<le> round_even (q / ?u)"
    using assms by (intro round_even_mono divide_right_mono) auto
  then show ?thesis by (simp add: round_pos_def Let_def True)
next
  case False
  have le: "rat_exponent p \<le> rat_exponent q" using rat_exponent_mono[OF assms] .
  then have lt: "rat_exponent p < rat_exponent q" and uq: "- 1074 \<le> rat_exponent q - 52"
    and up: "ulp_exponent p \<le> rat_exponent q"
    using False by (auto simp: ulp_exponent_def)
  have "p < 2 powi (rat_exponent p + 1)" using rat_exponent_range(2)[OF assms(1)] .
  also have "\<dots> \<le> 2 powi rat_exponent q" using lt by (intro power_int_increasing) auto
  finally have "round_pos p \<le> 2 powi rat_exponent q" using up by (rule round_pos_le_binade)
  also have "\<dots> \<le> round_pos q" using assms uq by (intro round_pos_ge_binade) auto
  finally show ?thesis .
qed

lemma round64_mono:
  assumes "0 \<le> p" "p \<le> q" shows "f64_le (round64 p) (round64 q)"
proof (cases "p = 0")
  case True
  then show ?thesis using round_pos_nonneg[of q] assms by (simp add: round64_def Let_def)
next
  case False
  then have "round_pos p \<le> round_pos q" using assms by (intro round_pos_mono) auto
  then show ?thesis using False assms by (simp add: round64_def Let_def)
qed

lemma round64_nonneg: "0 \<le> q \<Longrightarrow> f64_le (Fin 0) (round64 q)"
  using round64_mono[of 0 q] by (simp add: round64_def)

lemma f64_le_trans: "f64_le a b \<Longrightarrow> f64_le b c \<Longrightarrow> f64_le a c"
  by (cases a; cases b; cases c) auto

lemma f64_le_refl: "a \<noteq> NaN \<Longrightarrow> f64_le a a"
  by (cases a) auto

lemma f64_not_le: "a \<noteq> NaN \<Longrightarrow> b \<noteq> NaN \<Longrightarrow> \<not> f64_le a b \<longleftrightarrow> f64_less b a"
  by (cases a; cases b) auto

lemma round64_not_NaN [simp]: "round64 q \<noteq> NaN"
  by (simp add: round64_def Let_def)

lemma rat_exponent_unique:
  assumes "2 powi e \<le> q" "q < 2 powi (e + 1)"
  shows "rat_exponent q = e"
proof -
  have q: "0 < q" using assms(1) by (rule order_less_le_trans[rotated]) simp
  have "\<not> rat_exponent q + 1 \<le> e"
  proof
    assume "rat_exponent q + 1 \<le> e"
    then have "(2 :: rat) powi (rat_exponent q + 1) \<le> 2 powi e" by (intro power_int_increasing) auto
    then show False using assms rat_exponent_range[OF q] by linarith
  qed
  moreover have "\<not> e + 1 \<le> rat_exponent q"
  proof
    assume "e + 1 \<le> rat_exponent q"
    then have "(2 :: rat) powi (e + 1) \<le> 2 powi rat_exponent q" by (intro power_int_increasing) auto
    then show False using assms rat_exponent_range[OF q] by linarith
  qed
  ultimately show ?thesis by linarith
qed

lemma round_pos_exact:
  assumes "q = of_int m * 2 powi k" "ulp_exponent q \<le> k"
  shows "round_pos q = q"
proof -
  let ?u = "2 powi ulp_exponent q :: rat"
  have "q / ?u = of_int m * (2 powi k / ?u)" using assms(1) by simp
  also have "2 powi k / ?u = of_int (2 ^ nat (k - ulp_exponent q))"
    using assms(2) by (simp add: power_int_nonneg_exp[symmetric] power_int_diff[symmetric])
  finally have "q / ?u = of_int (m * 2 ^ nat (k - ulp_exponent q))" by simp
  then show ?thesis unfolding round_pos_def Let_def by (simp only: round_even_of_int) (simp add: field_simps)
qed

lemma round64_exact_unit:
  assumes "0 < q" "q \<le> 1" "q = of_int m * 2 powi k" "- 52 \<le> k"
  shows "round64 q = Fin q"
proof -
  have "rat_exponent q \<le> rat_exponent 1" using assms(1,2) by (rule rat_exponent_mono)
  also have "rat_exponent 1 = 0" by (rule rat_exponent_unique) simp_all
  finally have "ulp_exponent q \<le> k" using assms(4) by (simp add: ulp_exponent_def)
  then have r: "round_pos q = q" using assms(3) round_pos_exact by blast
  have "(1 :: rat) < 2 ^ 1024" by (rule one_less_power) simp_all
  then have "q < 2 ^ 1024" using assms(2) by (rule order_le_less_trans[rotated])
  then have "q < 2 powi 1024" by (simp only: power_int_numeral)
  with r assms(1) show ?thesis by (simp add: round64_def Let_def)
qed

lemma round64_consts: "round64 1 = Fin 1" "round64 (1 / 4) = Fin (1 / 4)" "round64 (3 / 4) = Fin (3 / 4)"
proof -
  show "round64 1 = Fin 1" by (rule round64_exact_unit[where m = 1 and k = 0]) simp_all
  show "round64 (1 / 4) = Fin (1 / 4)"
    by (rule round64_exact_unit[where m = 1 and k = "- 2"]) (simp_all add: power_int_minus)
  show "round64 (3 / 4) = Fin (3 / 4)"
    by (rule round64_exact_unit[where m = 3 and k = "- 2"]) (simp_all add: power_int_minus)
qed

text \<open>Integers below \<open>2\<close> to the 53 convert exactly.\<close>

lemma f64_of_int_exact:
  assumes "0 \<le> n" "n \<le> 4503599627370496"
  shows "f64_of_int n = Fin (of_int n)"
proof (cases "n = 0")
  case True
  then show ?thesis by (simp add: f64_of_int_def round64_def)
next
  case False
  then have n: "(0 :: rat) < of_int n" using assms(1) by simp
  have "(of_int n :: rat) \<le> of_int 4503599627370496" using assms(2) by (subst of_int_le_iff)
  then have n2: "(of_int n :: rat) \<le> 2 ^ 52" by simp
  then have "rat_exponent (of_int n) \<le> rat_exponent (2 ^ 52)" using n by (intro rat_exponent_mono)
  also have "rat_exponent (2 ^ 52) = 52" by (rule rat_exponent_unique) simp_all
  finally have u: "ulp_exponent (of_int n) \<le> 0" by (simp add: ulp_exponent_def)
  then have r: "round_pos (of_int n) = of_int n"
    by (intro round_pos_exact[where m = n and k = 0]) simp_all
  have "(of_int n :: rat) < 2 ^ 1024"
    using n2 power_strict_increasing[of 52 1024 "2 :: rat"] by linarith
  then have "(of_int n :: rat) < 2 powi 1024" by (simp only: power_int_numeral)
  with r n show ?thesis by (simp add: f64_of_int_def round64_def Let_def)
qed

lemma round64_unit_interval:
  assumes "0 \<le> q" "q \<le> 1"
  shows "f64_le (Fin 0) (round64 q)" "f64_le (round64 q) (Fin 1)"
  using round64_nonneg[OF assms(1)] round64_mono[OF assms] round64_consts(1) by simp_all

text \<open>A 64-bit count converts to a finite value.\<close>

lemma round64_two63: "round64 (2 ^ 63) = Fin (2 ^ 63)"
proof -
  have "rat_exponent (2 ^ 63) = 63" by (rule rat_exponent_unique) simp_all
  then have "round_pos (2 ^ 63) = 2 ^ 63"
    by (intro round_pos_exact[where m = "2 ^ 52" and k = 11]) (simp_all add: ulp_exponent_def)
  moreover have "(2 :: rat) ^ 63 < 2 powi 1024"
    using power_strict_increasing[of 63 1024 "2 :: rat"] by (simp only: power_int_numeral)
  ultimately show ?thesis by (simp add: round64_def Let_def)
qed

lemma f64_of_int_finite:
  assumes "0 \<le> n" "n \<le> 9223372036854775808"
  shows "\<exists>r. f64_of_int n = Fin r \<and> 0 \<le> r"
proof -
  have "(of_int n :: rat) \<le> of_int 9223372036854775808" using assms(2) by (subst of_int_le_iff)
  then have "f64_le (f64_of_int n) (Fin (2 ^ 63))"
    unfolding f64_of_int_def round64_two63[symmetric] using assms(1) by (intro round64_mono) simp_all
  moreover have "f64_le (Fin 0) (f64_of_int n)" using assms(1) by (simp add: f64_of_int_def round64_nonneg)
  ultimately show ?thesis by (cases "f64_of_int n") auto
qed

end
