(* ===== verification/Usage_Event.thy ===== *)
theory Usage_Event
  imports Sha256 Float64
begin

text \<open>
  Package \<open>internal/usage\<close>, file \<open>event.go\<close>: the usage event, its validation, the repair of
  contradictory totals, session and project normalization and deterministic event IDs.
  \<open>ulow\<close> is the Unicode case table for non-ASCII runes and \<open>marshal\<close> is \<open>json.Marshal\<close>
  on a metadata value, both parameters. An instant is its nanoseconds since the Unix epoch.
\<close>

type_synonym instant = int

definition zero_time :: instant where "zero_time = - 62135596800000000000"

definition nanos_per_day :: int where "nanos_per_day = 86400000000000"

definition event_schema_version :: gostr where "event_schema_version = ''1''"

definition eventIDPrefix :: gostr where "eventIDPrefix = ''sha256:''"

definition MaxMetadataBytes :: nat where "MaxMetadataBytes = 4096"
definition MaxMetadataEntries :: nat where "MaxMetadataEntries = 32"
definition MaxMetadataDepth :: nat where "MaxMetadataDepth = 4"
definition MaxMetadataStringSize :: nat where "MaxMetadataStringSize = 256"
definition MaxDurationMS :: i64 where "MaxDurationMS = 31536000000"

text \<open>
  A metadata value as the JSON decoder builds it. An object lists its entries in the order the
  Go map happens to be iterated. \<open>JInt\<close> stands for Go integers of direct callers,
  \<open>JOther\<close> for any other Go type.
\<close>

datatype json = JNull | JBool bool | JNum f64 | JInt int | JStr gostr
  | JArr "json list" | JObj "(gostr \<times> json) list" | JOther

definition AccuracyReported :: gostr where "AccuracyReported = ''reported''"
definition AccuracyDerived :: gostr where "AccuracyDerived = ''derived''"
definition AccuracyEstimated :: gostr where "AccuracyEstimated = ''estimated''"
definition AccuracyUnknown :: gostr where "AccuracyUnknown = ''unknown''"

definition Accuracy_Valid :: "gostr \<Rightarrow> bool" where
  "Accuracy_Valid a \<longleftrightarrow>
    a = AccuracyReported \<or> a = AccuracyDerived \<or> a = AccuracyEstimated \<or> a = AccuracyUnknown"

record source =
  src_Adapter :: gostr
  src_AdapterVersion :: gostr
  src_Identity :: gostr
  src_Offset :: i64

record event =
  ev_SchemaVersion :: gostr
  ev_EventID :: gostr
  ev_Timestamp :: instant
  ev_MachineID :: gostr
  ev_SessionID :: gostr
  ev_Project :: gostr
  ev_Provider :: gostr
  ev_Model :: gostr
  ev_CanonicalModel :: gostr
  ev_Tool :: gostr
  ev_InputTokens :: "i64 option"
  ev_OutputTokens :: "i64 option"
  ev_CacheReadTokens :: "i64 option"
  ev_CacheWriteTokens :: "i64 option"
  ev_ReasoningTokens :: "i64 option"
  ev_TotalTokens :: "i64 option"
  ev_DurationMS :: "i64 option"
  ev_Cost :: "f64 option"
  ev_CostEstimated :: bool
  ev_Currency :: gostr
  ev_TokenAccuracy :: gostr
  ev_Source :: source
  ev_Metadata :: "(gostr \<times> json) list option"

text \<open>One constructor per message; errors that Go picks by map iteration order carry no name.\<close>

datatype usage_error =
    SchemaVersionMustBe1 | Required gostr | TooLong gostr | SurroundingWhitespace gostr
  | InvalidCharacters gostr | BadDigest | TimestampRequired | TimestampBeforeEpoch | TimestampTooFar
  | ProjectIsPath | InvalidAccuracy gostr | CannotBeNegative | DurationTooLarge | BadCost | BadCurrency
  | NegativeOffset | ComponentsOverflow | TotalTooSmall | MetadataTooLargeOrInvalid | MetadataTooDeep
  | MetadataTooManyEntries | MetadataArrayTooLong | MetadataStringTooLong | MetadataControl
  | MetadataNotFinite | MetadataUnsupported | MetadataKeyEmptyOrLong | MetadataKeyInvalid
  | MetadataKeyNotPermitted

subsection \<open>Text and identifier checks\<close>

definition validateText :: "gostr \<Rightarrow> gostr \<Rightarrow> nat \<Rightarrow> bool \<Rightarrow> usage_error goerror" where
  "validateText name value max_len allowWhitespace =
    (if trim_space value = [] then
       (if name = ''session_id'' \<or> name = ''project'' \<or> name = ''canonical_model'' \<or> name = ''source.identity''
        then None else Some (Required name))
     else first_error
       [fail_if (max_len < rune_count value) (TooLong name),
        fail_if (trim_space value \<noteq> value) (SurroundingWhitespace name),
        fail_if (list_ex (\<lambda>r. is_control r \<or> (\<not> allowWhitespace \<and> is_space r)) (rune_list value))
          (InvalidCharacters name)])"

definition validateIdentifier :: "gostr \<Rightarrow> gostr \<Rightarrow> nat \<Rightarrow> usage_error goerror" where
  "validateIdentifier name value max_len = validateText name value max_len False"

definition isASCIIAlpha :: "gostr \<Rightarrow> bool" where
  "isASCIIAlpha value =
    list_all (\<lambda>r. (65 \<le> r \<and> r \<le> 90) \<or> (97 \<le> r \<and> r \<le> 122)) (rune_list value)"

definition isHex :: "gostr \<Rightarrow> bool" where "isHex value = list_all is_hex_char value"

definition validateEventIDDigest :: "gostr \<Rightarrow> usage_error goerror" where
  "validateEventIDDigest value =
    (if \<not> has_prefix value eventIDPrefix then None
     else (let digest = trim_prefix value eventIDPrefix
           in fail_if (length digest \<noteq> 64 \<or> \<not> isHex digest) BadDigest))"

subsection \<open>Metadata checks\<close>

definition sensitive_key_words :: "gostr list" where
  "sensitive_key_words =
    [''prompt'', ''response'', ''content'', ''source'', ''path'', ''title'', ''secret'', ''credential'',
     ''token'', ''repository'', ''repo'', ''code'', ''message'', ''conversation'', ''command'', ''cwd'']"

definition validateMetadataKey :: "(nat \<Rightarrow> nat) \<Rightarrow> gostr \<Rightarrow> usage_error goerror" where
  "validateMetadataKey ulow key = first_error
    [fail_if (trim_space key = [] \<or> MaxMetadataStringSize < rune_count key) MetadataKeyEmptyOrLong,
     fail_if (list_ex (\<lambda>r. is_control r \<or> is_space r) (rune_list key)) MetadataKeyInvalid,
     fail_if (list_ex (contains (to_lower ulow key)) sensitive_key_words) MetadataKeyNotPermitted]"

fun validateMetadata :: "(nat \<Rightarrow> nat) \<Rightarrow> json \<Rightarrow> nat \<Rightarrow> usage_error goerror"
and validateMetadataEntries :: "(nat \<Rightarrow> nat) \<Rightarrow> (gostr \<times> json) list \<Rightarrow> nat \<Rightarrow> usage_error goerror"
and validateMetadataItems :: "(nat \<Rightarrow> nat) \<Rightarrow> json list \<Rightarrow> nat \<Rightarrow> usage_error goerror" where
  "validateMetadata ulow v depth =
    (if MaxMetadataDepth < depth then Some MetadataTooDeep
     else (case v of
        JObj entries \<Rightarrow>
          (if MaxMetadataEntries < length entries then Some MetadataTooManyEntries
           else validateMetadataEntries ulow entries (Suc depth))
      | JArr items \<Rightarrow>
          (if MaxMetadataEntries < length items then Some MetadataArrayTooLong
           else validateMetadataItems ulow items (Suc depth))
      | JStr s \<Rightarrow> first_error
          [fail_if (MaxMetadataStringSize < rune_count s) MetadataStringTooLong,
           fail_if (list_ex is_control (rune_list s)) MetadataControl]
      | JNum x \<Rightarrow> fail_if (f64_is_nan x \<or> f64_is_inf x) MetadataNotFinite
      | JNull \<Rightarrow> None | JBool b \<Rightarrow> None | JInt n \<Rightarrow> None
      | JOther \<Rightarrow> Some MetadataUnsupported))"
| "validateMetadataEntries ulow [] depth = None"
| "validateMetadataEntries ulow ((k, child) # rest) depth =
    (case validateMetadataKey ulow k of Some e \<Rightarrow> Some e
     | None \<Rightarrow> (case validateMetadata ulow child depth of Some e \<Rightarrow> Some e
               | None \<Rightarrow> validateMetadataEntries ulow rest depth))"
| "validateMetadataItems ulow [] depth = None"
| "validateMetadataItems ulow (child # rest) depth =
    (case validateMetadata ulow child depth of Some e \<Rightarrow> Some e
     | None \<Rightarrow> validateMetadataItems ulow rest depth)"

subsection \<open>Token totals\<close>

text \<open>The loop over the four counted components; \<open>components\<close> is the running sum.\<close>

fun sumComponents :: "i64 \<Rightarrow> i64 option list \<Rightarrow> usage_error + i64" where
  "sumComponents components [] = Inr components"
| "sumComponents components (None # rest) = sumComponents components rest"
| "sumComponents components (Some v # rest) =
    (if i64_sub max_i64 v < components then Inl ComponentsOverflow
     else sumComponents (i64_add components v) rest)"

definition token_components :: "event \<Rightarrow> i64 option list" where
  "token_components e = [ev_InputTokens e, ev_OutputTokens e, ev_CacheReadTokens e, ev_CacheWriteTokens e]"

definition validateTokenTotals :: "event \<Rightarrow> usage_error goerror" where
  "validateTokenTotals e =
    (case ev_TotalTokens e of None \<Rightarrow> None
     | Some tot \<Rightarrow>
        (case sumComponents 0 (token_components e) of Inl err \<Rightarrow> Some err
         | Inr components \<Rightarrow> fail_if (tot < components) TotalTooSmall))"

definition SanitizeOutbound :: "event \<Rightarrow> event" where
  "SanitizeOutbound e =
    (if ev_TotalTokens e \<noteq> None \<and> validateTokenTotals e \<noteq> None
     then e\<lparr>ev_TotalTokens := None, ev_TokenAccuracy := AccuracyUnknown\<rparr> else e)"

subsection \<open>Event validation\<close>

definition negative_field :: "event \<Rightarrow> bool" where
  "negative_field e = list_ex (\<lambda>v. case v of None \<Rightarrow> False | Some n \<Rightarrow> n < 0)
    [ev_InputTokens e, ev_OutputTokens e, ev_CacheReadTokens e, ev_CacheWriteTokens e,
     ev_ReasoningTokens e, ev_TotalTokens e, ev_DurationMS e]"

definition bad_currency :: "gostr \<Rightarrow> bool" where
  "bad_currency c \<longleftrightarrow> c \<noteq> [] \<and> (length c \<noteq> 3 \<or> c \<noteq> upper_ascii c \<or> \<not> isASCIIAlpha c)"

definition validateAt ::
  "(nat \<Rightarrow> nat) \<Rightarrow> ((gostr \<times> json) list \<Rightarrow> gostr option) \<Rightarrow> instant \<Rightarrow> event \<Rightarrow> usage_error goerror" where
  "validateAt ulow marshal now e = first_error
    [fail_if (ev_SchemaVersion e \<noteq> event_schema_version) SchemaVersionMustBe1,
     validateIdentifier ''event_id'' (ev_EventID e) 256,
     validateEventIDDigest (ev_EventID e),
     fail_if (ev_Timestamp e = zero_time) TimestampRequired,
     fail_if (ev_Timestamp e < 0) TimestampBeforeEpoch,
     fail_if (now + nanos_per_day < ev_Timestamp e) TimestampTooFar,
     validateText ''machine_id'' (ev_MachineID e) 256 False,
     validateText ''session_id'' (ev_SessionID e) 256 True,
     validateText ''project'' (ev_Project e) 256 True,
     fail_if (contains_any (ev_Project e) [CHR ''/'', CHR 0x5C]) ProjectIsPath,
     validateText ''provider'' (ev_Provider e) 128 True,
     validateText ''model'' (ev_Model e) 256 True,
     validateText ''canonical_model'' (ev_CanonicalModel e) 256 True,
     validateText ''tool'' (ev_Tool e) 128 True,
     fail_if (\<not> Accuracy_Valid (ev_TokenAccuracy e)) (InvalidAccuracy (ev_TokenAccuracy e)),
     fail_if (negative_field e) CannotBeNegative,
     fail_if (case ev_DurationMS e of None \<Rightarrow> False | Some d \<Rightarrow> MaxDurationMS < d) DurationTooLarge,
     fail_if (case ev_Cost e of None \<Rightarrow> False
              | Some c \<Rightarrow> f64_is_nan c \<or> f64_is_inf c \<or> f64_less c (Fin 0)) BadCost,
     fail_if (bad_currency (ev_Currency e)) BadCurrency,
     fail_if (src_Offset (ev_Source e) < 0) NegativeOffset,
     validateText ''source.adapter'' (src_Adapter (ev_Source e)) 128 False,
     validateText ''source.adapter_version'' (src_AdapterVersion (ev_Source e)) 128 True,
     validateText ''source.identity'' (src_Identity (ev_Source e)) 256 True,
     validateTokenTotals e,
     (case ev_Metadata e of None \<Rightarrow> None
      | Some m \<Rightarrow>
         (case marshal m of None \<Rightarrow> Some MetadataTooLargeOrInvalid
          | Some payload \<Rightarrow>
             (if MaxMetadataBytes < length payload then Some MetadataTooLargeOrInvalid
              else validateMetadata ulow (JObj m) 0)))]"

subsection \<open>Identifiers\<close>

definition nul :: gostr where "nul = [char_of (0 :: nat)]"

definition deterministic_input :: "gostr \<Rightarrow> gostr \<Rightarrow> gostr \<Rightarrow> i64 \<Rightarrow> gostr \<Rightarrow> gostr \<Rightarrow> gostr" where
  "deterministic_input machineID adapter sourceIdentity offset timestamp sessionID =
    join_with nul [machineID, adapter, sourceIdentity, int_str offset, timestamp, sessionID]"

definition DeterministicID :: "gostr \<Rightarrow> gostr \<Rightarrow> gostr \<Rightarrow> i64 \<Rightarrow> gostr \<Rightarrow> gostr \<Rightarrow> gostr" where
  "DeterministicID machineID adapter sourceIdentity offset timestamp sessionID =
    ''sha256:'' @ hex_encode (sha256_sum
      (deterministic_input machineID adapter sourceIdentity offset timestamp sessionID))"

definition HashSessionID :: "gostr \<Rightarrow> gostr" where
  "HashSessionID value = ''sha256:'' @ hex_encode (sha256_sum value)"

definition session_rune_ok :: "nat \<Rightarrow> bool" where
  "session_rune_ok r \<longleftrightarrow> (97 \<le> r \<and> r \<le> 122) \<or> (65 \<le> r \<and> r \<le> 90) \<or> (48 \<le> r \<and> r \<le> 57)
     \<or> r = 45 \<or> r = 95 \<or> r = 46"

definition isSafeSessionID :: "(nat \<Rightarrow> nat) \<Rightarrow> gostr \<Rightarrow> bool" where
  "isSafeSessionID ulow value =
    (if 256 < rune_count value \<or> contains_any value [CHR ''/'', CHR 0x5C, CHR 0x0D, CHR 0x0A, CHR 0x09, CHR '' '']
     then False
     else if has_prefix value ''sha256:'' then
       length value = 7 + 64 \<and> list_all is_hex_char (trim_prefix value ''sha256:'')
     else if list_ex (has_prefix (to_lower ulow value)) [''bearer '', ''sk-'', ''ghp_'', ''github_pat_'']
     then False
     else list_all session_rune_ok (rune_list value))"

definition NormalizeSessionID :: "(nat \<Rightarrow> nat) \<Rightarrow> gostr \<Rightarrow> gostr" where
  "NormalizeSessionID ulow value0 =
    (let value = trim_space value0
     in if value = [] then []
        else if isSafeSessionID ulow value then value
        else HashSessionID value)"

definition NormalizeProject :: "(nat \<Rightarrow> nat) \<Rightarrow> gostr \<Rightarrow> gostr" where
  "NormalizeProject ulow value0 =
    (let value = trim_space (replace_char (CHR 0x5C) (CHR ''/'') value0);
         value = trim_right_char (CHR ''/'') value
     in if value = [] then []
        else (let name = trim_space (last (split_on (CHR ''/'') value))
              in if name = [] \<or> name = ''.'' \<or> name = ''..'' then [] else to_lower ulow name))"


subsection \<open>Token totals: lemmas\<close>

definition opt_val :: "i64 option \<Rightarrow> int" where
  "opt_val v = (case v of None \<Rightarrow> 0 | Some n \<Rightarrow> n)"

lemma opt_val_simps [simp]: "opt_val None = 0" "opt_val (Some n) = n"
  by (simp_all add: opt_val_def)

definition nonneg_i64 :: "i64 option \<Rightarrow> bool" where
  "nonneg_i64 v \<longleftrightarrow> (case v of None \<Rightarrow> True | Some n \<Rightarrow> 0 \<le> n \<and> n \<le> max_i64)"

lemma nonneg_i64_simps [simp]: "nonneg_i64 None" "nonneg_i64 (Some n) = (0 \<le> n \<and> n \<le> max_i64)"
  by (simp_all add: nonneg_i64_def)

lemma nonneg_i64_opt_val: "nonneg_i64 v \<Longrightarrow> 0 \<le> opt_val v"
  by (cases v) auto

lemma sum_opt_nonneg: "\<forall>v \<in> set vs. nonneg_i64 v \<Longrightarrow> 0 \<le> sum_list (map opt_val vs)"
  by (induction vs) (auto dest: nonneg_i64_opt_val)

lemma sumComponents_exact:
  assumes "0 \<le> acc" "acc \<le> max_i64" "\<forall>v \<in> set vs. nonneg_i64 v"
  shows "sumComponents acc vs =
    (if acc + sum_list (map opt_val vs) \<le> max_i64 then Inr (acc + sum_list (map opt_val vs))
     else Inl ComponentsOverflow)"
  using assms
proof (induction acc vs rule: sumComponents.induct)
  case (3 components v rest)
  have sub: "i64_sub max_i64 v = max_i64 - v"
    using 3 by (intro i64_sub_exact) (simp add: is_i64_def min_i64_def max_i64_def)
  have rest: "0 \<le> sum_list (map opt_val rest)" using 3 by (intro sum_opt_nonneg) simp
  show ?case
  proof (cases "max_i64 - v < components")
    case True
    then show ?thesis using sub rest by simp
  next
    case False
    then have add: "i64_add components v = components + v"
      using 3 by (intro i64_add_exact) (simp add: is_i64_def min_i64_def max_i64_def)
    show ?thesis using 3 False sub add by (simp add: algebra_simps)
  qed
qed auto

lemma validateTokenTotals_iff:
  assumes "\<forall>v \<in> set (token_components e). nonneg_i64 v" "nonneg_i64 (ev_TotalTokens e)"
  shows "validateTokenTotals e = None \<longleftrightarrow>
    (case ev_TotalTokens e of None \<Rightarrow> True
     | Some t \<Rightarrow> sum_list (map opt_val (token_components e)) \<le> t)"
  using sumComponents_exact[of 0 "token_components e"] assms
  by (auto simp: validateTokenTotals_def max_i64_def fail_if_def split: option.splits)

lemma SanitizeOutbound_components [simp]:
  "token_components (SanitizeOutbound e) = token_components e"
  "ev_EventID (SanitizeOutbound e) = ev_EventID e" "ev_SessionID (SanitizeOutbound e) = ev_SessionID e"
  "ev_MachineID (SanitizeOutbound e) = ev_MachineID e" "ev_Source (SanitizeOutbound e) = ev_Source e"
  by (simp_all add: SanitizeOutbound_def token_components_def)

text \<open>C0: \<open>SanitizeOutbound\<close> always yields an event whose totals pass validation, keeps an event
  whose totals already pass exactly as it is, and otherwise changes nothing but the total
  (now unknown) and its accuracy class.\<close>

theorem SanitizeOutbound_repairs:
  "validateTokenTotals (SanitizeOutbound e) = None
   \<and> SanitizeOutbound e =
      (if validateTokenTotals e = None then e
       else e\<lparr>ev_TotalTokens := None, ev_TokenAccuracy := AccuracyUnknown\<rparr>)
   \<and> SanitizeOutbound (SanitizeOutbound e) = SanitizeOutbound e"
  by (auto simp: SanitizeOutbound_def validateTokenTotals_def)

subsection \<open>Validation: lemmas\<close>

lemma validateText_None:
  assumes "validateText name v n ws = None" "v \<noteq> []"
    "name \<notin> {''session_id'', ''project'', ''canonical_model'', ''source.identity''}"
  shows "trim_space v = v" "rune_count v \<le> n" "list_all (\<lambda>r. \<not> is_control r) (rune_list v)"
    "ws \<or> list_all (\<lambda>r. \<not> is_space r) (rune_list v)"
  using assms by (auto simp: validateText_def ok_simps list_ex_iff list_all_iff split: if_splits)

lemma validateText_required:
  assumes "validateText name v n ws = None"
    "name \<notin> {''session_id'', ''project'', ''canonical_model'', ''source.identity''}"
  shows "v \<noteq> []"
  using assms by (auto simp: validateText_def split: if_splits)

lemma validateAt_totals:
  assumes "validateAt ulow marshal now e = None"
  shows "validateTokenTotals e = None" "\<not> negative_field e"
  using assms by (simp_all add: validateAt_def ok_simps)

text \<open>Token fields hold 64-bit integers, as their Go type says.\<close>

definition event_i64 :: "event \<Rightarrow> bool" where
  "event_i64 e = list_all (\<lambda>v. case v of None \<Rightarrow> True | Some n \<Rightarrow> is_i64 n)
    [ev_InputTokens e, ev_OutputTokens e, ev_CacheReadTokens e, ev_CacheWriteTokens e,
     ev_ReasoningTokens e, ev_TotalTokens e, ev_DurationMS e]"

lemma valid_event_nonneg:
  assumes "validateAt ulow marshal now e = None" "event_i64 e"
  shows "\<forall>v \<in> set (token_components e). nonneg_i64 v" "nonneg_i64 (ev_TotalTokens e)"
  using validateAt_totals(2)[OF assms(1)] assms(2)
  by (auto simp: negative_field_def event_i64_def token_components_def nonneg_i64_def is_i64_def
      split: option.splits)

text \<open>An event that passes validation has a timestamp from the epoch to one day ahead of the
  clock, a non-empty trimmed event ID of bounded length free of control and space characters, a total (when known) no
  smaller than the exact sum of its known components, no negative token field and a known
  accuracy class.\<close>

theorem validateAt_sound:
  assumes "validateAt ulow marshal now e = None" and "event_i64 e"
  shows "0 \<le> ev_Timestamp e \<and> ev_Timestamp e \<le> now + nanos_per_day
    \<and> ev_EventID e \<noteq> [] \<and> trim_space (ev_EventID e) = ev_EventID e \<and> rune_count (ev_EventID e) \<le> 256
    \<and> list_all (\<lambda>r. \<not> is_control r \<and> \<not> is_space r) (rune_list (ev_EventID e))
    \<and> ev_MachineID e \<noteq> [] \<and> src_Adapter (ev_Source e) \<noteq> []
    \<and> \<not> contains_any (ev_Project e) [CHR ''/'', CHR 0x5C]
    \<and> Accuracy_Valid (ev_TokenAccuracy e)
    \<and> list_all nonneg_i64 (token_components e)
    \<and> (case ev_TotalTokens e of None \<Rightarrow> True
       | Some t \<Rightarrow> sum_list (map opt_val (token_components e)) \<le> t)"
proof -
  have v: "validateText ''event_id'' (ev_EventID e) 256 False = None"
    "validateText ''machine_id'' (ev_MachineID e) 256 False = None"
    "validateText ''source.adapter'' (src_Adapter (ev_Source e)) 128 False = None"
    and r: "0 \<le> ev_Timestamp e" "ev_Timestamp e \<le> now + nanos_per_day"
    "Accuracy_Valid (ev_TokenAccuracy e)" "\<not> contains_any (ev_Project e) [CHR ''/'', CHR 0x5C]"
    using assms(1) by (simp_all add: validateAt_def validateIdentifier_def ok_simps)
  have ne: "ev_EventID e \<noteq> []" "ev_MachineID e \<noteq> []" "src_Adapter (ev_Source e) \<noteq> []"
    using validateText_required[OF v(1)] validateText_required[OF v(2)] validateText_required[OF v(3)]
    by simp_all
  note id = validateText_None[OF v(1) ne(1)]
  show ?thesis
    using r ne id validateTokenTotals_iff[OF valid_event_nonneg[OF assms]]
      validateAt_totals(1)[OF assms(1)] valid_event_nonneg(1)[OF assms]
    by (auto simp: list_all_iff)
qed


subsection \<open>Identifiers: lemmas\<close>

definition event_id_like :: "gostr \<Rightarrow> bool" where
  "event_id_like v \<longleftrightarrow> (\<exists>h. length h = 32 \<and> v = ''sha256:'' @ hex_encode h)"

lemma hashes_event_id_like [simp]:
  "event_id_like (HashSessionID v)" "event_id_like (DeterministicID m a i off ts s)"
  by (auto simp: event_id_like_def HashSessionID_def DeterministicID_def intro!: exI)

lemma digit_char_range: "n < 16 \<Longrightarrow> 48 \<le> byte (digit_char n) \<and> byte (digit_char n) \<le> 102"
  by (cases "n < 10") (simp_all add: digit_char_byte)

lemma event_id_like_bytes:
  assumes "event_id_like v" "c \<in> set v"
  shows "48 \<le> byte c \<and> byte c \<le> 115"
proof -
  obtain h where v: "v = ''sha256:'' @ hex_encode h" using assms(1) by (auto simp: event_id_like_def)
  have "48 \<le> byte d \<and> byte d \<le> 115" if "d \<in> set (hex_encode h)" for d
    using hex_encode_chars[OF that] digit_char_range by fastforce
  moreover have "48 \<le> byte d \<and> byte d \<le> 115" if "d \<in> set ''sha256:''" for d
    using that by (auto simp: byte_def)
  ultimately show ?thesis using assms(2) v by auto
qed

lemma event_id_like_trim: "event_id_like v \<Longrightarrow> trim_space v = v"
  using event_id_like_bytes[of v] by (intro trim_space_fixed) (force simp: is_space_def)

lemma event_id_like_digest:
  assumes "event_id_like v"
  shows "has_prefix v ''sha256:''" "length v = 71" "list_all is_hex_char (trim_prefix v ''sha256:'')"
    "v \<noteq> []"
  using assms hex_encode_hex by (auto simp: event_id_like_def simp del: append.simps)

lemma event_id_like_safe:
  assumes "event_id_like v" shows "isSafeSessionID ulow v"
proof -
  have "\<not> contains_any v [CHR ''/'', CHR 0x5C, CHR 0x0D, CHR 0x0A, CHR 0x09, CHR '' '']"
  proof
    assume "contains_any v [CHR ''/'', CHR 0x5C, CHR 0x0D, CHR 0x0A, CHR 0x09, CHR '' '']"
    then obtain c where c: "c \<in> set v" "c \<in> {CHR ''/'', CHR 0x5C, CHR 0x0D, CHR 0x0A, CHR 0x09, CHR '' ''}"
      by (auto simp: contains_any_def list_ex_iff)
    moreover have "c \<noteq> CHR 0x5C"
    proof
      assume "c = CHR 0x5C"
      obtain h where v: "v = ''sha256:'' @ hex_encode h" using assms by (auto simp: event_id_like_def)
      have "CHR 0x5C \<in> set (hex_encode h)" using c(1) v \<open>c = CHR 0x5C\<close> by auto
      then obtain n where "n < 16" "CHR 0x5C = digit_char n" using hex_encode_chars by blast
      then have "byte (CHR 0x5C) = (if n < 10 then 48 + n else 87 + n)" using digit_char_byte by metis
      then show False using \<open>n < 16\<close> by (cases "n < 10") (simp_all add: byte_def)
    qed
    ultimately show False using event_id_like_bytes[OF assms c(1)] by (auto simp: byte_def)
  qed
  moreover have "\<not> 256 < rune_count v" using rune_count_le[of v] event_id_like_digest(2)[OF assms] by simp
  ultimately show ?thesis using event_id_like_digest[OF assms] by (simp add: isSafeSessionID_def)
qed

text \<open>C0: \<open>NormalizeSessionID\<close> is idempotent, and its result is empty or an identifier that
  \<open>isSafeSessionID\<close> accepts; a value that is not accepted is replaced by its digest.\<close>

theorem NormalizeSessionID_idempotent:
  "NormalizeSessionID ulow (NormalizeSessionID ulow v) = NormalizeSessionID ulow v
   \<and> (NormalizeSessionID ulow v = [] \<or> isSafeSessionID ulow (NormalizeSessionID ulow v))
   \<and> (NormalizeSessionID ulow v = trim_space v \<or> NormalizeSessionID ulow v = HashSessionID (trim_space v))"
proof -
  have h: "trim_space (HashSessionID w) = HashSessionID w" "HashSessionID w \<noteq> []"
    "isSafeSessionID ulow (HashSessionID w)" for w
    using event_id_like_trim event_id_like_digest(4) event_id_like_safe hashes_event_id_like(1) by blast+
  show ?thesis by (simp add: NormalizeSessionID_def Let_def h)
qed

lemma DeterministicID_digest_ok: "validateEventIDDigest (DeterministicID m a i off ts s) = None"
  using event_id_like_digest[OF hashes_event_id_like(2)[of m a i off ts s]]
  by (auto simp: validateEventIDDigest_def eventIDPrefix_def isHex_def ok_simps Let_def trim_prefix_def)

text \<open>The hashed text of an event ID determines the fields, because the separator is NUL.\<close>

lemma append_sep_inj:
  assumes "a @ c # b = a' @ c # b'" "c \<notin> set a" "c \<notin> set a'"
  shows "a = a' \<and> b = b'"
  using assms
proof (induction a arbitrary: a')
  case Nil
  then show ?case by (cases a') auto
next
  case (Cons x a)
  then show ?case by (cases a') auto
qed

lemma nat_str_inj: "nat_str m = nat_str n \<Longrightarrow> m = n"
proof (induction m arbitrary: n rule: nat_str.induct)
  case (1 m)
  have ne: "nat_str k \<noteq> []" for k by (subst nat_str.simps) simp
  have lt: "k mod 10 < 16" for k :: nat by (rule less_trans[of _ 10]) simp_all
  show ?case
  proof (cases "m < 10"; cases "n < 10")
    assume "m < 10" "n < 10"
    then show ?thesis using "1.prems" by (simp add: nat_str.simps[of m] nat_str.simps[of n] digit_char_inj)
  next
    assume "\<not> m < 10" "\<not> n < 10"
    then have "nat_str (m div 10) = nat_str (n div 10)" "digit_char (m mod 10) = digit_char (n mod 10)"
      using "1.prems" by (simp_all add: nat_str.simps[of m] nat_str.simps[of n])
    then have "m div 10 = n div 10" "m mod 10 = n mod 10"
      using "1.IH" \<open>\<not> m < 10\<close> lt digit_char_inj by blast+
    then show ?thesis by (metis div_mod_decomp)
  next
    assume a: "m < 10" "\<not> n < 10"
    then show ?thesis using "1.prems" ne[of "n div 10"] by (auto simp: nat_str.simps[of m] nat_str.simps[of n])
  next
    assume a: "\<not> m < 10" "n < 10"
    then show ?thesis using "1.prems" ne by (simp add: nat_str.simps[of m] nat_str.simps[of n])
  qed
qed

lemma nat_str_bytes: "c \<in> set (nat_str n) \<Longrightarrow> 48 \<le> byte c \<and> byte c \<le> 57"
proof (induction n rule: nat_str.induct)
  case (1 n)
  have d: "48 \<le> byte (digit_char k) \<and> byte (digit_char k) \<le> 57" if "k < 10" for k
    using digit_char_byte[of k] that by simp
  have m: "n mod 10 < 10" by simp
  show ?case using 1 d[of n] d[OF m] by (auto simp: nat_str.simps[of n] split: if_splits)
qed

lemma int_str_bytes: "c \<in> set (int_str i) \<Longrightarrow> 45 \<le> byte c \<and> byte c \<le> 57"
  using nat_str_bytes[of c "nat i"] nat_str_bytes[of c "nat (- i)"]
  by (auto simp: int_str_def byte_def split: if_splits)

lemma int_str_inj: "int_str i = int_str j \<Longrightarrow> i = j"
proof -
  assume e: "int_str i = int_str j"
  have m: "CHR ''-'' \<notin> set (nat_str n)" for n using nat_str_bytes[of "CHR ''-''" n] by (auto simp: byte_def)
  have m2: "CHR ''-'' # s \<noteq> nat_str n" for s n using m[of n] by (metis list.set_intros(1))
  show "i = j"
  proof (cases "i < 0"; cases "j < 0")
    assume a: "i < 0" "j < 0"
    then have "nat_str (nat (- i)) = nat_str (nat (- j))" using e by (simp add: int_str_def)
    then show ?thesis using a nat_str_inj[of "nat (- i)" "nat (- j)"] by simp
  next
    assume a: "\<not> i < 0" "\<not> j < 0"
    then have "nat_str (nat i) = nat_str (nat j)" using e by (simp add: int_str_def)
    then show ?thesis using a nat_str_inj[of "nat i" "nat j"] by simp
  next
    assume "i < 0" "\<not> j < 0"
    then show ?thesis using e m2 by (simp add: int_str_def)
  next
    assume "\<not> i < 0" "j < 0"
    then show ?thesis using e m2[of "nat_str (nat (- j))" "nat i"] by (simp add: int_str_def)
  qed
qed

abbreviation nul_free :: "gostr \<Rightarrow> bool" where "nul_free s \<equiv> char_of (0 :: nat) \<notin> set s"

lemma int_str_nul_free: "nul_free (int_str i)"
proof
  assume "char_of (0 :: nat) \<in> set (int_str i)"
  then show False using int_str_bytes[of "char_of (0 :: nat)" i] by (simp add: byte_def)
qed

text \<open>The text hashed into an event ID is injective in machine, adapter, source identity,
  offset, timestamp and session for NUL-free fields, so two different records get different
  IDs unless SHA-256 collides; and the ID passes the digest check of validation.\<close>

theorem DeterministicID_injective:
  assumes "nul_free m" "nul_free a" "nul_free si" "nul_free ts"
    and "nul_free m'" "nul_free a'" "nul_free si'" "nul_free ts'"
  shows "(deterministic_input m a si off ts sess = deterministic_input m' a' si' off' ts' sess'
       \<longleftrightarrow> (m, a, si, off, ts, sess) = (m', a', si', off', ts', sess'))
    \<and> (DeterministicID m a si off ts sess = DeterministicID m' a' si' off' ts' sess'
       \<longleftrightarrow> sha256_sum (deterministic_input m a si off ts sess)
         = sha256_sum (deterministic_input m' a' si' off' ts' sess'))
    \<and> validateEventIDDigest (DeterministicID m a si off ts sess) = None"
proof -
  have hash: "DeterministicID m a si off ts sess = DeterministicID m' a' si' off' ts' sess' \<longleftrightarrow>
    sha256_sum (deterministic_input m a si off ts sess) = sha256_sum (deterministic_input m' a' si' off' ts' sess')"
    by (auto simp: DeterministicID_def dest: hex_encode_inj)
  have "deterministic_input m a si off ts sess = deterministic_input m' a' si' off' ts' sess'
      \<longleftrightarrow> (m, a, si, off, ts, sess) = (m', a', si', off', ts', sess')"
    using assms int_str_nul_free[of off] int_str_nul_free[of off']
    by (auto simp: deterministic_input_def nul_def dest!: append_sep_inj dest: int_str_inj)
  then show ?thesis using hash DeterministicID_digest_ok by auto
qed

theorem DeterministicID_injective_witness:
  "DeterministicID ''m1'' ''codex'' ''s'' 3 ''t'' ''x'' = DeterministicID ''m1'' ''codex'' ''s'' 3 ''t'' ''x''
   \<and> deterministic_input ''m1'' ''codex'' ''s'' 3 ''t'' ''x'' \<noteq> deterministic_input ''m1'' ''codex'' ''s'' 4 ''t'' ''x''"
  using DeterministicID_injective[of "''m1''" "''codex''" "''s''" "''t''" "''m1''" "''codex''" "''s''" "''t''" 3 "''x''" 4 "''x''"]
  by (simp add: char_of_def)

lemma runes_Nil: "runes [] = []" by simp

lemmas str_eval = runes_ascii_Cons runes_Nil byte_def trim_space_def rune_list_def rune_count_def
  is_space_def is_control_def to_lower_def lower_rune_def encode_rune_def

lemma low6_ge: "160 \<le> byte d \<Longrightarrow> byte d \<le> 191 \<Longrightarrow> 32 \<le> low6 d"
  "144 \<le> byte d \<Longrightarrow> byte d \<le> 191 \<Longrightarrow> 16 \<le> low6 d"
proof -
  have e: "byte d mod 64 = byte d - 128" if "128 \<le> byte d" "byte d \<le> 191"
  proof -
    have "byte d mod 64 = (byte d - 128 + 2 * 64) mod 64" using that(1) by simp
    also have "\<dots> = (byte d - 128) mod 64" by (rule mod_mult_self1)
    finally show ?thesis using that(2) by simp
  qed
  show "160 \<le> byte d \<Longrightarrow> byte d \<le> 191 \<Longrightarrow> 32 \<le> low6 d"
    "144 \<le> byte d \<Longrightarrow> byte d \<le> 191 \<Longrightarrow> 16 \<le> low6 d"
    using e by (simp_all add: low6_def)
qed

lemma decode_rune_lead2: "194 \<le> byte c \<Longrightarrow> byte c < 224 \<Longrightarrow> 128 \<le> fst (decode_rune c rest)"
proof -
  assume a: "194 \<le> byte c" "byte c < 224"
  then have "2 \<le> byte c mod 32" by presburger
  then have "128 \<le> byte c mod 32 * 64 + x" for x by simp
  then show ?thesis using a by (simp add: decode_rune_def Let_def rune_error_def)
qed

lemma decode_rune_lead3: "224 \<le> byte c \<Longrightarrow> byte c < 240 \<Longrightarrow> 128 \<le> fst (decode_rune c rest)"
proof -
  assume a: "224 \<le> byte c" "byte c < 240"
  have "128 \<le> byte c mod 16 * 4096 + low6 d * 64 + x"
    if "cont_byte (if byte c = 224 then 160 else 128) (if byte c = 237 then 159 else 191) d" for d x
  proof (cases "byte c = 224")
    case True
    then have "32 \<le> low6 d" using that low6_ge(1)[of d] by (simp add: cont_byte_def)
    then show ?thesis by simp
  next
    case False
    then have "1 \<le> byte c mod 16" using a by presburger
    then show ?thesis by simp
  qed
  then show ?thesis using a by (simp add: decode_rune_def Let_def rune_error_def)
qed

lemma decode_rune_lead4: "240 \<le> byte c \<Longrightarrow> byte c < 245 \<Longrightarrow> 128 \<le> fst (decode_rune c rest)"
proof -
  assume a: "240 \<le> byte c" "byte c < 245"
  have "128 \<le> byte c mod 8 * 262144 + low6 d * 4096 + x"
    if "cont_byte (if byte c = 240 then 144 else 128) (if byte c = 244 then 143 else 191) d" for d x
  proof (cases "byte c = 240")
    case True
    then have "16 \<le> low6 d" using that low6_ge(2)[of d] by (simp add: cont_byte_def)
    then show ?thesis by simp
  next
    case False
    then have "1 \<le> byte c mod 8" using a by presburger
    then show ?thesis by simp
  qed
  then show ?thesis using a by (simp add: decode_rune_def Let_def rune_error_def add.assoc)
qed

lemma decode_rune_small:
  assumes "fst (decode_rune c rest) < 128"
  shows "byte c < 128 \<and> decode_rune c rest = (byte c, 1)"
proof -
  have "\<not> (194 \<le> byte c \<and> byte c < 245)"
    using assms decode_rune_lead2[of c rest] decode_rune_lead3[of c rest] decode_rune_lead4[of c rest]
    by linarith
  moreover have "byte c < 128" if "byte c < 194 \<or> 245 \<le> byte c"
    using assms that by (auto simp: decode_rune_def Let_def rune_error_def split: if_splits)
  ultimately show ?thesis by (auto simp: decode_rune_def Let_def)
qed

lemma runes_small: "(r, bs) \<in> set (runes s) \<Longrightarrow> r < 128 \<Longrightarrow> \<exists>c \<in> set s. byte c = r"
proof (induction s rule: runes.induct)
  case (2 c cs)
  obtain r' w where rw: "decode_rune c cs = (r', w)" by (cases "decode_rune c cs")
  then consider "r = r'" | "(r, bs) \<in> set (runes (drop w (c # cs)))" using 2 by auto
  then show ?case
  proof cases
    case 1
    then show ?thesis using decode_rune_small[of c cs] rw 2 by auto
  next
    case 2
    have "\<exists>d \<in> set (drop w (c # cs)). byte d = r"
      using "2.IH"[of "(r', w)" r' w] rw 2 "2.prems"(2) by auto
    then show ?thesis using set_drop_subset[of w "c # cs"] by blast
  qed
qed simp

lemma encode_rune_small: "c \<in> set (encode_rune r) \<Longrightarrow> byte c < 128 \<Longrightarrow> byte c = r"
  by (auto simp: encode_rune_def Let_def byte_def rune_error_def of_char_of split: if_splits)

lemma to_lower_byte:
  assumes "c \<in> set (to_lower ulow s)" "byte c < 128"
  shows "(\<exists>d \<in> set s. byte d < 128 \<and> (byte c = byte d \<or> (65 \<le> byte d \<and> byte d \<le> 90 \<and> byte c = byte d + 32)))
     \<or> (\<exists>r \<ge> 128. ulow r = byte c)"
proof -
  obtain r bs where r: "(r, bs) \<in> set (runes s)" "c \<in> set (encode_rune (lower_rune ulow r))"
    using assms(1) by (auto simp: to_lower_def)
  have b: "byte c = lower_rune ulow r" using encode_rune_small[OF r(2) assms(2)] .
  show ?thesis
  proof (cases "r < 128")
    case True
    then obtain d where d: "d \<in> set s" "byte d = r" using runes_small[OF r(1)] by blast
    have "byte c = byte d \<or> (65 \<le> byte d \<and> byte d \<le> 90 \<and> byte c = byte d + 32)"
      using b True d(2) by (simp add: lower_rune_def split: if_splits)
    then show ?thesis using True d by blast
  next
    case False
    then have "ulow r = byte c" "128 \<le> r" using b by (simp_all add: lower_rune_def)
    then show ?thesis by blast
  qed
qed

lemma set_trim_right_char: "set (trim_right_char d s) \<subseteq> set s"
  by (auto simp: trim_right_char_def dest: set_dropWhileD)

lemma byte_separators: "byte (CHR ''/'') = 47" "byte (CHR 0x5C) = 92"
  by (simp_all add: byte_def)

text \<open>A normalized project label never contains a path separator, whatever path it came from,
  provided the Unicode case table maps no non-ASCII rune to a separator.\<close>

theorem NormalizeProject_no_path:
  assumes "\<And>r. 128 \<le> r \<Longrightarrow> ulow r \<noteq> 47 \<and> ulow r \<noteq> 92"
  shows "\<not> contains_any (NormalizeProject ulow v) [CHR ''/'', CHR 0x5C]"
proof (cases "NormalizeProject ulow v = []")
  case True
  then show ?thesis by (simp add: contains_any_def)
next
  case False
  let ?w = "trim_right_char (CHR ''/'') (trim_space (replace_char (CHR 0x5C) (CHR ''/'') v))"
  let ?p = "last (split_on (CHR ''/'') ?w)"
  have eq: "NormalizeProject ulow v = to_lower ulow (trim_space ?p)"
    using False by (auto simp: NormalizeProject_def Let_def split: if_splits)
  have "CHR ''/'' \<notin> set ?p" using split_on_no_sep[of ?p "CHR ''/''" ?w] by simp
  moreover have "CHR 0x5C \<notin> set ?p"
    using split_on_subset[of ?p "CHR ''/''" ?w] set_trim_right_char trim_space_subset
      set_replace_char[of "CHR 0x5C" "CHR ''/''" v] by fastforce
  ultimately have d: "d \<noteq> CHR ''/'' \<and> d \<noteq> CHR 0x5C" if "d \<in> set (trim_space ?p)" for d
    using that trim_space_subset[of ?p] by blast
  then have db: "byte d \<noteq> 47 \<and> byte d \<noteq> 92" if "d \<in> set (trim_space ?p)" for d
    using that byte_inj[of d "CHR ''/''"] byte_inj[of d "CHR 0x5C"] by (auto simp: byte_def)
  have "byte c \<noteq> 47 \<and> byte c \<noteq> 92" if c: "c \<in> set (to_lower ulow (trim_space ?p))" for c
  proof (cases "byte c < 128")
    case True
    then show ?thesis using to_lower_byte[OF c True] db assms by fastforce
  qed simp
  then have "c \<noteq> CHR ''/'' \<and> c \<noteq> CHR 0x5C" if "c \<in> set (to_lower ulow (trim_space ?p))" for c
    using that byte_separators by metis
  then show ?thesis unfolding eq contains_any_def list_ex_iff by auto
qed

theorem NormalizeProject_no_path_witness:
  "NormalizeProject (\<lambda>r. r) ''/home/Me/Repo'' = ''repo''
   \<and> \<not> contains_any (NormalizeProject (\<lambda>r. r) ''/home/Me/Repo'') [CHR ''/'', CHR 0x5C]"
proof
  show "NormalizeProject (\<lambda>r. r) ''/home/Me/Repo'' = ''repo''"
    by (simp add: NormalizeProject_def trim_right_char_def replace_char_def contains_def Let_def str_eval char_of_def bit_0 del: runes.simps(2))
  show "\<not> contains_any (NormalizeProject (\<lambda>r. r) ''/home/Me/Repo'') [CHR ''/'', CHR 0x5C]"
    by (rule NormalizeProject_no_path) simp
qed

definition sample_event :: event where
  "sample_event = \<lparr>ev_SchemaVersion = ''1'', ev_EventID = ''e1'', ev_Timestamp = 5, ev_MachineID = ''m'',
    ev_SessionID = [], ev_Project = [], ev_Provider = ''openai'', ev_Model = ''gpt'', ev_CanonicalModel = [],
    ev_Tool = ''codex'', ev_InputTokens = Some 3, ev_OutputTokens = Some 4, ev_CacheReadTokens = Some 0,
    ev_CacheWriteTokens = Some 0, ev_ReasoningTokens = Some 0, ev_TotalTokens = Some 7, ev_DurationMS = None,
    ev_Cost = None, ev_CostEstimated = False, ev_Currency = ''USD'', ev_TokenAccuracy = ''reported'',
    ev_Source = \<lparr>src_Adapter = ''codex'', src_AdapterVersion = ''1'', src_Identity = ''s'', src_Offset = 1\<rparr>,
    ev_Metadata = None\<rparr>"

lemma sample_event_valid: "validateAt (\<lambda>r. r) (\<lambda>_. Some []) 10 sample_event = None"
  by (simp add: sample_event_def validateAt_def validateIdentifier_def validateText_def str_eval
      validateEventIDDigest_def eventIDPrefix_def event_schema_version_def zero_time_def nanos_per_day_def
      contains_any_def Accuracy_Valid_def AccuracyReported_def negative_field_def bad_currency_def
      validateTokenTotals_def token_components_def max_i64_def i64_sub_def i64_add_def wrap64_def isASCIIAlpha_def fail_if_def
      upper_ascii_def has_prefix_def del: runes.simps(2))

lemma sample_event_i64: "event_i64 sample_event"
  by (simp add: event_i64_def sample_event_def is_i64_def min_i64_def max_i64_def)

theorem validateAt_sound_witness:
  "ev_TotalTokens sample_event = Some 7 \<and> 0 \<le> ev_Timestamp sample_event \<and> ev_MachineID sample_event \<noteq> []"
  using validateAt_sound[OF sample_event_valid sample_event_i64] by (simp add: sample_event_def)

end
