(* ===== verification/Go_Time.thy ===== *)
theory Go_Time
  imports Usage_Event
begin

text \<open>
  What the program uses of package \<open>time\<close>: the calendar date and the clock of an instant in
  UTC, and the RFC 3339 texts the store writes and compares. Days are counted from
  1 January of year 1. A location is given by its offset from UTC at an instant.
\<close>

subsection \<open>The proleptic Gregorian calendar\<close>

definition is_leap :: "int \<Rightarrow> bool" where
  "is_leap y \<longleftrightarrow> y mod 4 = 0 \<and> (y mod 100 \<noteq> 0 \<or> y mod 400 = 0)"

text \<open>Days before 1 January of year \<open>y\<close>.\<close>

definition days_before_year :: "int \<Rightarrow> int" where
  "days_before_year y = (let p = y - 1 in 365 * p + p div 4 - p div 100 + p div 400)"

definition month_lengths :: "bool \<Rightarrow> int list" where
  "month_lengths leap = [31, if leap then 29 else 28, 31, 30, 31, 30, 31, 31, 30, 31, 30, 31]"

definition days_in_month :: "int \<Rightarrow> int \<Rightarrow> int" where
  "days_in_month y m = month_lengths (is_leap y) ! nat (m - 1)"

definition year_of_day :: "int \<Rightarrow> int" where
  "year_of_day d =
    (let c = d * 400 div 146097 + 1 in
     if d < days_before_year c then c - 1 else if d < days_before_year (c + 1) then c else c + 1)"

text \<open>The month and day of month of a day of the year counted from zero.\<close>

fun month_day :: "int \<Rightarrow> int list \<Rightarrow> int \<Rightarrow> int \<times> int" where
  "month_day m [] k = (m, k + 1)"
| "month_day m (l # ls) k = (if k < l \<or> ls = [] then (m, k + 1) else month_day (m + 1) ls (k - l))"

definition civil :: "int \<Rightarrow> int \<times> int \<times> int" where
  "civil d = (let y = year_of_day d in (y, month_day 1 (month_lengths (is_leap y)) (d - days_before_year y)))"

definition epoch_day :: int where "epoch_day = 719162"

definition day_of :: "int \<Rightarrow> int \<Rightarrow> int \<Rightarrow> int" where
  "day_of y m d = days_before_year y + sum_list (take (nat (m - 1)) (month_lengths (is_leap y))) + d - 1"

definition nanos_per_second :: int where "nanos_per_second = 1000000000"

text \<open>Seconds since midnight of 1 January of year 1, and the day and clock of an instant.\<close>

definition unix_seconds :: "instant \<Rightarrow> int" where "unix_seconds t = t div nanos_per_second"

definition instant_day :: "instant \<Rightarrow> int" where "instant_day t = unix_seconds t div 86400 + epoch_day"

definition instant_clock :: "instant \<Rightarrow> int" where "instant_clock t = unix_seconds t mod 86400"

definition instant_of_day :: "int \<Rightarrow> instant" where
  "instant_of_day d = (d - epoch_day) * 86400 * nanos_per_second"

text \<open>\<open>Weekday\<close>: Sunday is 0; 1 January of year 1 is a Monday.\<close>

definition weekday :: "int \<Rightarrow> int" where "weekday d = (d + 1) mod 7"

subsection \<open>Texts\<close>

fun fixed :: "nat \<Rightarrow> nat \<Rightarrow> gostr" where
  "fixed 0 n = []"
| "fixed (Suc k) n = fixed k (n div 10) @ [digit_char (n mod 10)]"

definition date_text :: "int \<times> int \<times> int \<Rightarrow> gostr" where
  "date_text c = (case c of (y, m, d) \<Rightarrow>
    fixed 4 (nat y) @ ''-'' @ fixed 2 (nat m) @ ''-'' @ fixed 2 (nat d))"

definition hms_text :: "int \<Rightarrow> int \<Rightarrow> int \<Rightarrow> gostr" where
  "hms_text h m s = fixed 2 (nat h) @ '':'' @ fixed 2 (nat m) @ '':'' @ fixed 2 (nat s)"

definition clock_text :: "int \<Rightarrow> gostr" where
  "clock_text s = hms_text (s div 3600) (s div 60 mod 60) (s mod 60)"

definition second_text :: "instant \<Rightarrow> gostr" where
  "second_text t = date_text (civil (instant_day t)) @ ''T'' @ clock_text (instant_clock t)"

text \<open>
  \<open>.999999999\<close>: the fraction of the second without its trailing zeros, and no point when
  nothing is left.
\<close>

definition fraction_text :: "int \<Rightarrow> gostr" where
  "fraction_text n =
    (let ds = trim_right_char (CHR ''0'') (fixed 9 (nat n)) in if ds = [] then [] else CHR ''.'' # ds)"

text \<open>
  \<open>t.UTC().Format(time.RFC3339)\<close> and \<open>t.UTC().Format(time.RFC3339Nano)\<close>, for the years 0 to 9999
  that these formats are made for.
\<close>

definition rfc3339 :: "instant \<Rightarrow> gostr" where "rfc3339 t = second_text t @ ''Z''"

definition rfc3339_nano :: "instant \<Rightarrow> gostr" where
  "rfc3339_nano t = second_text t @ fraction_text (t mod nanos_per_second) @ ''Z''"

subsection \<open>Dates without a time\<close>

definition is_digit :: "char \<Rightarrow> bool" where "is_digit c \<longleftrightarrow> 48 \<le> byte c \<and> byte c \<le> 57"

fun digits_value :: "int \<Rightarrow> gostr \<Rightarrow> int" where
  "digits_value acc [] = acc"
| "digits_value acc (c # cs) = digits_value (acc * 10 + int (byte c) - 48) cs"

text \<open>
  \<open>time.Parse("2006-01-02", s)\<close>: four, two and two digits and a day that exists.
\<close>

definition parse_date :: "gostr \<Rightarrow> (int \<times> int \<times> int) option" where
  "parse_date s =
    (if length s = 10 \<and> s ! 4 = CHR ''-'' \<and> s ! 7 = CHR ''-''
        \<and> list_all is_digit (take 4 s @ take 2 (drop 5 s) @ drop 8 s)
     then (let y = digits_value 0 (take 4 s); m = digits_value 0 (take 2 (drop 5 s)); d = digits_value 0 (drop 8 s) in
           if 1 \<le> m \<and> m \<le> 12 \<and> 1 \<le> d \<and> d \<le> days_in_month y m then Some (y, m, d) else None)
     else None)"

subsection \<open>The calendar is monotone\<close>

lemma days_before_year_step: "days_before_year (y + 1) = days_before_year y + (if is_leap y then 366 else 365)"
proof -
  have d: "y div n = (y - 1) div n + (if y mod n = 0 then 1 else 0)" if "0 < n" for n :: int
  proof -
    have "y div n = (y - 1 + 1) div n" by simp
    also have "\<dots> = (y - 1) div n + 1 div n + ((y - 1) mod n + 1 mod n) div n" by (rule div_add1_eq)
    finally have e: "y div n = (y - 1) div n + 1 div n + ((y - 1) mod n + 1 mod n) div n" .
    show ?thesis
    proof (cases "n = 1")
      case False
      then have n: "1 < n" using that by simp
      have m: "y mod n = ((y - 1) mod n + 1) mod n" by (simp add: mod_add_left_eq)
      have r: "0 \<le> (y - 1) mod n" "(y - 1) mod n < n" using that by simp_all
      show ?thesis
      proof (cases "(y - 1) mod n + 1 = n")
        case True
        then show ?thesis using e m n by simp
      next
        case False
        then have "(y - 1) mod n + 1 < n" using r by linarith
        then show ?thesis using e m n r by simp
      qed
    qed simp
  qed
  have u: "days_before_year (y + 1) = 365 * y + y div 4 - y div 100 + y div 400"
    by (simp add: days_before_year_def Let_def)
  have v: "days_before_year y = 365 * y - 365 + (y - 1) div 4 - (y - 1) div 100 + (y - 1) div 400"
    unfolding days_before_year_def Let_def by (simp only: right_diff_distrib mult_1_right)
  have m1: "y mod 4 = 0" if "y mod 100 = 0" using that dvd_trans[of 4 100 y] by (simp add: mod_eq_0_iff_dvd)
  have m2: "y mod 100 = 0" if "y mod 400 = 0" using that dvd_trans[of 100 400 y] by (simp add: mod_eq_0_iff_dvd)
  have d': "y div 4 = (y - 1) div 4 + (if y mod 4 = 0 then 1 else 0)"
    "y div 100 = (y - 1) div 100 + (if y mod 100 = 0 then 1 else 0)"
    "y div 400 = (y - 1) div 400 + (if y mod 400 = 0 then 1 else 0)" by (rule d, simp)+
  show ?thesis
    unfolding u v d' is_leap_def using m1 m2
    by (cases "y mod 4 = 0"; cases "y mod 100 = 0"; cases "y mod 400 = 0") simp_all
qed

lemma days_before_year_bounds:
  "146097 * (y - 1) - 699 \<le> 400 * days_before_year y" "400 * days_before_year y \<le> 146097 * (y - 1) + 396"
proof -
  obtain q r where q: "y - 1 = 4 * q + r" "0 \<le> r" "r < 4" "(y - 1) div 4 = q"
    by (metis mult_div_mod_eq pos_mod_bound pos_mod_sign zero_less_numeral)
  obtain q1 r1 where q1: "y - 1 = 100 * q1 + r1" "0 \<le> r1" "r1 < 100" "(y - 1) div 100 = q1"
    by (metis mult_div_mod_eq pos_mod_bound pos_mod_sign zero_less_numeral)
  obtain q2 r2 where q2: "y - 1 = 400 * q2 + r2" "0 \<le> r2" "r2 < 400" "(y - 1) div 400 = q2"
    by (metis mult_div_mod_eq pos_mod_bound pos_mod_sign zero_less_numeral)
  have e: "days_before_year y = 365 * (y - 1) + q - q1 + q2"
    unfolding days_before_year_def Let_def q(4) q1(4) q2(4) ..
  have m: "400 * q = 100 * (y - 1) - 100 * r" "400 * q1 = 4 * (y - 1) - 4 * r1" "400 * q2 = (y - 1) - r2"
    using q(1) q1(1) q2(1) by simp_all
  have f: "400 * days_before_year y = 146097 * (y - 1) - 100 * r + 4 * r1 - r2"
    unfolding e using m by (simp add: algebra_simps)
  show "146097 * (y - 1) - 699 \<le> 400 * days_before_year y"
    unfolding f using q(2,3) q1(2,3) q2(2,3) by simp
  show "400 * days_before_year y \<le> 146097 * (y - 1) + 396"
    unfolding f using q(2,3) q1(2,3) q2(2,3) by simp
qed

lemma days_before_year_mono: "y \<le> z \<Longrightarrow> days_before_year y + 365 * (z - y) \<le> days_before_year z"
proof (induction z rule: int_ge_induct)
  case (step i)
  then show ?case using days_before_year_step[of i] by (simp split: if_splits)
qed simp

lemma year_of_day_bounds:
  "days_before_year (year_of_day d) \<le> d" "d < days_before_year (year_of_day d + 1)"
proof -
  define c where "c = d * 400 div 146097 + 1"
  have dm: "146097 * (c - 1) + d * 400 mod 146097 = 400 * d" unfolding c_def by simp
  have "0 \<le> d * 400 mod 146097" "d * 400 mod 146097 < 146097" by simp_all
  then have c: "146097 * (c - 1) \<le> 400 * d" "400 * d < 146097 * c" using dm by simp_all
  have "400 * days_before_year (c - 1) \<le> 400 * d" using days_before_year_bounds(2)[of "c - 1"] c(1) by simp
  moreover have "400 * d < 400 * days_before_year (c + 2)" using days_before_year_bounds(1)[of "c + 2"] c(2) by simp
  ultimately show "days_before_year (year_of_day d) \<le> d" "d < days_before_year (year_of_day d + 1)"
    unfolding year_of_day_def c_def[symmetric] Let_def by (auto simp: add.assoc)
qed

lemma year_of_day_mono: "d \<le> e \<Longrightarrow> year_of_day d \<le> year_of_day e"
proof (rule ccontr)
  assume de: "d \<le> e" and "\<not> year_of_day d \<le> year_of_day e"
  then have "year_of_day e + 1 \<le> year_of_day d" by simp
  then have "0 \<le> 365 * (year_of_day d - (year_of_day e + 1))" by simp
  then have "days_before_year (year_of_day e + 1) \<le> days_before_year (year_of_day d)"
    using days_before_year_mono[OF \<open>year_of_day e + 1 \<le> year_of_day d\<close>] by simp
  then show False using year_of_day_bounds(1)[of d] year_of_day_bounds(2)[of e] de by linarith
qed


lemma month_day_fst: "m \<le> fst (month_day m ls k)"
  by (induction m ls k rule: month_day.induct) auto

lemma month_day_mono:
  "j < k \<Longrightarrow> fst (month_day m ls j) < fst (month_day m ls k)
    \<or> (fst (month_day m ls j) = fst (month_day m ls k) \<and> snd (month_day m ls j) < snd (month_day m ls k))"
proof (induction m ls j arbitrary: k rule: month_day.induct)
  case (2 m l ls j)
  have "m < fst (month_day (m + 1) ls (k - l))" 
    using month_day_fst[of "m + 1" ls "k - l"] by simp
  then show ?case using 2 by auto
qed simp

lemma month_day_range:
  assumes "0 \<le> k" "k < sum_list ls" "\<forall>l \<in> set ls. 0 < l \<and> l \<le> b"
  shows "fst (month_day m ls k) < m + int (length ls)" "1 \<le> snd (month_day m ls k)" "snd (month_day m ls k) \<le> b"
  using assms
proof (induction m ls k rule: month_day.induct)
  case (2 m l ls k)
  {
    case 1
    then show ?case using 2(1) by (auto simp: not_less)
  next
    case 2
    then show ?case using "2.IH"(2) by (auto simp: not_less)
  next
    case 3
    then show ?case using "2.IH"(3) by (auto simp: not_less)
  }
qed simp_all

lemma month_lengths_facts:
  "sum_list (month_lengths b) = (if b then 366 else 365)" "length (month_lengths b) = 12"
  "\<forall>l \<in> set (month_lengths b). 0 < l \<and> l \<le> 31"
  by (simp_all add: month_lengths_def)

lemma civil_range:
  assumes "civil d = (y, m, dd)"
  shows "y = year_of_day d" "1 \<le> m" "m \<le> 12" "1 \<le> dd" "dd \<le> 31"
proof -
  let ?ls = "month_lengths (is_leap (year_of_day d))" and ?k = "d - days_before_year (year_of_day d)"
  have k: "0 \<le> ?k" "?k < sum_list ?ls"
    using year_of_day_bounds[of d] days_before_year_step[of "year_of_day d"] by (auto simp: month_lengths_facts)
  have c: "y = year_of_day d" "month_day 1 ?ls ?k = (m, dd)" using assms by (auto simp: civil_def Let_def)
  from month_day_range[OF k month_lengths_facts(3), of 1] month_day_fst[of 1 ?ls ?k] c month_lengths_facts(2)
  show "y = year_of_day d" "1 \<le> m" "m \<le> 12" "1 \<le> dd" "dd \<le> 31" by auto
qed

lemma civil_mono:
  assumes "d < e" "civil d = (y, m, dd)" "civil e = (y', m', dd')"
  shows "y < y' \<or> (y = y' \<and> (m < m' \<or> (m = m' \<and> dd < dd')))"
proof (cases "year_of_day d = year_of_day e")
  case True
  then show ?thesis
    using month_day_mono[of "d - days_before_year (year_of_day e)" "e - days_before_year (year_of_day e)" 1
        "month_lengths (is_leap (year_of_day e))"] assms by (auto simp: civil_def Let_def)
next
  case False
  then show ?thesis using year_of_day_mono[of d e] assms by (auto simp: civil_def Let_def)
qed

subsection \<open>Texts order as instants do\<close>

lemma length_fixed [simp]: "length (fixed k n) = k"
  by (induction k n rule: fixed.induct) simp_all

lemma append_less: "length a = length b \<Longrightarrow> a < b \<Longrightarrow> a @ (c :: gostr) < b @ d"
  by (induction a b rule: list_induct2) auto

lemma append_less_same [simp]: "(a :: gostr) @ c < a @ d \<longleftrightarrow> c < d"
  by (induction a) auto

lemma char_less_byte: "a < b \<longleftrightarrow> byte a < byte b"
  by (simp add: byte_def less_char_def)

lemma fixed_less: "n < m \<Longrightarrow> m < 10 ^ k \<Longrightarrow> fixed k n < fixed k m"
proof (induction k arbitrary: n m)
  case (Suc k)
  show ?case
  proof (cases "n div 10 = m div 10")
    case True
    then have "n mod 10 < m mod 10" using Suc.prems(1) by (metis div_mult_mod_eq nat_add_left_cancel_less)
    then have "digit_char (n mod 10) < digit_char (m mod 10)"
      by (simp add: char_less_byte digit_char_byte)
    then show ?thesis using True by simp
  next
    case False
    then have "n div 10 < m div 10" using div_le_mono[of n m 10] Suc.prems(1) by simp
    moreover have "m div 10 < 10 ^ k" using Suc.prems(2) by (simp add: less_mult_imp_div_less mult.commute)
    ultimately have "fixed k (n div 10) < fixed k (m div 10)" using Suc.IH by blast
    then show ?thesis by (simp add: append_less)
  qed
qed simp

lemma fixed2_less: "0 \<le> a \<Longrightarrow> a < b \<Longrightarrow> b < 100 \<Longrightarrow> fixed 2 (nat a) < fixed 2 (nat b)"
  by (rule fixed_less) auto

lemma length_texts [simp]: "length (date_text c) = 10" "length (clock_text s) = 8" "length (second_text t) = 19"
  by (simp_all add: date_text_def clock_text_def hms_text_def second_text_def split: prod.splits)

lemma date_text_less:
  assumes "d < e" "0 \<le> year_of_day d" "year_of_day e \<le> 9999"
  shows "date_text (civil d) < date_text (civil e)"
proof -
  obtain y m dd y' m' dd' where c: "civil d = (y, m, dd)" "civil e = (y', m', dd')"
    by (metis prod_cases3)
  note r = civil_range[OF c(1)] civil_range[OF c(2)]
  consider "y < y'" | "y = y'" "m < m'" | "y = y'" "m = m'" "dd < dd'" using civil_mono[OF assms(1) c] by blast
  then show ?thesis
  proof cases
    case 1
    then have "fixed 4 (nat y) < fixed 4 (nat y')" using assms r by (intro fixed_less) auto
    then show ?thesis unfolding c date_text_def by (simp add: append_less)
  next
    case 2
    then have "fixed 2 (nat m) < fixed 2 (nat m')" using r by (intro fixed_less) auto
    then show ?thesis unfolding c date_text_def using 2 by (simp add: append_less)
  next
    case 3
    then have "fixed 2 (nat dd) < fixed 2 (nat dd')" using r by (intro fixed_less) auto
    then show ?thesis unfolding c date_text_def using 3 by simp
  qed
qed

lemma hms_text_less:
  assumes "0 \<le> h" "h' < 100" "0 \<le> m" "m < 60" "m' < 60" "0 \<le> s" "s < 60" "0 \<le> s'" "s' < 60"
    and "3600 * h + 60 * m + s < 3600 * h' + 60 * m' + s'" "0 \<le> m'"
  shows "hms_text h m s < hms_text h' m' s'"
proof -
  consider "h < h'" | "h = h'" "m < m'" | "h = h'" "m = m'" "s < s'" using assms by linarith
  then show ?thesis
  proof cases
    case 1
    then show ?thesis using fixed2_less[of h h'] assms by (simp add: hms_text_def append_less)
  next
    case 2
    then show ?thesis using fixed2_less[of m m'] assms by (simp add: hms_text_def append_less)
  next
    case 3
    then show ?thesis using fixed2_less[of s s'] assms by (simp add: hms_text_def)
  qed
qed

lemma hms_decompose: "3600 * (s div 3600) + 60 * (s div 60 mod 60) + s mod 60 = (s :: int)"
proof -
  have "s div 60 div 60 = s div (60 * 60)" by (rule zdiv_zmult2_eq[symmetric]) simp
  then have "s div 3600 = s div 60 div 60" by simp
  then have "60 * (60 * (s div 3600) + s div 60 mod 60) + s mod 60 = s"
    by (simp only: mult_div_mod_eq)
  then show ?thesis by (simp add: distrib_left mult.assoc[symmetric])
qed

lemma clock_text_less:
  assumes "a < b" "0 \<le> a" "b < 86400"
  shows "clock_text a < clock_text b"
  unfolding clock_text_def
proof (rule hms_text_less)
  show "0 \<le> a div 3600" using assms(2) by (simp only: pos_imp_zdiv_nonneg_iff)
  show "b div 3600 < 100" using zdiv_mono1[of b 86399 3600] assms(3) by simp
  show "3600 * (a div 3600) + 60 * (a div 60 mod 60) + a mod 60 < 3600 * (b div 3600) + 60 * (b div 60 mod 60) + b mod 60"
    using assms(1) by (simp only: hms_decompose)
qed (simp_all only: pos_mod_bound pos_mod_sign zero_less_numeral)

lemma div_eq_less_mod: "(a :: int) < b \<Longrightarrow> a div n = b div n \<Longrightarrow> a mod n < b mod n"
  by (metis add_less_cancel_left mult_div_mod_eq)

text \<open>The instants the formats are made for.\<close>

definition in_years :: "instant \<Rightarrow> bool" where
  "in_years t \<longleftrightarrow> 0 \<le> year_of_day (instant_day t) \<and> year_of_day (instant_day t) \<le> 9999"

lemma second_text_less:
  assumes "unix_seconds a < unix_seconds b" "in_years a" "in_years b"
  shows "second_text a < second_text b"
proof (cases "instant_day a = instant_day b")
  case True
  then have "instant_clock a < instant_clock b"
    using div_eq_less_mod[of "unix_seconds a" "unix_seconds b" 86400] assms(1)
    unfolding instant_day_def instant_clock_def by simp
  then have "clock_text (instant_clock a) < clock_text (instant_clock b)"
    by (rule clock_text_less) (simp_all add: instant_clock_def)
  then show ?thesis unfolding second_text_def True by simp
next
  case False
  then have "instant_day a < instant_day b"
    using zdiv_mono1[of "unix_seconds a" "unix_seconds b" 86400] assms(1) unfolding instant_day_def by simp
  then have "date_text (civil (instant_day a)) < date_text (civil (instant_day b))"
    using assms by (intro date_text_less) (auto simp: in_years_def)
  then show ?thesis unfolding second_text_def by (simp add: append_less)
qed


lemma fixed_zero: "set (fixed k n) \<subseteq> {CHR ''0''} \<Longrightarrow> n < 10 ^ k \<Longrightarrow> n = 0"
proof (induction k arbitrary: n)
  case (Suc k)
  have "digit_char (n mod 10) = CHR ''0''" using Suc.prems(1) by simp
  then have "byte (digit_char (n mod 10)) = 48" by (simp add: byte_def)
  then have "n mod 10 = 0" by (simp add: digit_char_byte)
  moreover have "n div 10 = 0"
    using Suc.IH[of "n div 10"] Suc.prems by (simp add: less_mult_imp_div_less mult.commute)
  ultimately show ?case by (metis div_mult_mod_eq mult_zero_left add_0)
qed simp

lemma fixed_of_zero: "set (fixed k 0) \<subseteq> {CHR ''0''}"
  by (induction k) (auto simp: digit_char_def char_of_def bit_0)

lemma trim_right_char_Nil: "trim_right_char c s = [] \<longleftrightarrow> set s \<subseteq> {c}"
  by (auto simp: trim_right_char_def dropWhile_eq_Nil_conv)

lemma fraction_text_cases:
  assumes "0 \<le> n" "n < nanos_per_second"
  shows "n = 0 \<Longrightarrow> fraction_text n = []" "n \<noteq> 0 \<Longrightarrow> \<exists>ds. fraction_text n = CHR ''.'' # ds"
proof -
  have "nat n < 10 ^ 9" using assms by (simp add: nanos_per_second_def)
  then have "trim_right_char (CHR ''0'') (fixed 9 (nat n)) = [] \<longleftrightarrow> n = 0"
    using fixed_zero[of 9 "nat n"] fixed_of_zero[of 9] assms unfolding trim_right_char_Nil nanos_per_second_def
    by (cases "n = 0") auto
  then show "n = 0 \<Longrightarrow> fraction_text n = []" "n \<noteq> 0 \<Longrightarrow> \<exists>ds. fraction_text n = CHR ''.'' # ds"
    unfolding fraction_text_def Let_def by auto
qed

lemma fraction_range: "0 \<le> t mod nanos_per_second" "t mod nanos_per_second < nanos_per_second"
  by (simp_all add: nanos_per_second_def)

lemma second_text_cong: "unix_seconds a = unix_seconds b \<Longrightarrow> second_text a = second_text b"
  by (simp add: second_text_def instant_day_def instant_clock_def)

text \<open>Texts of instants in different seconds order as the instants do.\<close>

lemma rfc3339_nano_less:
  assumes "unix_seconds a < unix_seconds b" "in_years a" "in_years b"
  shows "rfc3339_nano a < rfc3339_nano b" "rfc3339_nano a < rfc3339 b" "rfc3339 a < rfc3339_nano b"
    "rfc3339 a < rfc3339 b"
  using second_text_less[OF assms] unfolding rfc3339_nano_def rfc3339_def by (simp_all add: append_less)

text \<open>
  A stored text against a whole-second boundary: the point of a fraction sorts before the
  final \<open>Z\<close>, so the first second after the boundary sorts before it.
\<close>

lemma rfc3339_nano_boundary:
  assumes "in_years a" "in_years b"
  shows "rfc3339_nano a < rfc3339 b \<longleftrightarrow>
    unix_seconds a < unix_seconds b \<or> (unix_seconds a = unix_seconds b \<and> a mod nanos_per_second \<noteq> 0)"
proof (cases "unix_seconds a" "unix_seconds b" rule: linorder_cases)
  case less
  then show ?thesis using rfc3339_nano_less(2)[OF less assms] by simp
next
  case greater
  then have "rfc3339 b < rfc3339_nano a" using rfc3339_nano_less(3)[OF greater assms(2,1)] by simp
  then show ?thesis using greater by auto
next
  case equal
  then show ?thesis
    using fraction_text_cases[OF fraction_range[of a]]
    unfolding rfc3339_nano_def rfc3339_def second_text_cong[OF equal]
    by (cases "a mod nanos_per_second = 0") (auto simp: less_char_def)
qed

lemma unix_seconds_mono: "a \<le> b \<Longrightarrow> unix_seconds a \<le> unix_seconds b"
  unfolding unix_seconds_def nanos_per_second_def by (rule zdiv_mono1) simp_all

lemma in_years_mono: "in_years a \<Longrightarrow> in_years c \<Longrightarrow> a \<le> b \<Longrightarrow> b \<le> c \<Longrightarrow> in_years b"
  using year_of_day_mono[of "instant_day a" "instant_day b"] year_of_day_mono[of "instant_day b" "instant_day c"]
    zdiv_mono1[OF unix_seconds_mono[of a b], of 86400] zdiv_mono1[OF unix_seconds_mono[of b c], of 86400]
  unfolding in_years_def instant_day_def by simp

lemma second_text_inj:
  assumes "second_text a = second_text b" "in_years a" "in_years b"
  shows "unix_seconds a = unix_seconds b"
  using second_text_less[of a b] second_text_less[of b a] assms
  by (cases "unix_seconds a" "unix_seconds b" rule: linorder_cases) auto

end
