(* ===== verification/Go_Parse.thy ===== *)
theory Go_Parse
  imports Go_Time "HOL-Library.Monad_Syntax"
begin

text \<open>
  \<open>time.Parse(time.RFC3339Nano, s)\<close>: the grammar that the standard library accepts (a one-digit
  hour, a comma for the point, any number of fraction digits, offsets up to 24:60), and the
  proof that it reads back what \<open>rfc3339_nano\<close> writes.
\<close>

definition digit_val :: "char \<Rightarrow> int" where "digit_val c = int (byte c) - 48"

definition getnum :: "bool \<Rightarrow> gostr \<Rightarrow> (int \<times> gostr) option" where
  "getnum fixed_width s =
    (case s of [] \<Rightarrow> None
     | c # cs \<Rightarrow>
        if \<not> is_digit c then None
        else (case cs of
            d # ds \<Rightarrow> if is_digit d then Some (10 * digit_val c + digit_val d, ds)
                      else if fixed_width then None else Some (digit_val c, cs)
          | [] \<Rightarrow> if fixed_width then None else Some (digit_val c, [])))"

definition expect :: "char \<Rightarrow> gostr \<Rightarrow> gostr option" where
  "expect c s = (case s of [] \<Rightarrow> None | d # ds \<Rightarrow> if d = c then Some ds else None)"

definition get_year :: "gostr \<Rightarrow> (int \<times> gostr) option" where
  "get_year s =
    (if 4 \<le> length s \<and> list_all is_digit (take 4 s) then Some (digits_value 0 (take 4 s), drop 4 s) else None)"

definition check :: "bool \<Rightarrow> unit option" where "check b = (if b then Some () else None)"

text \<open>The nanoseconds of an optional fraction: the digits after the point, nine of them at most.\<close>

definition get_fraction :: "gostr \<Rightarrow> int \<times> gostr" where
  "get_fraction s =
    (case s of
       p # d # rest \<Rightarrow>
         if (p = CHR ''.'' \<or> p = CHR '','') \<and> is_digit d
         then (let ds = takeWhile is_digit (d # rest); used = take 9 ds
               in (digits_value 0 used * 10 ^ (9 - length used), dropWhile is_digit (d # rest)))
         else (0, s)
     | _ \<Rightarrow> (0, s))"

text \<open>The offset from UTC in seconds.\<close>

definition get_offset :: "gostr \<Rightarrow> (int \<times> gostr) option" where
  "get_offset s =
    (case s of [] \<Rightarrow> None
     | c # cs \<Rightarrow>
        if c = CHR ''Z'' then Some (0, cs)
        else do {
          check (6 \<le> length s \<and> s ! 3 = CHR '':'');
          (hr, _) \<leftarrow> getnum True (take 2 cs);
          (mm, _) \<leftarrow> getnum True (take 2 (drop 4 s));
          check (hr \<le> 24 \<and> mm \<le> 60);
          check (c = CHR ''+'' \<or> c = CHR ''-'');
          Some ((if c = CHR ''+'' then 1 else - 1) * (hr * 3600 + mm * 60), drop 6 s)
        })"

definition parse_rfc3339 :: "gostr \<Rightarrow> instant option" where
  "parse_rfc3339 s0 = do {
     (y, s) \<leftarrow> get_year s0;
     s \<leftarrow> expect (CHR ''-'') s;
     (m, s) \<leftarrow> getnum True s;
     check (1 \<le> m \<and> m \<le> 12);
     s \<leftarrow> expect (CHR ''-'') s;
     (d, s) \<leftarrow> getnum True s;
     s \<leftarrow> expect (CHR ''T'') s;
     (hh, s) \<leftarrow> getnum False s;
     check (hh < 24);
     s \<leftarrow> expect (CHR '':'') s;
     (mi, s) \<leftarrow> getnum True s;
     check (mi < 60);
     s \<leftarrow> expect (CHR '':'') s;
     (ss, s) \<leftarrow> getnum True s;
     check (ss < 60);
     let (nanos, s) = get_fraction s;
     (off, s) \<leftarrow> get_offset s;
     check (s = []);
     check (1 \<le> d \<and> d \<le> days_in_month y m);
     Some (((day_of y m d - epoch_day) * 86400 + hh * 3600 + mi * 60 + ss - off) * nanos_per_second + nanos)
   }"

subsection \<open>Reading back what was written\<close>

lemma digit_char_facts:
  assumes "n < 10"
  shows "is_digit (digit_char n)" "digit_val (digit_char n) = int n"
  using assms by (simp_all add: is_digit_def digit_val_def digit_char_byte)

lemma fixed_digits: "list_all is_digit (fixed k n)"
  by (induction k n rule: fixed.induct) (simp_all add: digit_char_facts)

lemma digits_value_append: "digits_value a (xs @ [c]) = digits_value a xs * 10 + digit_val c"
  by (induction a xs rule: digits_value.induct) (simp_all add: digit_val_def)

lemma digits_value_fixed: "n < 10 ^ k \<Longrightarrow> digits_value 0 (fixed k n) = int n"
proof (induction k arbitrary: n)
  case (Suc k)
  have "n div 10 < 10 ^ k" using Suc.prems by (simp add: less_mult_imp_div_less mult.commute)
  then have "digits_value 0 (fixed k (n div 10)) = int (n div 10)" by (rule Suc.IH)
  moreover have "int (n div 10) * 10 + int (n mod 10) = int n" by (metis div_mult_mod_eq of_nat_add of_nat_mult of_nat_numeral)
  ultimately show ?case by (simp add: digits_value_append digit_char_facts)
qed simp

lemma getnum_fixed2:
  assumes "0 \<le> n" "n < 100"
  shows "getnum w (fixed 2 (nat n) @ s) = Some (n, s)"
proof -
  have lt: "nat n div 10 < 10" using assms by (simp add: less_mult_imp_div_less)
  have f: "fixed 2 (nat n) = [digit_char (nat n div 10), digit_char (nat n mod 10)]"
    using lt by (simp add: numeral_2_eq_2)
  have "10 * int (nat n div 10) + int (nat n mod 10) = n"
    using assms(1) by (metis div_mult_mod_eq int_nat_eq mult.commute of_nat_add of_nat_mult of_nat_numeral)
  then show ?thesis unfolding f using lt by (simp add: getnum_def digit_char_facts)
qed

lemma get_year_fixed:
  assumes "0 \<le> y" "y \<le> 9999"
  shows "get_year (fixed 4 (nat y) @ s) = Some (y, s)"
  using assms fixed_digits[of 4 "nat y"] digits_value_fixed[of "nat y" 4] by (simp add: get_year_def)

lemma month_day_inverse:
  assumes "0 \<le> k" "k < sum_list ls" "\<forall>l \<in> set ls. 0 < l" "month_day m ls k = (mo, dd)"
  shows "sum_list (take (nat (mo - m)) ls) + dd - 1 = k \<and> dd \<le> ls ! nat (mo - m)"
  using assms
proof (induction m ls k rule: month_day.induct)
  case (2 m l ls k)
  show ?case
  proof (cases "k < l \<or> ls = []")
    case True
    then show ?thesis using 2 by auto
  next
    case False
    then have md: "month_day (m + 1) ls (k - l) = (mo, dd)" "0 \<le> k - l" "k - l < sum_list ls" using 2 by auto
    have IH: "sum_list (take (nat (mo - (m + 1))) ls) + dd - 1 = k - l \<and> dd \<le> ls ! nat (mo - (m + 1))"
      by (rule "2.IH"[OF False md(2,3) _ md(1)]) (use "2.prems"(3) in auto)
    have "m + 1 \<le> mo" using month_day_fst[of "m + 1" ls "k - l"] md(1) by simp
    then have "nat (mo - m) = Suc (nat (mo - (m + 1)))" by simp
    then show ?thesis using IH by simp
  qed
qed simp

lemma civil_inverse:
  assumes "civil d = (y, m, dd)"
  shows "day_of y m dd = d" "dd \<le> days_in_month y m"
proof -
  let ?ls = "month_lengths (is_leap (year_of_day d))" and ?k = "d - days_before_year (year_of_day d)"
  have k: "0 \<le> ?k" "?k < sum_list ?ls"
    using year_of_day_bounds[of d] days_before_year_step[of "year_of_day d"] by (auto simp: month_lengths_facts)
  have c: "y = year_of_day d" "month_day 1 ?ls ?k = (m, dd)" using assms by (auto simp: civil_def Let_def)
  have "\<forall>l \<in> set ?ls. 0 < l" using month_lengths_facts(3) by blast
  from month_day_inverse[OF k this c(2)] show "day_of y m dd = d" "dd \<le> days_in_month y m"
    by (simp_all add: day_of_def days_in_month_def c(1))
qed

lemma get_offset_Z: "get_offset ''Z'' = Some (0, [])"
  by (simp add: get_offset_def)

text \<open>The digits that are left when the trailing zeros of nine digits are trimmed.\<close>

lemma digits_value_zeros: "digits_value a (xs @ replicate k (CHR ''0'')) = digits_value a xs * 10 ^ k"
proof (induction k arbitrary: xs)
  case (Suc k)
  have "xs @ replicate (Suc k) (CHR ''0'') = (xs @ [CHR ''0'']) @ replicate k (CHR ''0'')" by simp
  then have "digits_value a (xs @ replicate (Suc k) (CHR ''0'')) = digits_value a (xs @ [CHR ''0'']) * 10 ^ k"
    using Suc by metis
  then show ?case by (simp add: digits_value_append digit_val_def byte_def)
qed simp

lemma trim_right_char_split: "\<exists>k. s = trim_right_char c s @ replicate k c"
proof -
  have "rev s = takeWhile (\<lambda>x. x = c) (rev s) @ dropWhile (\<lambda>x. x = c) (rev s)" by simp
  then have "s = rev (dropWhile (\<lambda>x. x = c) (rev s)) @ rev (takeWhile (\<lambda>x. x = c) (rev s))"
    by (metis rev_append rev_rev_ident)
  moreover have "takeWhile (\<lambda>x. x = c) (rev s) = replicate (length (takeWhile (\<lambda>x. x = c) (rev s))) c"
    by (rule replicate_length_same[symmetric]) (auto dest: set_takeWhileD)
  ultimately show ?thesis unfolding trim_right_char_def by (metis rev_replicate)
qed

lemma get_fraction_text:
  assumes "0 \<le> n" "n < nanos_per_second"
  shows "get_fraction (fraction_text n @ ''Z'') = (n, ''Z'')"
proof -
  define ds where "ds = trim_right_char (CHR ''0'') (fixed 9 (nat n))"
  obtain k where k: "fixed 9 (nat n) = ds @ replicate k (CHR ''0'')"
    unfolding ds_def using trim_right_char_split by blast
  have len: "length ds + k = 9" using arg_cong[OF k, of length] by simp
  have dig: "list_all is_digit ds" using fixed_digits[of 9 "nat n"] unfolding k by simp
  have "nat n < 10 ^ 9" using assms by (simp add: nanos_per_second_def)
  then have val: "digits_value 0 ds * 10 ^ k = n"
    using digits_value_fixed[of "nat n" 9] assms(1) unfolding k digits_value_zeros by simp
  show ?thesis
  proof (cases ds)
    case Nil
    then have "n = 0" using val by simp
    then show ?thesis using fraction_text_cases(1)[OF assms] by (simp add: get_fraction_def)
  next
    case (Cons d rest)
    have f: "fraction_text n = CHR ''.'' # ds" unfolding fraction_text_def ds_def[symmetric] using Cons by simp
    have z: "\<not> is_digit (CHR ''Z'')" by (simp add: is_digit_def byte_def)
    have tw: "takeWhile is_digit (ds @ ''Z'') = ds" "dropWhile is_digit (ds @ ''Z'') = ''Z''"
      using dig z by (auto simp: takeWhile_append2 dropWhile_append2 list_all_iff)
    have "9 - length ds = k" "take 9 ds = ds" using len by simp_all
    then show ?thesis using dig tw val Cons unfolding f by (simp add: get_fraction_def Let_def)
  qed
qed


lemma expect_Cons [simp]: "expect c (c # s) = Some s"
  by (simp add: expect_def)

lemma check_True [simp]: "check True = Some ()"
  by (simp add: check_def)

lemma clock_range:
  "0 \<le> instant_clock t div 3600" "instant_clock t div 3600 < 24"
  "0 \<le> instant_clock t div 60 mod 60" "instant_clock t div 60 mod 60 < 60"
  "0 \<le> instant_clock t mod 60" "instant_clock t mod 60 < 60"
proof -
  have r: "0 \<le> instant_clock t" "instant_clock t \<le> 86399"
    using pos_mod_bound[of 86400 "unix_seconds t"] by (simp_all add: instant_clock_def)
  show "0 \<le> instant_clock t div 3600" using r(1) by (simp only: pos_imp_zdiv_nonneg_iff)
  show "instant_clock t div 3600 < 24" using zdiv_mono1[OF r(2), of 3600] by simp
qed (simp_all only: pos_mod_bound pos_mod_sign zero_less_numeral)

lemma instant_parts:
  "((instant_day t - epoch_day) * 86400 + instant_clock t) * nanos_per_second + t mod nanos_per_second = t"
proof -
  have "(instant_day t - epoch_day) * 86400 + instant_clock t = unix_seconds t"
    by (simp add: instant_day_def instant_clock_def)
  then show ?thesis by (simp add: unix_seconds_def)
qed

text \<open>The reader applied to a second, a fraction and the zone letter.\<close>

lemma parse_second_text:
  assumes "in_years t" "get_fraction rest = (nanos, ''Z'')"
  shows "parse_rfc3339 (second_text t @ rest)
    = Some (((instant_day t - epoch_day) * 86400 + instant_clock t) * nanos_per_second + nanos)"
proof -
  let ?c = "instant_clock t"
  obtain y m dd where c: "civil (instant_day t) = (y, m, dd)" by (metis prod_cases3)
  note r = civil_range[OF c] and inv = civil_inverse[OF c]
  have yr: "0 \<le> y" "y \<le> 9999" using assms(1) r(1) by (simp_all add: in_years_def)
  have md: "0 \<le> m" "m < 100" "0 \<le> dd" "dd < 100" using r by simp_all
  have ck: "0 \<le> ?c div 3600" "?c div 3600 < 100" "0 \<le> ?c div 60 mod 60" "?c div 60 mod 60 < 100"
    "0 \<le> ?c mod 60" "?c mod 60 < 100"
    using clock_range[of t] by linarith+
  have t: "second_text t @ rest = fixed 4 (nat y) @ CHR ''-'' # fixed 2 (nat m) @ CHR ''-'' # fixed 2 (nat dd) @ CHR ''T''
      # fixed 2 (nat (?c div 3600)) @ CHR '':'' # fixed 2 (nat (?c div 60 mod 60)) @ CHR '':'' # fixed 2 (nat (?c mod 60)) @ rest"
    by (simp add: second_text_def date_text_def clock_text_def hms_text_def c)
  have hms: "?c div 3600 * 3600 + ?c div 60 mod 60 * 60 + ?c mod 60 = ?c"
    using hms_decompose[of ?c] by (simp only: mult.commute)
  show ?thesis
    unfolding t parse_rfc3339_def
    using r(2-5) inv clock_range(2,4,6)[of t] assms(2) hms
    by (simp add: get_year_fixed[OF yr] getnum_fixed2[OF md(1,2)] getnum_fixed2[OF md(3,4)] getnum_fixed2[OF ck(1,2)]
        getnum_fixed2[OF ck(3,4)] getnum_fixed2[OF ck(5,6)] get_offset_Z add.assoc)
qed

lemma parse_rfc3339_nano: "in_years t \<Longrightarrow> parse_rfc3339 (rfc3339_nano t) = Some t"
  unfolding rfc3339_nano_def
  by (simp only: parse_second_text[OF _ get_fraction_text[OF fraction_range]] instant_parts)

lemma parse_rfc3339_second:
  assumes "in_years t" "t mod nanos_per_second = 0"
  shows "parse_rfc3339 (rfc3339 t) = Some t"
proof -
  have "get_fraction ''Z'' = (t mod nanos_per_second, ''Z'')" unfolding assms(2) by (simp add: get_fraction_def)
  from parse_second_text[OF assms(1) this] show ?thesis unfolding rfc3339_def instant_parts .
qed

lemma in_years_sample: "in_years 1700000000500000000"
proof -
  have "instant_day 1700000000500000000 = 738837"
    by (simp add: instant_day_def unix_seconds_def nanos_per_second_def epoch_day_def)
  moreover have "year_of_day 738837 = 2023"
    by (simp add: year_of_day_def days_before_year_def Let_def)
  ultimately show ?thesis by (simp add: in_years_def)
qed

end
