(* ===== verification/Adapters_Core.thy ===== *)
theory Adapters_Core
  imports Go_Parse
begin

text \<open>
  Package \<open>internal/adapters\<close>: bounded record reading, source identities and cursors, the collection
  pass over all adapters (\<open>adapter.go\<close>), the snapshot and directory caches (\<open>cache.go\<close>) and the
  timestamp units of local tools (\<open>sqlite.go\<close>). A provider adapter, the file system and its walk
  are parameters. A Go error is the list of sentinels that \<open>errors.Is\<close> finds in it.
\<close>

datatype sentinel = NotExist | Permission | DeadlineExceeded | Canceled

type_synonym go_err = "sentinel list"

record source_info =
  so_Path :: gostr
  so_Identity :: gostr

record cursor =
  cu_Identity :: gostr
  cu_Offset :: i64
  cu_Line :: i64
  cu_State :: gostr

definition no_cursor :: cursor where
  "no_cursor = \<lparr>cu_Identity = [], cu_Offset = 0, cu_Line = 0, cu_State = []\<rparr>"

record parse_result =
  ps_Events :: "event list"
  ps_Cursor :: cursor

definition HashIdentity :: "gostr \<Rightarrow> gostr" where
  "HashIdentity value = ''sha256:'' @ hex_encode (sha256_sum value)"

definition SourceKey :: "gostr \<Rightarrow> gostr \<Rightarrow> gostr" where
  "SourceKey adapter path = adapter @ nul @ path"

subsection \<open>Reading one record\<close>

definition newline :: char where "newline = CHR 0x0A"

datatype read_status = ReadOK | BufferFull | ReadEOF

text \<open>
  \<open>bufio.Reader.ReadSlice\<close> with a buffer of \<open>n\<close> bytes: the bytes up to the newline, a full buffer,
  or what is left before the end. The second component is the rest of the input.
\<close>

definition read_slice :: "nat \<Rightarrow> gostr \<Rightarrow> gostr \<times> gostr \<times> read_status" where
  "read_slice n s =
    (let line = takeWhile (\<lambda>c. c \<noteq> newline) s in
     if length line < n \<and> length line < length s
     then (line @ [newline], drop (Suc (length line)) s, ReadOK)
     else if n \<le> length s then (take n s, drop n s, BufferFull)
     else (s, [], ReadEOF))"

datatype read_result = RecordTooLong | Record gostr bool

text \<open>
  \<open>ReadRecordLimit\<close>: the record and whether the input ended, with the unread input; the record
  read so far is checked against the limit after every slice. The buffer has at least one byte.
\<close>

function read_record_from :: "nat \<Rightarrow> nat \<Rightarrow> gostr \<Rightarrow> gostr \<Rightarrow> read_result \<times> gostr" where
  "read_record_from n limit record s =
    (case read_slice (Suc n) s of (chunk, rest, status) \<Rightarrow>
      (let record' = record @ chunk in
       if limit < length record' then (RecordTooLong, rest)
       else (case status of
           BufferFull \<Rightarrow> read_record_from n limit record' rest
         | ReadOK \<Rightarrow> (Record record' False, rest)
         | ReadEOF \<Rightarrow> (Record record' True, rest))))"
  by pat_completeness auto

termination
  by (relation "measure (\<lambda>(n, limit, record, s). length s)")
    (auto simp: read_slice_def Let_def split: if_splits)

declare read_record_from.simps [simp del]

definition ReadRecordLimit :: "nat \<Rightarrow> nat \<Rightarrow> gostr \<Rightarrow> read_result \<times> gostr" where
  "ReadRecordLimit n limit s = read_record_from n limit [] s"

definition ReadRecord :: "nat \<Rightarrow> gostr \<Rightarrow> read_result \<times> gostr" where
  "ReadRecord n s = ReadRecordLimit n 1048576 s"

text \<open>The reference: the line with its newline, or the rest of the input.\<close>

definition line_of :: "gostr \<Rightarrow> gostr \<times> gostr \<times> bool" where
  "line_of s = (let line = takeWhile (\<lambda>c. c \<noteq> newline) s in
    if length line < length s then (line @ [newline], drop (Suc (length line)) s, False) else (s, [], True))"

subsection \<open>Collection\<close>

text \<open>An adapter: its ID, what it discovers and how it parses a source from a cursor.\<close>

record adapter =
  ad_ID :: gostr
  ad_Discover :: "go_err + source_info list"
  ad_Parse :: "source_info \<Rightarrow> gostr \<Rightarrow> cursor \<Rightarrow> go_err + parse_result"

record source_report =
  rp_Adapter :: gostr
  rp_Path :: gostr
  rp_Source :: source_info
  rp_Events :: nat
  rp_Cursor :: cursor
  rp_Err :: "go_err option"

definition collect_source ::
  "gostr \<Rightarrow> (gostr \<times> cursor) list \<Rightarrow> adapter \<Rightarrow> source_info \<Rightarrow> event list \<times> source_report" where
  "collect_source machineID cursors a src =
    (let cursor = (case map_of cursors (SourceKey (ad_ID a) (so_Path src)) of None \<Rightarrow> no_cursor | Some c \<Rightarrow> c);
         report = \<lparr>rp_Adapter = ad_ID a, rp_Path = so_Path src, rp_Source = src, rp_Events = 0,
                   rp_Cursor = no_cursor, rp_Err = None\<rparr>
     in case ad_Parse a src machineID cursor of
          Inl err \<Rightarrow> ([], report\<lparr>rp_Err := Some err\<rparr>)
        | Inr parsed \<Rightarrow> (ps_Events parsed,
            report\<lparr>rp_Events := length (ps_Events parsed), rp_Cursor := ps_Cursor parsed\<rparr>))"

definition discover_failed :: "gostr \<Rightarrow> go_err \<Rightarrow> source_report" where
  "discover_failed i err = \<lparr>rp_Adapter = i, rp_Path = [], rp_Source = \<lparr>so_Path = [], so_Identity = []\<rparr>,
    rp_Events = 0, rp_Cursor = no_cursor, rp_Err = Some err\<rparr>"

text \<open>The two nested loops; \<open>events\<close> and \<open>reports\<close> are the slices appended to.\<close>

fun collect_sources ::
  "gostr \<Rightarrow> (gostr \<times> cursor) list \<Rightarrow> adapter \<Rightarrow> event list \<times> source_report list \<Rightarrow> source_info list
    \<Rightarrow> event list \<times> source_report list" where
  "collect_sources machineID cursors a (events, reports) [] = (events, reports)"
| "collect_sources machineID cursors a (events, reports) (src # srcs) =
    (case collect_source machineID cursors a src of (new, report) \<Rightarrow>
       collect_sources machineID cursors a (events @ new, reports @ [report]) srcs)"

fun collect_adapters ::
  "gostr \<Rightarrow> (gostr \<times> cursor) list \<Rightarrow> event list \<times> source_report list \<Rightarrow> adapter list
    \<Rightarrow> event list \<times> source_report list" where
  "collect_adapters machineID cursors acc [] = acc"
| "collect_adapters machineID cursors (events, reports) (a # as) =
    (case ad_Discover a of
       Inl err \<Rightarrow> collect_adapters machineID cursors (events, reports @ [discover_failed (ad_ID a) err]) as
     | Inr srcs \<Rightarrow> collect_adapters machineID cursors (collect_sources machineID cursors a (events, reports) srcs) as)"

definition CollectWithCursors ::
  "adapter list \<Rightarrow> gostr \<Rightarrow> (gostr \<times> cursor) list \<Rightarrow> event list \<times> source_report list" where
  "CollectWithCursors as machineID cursors = collect_adapters machineID cursors ([], []) as"

definition Collect :: "adapter list \<Rightarrow> gostr \<Rightarrow> event list \<times> source_report list" where
  "Collect as machineID = CollectWithCursors as machineID []"

subsection \<open>The snapshot cache\<close>

record file_signature =
  fs_Size :: i64
  fs_ModTime :: i64
  fs_SidecarSize :: i64
  fs_SidecarTime :: i64
  fs_Sidecar :: bool

record snapshot_entry =
  sn_signature :: file_signature
  sn_identity :: gostr
  sn_request :: cursor
  sn_result :: cursor
  sn_err :: "go_err option"

text \<open>\<open>Signature\<close>: \<open>stat\<close> gives the size and modification time of a path or its error.\<close>

definition Signature :: "(gostr \<Rightarrow> go_err + i64 \<times> i64) \<Rightarrow> gostr \<Rightarrow> go_err + file_signature" where
  "Signature stat path =
    (case stat path of Inl e \<Rightarrow> Inl e
     | Inr (sz, mtime) \<Rightarrow>
        (let s = \<lparr>fs_Size = sz, fs_ModTime = mtime, fs_SidecarSize = 0, fs_SidecarTime = 0, fs_Sidecar = False\<rparr> in
         case stat (path @ ''-wal'') of
           Inr (wsize, wtime) \<Rightarrow> Inr (s\<lparr>fs_Sidecar := True, fs_SidecarSize := wsize, fs_SidecarTime := wtime\<rparr>)
         | Inl e \<Rightarrow> if NotExist \<in> set e then Inr s else Inl e))"

type_synonym snapshot_cache = "(gostr \<times> snapshot_entry) list"

text \<open>A hit: the cached error, or a result with the cursor and no events.\<close>

definition snapshot_Lookup ::
  "snapshot_cache \<Rightarrow> gostr \<Rightarrow> file_signature \<Rightarrow> gostr \<Rightarrow> cursor \<Rightarrow> (go_err + parse_result) option" where
  "snapshot_Lookup c path signature identity request =
    (case map_of c path of None \<Rightarrow> None
     | Some entry \<Rightarrow>
        if sn_signature entry \<noteq> signature \<or> sn_identity entry \<noteq> identity then None
        else (case sn_err entry of
            Some err \<Rightarrow> if sn_request entry \<noteq> request then None else Some (Inl err)
          | None \<Rightarrow> if sn_result entry \<noteq> request then None
                    else Some (Inr \<lparr>ps_Events = [], ps_Cursor = sn_result entry\<rparr>)))"

definition snapshot_Store ::
  "snapshot_cache \<Rightarrow> gostr \<Rightarrow> file_signature \<Rightarrow> gostr \<Rightarrow> cursor \<Rightarrow> parse_result \<Rightarrow> go_err option \<Rightarrow> snapshot_cache" where
  "snapshot_Store c path signature identity request result err =
    (if (case err of None \<Rightarrow> False | Some e \<Rightarrow> Canceled \<in> set e \<or> DeadlineExceeded \<in> set e) then c
     else upsert path \<lparr>sn_signature = signature, sn_identity = identity, sn_request = request,
                       sn_result = ps_Cursor result, sn_err = err\<rparr> c)"

definition snapshot_Prune :: "snapshot_cache \<Rightarrow> gostr list \<Rightarrow> snapshot_cache" where
  "snapshot_Prune c seen = filter (\<lambda>(path, entry). path \<in> set seen) c"

subsection \<open>The directory cache\<close>

text \<open>
  What \<open>filepath.WalkDir\<close> reports in order: a directory with its signature, a regular file, another
  entry, an entry whose information is gone, or a failure, with \<open>root_missing\<close> for a missing root.
\<close>

datatype walk_entry = WalkDir gostr "i64 \<times> i64" | WalkFile gostr | WalkOther gostr | WalkGone gostr | WalkFail go_err

fun walk_paths ::
  "(gostr \<Rightarrow> bool) \<Rightarrow> gostr list \<times> (gostr \<times> i64 \<times> i64) list \<Rightarrow> walk_entry list
    \<Rightarrow> go_err option \<times> gostr list \<times> (gostr \<times> i64 \<times> i64) list" where
  "walk_paths wanted (paths, dirs) [] = (None, paths, dirs)"
| "walk_paths wanted (paths, dirs) (WalkFail e # rest) =
    (if NotExist \<in> set e then walk_paths wanted (paths, dirs) rest else (Some e, paths, dirs))"
| "walk_paths wanted (paths, dirs) (WalkGone p # rest) = walk_paths wanted (paths, dirs) rest"
| "walk_paths wanted (paths, dirs) (WalkOther p # rest) = walk_paths wanted (paths, dirs) rest"
| "walk_paths wanted (paths, dirs) (WalkDir p s # rest) = walk_paths wanted (paths, upsert p s dirs) rest"
| "walk_paths wanted (paths, dirs) (WalkFile p # rest) =
    walk_paths wanted (if wanted p then paths @ [p] else paths, dirs) rest"

record directory_entry =
  de_paths :: "gostr list"
  de_directories :: "(gostr \<times> i64 \<times> i64) list"

fun directoriesUnchanged ::
  "(gostr \<Rightarrow> go_err + i64 \<times> i64) \<Rightarrow> (gostr \<times> i64 \<times> i64) list \<Rightarrow> go_err + bool" where
  "directoriesUnchanged stat [] = Inr True"
| "directoriesUnchanged stat ((path, expected) # rest) =
    (case stat path of
       Inl e \<Rightarrow> if NotExist \<in> set e then Inr False else Inl e
     | Inr actual \<Rightarrow> if actual \<noteq> expected then Inr False else directoriesUnchanged stat rest)"

text \<open>
  \<open>Paths\<close>: \<open>has_ext\<close> is the case-insensitive extension test, \<open>walk\<close> what a walk of the root reports
  now; the context is taken not to be cancelled.
\<close>

definition directory_Paths ::
  "(gostr \<Rightarrow> go_err + i64 \<times> i64) \<Rightarrow> (gostr \<Rightarrow> walk_entry list) \<Rightarrow> (gostr \<Rightarrow> gostr \<Rightarrow> bool) \<Rightarrow> (gostr \<Rightarrow> gostr)
    \<Rightarrow> (gostr \<times> directory_entry) list \<Rightarrow> gostr \<Rightarrow> gostr
    \<Rightarrow> (go_err + gostr list) \<times> (gostr \<times> directory_entry) list" where
  "directory_Paths stat walk has_ext lower c base extension =
    (let key = base @ nul @ lower extension;
         fresh = (case walk_paths (\<lambda>p. has_ext p extension) ([], []) (walk base) of (err, paths, dirs) \<Rightarrow>
           (case err of
              Some e \<Rightarrow> if NotExist \<in> set e
                        then (if dirs = [] then (Inr (sort paths), c)
                              else (Inr (sort paths), upsert key \<lparr>de_paths = sort paths, de_directories = dirs\<rparr> c))
                        else (Inl e, c)
            | None \<Rightarrow> if dirs = [] then (Inr (sort paths), c)
                      else (Inr (sort paths), upsert key \<lparr>de_paths = sort paths, de_directories = dirs\<rparr> c)))
     in case map_of c key of
          None \<Rightarrow> fresh
        | Some cached \<Rightarrow>
            (case directoriesUnchanged stat (de_directories cached) of
               Inl e \<Rightarrow> (Inl e, c)
             | Inr unchanged \<Rightarrow> if unchanged then (Inr (de_paths cached), c) else fresh))"

subsection \<open>Timestamps of local tools\<close>

text \<open>\<open>UnixTime\<close>, as nanoseconds since the epoch; the product is a 64-bit one.\<close>

definition UnixTime :: "i64 \<Rightarrow> instant" where
  "UnixTime v =
    (if 1000000000000000000 \<le> v then v
     else if 1000000000000000 \<le> v then i64_mul v 1000
     else if 1000000000000 \<le> v then v * 1000000
     else v * 1000000000)"

definition epochMilliseconds :: "i64 \<Rightarrow> i64" where
  "epochMilliseconds v =
    (if 1000000000000000000 \<le> v then go_div v 1000000
     else if 1000000000000000 \<le> v then go_div v 1000
     else if 1000000000000 \<le> v then v
     else i64_mul v 1000)"

definition DurationMS :: "i64 \<Rightarrow> i64 \<Rightarrow> i64 option" where
  "DurationMS start finish =
    (if finish \<le> start then None
     else (let duration = i64_sub (epochMilliseconds finish) (epochMilliseconds start) in
           if duration < 0 then None else Some duration))"

subsection \<open>Records: lemmas\<close>

lemma takeWhile_append_len:
  "length (takeWhile P s) < n \<or> length s \<le> n \<Longrightarrow> takeWhile P (take n s) = takeWhile P s"
proof (induction s arbitrary: n)
  case (Cons c s)
  then show ?case by (cases n) auto
qed simp

lemma read_record_from_spec:
  "case line_of s of (line, rest, eof) \<Rightarrow>
     if length (acc @ line) \<le> limit then read_record_from n limit acc s = (Record (acc @ line) eof, rest)
     else fst (read_record_from n limit acc s) = RecordTooLong"
proof (induction n limit acc s rule: read_record_from.induct)
  case (1 n limit acc s)
  let ?line = "takeWhile (\<lambda>c. c \<noteq> newline) s"
  have len: "length ?line \<le> length s" by (rule length_takeWhile_le)
  consider (ok) "length ?line < Suc n" "length ?line < length s"
    | (full) "\<not> (length ?line < Suc n \<and> length ?line < length s)" "Suc n \<le> length s"
    | (eof) "\<not> (length ?line < Suc n \<and> length ?line < length s)" "length s < Suc n" by linarith
  then show ?case
  proof cases
    case ok
    then show ?thesis by (subst (1 2) read_record_from.simps) (auto simp: read_slice_def line_of_def Let_def)
  next
    case full
    let ?n = "Suc n"
    have no: "?n \<le> length ?line" using full len by (cases "length ?line < length s") auto
    obtain k where k: "length ?line = Suc k" using no by (cases "length ?line") auto
    have tk: "take ?n s = take ?n ?line" using no by (metis takeWhile_eq_take min.absorb1 take_take)
    have dr: "takeWhile (\<lambda>c. c \<noteq> newline) (drop ?n s) = drop ?n ?line"
    proof -
      have "s = ?line @ dropWhile (\<lambda>c. c \<noteq> newline) s" by simp
      then have "drop ?n s = drop ?n ?line @ dropWhile (\<lambda>c. c \<noteq> newline) s" using no by (metis drop_append diff_is_0_eq drop_0)
      moreover have "takeWhile (\<lambda>c. c \<noteq> newline) (drop ?n ?line @ dropWhile (\<lambda>c. c \<noteq> newline) s)
        = drop ?n ?line @ takeWhile (\<lambda>c. c \<noteq> newline) (dropWhile (\<lambda>c. c \<noteq> newline) s)"
        by (rule takeWhile_append2) (auto dest: in_set_dropD set_takeWhileD)
      moreover have "takeWhile P (dropWhile P s) = []" for P by (induction s) auto
      ultimately show ?thesis by simp
    qed
    obtain line rest eof where l: "line_of s = (line, rest, eof)" by (cases "line_of s")
    have l': "line_of (drop ?n s) = (drop ?n line, rest, eof)" "take ?n line = take ?n s" "?n \<le> length line"
      using l no full tk k by (auto simp: line_of_def Let_def dr split: if_splits)
    have split: "line = take ?n s @ drop ?n line" using l'(2) append_take_drop_id[of ?n line] by simp
    have slice: "read_slice ?n s = (take ?n s, drop ?n s, BufferFull)" using full by (auto simp: read_slice_def Let_def)
    have unf: "read_record_from n limit acc s = (if limit < length (acc @ take ?n s) then (RecordTooLong, drop ?n s)
        else read_record_from n limit (acc @ take ?n s) (drop ?n s))"
      by (subst read_record_from.simps) (simp add: slice Let_def)
    show ?thesis
    proof (cases "limit < length (acc @ take ?n s)")
      case True
      have "length (take ?n s) \<le> length line" using split by (metis length_append le_add1)
      then show ?thesis using True l unf by auto
    next
      case False
      have IH: "case line_of (drop ?n s) of (line, rest, eof) \<Rightarrow>
          if length ((acc @ take ?n s) @ line) \<le> limit
          then read_record_from n limit (acc @ take ?n s) (drop ?n s) = (Record ((acc @ take ?n s) @ line) eof, rest)
          else fst (read_record_from n limit (acc @ take ?n s) (drop ?n s)) = RecordTooLong"
        by (rule "1.IH"[OF slice[symmetric] refl refl _ refl]) (use False in simp)
      have e: "(acc @ take ?n s) @ drop ?n line = acc @ line" using split by simp
      show ?thesis using IH False unfolding l l'(1) prod.case e unf by simp
    qed
  next
    case eof
    have ll: "length ?line = length s" using eof len by linarith
    then show ?thesis using eof by (subst (1 2) read_record_from.simps) (auto simp: read_slice_def line_of_def Let_def)
  qed
qed

text \<open>Reading a record terminates and does not depend on the buffer: with any buffer size it
  returns the next line with its newline, or the rest of the input with the end-of-input flag,
  and refuses exactly the records longer than the limit.\<close>

theorem ReadRecordLimit_line:
  "fst (ReadRecordLimit n limit s) =
     (case line_of s of (line, rest, eof) \<Rightarrow> if length line \<le> limit then Record line eof else RecordTooLong)
   \<and> (case line_of s of (line, rest, eof) \<Rightarrow>
       line @ rest = s \<and> (if length line \<le> limit then snd (ReadRecordLimit n limit s) = rest else True))"
proof -
  obtain line rest eof where l: "line_of s = (line, rest, eof)" by (cases "line_of s")
  have "line @ rest = s"
  proof (cases "length (takeWhile (\<lambda>c. c \<noteq> newline) s) < length s")
    case True
    let ?line = "takeWhile (\<lambda>c. c \<noteq> newline) s"
    have "s ! length ?line = newline" using nth_length_takeWhile[OF True] by simp
    then have "drop (length ?line) s = newline # drop (Suc (length ?line)) s"
      using True by (metis Cons_nth_drop_Suc)
    moreover have "s = ?line @ drop (length ?line) s" by (metis append_take_drop_id takeWhile_eq_take)
    ultimately show ?thesis using l True by (auto simp: line_of_def Let_def)
  next
    case False
    then show ?thesis using l by (auto simp: line_of_def Let_def)
  qed
  moreover have "if length line \<le> limit then read_record_from n limit [] s = (Record line eof, rest)
      else fst (read_record_from n limit [] s) = RecordTooLong"
    using read_record_from_spec[where acc = "[]" and n = n and limit = limit and s = s] l by simp
  ultimately show ?thesis using l unfolding ReadRecordLimit_def by (simp split: if_splits)
qed


subsection \<open>Collection: lemmas\<close>

lemma collect_sources_append:
  "collect_sources m cs a (es, rs) srcs
    = (es @ concat (map (fst \<circ> collect_source m cs a) srcs), rs @ map (snd \<circ> collect_source m cs a) srcs)"
  by (induction srcs arbitrary: es rs) (auto split: prod.splits)

text \<open>What one adapter contributes, by itself.\<close>

definition adapter_pass :: "gostr \<Rightarrow> (gostr \<times> cursor) list \<Rightarrow> adapter \<Rightarrow> event list \<times> source_report list" where
  "adapter_pass m cs a = (case ad_Discover a of Inl err \<Rightarrow> ([], [discover_failed (ad_ID a) err])
    | Inr srcs \<Rightarrow> (concat (map (fst \<circ> collect_source m cs a) srcs), map (snd \<circ> collect_source m cs a) srcs))"

lemma collect_adapters_append:
  "collect_adapters m cs (es, rs) as
    = (es @ concat (map (fst \<circ> adapter_pass m cs) as), rs @ concat (map (snd \<circ> adapter_pass m cs) as))"
  by (induction as arbitrary: es rs) (auto simp: adapter_pass_def collect_sources_append split: sum.splits)

text \<open>One broken source does not hide the others: a collection pass yields exactly the events of
  every source that parses, in order, each parsed from its own committed cursor, and one report
  per source and per failed discovery; the pass over a list of adapters is that of its parts.\<close>

theorem CollectWithCursors_isolates:
  "CollectWithCursors as m cs
     = (concat (map (fst \<circ> adapter_pass m cs) as), concat (map (snd \<circ> adapter_pass m cs) as))
   \<and> fst (CollectWithCursors (as @ bs) m cs) = fst (CollectWithCursors as m cs) @ fst (CollectWithCursors bs m cs)
   \<and> list_all (\<lambda>a. case ad_Discover a of
        Inl err \<Rightarrow> adapter_pass m cs a = ([], [discover_failed (ad_ID a) err])
      | Inr srcs \<Rightarrow> length (snd (adapter_pass m cs a)) = length srcs
          \<and> fst (adapter_pass m cs a) = concat (map (\<lambda>src.
               case ad_Parse a src m (case map_of cs (SourceKey (ad_ID a) (so_Path src)) of None \<Rightarrow> no_cursor | Some c \<Rightarrow> c) of
                 Inl err \<Rightarrow> [] | Inr r \<Rightarrow> ps_Events r) srcs)) as"
proof -
  have c: "(fst \<circ> collect_source m cs a) = (\<lambda>src.
      case ad_Parse a src m (case map_of cs (SourceKey (ad_ID a) (so_Path src)) of None \<Rightarrow> no_cursor | Some c \<Rightarrow> c) of
        Inl err \<Rightarrow> [] | Inr r \<Rightarrow> ps_Events r)" for a
    by (rule ext) (simp add: collect_source_def Let_def split: sum.splits)
  show ?thesis
    by (auto simp: CollectWithCursors_def collect_adapters_append list_all_iff adapter_pass_def c split: sum.splits)
qed

subsection \<open>The snapshot cache: lemmas\<close>

text \<open>The snapshot cache answers only for what it saw: right after a parse outcome is stored it is
  returned for the same signature, identity and cursor (a success as its cursor without events, a
  failure as its error) and for no other signature or identity; a cancelled parse is never
  cached; and pruning leaves entries of seen sources only.\<close>

theorem snapshot_cache_faithful:
  "snapshot_Lookup (snapshot_Store c path sig ident req res None) path sig' ident' req'
     = (if sig' = sig \<and> ident' = ident \<and> req' = ps_Cursor res
        then Some (Inr \<lparr>ps_Events = [], ps_Cursor = ps_Cursor res\<rparr>) else None)
   \<and> snapshot_Lookup (snapshot_Store c path sig ident req res (Some err)) path sig' ident' req'
     = (if Canceled \<in> set err \<or> DeadlineExceeded \<in> set err then snapshot_Lookup c path sig' ident' req'
        else if sig' = sig \<and> ident' = ident \<and> req' = req then Some (Inl err) else None)
   \<and> fst ` set (snapshot_Prune c seen) \<subseteq> set seen
   \<and> map_of (snapshot_Prune c seen) p = (if p \<in> set seen then map_of c p else None)"
proof -
  have "map_of (filter (\<lambda>(path, entry). path \<in> set seen) c) p = (if p \<in> set seen then map_of c p else None)"
    by (induction c) auto
  then show ?thesis by (auto simp: snapshot_Lookup_def snapshot_Store_def snapshot_Prune_def)
qed

subsection \<open>Timestamps: lemmas\<close>

lemma go_div_pos: "0 \<le> a \<Longrightarrow> 0 < b \<Longrightarrow> go_div a b = a div b"
  by (rule go_div_nonneg)

lemma i64_mul_exact: "is_i64 (a * b) \<Longrightarrow> i64_mul a b = a * b"
  by (simp add: i64_mul_def wrap64_id)

text \<open>The two readings of a local timestamp agree: for a non-negative timestamp that is not in the
  range where the product wraps, the milliseconds are those of the instant; a duration is never
  negative, and none is reported unless the end lies after the start.\<close>

theorem UnixTime_epochMilliseconds:
  "(if 0 \<le> v \<and> (v \<le> 9223372036854775 \<or> 1000000000000000000 \<le> v)
    then UnixTime v div 1000000 = epochMilliseconds v \<and> 0 \<le> UnixTime v else True)
   \<and> (case DurationMS s e of None \<Rightarrow> True | Some d \<Rightarrow> 0 \<le> d \<and> s < e)"
proof -
  have u: "UnixTime v div 1000000 = epochMilliseconds v \<and> 0 \<le> UnixTime v"
    if v: "0 \<le> v" "v \<le> 9223372036854775 \<or> 1000000000000000000 \<le> v"
  proof -
    consider "1000000000000000000 \<le> v" | "1000000000000000 \<le> v" "v \<le> 9223372036854775"
      | "1000000000000 \<le> v" "v < 1000000000000000" | "v < 1000000000000" using v by linarith
    then show ?thesis
    proof cases
      case 1
      then show ?thesis by (simp add: UnixTime_def epochMilliseconds_def go_div_pos)
    next
      case 2
      then have "i64_mul v 1000 = v * 1000" by (intro i64_mul_exact) (simp add: is_i64_def min_i64_def max_i64_def)
      moreover have "v * 1000 div 1000000 = v div 1000" using div_mult_mult2[of 1000 v 1000] by simp
      ultimately show ?thesis using 2 v(1) by (simp add: UnixTime_def epochMilliseconds_def go_div_pos)
    next
      case 3
      then show ?thesis by (simp add: UnixTime_def epochMilliseconds_def)
    next
      case 4
      then have "i64_mul v 1000 = v * 1000" using v(1) by (intro i64_mul_exact) (simp add: is_i64_def min_i64_def max_i64_def)
      moreover have "v * 1000000000 div 1000000 = v * 1000" using nonzero_mult_div_cancel_right[of 1000000 "v * 1000"] by simp
      ultimately show ?thesis using 4 v(1) by (simp add: UnixTime_def epochMilliseconds_def)
    qed
  qed
  have d: "case DurationMS s e of None \<Rightarrow> True | Some d \<Rightarrow> 0 \<le> d \<and> s < e"
    by (auto simp: DurationMS_def Let_def)
  show ?thesis using u d by (simp split: if_splits)
qed

end
