(* ===== verification/Usage_Privacy.thy ===== *)
theory Usage_Privacy
  imports Usage_Event
begin

text \<open>
  Package \<open>internal/usage\<close>, file \<open>privacy.go\<close>: what may leave the machine. The JSON decoder is a
  parameter: the outcome of the two \<open>Decode\<close> calls on a record and of \<open>json.Unmarshal\<close> into an
  event. A Go map is the list of its entries in iteration order; errors that Go names after
  whichever entry comes first carry no name.
\<close>

definition metadataNamespace :: gostr where "metadataNamespace = ''tokemon_''"

definition allowedEventFields :: "gostr list" where
  "allowedEventFields =
    [''schema_version'', ''event_id'', ''timestamp'', ''machine_id'',
     ''session_id'', ''project'', ''provider'', ''model'',
     ''canonical_model'', ''tool'', ''input_tokens'', ''output_tokens'',
     ''cache_read_tokens'', ''cache_write_tokens'', ''reasoning_tokens'',
     ''total_tokens'', ''duration_ms'', ''cost'', ''cost_estimated'',
     ''currency'', ''token_accuracy'', ''source'', ''metadata'']"

definition allowedSourceFields :: "gostr list" where
  "allowedSourceFields = [''adapter'', ''adapter_version'', ''identity'', ''offset'']"

datatype privacy_error = NotJSON | NotOneObject | TrailingData | FieldNotApproved gostr | SourceNotObject
  | SourceFieldNotApproved gostr | NotAnEvent
  | ProjectNotBasename | IdentityIsPath | ResemblesPathOrCredential | SessionNotOpaque
  | MetadataKeyNotApproved gostr | MetadataValueSensitive gostr | NestedKeyNotApproved gostr
  | MetadataValueUnsupported gostr

subsection \<open>Strict decoding\<close>

text \<open>What follows the first value of a record: nothing, another value, or malformed bytes.\<close>

datatype trailing = AtEOF | AnotherValue | Malformed

definition DecodeOutboundEvent ::
  "(nat \<Rightarrow> nat) \<Rightarrow> (gostr \<Rightarrow> ((gostr \<times> json) list \<times> trailing) option) \<Rightarrow> (gostr \<Rightarrow> event option)
    \<Rightarrow> gostr \<Rightarrow> privacy_error + event" where
  "DecodeOutboundEvent ulow decode unmarshal data =
    (case decode data of None \<Rightarrow> Inl NotJSON
     | Some (entries, rest) \<Rightarrow>
        (case rest of AnotherValue \<Rightarrow> Inl NotOneObject | Malformed \<Rightarrow> Inl TrailingData
         | AtEOF \<Rightarrow>
            (case List.find (\<lambda>k. to_lower ulow (trim_space k) \<notin> set allowedEventFields) (keys_of entries) of
               Some k \<Rightarrow> Inl (FieldNotApproved k)
             | None \<Rightarrow>
                (case (case List.find (\<lambda>(k, v). to_lower ulow (trim_space k) = ''source'') entries of
                         None \<Rightarrow> None
                       | Some (k, JObj sourceFields) \<Rightarrow>
                           map_option SourceFieldNotApproved
                             (List.find (\<lambda>k. to_lower ulow (trim_space k) \<notin> set allowedSourceFields) (keys_of sourceFields))
                       | Some (k, JNull) \<Rightarrow> None
                       | Some (k, v) \<Rightarrow> Some SourceNotObject) of
                   Some err \<Rightarrow> Inl err
                 | None \<Rightarrow> (case unmarshal data of None \<Rightarrow> Inl NotAnEvent | Some e \<Rightarrow> Inr e)))))"

subsection \<open>Outbound values\<close>

definition path_chars :: gostr where "path_chars = [CHR ''/'', CHR 0x5C]"

definition looks_secret :: "gostr \<Rightarrow> bool" where
  "looks_secret v \<longleftrightarrow> contains v ''Bearer '' \<or> contains v ''sk-'' \<or> contains v ''ghp_''"

definition identifierContainsSensitiveValue :: "gostr \<Rightarrow> bool" where
  "identifierContainsSensitiveValue value =
    (if value = [] then False
     else if contains_any value [CHR 0x0D, CHR 0x0A] \<or> looks_secret value then True
     else if has_prefix value ''/'' \<or> has_prefix value [CHR 0x5C, CHR 0x5C] then True
     else 3 \<le> length value \<and> value ! 1 = CHR '':'' \<and> (value ! 2 = CHR ''/'' \<or> value ! 2 = CHR 0x5C))"

definition private_key_words :: "gostr list" where
  "private_key_words =
    [''prompt'', ''response'', ''content'', ''source'', ''path'', ''title'', ''secret'', ''credential'', ''token'',
     ''repository'', ''repo'', ''code'', ''message'', ''conversation'', ''command'', ''cwd'', ''url'']"

definition approvedMetadataKey :: "(nat \<Rightarrow> nat) \<Rightarrow> gostr \<Rightarrow> bool" where
  "approvedMetadataKey ulow key0 =
    (let key = trim_space key0; lower = to_lower ulow key in
     if key = [] \<or> \<not> has_prefix lower metadataNamespace then False
     else if list_ex (\<lambda>r. is_control r \<or> is_space r) (rune_list key) then False
     else if list_ex (contains lower) private_key_words then False
     else rune_count key \<le> 128 \<and> length metadataNamespace < length key)"

definition private_value_words :: "gostr list" where
  "private_value_words =
    [''prompt'', ''response'', ''source'', ''path'', ''title'', ''secret'', ''credential'', ''repository'', ''repo'',
     ''code'', ''message'', ''conversation'', ''command'', ''cwd'', ''http:'', ''https:'']"

definition sensitive_text :: "(nat \<Rightarrow> nat) \<Rightarrow> gostr \<Rightarrow> bool" where
  "sensitive_text ulow s \<longleftrightarrow>
    contains_any s [CHR 0x0D, CHR 0x0A, CHR ''/'', CHR 0x5C] \<or> looks_secret s
    \<or> list_ex (contains (to_lower ulow s)) private_value_words"

fun validateMetadataValue :: "(nat \<Rightarrow> nat) \<Rightarrow> gostr \<Rightarrow> json \<Rightarrow> privacy_error goerror"
and validateMetadataValues :: "(nat \<Rightarrow> nat) \<Rightarrow> gostr \<Rightarrow> json list \<Rightarrow> privacy_error goerror"
and validateMetadataChildren :: "(nat \<Rightarrow> nat) \<Rightarrow> gostr \<Rightarrow> (gostr \<times> json) list \<Rightarrow> privacy_error goerror" where
  "validateMetadataValue ulow key (JStr s) = fail_if (sensitive_text ulow s) (MetadataValueSensitive key)"
| "validateMetadataValue ulow key (JArr items) = validateMetadataValues ulow key items"
| "validateMetadataValue ulow key (JObj entries) = validateMetadataChildren ulow key entries"
| "validateMetadataValue ulow key JOther = Some (MetadataValueUnsupported key)"
| "validateMetadataValue ulow key JNull = None"
| "validateMetadataValue ulow key (JBool b) = None"
| "validateMetadataValue ulow key (JNum x) = None"
| "validateMetadataValue ulow key (JInt n) = None"
| "validateMetadataValues ulow key [] = None"
| "validateMetadataValues ulow key (child # rest) =
    (case validateMetadataValue ulow key child of Some e \<Rightarrow> Some e | None \<Rightarrow> validateMetadataValues ulow key rest)"
| "validateMetadataChildren ulow key [] = None"
| "validateMetadataChildren ulow key ((childKey, child) # rest) =
    (let k = key @ ''.'' @ childKey in
     if \<not> approvedMetadataKey ulow k then Some (NestedKeyNotApproved childKey)
     else (case validateMetadataValue ulow k child of Some e \<Rightarrow> Some e
           | None \<Rightarrow> validateMetadataChildren ulow key rest))"

fun filterEntries ::
  "(nat \<Rightarrow> nat) \<Rightarrow> (gostr \<times> json) list \<Rightarrow> (gostr \<times> json) list \<Rightarrow> privacy_error + (gostr \<times> json) list" where
  "filterEntries ulow filtered [] = Inr filtered"
| "filterEntries ulow filtered ((key, value) # rest) =
    (if \<not> approvedMetadataKey ulow key then Inl (MetadataKeyNotApproved key)
     else (case validateMetadataValue ulow key value of Some e \<Rightarrow> Inl e
           | None \<Rightarrow> filterEntries ulow (upsert key value filtered) rest))"

definition FilterApprovedMetadata ::
  "(nat \<Rightarrow> nat) \<Rightarrow> (gostr \<times> json) list option \<Rightarrow> privacy_error + (gostr \<times> json) list option" where
  "FilterApprovedMetadata ulow m =
    (case m of None \<Rightarrow> Inr None
     | Some entries \<Rightarrow> (case filterEntries ulow [] entries of Inl e \<Rightarrow> Inl e | Inr f \<Rightarrow> Inr (Some f)))"

definition validateApprovedMetadata :: "(nat \<Rightarrow> nat) \<Rightarrow> (gostr \<times> json) list option \<Rightarrow> privacy_error goerror" where
  "validateApprovedMetadata ulow m = (case FilterApprovedMetadata ulow m of Inl e \<Rightarrow> Some e | Inr f \<Rightarrow> None)"

definition outbound_identifiers :: "event \<Rightarrow> gostr list" where
  "outbound_identifiers e =
    [ev_EventID e, ev_MachineID e, ev_SessionID e, ev_Provider e, ev_Model e, ev_CanonicalModel e, ev_Tool e,
     src_Identity (ev_Source e), src_Adapter (ev_Source e), src_AdapterVersion (ev_Source e)]"

definition ValidateOutbound :: "(nat \<Rightarrow> nat) \<Rightarrow> event \<Rightarrow> privacy_error goerror" where
  "ValidateOutbound ulow e = first_error
    [fail_if (contains_any (ev_Project e) path_chars) ProjectNotBasename,
     fail_if (contains_any (src_Identity (ev_Source e)) path_chars) IdentityIsPath,
     fail_if (list_ex identifierContainsSensitiveValue (outbound_identifiers e)) ResemblesPathOrCredential,
     fail_if (ev_SessionID e \<noteq> [] \<and> NormalizeSessionID ulow (ev_SessionID e) \<noteq> ev_SessionID e) SessionNotOpaque,
     validateApprovedMetadata ulow (ev_Metadata e)]"

fun validateBatchFrom :: "(nat \<Rightarrow> nat) \<Rightarrow> nat \<Rightarrow> event list \<Rightarrow> (nat \<times> privacy_error) goerror" where
  "validateBatchFrom ulow index [] = None"
| "validateBatchFrom ulow index (e # es) =
    (case ValidateOutbound ulow e of Some err \<Rightarrow> Some (index, err) | None \<Rightarrow> validateBatchFrom ulow (Suc index) es)"

definition ValidateOutboundBatch :: "(nat \<Rightarrow> nat) \<Rightarrow> event list \<Rightarrow> (nat \<times> privacy_error) goerror" where
  "ValidateOutboundBatch ulow events = validateBatchFrom ulow 0 events"

subsection \<open>What is let through\<close>

text \<open>Every text in a value, at any depth, and every key path.\<close>

fun texts_of :: "json \<Rightarrow> gostr list" where
  "texts_of (JStr s) = [s]"
| "texts_of (JArr items) = concat (map texts_of items)"
| "texts_of (JObj entries) = concat (map (\<lambda>(k, v). texts_of v) entries)"
| "texts_of _ = []"

fun paths_of :: "gostr \<Rightarrow> json \<Rightarrow> gostr list" where
  "paths_of key (JArr items) = concat (map (paths_of key) items)"
| "paths_of key (JObj entries) =
    concat (map (\<lambda>(k, v). (key @ ''.'' @ k) # paths_of (key @ ''.'' @ k) v) entries)"
| "paths_of key _ = []"

fun json_plain :: "json \<Rightarrow> bool" where
  "json_plain JOther = False"
| "json_plain (JArr items) = list_all json_plain items"
| "json_plain (JObj entries) = list_all (\<lambda>(k, v). json_plain v) entries"
| "json_plain _ = True"

definition value_private :: "(nat \<Rightarrow> nat) \<Rightarrow> gostr \<Rightarrow> json \<Rightarrow> bool" where
  "value_private ulow key v \<longleftrightarrow> list_all (\<lambda>s. \<not> sensitive_text ulow s) (texts_of v)
    \<and> list_all (approvedMetadataKey ulow) (paths_of key v) \<and> json_plain v"

lemma value_private_simps [simp]:
  "value_private ulow key (JStr s) = (\<not> sensitive_text ulow s)"
  "value_private ulow key (JArr items) = list_all (value_private ulow key) items"
  "value_private ulow key (JObj entries) = list_all (\<lambda>(k, v). approvedMetadataKey ulow (key @ ''.'' @ k)
      \<and> value_private ulow (key @ ''.'' @ k) v) entries"
  "\<not> value_private ulow key JOther" "value_private ulow key JNull" "value_private ulow key (JBool b)"
  "value_private ulow key (JNum x)" "value_private ulow key (JInt n)"
proof -
  show "value_private ulow key (JArr items) = list_all (value_private ulow key) items"
    by (induction items) (auto simp: value_private_def)
  show "value_private ulow key (JObj entries) = list_all (\<lambda>(k, v). approvedMetadataKey ulow (key @ ''.'' @ k)
      \<and> value_private ulow (key @ ''.'' @ k) v) entries"
    by (induction entries) (auto simp: value_private_def)
qed (simp_all add: value_private_def)

lemma validateMetadataValue_None:
  "validateMetadataValue ulow key v = None \<longleftrightarrow> value_private ulow key v"
  "validateMetadataValues ulow key vs = None \<longleftrightarrow> list_all (value_private ulow key) vs"
  "validateMetadataChildren ulow key es = None \<longleftrightarrow> list_all (\<lambda>(k, v). approvedMetadataKey ulow (key @ ''.'' @ k)
      \<and> value_private ulow (key @ ''.'' @ k) v) es"
  by (induction ulow key v and ulow key vs and ulow key es
      rule: validateMetadataValue_validateMetadataValues_validateMetadataChildren.induct)
    (auto simp: fail_if_def Let_def split: option.splits)

lemma filterEntries_Inr:
  assumes "filterEntries ulow f es = Inr f'" "distinct (keys_of f @ keys_of es)"
  shows "f' = f @ es \<and> (\<forall>(k, v) \<in> set es. approvedMetadataKey ulow k \<and> validateMetadataValue ulow k v = None)"
  using assms
proof (induction ulow f es rule: filterEntries.induct)
  case (2 ulow f k v es)
  have "k \<notin> fst ` set f" using "2.prems"(2) by auto
  then have u: "upsert k v f = f @ [(k, v)]" by (induction f) auto
  have a: "approvedMetadataKey ulow k" "validateMetadataValue ulow k v = None" "filterEntries ulow (upsert k v f) es = Inr f'"
    using "2.prems"(1) by (auto split: if_splits option.splits)
  then show ?case using "2.IH" "2.prems"(2) by (auto simp: u)
qed simp

text \<open>What the filter promises about metadata that leaves the machine.\<close>

definition metadata_private :: "(nat \<Rightarrow> nat) \<Rightarrow> (gostr \<times> json) list \<Rightarrow> bool" where
  "metadata_private ulow m \<longleftrightarrow> list_all (\<lambda>(k, v). json_plain v
    \<and> list_all (\<lambda>s. \<not> contains_any s [CHR 0x0D, CHR 0x0A, CHR ''/'', CHR 0x5C] \<and> \<not> looks_secret s) (texts_of v)
    \<and> list_all (\<lambda>p. has_prefix (to_lower ulow (trim_space p)) metadataNamespace \<and> rune_count (trim_space p) \<le> 128)
        (k # paths_of k v)) m"

lemma approved_prefix:
  "approvedMetadataKey ulow k \<Longrightarrow> has_prefix (to_lower ulow (trim_space k)) metadataNamespace \<and> rune_count (trim_space k) \<le> 128"
  by (simp add: approvedMetadataKey_def Let_def split: if_splits)

lemma FilterApprovedMetadata_Some:
  assumes "FilterApprovedMetadata ulow (Some m) = Inr f" "distinct (keys_of m)"
  shows "f = Some m \<and> metadata_private ulow m"
proof -
  obtain f' where f': "filterEntries ulow [] m = Inr f'" "f = Some f'"
    using assms(1) by (auto simp: FilterApprovedMetadata_def split: sum.splits)
  have "f' = m \<and> (\<forall>(k, v) \<in> set m. approvedMetadataKey ulow k \<and> validateMetadataValue ulow k v = None)"
    using filterEntries_Inr[OF f'(1)] assms(2) by simp
  then show ?thesis
    using f'(2) approved_prefix[of ulow]
    by (auto simp: metadata_private_def list_all_iff validateMetadataValue_None value_private_def sensitive_text_def)
qed

lemma validateBatchFrom_None: "validateBatchFrom ulow i es = None \<longleftrightarrow> (\<forall>e \<in> set es. ValidateOutbound ulow e = None)"
  by (induction ulow i es rule: validateBatchFrom.induct) (auto split: option.splits)

lemma NormalizeSessionID_fixed: "NormalizeSessionID ulow v = v \<Longrightarrow> v \<noteq> [] \<Longrightarrow> isSafeSessionID ulow v"
  using event_id_like_safe[OF hashes_event_id_like(1), of ulow "trim_space v"]
  by (auto simp: NormalizeSessionID_def Let_def split: if_splits)

definition outbound_private :: "(nat \<Rightarrow> nat) \<Rightarrow> event \<Rightarrow> bool" where
  "outbound_private ulow e \<longleftrightarrow>
    \<not> contains_any (ev_Project e) path_chars \<and> \<not> contains_any (src_Identity (ev_Source e)) path_chars
    \<and> list_all (\<lambda>v. \<not> contains_any v [CHR 0x0D, CHR 0x0A] \<and> \<not> looks_secret v \<and> \<not> has_prefix v ''/'') (outbound_identifiers e)
    \<and> (ev_SessionID e = [] \<or> isSafeSessionID ulow (ev_SessionID e))
    \<and> (case ev_Metadata e of None \<Rightarrow> True | Some m \<Rightarrow> metadata_private ulow m)"


definition tagged_event :: event where
  "tagged_event = sample_event\<lparr>ev_Metadata := Some [(''tokemon_a'', JStr ''x'')]\<rparr>"

lemma tagged_event_passes: "ValidateOutboundBatch (\<lambda>r. r) [tagged_event] = None"
proof -
  have k: "approvedMetadataKey (\<lambda>r. r) ''tokemon_a''"
    by (simp add: approvedMetadataKey_def Let_def str_eval has_prefix_def metadataNamespace_def private_key_words_def
        char_of_def bit_0 del: runes.simps(2))
  have t: "\<not> sensitive_text (\<lambda>r. r) ''x''"
    by (simp add: sensitive_text_def contains_any_def looks_secret_def private_value_words_def str_eval has_prefix_def
        char_of_def bit_0 del: runes.simps(2))
  show ?thesis
    by (simp add: ValidateOutboundBatch_def ValidateOutbound_def validateApprovedMetadata_def FilterApprovedMetadata_def
        tagged_event_def sample_event_def k t fail_if_def contains_any_def outbound_identifiers_def
        identifierContainsSensitiveValue_def looks_secret_def has_prefix_def path_chars_def)
qed


text \<open>The agent's key filter is at least as strict as the hub's key check on trimmed keys.\<close>

lemma private_words_cover: "set sensitive_key_words \<subseteq> set private_key_words"
  by (simp add: sensitive_key_words_def private_key_words_def)

lemma approved_key_valid:
  assumes "approvedMetadataKey ulow k" "trim_space k = k"
  shows "validateMetadataKey ulow k = None"
  using assms private_words_cover
  by (auto simp: approvedMetadataKey_def validateMetadataKey_def Let_def ok_simps MaxMetadataStringSize_def list_ex_iff
      split: if_splits)

end
