(* ===== verification/Catalog.thy ===== *)
theory Catalog
  imports Go_Time
begin

text \<open>
  Package \<open>internal/catalog\<close>: the model catalog, its validation, alias resolution and cost
  estimates. A Go map is an association list with distinct keys. \<open>parse_uri\<close> stands for
  \<open>url.ParseRequestURI\<close> (scheme and host); the YAML decoder in front of \<open>New\<close> is not modelled.
\<close>

record pricing =
  pr_Currency :: gostr
  pr_Mode :: gostr
  pr_EffectiveFrom :: gostr
  pr_VerifiedAt :: gostr
  pr_Source :: gostr
  pr_Input :: "f64 option"
  pr_Output :: "f64 option"
  pr_CacheRead :: "f64 option"
  pr_CacheWrite :: "f64 option"

record model =
  md_Provider :: gostr
  md_DisplayName :: gostr
  md_Aliases :: "gostr list"
  md_Tier :: gostr
  md_Pricing :: pricing

record catalog =
  cat_Models :: "(gostr \<times> model) list"
  cat_Aliases :: "(gostr \<times> gostr) list"

datatype catalog_error = BadModelID | ProviderRequired gostr | DisplayNameRequired gostr | AliasRequired gostr
  | BadAlias gostr | CurrencyMustBeUSD gostr | ModeMustBeStandard gostr | PricesRequired gostr
  | NegativePrice gostr | BadVerifiedAt gostr | BadEffectiveFrom gostr | SourceMustBeHTTPS gostr
  | AliasTwice gostr gostr | AliasConflict gostr gostr gostr | BadSchemaVersion

type_synonym uri_parser = "gostr \<Rightarrow> (gostr \<times> gostr) option"

definition validDate :: "gostr \<Rightarrow> bool" where
  "validDate value \<longleftrightarrow> value \<noteq> [] \<and> parse_date value \<noteq> None"

definition negative_price :: "f64 option \<Rightarrow> bool" where
  "negative_price p = (case p of None \<Rightarrow> False | Some x \<Rightarrow> f64_less x (Fin 0))"

definition validateModel :: "uri_parser \<Rightarrow> gostr \<Rightarrow> model \<Rightarrow> catalog_error goerror" where
  "validateModel parse_uri mid m = (let p = md_Pricing m in first_error
    [fail_if (trim_space mid = [] \<or> mid \<noteq> trim_space mid) BadModelID,
     fail_if (trim_space (md_Provider m) = []) (ProviderRequired mid),
     fail_if (trim_space (md_DisplayName m) = []) (DisplayNameRequired mid),
     fail_if (md_Aliases m = []) (AliasRequired mid),
     fail_if (list_ex (\<lambda>a. trim_space a = [] \<or> a \<noteq> trim_space a) (md_Aliases m)) (BadAlias mid),
     fail_if (pr_Currency p \<noteq> ''USD'') (CurrencyMustBeUSD mid),
     fail_if (pr_Mode p \<noteq> ''standard'') (ModeMustBeStandard mid),
     fail_if (pr_Input p = None \<or> pr_Output p = None) (PricesRequired mid),
     fail_if (list_ex negative_price [pr_Input p, pr_Output p, pr_CacheRead p, pr_CacheWrite p]) (NegativePrice mid),
     fail_if (\<not> validDate (pr_VerifiedAt p)) (BadVerifiedAt mid),
     fail_if (pr_EffectiveFrom p \<noteq> [] \<and> \<not> validDate (pr_EffectiveFrom p)) (BadEffectiveFrom mid),
     fail_if (case parse_uri (pr_Source p) of None \<Rightarrow> True
              | Some (scheme, host) \<Rightarrow> scheme \<noteq> ''https'' \<or> host = []) (SourceMustBeHTTPS mid)])"

text \<open>
  The alias loop of one model; \<open>seen\<close> are its aliases so far, \<open>aliases\<close> the catalog's map.
\<close>

definition addAlias ::
  "gostr \<Rightarrow> gostr list \<times> (gostr \<times> gostr) list \<Rightarrow> gostr \<Rightarrow> catalog_error + gostr list \<times> (gostr \<times> gostr) list" where
  "addAlias mid st rawAlias = (case st of (seen, aliases) \<Rightarrow>
    (let alias = trim_space rawAlias in
     if alias \<in> set seen then Inl (AliasTwice mid alias)
     else if alias = mid then Inr (alias # seen, aliases)
     else (case map_of aliases alias of
         Some owner \<Rightarrow> Inl (AliasConflict mid alias owner)
       | None \<Rightarrow> Inr (alias # seen, upsert alias mid aliases))))"

definition addModelAliases ::
  "(gostr \<times> model) list \<Rightarrow> (gostr \<times> gostr) list \<Rightarrow> gostr \<Rightarrow> catalog_error + (gostr \<times> gostr) list" where
  "addModelAliases models aliases mid =
    (case fold_err (addAlias mid) ([], aliases) (md_Aliases (the (map_of models mid))) of
       Inl e \<Rightarrow> Inl e | Inr (seen, aliases') \<Rightarrow> Inr aliases')"

definition New :: "uri_parser \<Rightarrow> (gostr \<times> model) list \<Rightarrow> catalog_error + catalog" where
  "New parse_uri models =
    (let ids = sort (keys_of models) in
     case first_error (map (\<lambda>i. validateModel parse_uri i (the (map_of models i))) ids) of
       Some e \<Rightarrow> Inl e
     | None \<Rightarrow>
        (case fold_err (addModelAliases models) (map (\<lambda>i. (i, i)) ids) ids of
           Inl e \<Rightarrow> Inl e
         | Inr aliases \<Rightarrow> Inr \<lparr>cat_Models = models, cat_Aliases = aliases\<rparr>))"

definition Load :: "uri_parser \<Rightarrow> gostr \<times> (gostr \<times> model) list \<Rightarrow> catalog_error + catalog" where
  "Load parse_uri input = (case input of (schema_version, models) \<Rightarrow>
    if schema_version \<noteq> ''2'' then Inl BadSchemaVersion else New parse_uri models)"

text \<open>\<open>None\<close> is a nil catalog.\<close>

definition Resolve :: "catalog option \<Rightarrow> gostr \<Rightarrow> (gostr \<times> model) option" where
  "Resolve c raw = (case c of None \<Rightarrow> None
    | Some c' \<Rightarrow> (case map_of (cat_Aliases c') raw of None \<Rightarrow> None
        | Some i \<Rightarrow> map_option (\<lambda>m. (i, m)) (map_of (cat_Models c') i)))"

definition addPriced :: "f64 \<Rightarrow> i64 option \<Rightarrow> f64 option \<Rightarrow> f64 option" where
  "addPriced amount tokens price =
    (case tokens of None \<Rightarrow> Some amount
     | Some n \<Rightarrow> if n = 0 then Some amount
         else (case price of None \<Rightarrow> None
           | Some p \<Rightarrow> Some (f64_add amount (f64_div (f64_mul (f64_of_int n) p) (Fin 1000000)))))"

definition priced_components :: "event \<Rightarrow> model \<Rightarrow> (i64 option \<times> f64 option) list" where
  "priced_components e m = (let p = md_Pricing m in
    [(ev_InputTokens e, pr_Input p), (ev_OutputTokens e, pr_Output p),
     (ev_CacheReadTokens e, pr_CacheRead p), (ev_CacheWriteTokens e, pr_CacheWrite p)])"

fun sumPriced :: "f64 \<Rightarrow> (i64 option \<times> f64 option) list \<Rightarrow> f64 option" where
  "sumPriced amount [] = Some amount"
| "sumPriced amount ((t, p) # rest) =
    (case addPriced amount t p of None \<Rightarrow> None | Some amount' \<Rightarrow> sumPriced amount' rest)"

definition Estimate :: "event \<Rightarrow> model \<Rightarrow> f64 option" where
  "Estimate e m =
    (if ev_InputTokens e = None \<and> ev_OutputTokens e = None \<and> ev_CacheReadTokens e = None
        \<and> ev_CacheWriteTokens e = None then None
     else sumPriced (Fin 0) (priced_components e m))"

subsection \<open>Resolution\<close>

text \<open>What the alias map says at any moment of \<open>New\<close>: a key is an ID or an alias of its model.\<close>

definition alias_ok :: "(gostr \<times> model) list \<Rightarrow> gostr \<Rightarrow> gostr \<Rightarrow> bool" where
  "alias_ok models a i \<longleftrightarrow> i \<in> fst ` set models \<and> (a = i \<or> a \<in> trim_space ` set (md_Aliases (the (map_of models i))))"

lemma addAlias_spec:
  assumes "fold_err (addAlias i) (seen, m) as = Inr (seen', m')"
  shows "map_of m \<subseteq>\<^sub>m map_of m'" "\<forall>a \<in> set as. map_of m i = Some i \<longrightarrow> map_of m' (trim_space a) = Some i"
    "\<forall>a j. map_of m' a = Some j \<longrightarrow> map_of m a = Some j \<or> (j = i \<and> a \<in> trim_space ` set as)"
proof -
  have "map_of m \<subseteq>\<^sub>m map_of m' \<and> (\<forall>a \<in> set as. map_of m i = Some i \<longrightarrow> map_of m' (trim_space a) = Some i)
    \<and> (\<forall>a j. map_of m' a = Some j \<longrightarrow> map_of m a = Some j \<or> (j = i \<and> a \<in> trim_space ` set as))"
    using assms
  proof (induction as arbitrary: seen m)
    case (Cons a as)
    obtain s1 m1 where s: "addAlias i (seen, m) a = Inr (s1, m1)" "fold_err (addAlias i) (s1, m1) as = Inr (seen', m')"
      using Cons.prems by (auto split: sum.splits)
    note IH = Cons.IH[OF s(2)]
    from s(1) consider "trim_space a = i" "m1 = m"
      | "trim_space a \<noteq> i" "map_of m (trim_space a) = None" "m1 = upsert (trim_space a) i m"
      by (auto simp: addAlias_def Let_def split: if_splits option.splits)
    then show ?case
    proof cases
      case 1
      then show ?thesis using IH by (auto simp: map_le_def dom_def)
    next
      case 2
      then have le: "map_of m \<subseteq>\<^sub>m map_of m1" and a1: "map_of m1 (trim_space a) = Some i"
        and i1: "map_of m1 i = map_of m i"
        and old: "map_of m1 b = Some j \<Longrightarrow> map_of m b = Some j \<or> (j = i \<and> b = trim_space a)" for b j
        by (auto simp: map_le_def dom_def split: if_splits)
      have a': "map_of m' (trim_space a) = Some i"
        using IH a1 by (auto simp: map_le_def dom_def)
      have "map_of m \<subseteq>\<^sub>m map_of m'" using IH le map_le_trans by blast
      moreover have "\<forall>b \<in> set (a # as). map_of m i = Some i \<longrightarrow> map_of m' (trim_space b) = Some i"
        using IH a' i1 by simp
      moreover have "\<forall>b j. map_of m' b = Some j \<longrightarrow> map_of m b = Some j \<or> (j = i \<and> b \<in> trim_space ` set (a # as))"
        using IH old by (auto dest: old)
      ultimately show ?thesis by blast
    qed
  qed simp
  then show "map_of m \<subseteq>\<^sub>m map_of m'" "\<forall>a \<in> set as. map_of m i = Some i \<longrightarrow> map_of m' (trim_space a) = Some i"
    "\<forall>a j. map_of m' a = Some j \<longrightarrow> map_of m a = Some j \<or> (j = i \<and> a \<in> trim_space ` set as)" by blast+
qed

lemma addModelAliases_spec:
  assumes "fold_err (addModelAliases models) m ids = Inr m'"
    and "\<forall>i \<in> set ids. i \<in> fst ` set models \<and> map_of m i = Some i"
    and "\<forall>a j. map_of m a = Some j \<longrightarrow> alias_ok models a j"
  shows "map_of m \<subseteq>\<^sub>m map_of m'
    \<and> (\<forall>i \<in> set ids. \<forall>a \<in> set (md_Aliases (the (map_of models i))). map_of m' (trim_space a) = Some i)
    \<and> (\<forall>a j. map_of m' a = Some j \<longrightarrow> alias_ok models a j)"
  using assms
proof (induction ids arbitrary: m)
  case (Cons i ids)
  obtain m1 where m1: "addModelAliases models m i = Inr m1" "fold_err (addModelAliases models) m1 ids = Inr m'"
    using Cons.prems(1) by (auto split: sum.splits)
  from m1(1) obtain seen where f: "fold_err (addAlias i) ([], m) (md_Aliases (the (map_of models i))) = Inr (seen, m1)"
    by (auto simp: addModelAliases_def split: sum.splits)
  note sp = addAlias_spec[OF f]
  have p: "\<forall>i \<in> set ids. i \<in> fst ` set models \<and> map_of m1 i = Some i"
    using Cons.prems(2) sp(1) by (auto simp: map_le_def dom_def)
  have q: "\<forall>a j. map_of m1 a = Some j \<longrightarrow> alias_ok models a j"
  proof (intro allI impI)
    fix a j assume "map_of m1 a = Some j"
    then consider "map_of m a = Some j" | "j = i" "a \<in> trim_space ` set (md_Aliases (the (map_of models i)))"
      using sp(3) by blast
    then show "alias_ok models a j"
      by cases (use Cons.prems(2,3) in \<open>simp_all add: alias_ok_def\<close>)
  qed
  note IH = Cons.IH[OF m1(2) p q]
  have "\<forall>a \<in> set (md_Aliases (the (map_of models i))). map_of m' (trim_space a) = Some i"
    using sp(2) Cons.prems(2) IH by (auto simp: map_le_def dom_def)
  then show ?case using IH sp(1) map_le_trans by auto
qed simp

lemma map_le_Some: "m a = Some b \<Longrightarrow> m \<subseteq>\<^sub>m m' \<Longrightarrow> m' a = Some b"
  by (auto simp: map_le_def dom_def)

lemma map_of_identity: "map_of (map (\<lambda>i. (i, i)) xs) a = (if a \<in> set xs then Some a else None)"
  by (induction xs) auto

lemma New_spec:
  assumes "New parse_uri models = Inr c"
  shows "cat_Models c = models"
    "i \<in> fst ` set models \<Longrightarrow> map_of (cat_Aliases c) i = Some i"
    "i \<in> fst ` set models \<Longrightarrow> a \<in> set (md_Aliases (the (map_of models i))) \<Longrightarrow> map_of (cat_Aliases c) a = Some i"
    "map_of (cat_Aliases c) a = Some j \<Longrightarrow> alias_ok models a j"
    "i \<in> fst ` set models \<Longrightarrow> validateModel parse_uri i (the (map_of models i)) = None"
proof -
  let ?ids = "sort (keys_of models)"
  obtain al where v: "first_error (map (\<lambda>i. validateModel parse_uri i (the (map_of models i))) ?ids) = None"
    and f: "fold_err (addModelAliases models) (map (\<lambda>i. (i, i)) ?ids) ?ids = Inr al"
    and c: "c = \<lparr>cat_Models = models, cat_Aliases = al\<rparr>"
    using assms by (auto simp: New_def Let_def split: option.splits sum.splits)
  have va: "validateModel parse_uri i (the (map_of models i)) = None" if "i \<in> fst ` set models" for i
    using v that by (auto simp: ok_simps)
  have sp: "map_of (map (\<lambda>i. (i, i)) ?ids) \<subseteq>\<^sub>m map_of al
    \<and> (\<forall>i \<in> set ?ids. \<forall>a \<in> set (md_Aliases (the (map_of models i))). map_of al (trim_space a) = Some i)
    \<and> (\<forall>a j. map_of al a = Some j \<longrightarrow> alias_ok models a j)"
    by (rule addModelAliases_spec[OF f]) (auto simp: map_of_identity alias_ok_def split: if_splits)
  show "cat_Models c = models" by (simp add: c)
  show "map_of (cat_Aliases c) i = Some i" if "i \<in> fst ` set models"
  proof -
    have "map_of (map (\<lambda>i. (i, i)) ?ids) i = Some i" using that by (simp add: map_of_identity)
    moreover have "map_of (map (\<lambda>i. (i, i)) ?ids) \<subseteq>\<^sub>m map_of al" using sp by blast
    ultimately have "map_of al i = Some i" by (rule map_le_Some)
    then show ?thesis by (simp add: c)
  qed
  show "map_of (cat_Aliases c) a = Some i" if "i \<in> fst ` set models" "a \<in> set (md_Aliases (the (map_of models i)))"
  proof -
    have "trim_space a = a" using va[OF that(1)] that(2) by (auto simp: validateModel_def Let_def ok_simps list_ex_iff)
    moreover have "i \<in> set ?ids" using that(1) by simp
    then have "\<forall>a \<in> set (md_Aliases (the (map_of models i))). map_of al (trim_space a) = Some i" using sp by blast
    ultimately have "map_of al a = Some i" using that(2) by force
    then show ?thesis by (simp add: c)
  qed
  show "alias_ok models a j" if "map_of (cat_Aliases c) a = Some j" using that sp by (simp add: c)
  show "validateModel parse_uri i (the (map_of models i)) = None" if "i \<in> fst ` set models" by (rule va[OF that])
qed


definition catalog_consistent :: "(gostr \<times> model) list \<Rightarrow> catalog \<Rightarrow> bool" where
  "catalog_consistent models c \<longleftrightarrow>
    list_all (\<lambda>(i, m). Resolve (Some c) i = Some (i, m)
      \<and> list_all (\<lambda>a. Resolve (Some c) a = Some (i, m)) (md_Aliases m)) models
    \<and> list_all (\<lambda>(a, _). case Resolve (Some c) a of None \<Rightarrow> False
        | Some (i, m) \<Rightarrow> (i, m) \<in> set models \<and> (a = i \<or> a \<in> set (md_Aliases m))) (cat_Aliases c)"

text \<open>When the catalog loads, every model ID and every alias resolves to its own model, so no
  alias is shared between models; and every name the catalog knows is an ID or an alias of a
  model that exists.\<close>

theorem New_consistent:
  assumes "New parse_uri models = Inr c" and "distinct (keys_of models)"
  shows "catalog_consistent models c"
proof -
  note sp = New_spec[OF assms(1)]
  have m: "map_of models i = Some m" "i \<in> fst ` set models" if "(i, m) \<in> set models" for i m
    using that assms(2) by (auto intro: map_of_is_SomeI rev_image_eqI)
  have t: "trim_space a = a" if "(i, m) \<in> set models" "a \<in> set (md_Aliases m)" for i m a
    using sp(5)[OF m(2)[OF that(1)]] m(1)[OF that(1)] that(2)
    by (auto simp: validateModel_def Let_def ok_simps list_ex_iff)
  have 1: "Resolve (Some c) i = Some (i, m)" if "(i, m) \<in> set models" for i m
    using sp(1) sp(2)[OF m(2)[OF that]] m(1)[OF that] by (simp add: Resolve_def)
  have 2: "Resolve (Some c) a = Some (i, m)" if "(i, m) \<in> set models" "a \<in> set (md_Aliases m)" for i m a
    using sp(1) sp(3)[OF m(2)[OF that(1)], of a] m(1)[OF that(1)] that(2) by (simp add: Resolve_def)
  have 3: "case Resolve (Some c) a of None \<Rightarrow> False
      | Some (i, m) \<Rightarrow> (i, m) \<in> set models \<and> (a = i \<or> a \<in> set (md_Aliases m))"
    if "(a, x) \<in> set (cat_Aliases c)" for a x
  proof -
    have "map_of (cat_Aliases c) a \<noteq> None" using weak_map_of_SomeI[OF that] by auto
    then obtain j where j: "map_of (cat_Aliases c) a = Some j" by blast
    then have ok: "alias_ok models a j" by (rule sp(4))
    then obtain mj where mj: "(j, mj) \<in> set models" by (auto simp: alias_ok_def)
    then have "a = j \<or> a \<in> set (md_Aliases mj)"
      using ok m(1)[OF mj] t[OF mj] by (auto simp: alias_ok_def)
    then show ?thesis using j sp(1) m(1)[OF mj] mj by (simp add: Resolve_def)
  qed
  show ?thesis using 1 2 3 by (auto simp: catalog_consistent_def list_all_iff)
qed

definition sample_pricing :: pricing where
  "sample_pricing = \<lparr>pr_Currency = ''USD'', pr_Mode = ''standard'', pr_EffectiveFrom = [],
    pr_VerifiedAt = ''2025-01-31'', pr_Source = ''u'', pr_Input = Some (Fin 1), pr_Output = Some (Fin 2),
    pr_CacheRead = None, pr_CacheWrite = None\<rparr>"

definition sample_model :: model where
  "sample_model = \<lparr>md_Provider = ''p'', md_DisplayName = ''d'', md_Aliases = [''g'', ''m''], md_Tier = [],
    md_Pricing = sample_pricing\<rparr>"

lemma sample_model_valid: "validateModel (\<lambda>_. Some (''https'', ''h'')) ''m'' sample_model = None"
proof -
  have "validDate ''2025-01-31''"
    by (simp add: validDate_def parse_date_def is_digit_def byte_def Let_def days_in_month_def month_lengths_def
        nth_Cons' numeral_eq_Suc)
  then show ?thesis
    by (simp add: validateModel_def sample_model_def sample_pricing_def Let_def str_eval negative_price_def
        fail_if_def del: runes.simps(2))
qed

lemma sample_New:
  "New (\<lambda>_. Some (''https'', ''h'')) [(''m'', sample_model)]
   = Inr \<lparr>cat_Models = [(''m'', sample_model)], cat_Aliases = [(''m'', ''m''), (''g'', ''m'')]\<rparr>"
  by (simp add: New_def Let_def sample_model_valid)
    (simp add: addModelAliases_def addAlias_def sample_model_def Let_def str_eval del: runes.simps(2))

theorem New_consistent_witness:
  "catalog_consistent [(''m'', sample_model)]
    \<lparr>cat_Models = [(''m'', sample_model)], cat_Aliases = [(''m'', ''m''), (''g'', ''m'')]\<rparr>"
  by (rule New_consistent[OF sample_New]) simp

subsection \<open>Estimates\<close>

text \<open>A component prices when it is unknown, zero, or has a price.\<close>

definition prices :: "i64 option \<times> f64 option \<Rightarrow> bool" where
  "prices c = (case c of (t, p) \<Rightarrow> t = None \<or> t = Some 0 \<or> p \<noteq> None)"

lemma sumPriced_None: "sumPriced a cs = None \<longleftrightarrow> \<not> list_all prices cs"
  by (induction a cs rule: sumPriced.induct)
    (auto simp: addPriced_def prices_def split: option.splits if_splits)

definition nonneg_or_inf :: "f64 \<Rightarrow> bool" where "nonneg_or_inf x \<longleftrightarrow> f64_le (Fin 0) x"

lemma f64_add_nonneg: "nonneg_or_inf a \<Longrightarrow> nonneg_or_inf b \<Longrightarrow> nonneg_or_inf (f64_add a b)"
  by (cases a; cases b) (auto simp: nonneg_or_inf_def round64_nonneg)

lemma sumPriced_nonneg:
  assumes "sumPriced a cs = Some x" "nonneg_or_inf a"
    and "list_all (\<lambda>(t, p). (case t of None \<Rightarrow> True | Some n \<Rightarrow> 0 \<le> n \<and> is_i64 n)
      \<and> (case p of None \<Rightarrow> True | Some (Fin q) \<Rightarrow> 0 \<le> q | _ \<Rightarrow> False)) cs"
  shows "nonneg_or_inf x"
  using assms
proof (induction a cs rule: sumPriced.induct)
  case (2 a t p rest)
  obtain a' where a': "addPriced a t p = Some a'" "sumPriced a' rest = Some x"
    using "2.prems"(1) by (auto split: option.splits)
  have "nonneg_or_inf a'"
  proof (cases "t = None \<or> t = Some 0")
    case True
    then show ?thesis using a' "2.prems"(2) by (auto simp: addPriced_def)
  next
    case False
    then obtain n q where n: "t = Some n" "0 < n" "p = Some (Fin q)" "0 \<le> q"
      using a'(1) "2.prems"(3) by (auto simp: addPriced_def split: option.splits f64.splits)
    obtain r where r: "f64_of_int n = Fin r" "0 \<le> r"
      using f64_of_int_finite[of n] n(1,2) "2.prems"(3) by (auto simp: is_i64_def max_i64_def)
    then have "nonneg_or_inf (f64_mul (f64_of_int n) (Fin q))"
      using n(4) by (simp add: nonneg_or_inf_def round64_nonneg)
    then have "nonneg_or_inf (f64_div (f64_mul (f64_of_int n) (Fin q)) (Fin 1000000))"
      by (cases "f64_mul (f64_of_int n) (Fin q)") (auto simp: nonneg_or_inf_def round64_nonneg f64_inf_signed_def)
    then show ?thesis using a'(1) n "2.prems"(2) f64_add_nonneg by (auto simp: addPriced_def)
  qed
  then show ?case using "2.IH"[OF a'] "2.prems"(3) a' by auto
qed simp


definition priceable :: "event \<Rightarrow> model \<Rightarrow> bool" where
  "priceable e m \<longleftrightarrow> list_all (\<lambda>(t, p). (case t of None \<Rightarrow> True | Some n \<Rightarrow> 0 \<le> n \<and> is_i64 n)
      \<and> (case p of None \<Rightarrow> True | Some (Fin q) \<Rightarrow> 0 \<le> q | _ \<Rightarrow> False)) (priced_components e m)"

text \<open>A usage event is priced exactly when some token component is known and every known
  nonzero component has a price in the catalog; with non-negative token counts and finite
  non-negative prices the estimate is not negative and not NaN.\<close>

theorem Estimate_priced:
  "(Estimate e m \<noteq> None) =
      (list_ex (\<lambda>t. t \<noteq> None) (token_components e) \<and> list_all prices (priced_components e m))
    \<and> (if priceable e m then (case Estimate e m of None \<Rightarrow> True | Some x \<Rightarrow> f64_le (Fin 0) x) else True)"
  using sumPriced_nonneg[of "Fin 0" "priced_components e m"]
    sumPriced_None[of "Fin 0" "priced_components e m"]
  by (auto simp: Estimate_def token_components_def priceable_def nonneg_or_inf_def split: option.splits)

end
