(* ===== verification/Tables.thy ===== *)
theory Tables
  imports Prelude
begin

text \<open>
  The contracts of the SQL tables the program writes with insert-or-update statements, as
  locales: a table whose writes replace the rows in conflict, and a table with a key. The
  component theories interpret them on their own tables.
\<close>

subsection \<open>Tables whose writes replace the rows in conflict\<close>

text \<open>
  The contract a table gives its writers: a valid table holds no two rows in conflict, and
  writing a row leaves exactly that row and the old rows it does not conflict with.
\<close>

locale replacing_table =
  fixes clash :: "'r \<Rightarrow> 'r \<Rightarrow> bool" and ok :: "'r list \<Rightarrow> bool" and put :: "'r \<Rightarrow> 'r list \<Rightarrow> 'r list"
  assumes clash_refl: "clash r r"
    and clash_sym: "clash r x \<Longrightarrow> clash x r"
    and ok_Nil: "ok []"
    and ok_clash: "ok t \<Longrightarrow> x \<in> set t \<Longrightarrow> y \<in> set t \<Longrightarrow> clash x y \<Longrightarrow> x = y"
    and put_ok: "ok t \<Longrightarrow> ok (put r t)"
    and put_set: "ok t \<Longrightarrow> set (put r t) = insert r {x \<in> set t. \<not> clash r x}"
begin

lemma put_mem: "ok t \<Longrightarrow> r \<in> set (put r t)"
  by (simp add: put_set)

lemma put_all: "ok t \<Longrightarrow> list_all P t \<Longrightarrow> P r \<Longrightarrow> list_all P (put r t)"
  by (auto simp: put_set list_all_iff)

lemma put_only: "ok t \<Longrightarrow> x \<in> set (put r t) \<Longrightarrow> clash r x \<Longrightarrow> x = r"
  by (auto simp: put_set)

lemma put_again: "ok t \<Longrightarrow> set (put r (put r t)) = set (put r t)"
  by (auto simp: put_set put_ok)

lemma put_stored: "ok t \<Longrightarrow> r \<in> set t \<Longrightarrow> set (put r t) = set t"
  using ok_clash clash_refl by (auto simp: put_set dest: ok_clash)

lemma fold_ok: "ok t \<Longrightarrow> ok (fold put rs t)"
  by (induction rs arbitrary: t) (simp_all add: put_ok)

lemma fold_all: "ok t \<Longrightarrow> list_all P t \<Longrightarrow> list_all P rs \<Longrightarrow> list_all P (fold put rs t)"
  by (induction rs arbitrary: t) (simp_all add: put_ok put_all)

lemma fold_set:
  assumes "ok t" "pairwise (\<lambda>r s. \<not> clash r s) (set rs)"
  shows "set (fold put rs t) = set rs \<union> {x \<in> set t. \<forall>r \<in> set rs. \<not> clash r x}"
  using assms
proof (induction rs arbitrary: t)
  case (Cons r rs)
  have p: "pairwise (\<lambda>r s. \<not> clash r s) (set rs)" using Cons.prems(2) by (simp add: pairwise_insert)
  have "\<not> clash s r" if "s \<in> set rs" "s \<noteq> r" for s
    using Cons.prems(2) that by (auto simp: pairwise_def)
  then show ?case using Cons.IH[OF put_ok[OF Cons.prems(1)] p] put_set[OF Cons.prems(1)] clash_refl by auto
qed simp

text \<open>Replaying a batch of rows without mutual conflicts changes nothing.\<close>

lemma fold_replay:
  assumes "ok t" "pairwise (\<lambda>r s. \<not> clash r s) (set rs)"
  shows "set (fold put rs (fold put rs t)) = set (fold put rs t)"
  using fold_set[OF assms] fold_set[OF fold_ok[OF assms(1), of rs] assms(2)] clash_refl assms(2)
  by (auto simp: pairwise_def)

end

subsection \<open>Tables with a key\<close>

text \<open>
  \<open>INSERT ... ON CONFLICT(key) DO UPDATE SET\<close> all other columns: the row with the key is
  overwritten in place, a new row goes to the end.
\<close>

definition put_by :: "('r \<Rightarrow> 'k) \<Rightarrow> 'r \<Rightarrow> 'r list \<Rightarrow> 'r list" where
  "put_by key r t =
    (if list_ex (\<lambda>x. key x = key r) t then map (\<lambda>x. if key x = key r then r else x) t else t @ [r])"

definition find_by :: "('r \<Rightarrow> 'k) \<Rightarrow> 'k \<Rightarrow> 'r list \<Rightarrow> 'r option" where
  "find_by key k t = List.find (\<lambda>x. key x = k) t"

lemma find_by_Some:
  "distinct (map key t) \<Longrightarrow> find_by key k t = Some r \<longleftrightarrow> r \<in> set t \<and> key r = k"
  by (induction t) (auto simp: find_by_def rev_image_eqI)

lemma find_by_None: "find_by key k t = None \<longleftrightarrow> k \<notin> key ` set t"
  by (auto simp: find_by_def find_None_iff)

lemma find_by_Cons: "find_by key k (x # t) = (if key x = k then Some x else find_by key k t)"
  by (simp add: find_by_def)

lemma find_by_append:
  "find_by key k (xs @ ys) = (case find_by key k xs of None \<Rightarrow> find_by key k ys | Some x \<Rightarrow> Some x)"
  by (induction xs) (simp_all add: find_by_def)

lemma find_by_SomeD: "find_by key k t = Some x \<Longrightarrow> x \<in> set t \<and> key x = k"
  by (induction t) (auto simp: find_by_def split: if_splits)

lemma set_put_by: "set (put_by key r t) = insert r {x \<in> set t. key x \<noteq> key r}"
  by (auto simp: put_by_def list_ex_iff)

lemma distinct_put_by: "distinct (map key t) \<Longrightarrow> distinct (map key (put_by key r t))"
proof -
  assume d: "distinct (map key t)"
  have "map key (map (\<lambda>x. if key x = key r then r else x) t) = map key t" by simp
  then show ?thesis using d by (auto simp: put_by_def list_ex_iff simp del: map_map)
qed

locale keyed_table =
  fixes key :: "'r \<Rightarrow> 'k" and put :: "'r \<Rightarrow> 'r list \<Rightarrow> 'r list"
  assumes put_distinct: "distinct (map key t) \<Longrightarrow> distinct (map key (put r t))"
    and put_rows: "distinct (map key t) \<Longrightarrow> set (put r t) = insert r {x \<in> set t. key x \<noteq> key r}"
begin

lemma find_put:
  assumes "distinct (map key t)"
  shows "find_by key k (put r t) = (if k = key r then Some r else find_by key k t)"
proof (cases "k = key r")
  case True
  then show ?thesis using find_by_Some[OF put_distinct[OF assms], of k r r] put_rows[OF assms, of r] by simp
next
  case False
  have "find_by key k (put r t) = Some x \<longleftrightarrow> find_by key k t = Some x" for x
    unfolding find_by_Some[OF put_distinct[OF assms]] find_by_Some[OF assms] put_rows[OF assms] using False by auto
  then show ?thesis using False by (metis option.exhaust)
qed

text \<open>Writing a batch: the last row written under a key is the one found.\<close>

lemma find_fold:
  "distinct (map key t) \<Longrightarrow> find_by key k (fold put rs t)
    = (case find_by key k (rev rs) of None \<Rightarrow> find_by key k t | Some r \<Rightarrow> Some r)"
proof (induction rs rule: rev_induct)
  case Nil
  then show ?case by (simp add: find_by_def)
next
  case (snoc r rs)
  have "distinct (map key (fold put rs t))" using snoc.prems by (induction rs rule: rev_induct) (auto simp: put_distinct)
  from find_put[OF this, of k r] show ?case using snoc by (simp add: find_by_Cons)
qed

end

text \<open>A key makes a replacing table: rows conflict when they share it.\<close>

sublocale keyed_table \<subseteq> replacing: replacing_table "\<lambda>r x. key r = key x" "\<lambda>t. distinct (map key t)" put
proof unfold_locales
  show "distinct (map key t) \<Longrightarrow> x \<in> set t \<Longrightarrow> y \<in> set t \<Longrightarrow> key x = key y \<Longrightarrow> x = y" for t x y
    by (simp add: distinct_map inj_on_def)
  show "distinct (map key t) \<Longrightarrow> set (put r t) = insert r {x \<in> set t. key r \<noteq> key x}" for t r
    using put_rows by auto
qed (simp_all add: put_distinct)

end
