(* ===== verification/Store_Events.thy ===== *)
theory Store_Events
  imports Catalog Tables
begin

text \<open>
  The \<open>usage_events\<close> table of \<open>internal/database/database.go\<close>: its rows in rowid order, the
  primary key, the partial unique index over detailed Codex rows and the SQL statements that
  \<open>Ingest\<close>, \<open>refreshUsageEvent\<close>, \<open>findDetailedCodexDuplicate\<close> and \<open>migrate\<close> run on it. SQL NULL
  is \<open>None\<close>; a unique index holds NULLs distinct, while the operator IS compares them equal.
\<close>

record row =
  rw_event_id :: gostr
  rw_timestamp :: gostr
  rw_machine_id :: gostr
  rw_project :: gostr
  rw_provider :: gostr
  rw_raw_model :: gostr
  rw_canonical_model :: gostr
  rw_tool :: gostr
  rw_input :: "i64 option"
  rw_output :: "i64 option"
  rw_cache_read :: "i64 option"
  rw_cache_write :: "i64 option"
  rw_reasoning :: "i64 option"
  rw_total :: "i64 option"
  rw_cost :: "f64 option"
  rw_cost_estimated :: bool
  rw_currency :: gostr
  rw_session_id :: "gostr option"
  rw_duration :: "i64 option"
  rw_accuracy :: gostr
  rw_adapter :: gostr
  rw_adapter_version :: gostr

definition codex :: gostr where "codex = ''codex''"

subsection \<open>Rows\<close>

definition nullString :: "gostr \<Rightarrow> gostr option" where
  "nullString v = (if v = [] then None else Some v)"

definition currency_or_default :: "gostr \<Rightarrow> gostr" where
  "currency_or_default v = (if v = [] then ''USD'' else v)"

definition usageEventArgs :: "(nat \<Rightarrow> nat) \<Rightarrow> event \<Rightarrow> gostr \<Rightarrow> f64 option \<Rightarrow> bool \<Rightarrow> row" where
  "usageEventArgs ulow e canonicalModel cost costEstimated =
    \<lparr>rw_event_id = ev_EventID e, rw_timestamp = rfc3339_nano (ev_Timestamp e), rw_machine_id = ev_MachineID e,
     rw_project = NormalizeProject ulow (ev_Project e), rw_provider = ev_Provider e, rw_raw_model = ev_Model e,
     rw_canonical_model = canonicalModel, rw_tool = ev_Tool e,
     rw_input = ev_InputTokens e, rw_output = ev_OutputTokens e, rw_cache_read = ev_CacheReadTokens e,
     rw_cache_write = ev_CacheWriteTokens e, rw_reasoning = ev_ReasoningTokens e, rw_total = ev_TotalTokens e,
     rw_cost = cost, rw_cost_estimated = costEstimated, rw_currency = currency_or_default (ev_Currency e),
     rw_session_id = nullString (ev_SessionID e), rw_duration = ev_DurationMS e,
     rw_accuracy = ev_TokenAccuracy e, rw_adapter = src_Adapter (ev_Source e),
     rw_adapter_version = src_AdapterVersion (ev_Source e)\<rparr>"

definition isDetailedCodexEvent :: "event \<Rightarrow> bool" where
  "isDetailedCodexEvent e \<longleftrightarrow> src_Adapter (ev_Source e) = codex \<and> ev_InputTokens e \<noteq> None
    \<and> ev_OutputTokens e \<noteq> None \<and> ev_CacheReadTokens e \<noteq> None \<and> ev_CacheWriteTokens e \<noteq> None
    \<and> ev_ReasoningTokens e \<noteq> None \<and> ev_TotalTokens e \<noteq> None"

definition isAggregateCodexEvent :: "event \<Rightarrow> bool" where
  "isAggregateCodexEvent e \<longleftrightarrow> src_Adapter (ev_Source e) = codex \<and> ev_InputTokens e = None
    \<and> ev_OutputTokens e = None \<and> ev_CacheReadTokens e = None \<and> ev_CacheWriteTokens e = None"

subsection \<open>The unique index over detailed Codex rows\<close>

text \<open>The WHERE clause of \<open>idx_usage_events_codex_usage\<close>.\<close>

definition codex_indexed :: "row \<Rightarrow> bool" where
  "codex_indexed r \<longleftrightarrow> rw_adapter r = codex \<and> rw_input r \<noteq> None \<and> rw_output r \<noteq> None \<and> rw_cache_read r \<noteq> None
    \<and> rw_cache_write r \<noteq> None \<and> rw_reasoning r \<noteq> None \<and> rw_total r \<noteq> None"

text \<open>The indexed columns.\<close>

definition codex_columns :: "row \<Rightarrow> gostr \<times> gostr option \<times> gostr \<times> gostr \<times> gostr \<times> gostr \<times> i64 option list" where
  "codex_columns r = (rw_machine_id r, rw_session_id r, rw_timestamp r, rw_provider r, rw_raw_model r, rw_tool r,
    [rw_input r, rw_output r, rw_cache_read r, rw_cache_write r, rw_reasoning r, rw_total r])"

definition codex_conflict :: "row \<Rightarrow> row \<Rightarrow> bool" where
  "codex_conflict r x \<longleftrightarrow> codex_indexed r \<and> codex_indexed x \<and> rw_session_id r \<noteq> None
    \<and> codex_columns r = codex_columns x"

text \<open>Two rows that violate the primary key or the unique index.\<close>

definition conflicts :: "row \<Rightarrow> row \<Rightarrow> bool" where
  "conflicts r x \<longleftrightarrow> rw_event_id r = rw_event_id x \<or> codex_conflict r x"

fun table_ok :: "row list \<Rightarrow> bool" where
  "table_ok [] = True"
| "table_ok (r # t) = (list_all (\<lambda>x. \<not> conflicts r x) t \<and> table_ok t)"

subsection \<open>Statements\<close>

definition has_id :: "gostr \<Rightarrow> row list \<Rightarrow> bool" where
  "has_id i t \<longleftrightarrow> list_ex (\<lambda>x. rw_event_id x = i) t"

text \<open>\<open>INSERT OR IGNORE\<close>, with the number of affected rows.\<close>

definition insert_or_ignore :: "row \<Rightarrow> row list \<Rightarrow> row list \<times> nat" where
  "insert_or_ignore r t = (if list_ex (conflicts r) t then (t, 0) else (t @ [r], 1))"

text \<open>\<open>DELETE ... WHERE event_id = ?\<close>\<close>

definition delete_id :: "gostr \<Rightarrow> row list \<Rightarrow> row list" where
  "delete_id i t = filter (\<lambda>x. rw_event_id x \<noteq> i) t"

definition replace_id :: "gostr \<Rightarrow> row \<Rightarrow> row list \<Rightarrow> row list" where
  "replace_id i r t = map (\<lambda>x. if rw_event_id x = i then r else x) t"

text \<open>
  \<open>UPDATE OR IGNORE ... WHERE event_id = ?\<close> and whether a row was changed; the key is unique, so
  the statement touches one row at most and skips it when the new row violates a constraint.
\<close>

definition update_or_ignore :: "gostr \<Rightarrow> row \<Rightarrow> row list \<Rightarrow> row list \<times> bool" where
  "update_or_ignore i r t =
    (if has_id i t \<and> \<not> list_ex (conflicts r) (delete_id i t) then (replace_id i r t, True) else (t, False))"

text \<open>A plain \<open>UPDATE\<close> fails on a violated constraint.\<close>

datatype store_error = ConstraintViolation | IgnoredWithoutRow gostr | IntegerOverflow

definition update_plain :: "gostr \<Rightarrow> row \<Rightarrow> row list \<Rightarrow> store_error + row list \<times> bool" where
  "update_plain i r t =
    (if \<not> has_id i t then Inr (t, False)
     else if list_ex (conflicts r) (delete_id i t) then Inl ConstraintViolation
     else Inr (replace_id i r t, True))"

text \<open>\<open>SELECT event_id ... LIMIT 1\<close> over the dedup dimensions; \<open>r\<close> carries the bound values.\<close>

definition findDetailedCodexDuplicate :: "row \<Rightarrow> row list \<Rightarrow> gostr option" where
  "findDetailedCodexDuplicate r t =
    map_option rw_event_id (List.find (\<lambda>x. rw_adapter x = codex \<and> codex_columns x = codex_columns r) t)"

definition refreshUsageEvent :: "bool \<Rightarrow> row \<Rightarrow> row list \<Rightarrow> store_error + row list \<times> bool" where
  "refreshUsageEvent detailed r t =
    (let i = rw_event_id r in
     case update_or_ignore i r t of (t1, changed) \<Rightarrow>
       if changed then Inr (t1, True)
       else if \<not> detailed then Inr (t1, has_id i t1)
       else (case findDetailedCodexDuplicate r t1 of
           None \<Rightarrow> Inr (t1, has_id i t1)
         | Some duplicateID \<Rightarrow>
             if duplicateID = i then Inr (t1, True)
             else update_plain duplicateID r (delete_id i t1)))"

text \<open>The aggregate rows of a session, and the rows with a known component.\<close>

definition row_aggregate :: "row \<Rightarrow> bool" where
  "row_aggregate r \<longleftrightarrow> rw_adapter r = codex \<and> rw_input r = None \<and> rw_output r = None
    \<and> rw_cache_read r = None \<and> rw_cache_write r = None"

definition in_session :: "gostr \<Rightarrow> gostr \<Rightarrow> row \<Rightarrow> bool" where
  "in_session m s r \<longleftrightarrow> rw_machine_id r = m \<and> rw_session_id r = Some s"

definition detailedExists :: "gostr \<Rightarrow> gostr \<Rightarrow> row list \<Rightarrow> bool" where
  "detailedExists m s t \<longleftrightarrow> list_ex (\<lambda>x. in_session m s x \<and> rw_adapter x = codex
    \<and> (rw_input x \<noteq> None \<or> rw_output x \<noteq> None \<or> rw_cache_read x \<noteq> None \<or> rw_cache_write x \<noteq> None)) t"

definition delete_aggregates :: "gostr \<Rightarrow> gostr \<Rightarrow> row list \<Rightarrow> row list" where
  "delete_aggregates m s t = filter (\<lambda>x. \<not> (in_session m s x \<and> row_aggregate x)) t"

text \<open>
  \<open>SELECT SUM(total_tokens)\<close>: SQLite raises an error when the integer sum leaves 64 bits.
\<close>

fun sql_sum :: "i64 \<Rightarrow> i64 list \<Rightarrow> store_error + i64" where
  "sql_sum acc [] = Inr acc"
| "sql_sum acc (v # vs) = (if is_i64 (acc + v) then sql_sum (acc + v) vs else Inl IntegerOverflow)"

definition row_totals :: "row list \<Rightarrow> i64 list" where
  "row_totals t = concat (map (\<lambda>r. case rw_total r of None \<Rightarrow> [] | Some v \<Rightarrow> [v]) t)"

definition LifetimeTokens :: "row list \<Rightarrow> store_error + i64" where
  "LifetimeTokens t = sql_sum 0 (row_totals t)"

text \<open>The insert of \<open>Ingest\<close> and the refresh behind it; the flag says that a row was added.\<close>

definition put_event :: "bool \<Rightarrow> row \<Rightarrow> row list \<Rightarrow> store_error + row list \<times> bool" where
  "put_event detailed r t =
    (case insert_or_ignore r t of (t1, rows) \<Rightarrow>
       if rows = 0 then
         (case refreshUsageEvent detailed r t1 of
            Inl e \<Rightarrow> Inl e
          | Inr (t2, updated) \<Rightarrow> if updated then Inr (t2, False) else Inl (IgnoredWithoutRow (rw_event_id r)))
       else Inr (t1, True))"

subsection \<open>Migration\<close>

text \<open>
  The dedup statement of \<open>migrate\<close>: of the detailed Codex rows that agree on all grouped columns,
  NULL sessions included, only the one with the least rowid stays.
\<close>

fun dedupe_after :: "row list \<Rightarrow> row list \<Rightarrow> row list" where
  "dedupe_after seen [] = []"
| "dedupe_after seen (r # t) =
    (if codex_indexed r \<and> list_ex (\<lambda>x. codex_indexed x \<and> codex_columns x = codex_columns r) seen
     then dedupe_after (r # seen) t else r # dedupe_after (r # seen) t)"

definition dedupe :: "row list \<Rightarrow> row list" where "dedupe t = dedupe_after [] t"

text \<open>Creating the unique index fails when two rows share its columns.\<close>

fun index_violation :: "row list \<Rightarrow> bool" where
  "index_violation [] = False"
| "index_violation (r # t) = (list_ex (codex_conflict r) t \<or> index_violation t)"

definition migrate_events :: "row list \<Rightarrow> store_error + row list" where
  "migrate_events t =
    (let t' = dedupe t in if index_violation t' then Inl ConstraintViolation else Inr t')"

subsection \<open>The table invariant\<close>

lemma conflicts_sym: "conflicts r x = conflicts x r"
  by (auto simp: conflicts_def codex_conflict_def codex_columns_def)

lemma table_ok_iff: "table_ok t \<longleftrightarrow> (\<forall>i j. i < j \<longrightarrow> j < length t \<longrightarrow> \<not> conflicts (t ! i) (t ! j))"
proof (induction t)
  case (Cons r t)
  have "(\<forall>i j. i < j \<longrightarrow> j < length (r # t) \<longrightarrow> \<not> conflicts ((r # t) ! i) ((r # t) ! j))
    \<longleftrightarrow> (\<forall>j < length t. \<not> conflicts r (t ! j)) \<and> (\<forall>i j. i < j \<longrightarrow> j < length t \<longrightarrow> \<not> conflicts (t ! i) (t ! j))"
    by (auto simp: nth_Cons split: nat.splits)
  then show ?case using Cons by (simp add: list_all_length)
qed simp

lemma table_ok_append: "table_ok (t @ u) \<longleftrightarrow> table_ok t \<and> table_ok u \<and> (\<forall>x \<in> set t. \<forall>y \<in> set u. \<not> conflicts x y)"
  by (induction t) (auto simp: list_all_iff)

lemma table_ok_filter: "table_ok t \<Longrightarrow> table_ok (filter P t)"
  by (induction t) (auto simp: list_all_iff)

lemma table_ok_distinct: "table_ok t \<Longrightarrow> distinct (map rw_event_id t)"
  by (induction t) (auto simp: list_all_iff conflicts_def)

lemma table_ok_unique:
  assumes "table_ok t" "x \<in> set t" "y \<in> set t" "conflicts x y" shows "x = y"
  using assms by (induction t) (auto simp: list_all_iff conflicts_sym[of _ x])

lemma has_id_iff: "has_id i t \<longleftrightarrow> i \<in> rw_event_id ` set t"
  by (auto simp: has_id_def list_ex_iff)

lemma set_delete_id [simp]: "set (delete_id i t) = {x \<in> set t. rw_event_id x \<noteq> i}"
  by (simp add: delete_id_def)

lemma table_ok_replace:
  "table_ok t \<Longrightarrow> \<not> list_ex (conflicts r) (delete_id i t) \<Longrightarrow> table_ok (replace_id i r t)"
proof (induction t)
  case (Cons x t)
  have t: "\<not> list_ex (conflicts r) (delete_id i t)" using Cons.prems(2) by (auto simp: list_ex_iff)
  have x: "rw_event_id x \<noteq> i \<Longrightarrow> \<not> conflicts x r" using Cons.prems(2) by (auto simp: list_ex_iff conflicts_sym[of x])
  have d: "rw_event_id x = i \<Longrightarrow> y \<in> set t \<Longrightarrow> rw_event_id y \<noteq> i" for y
    using Cons.prems(1) by (auto simp: list_all_iff conflicts_def)
  show ?case
    using Cons.IH Cons.prems(1) t x d by (auto simp: replace_id_def list_all_iff list_ex_iff)
qed (simp add: replace_id_def)

lemma set_replace_id:
  "set (replace_id i r t) = (if has_id i t then insert r (set (delete_id i t)) else set t)"
  by (auto simp: replace_id_def has_id_def list_ex_iff)


subsection \<open>Insert or refresh\<close>

lemma codex_conflict_trans: "codex_conflict r x \<Longrightarrow> codex_conflict r y \<Longrightarrow> codex_conflict x y"
  by (auto simp: codex_conflict_def codex_columns_def)

lemma codex_conflict_find:
  "codex_conflict r x \<Longrightarrow> rw_adapter x = codex \<and> codex_columns x = codex_columns r"
  by (simp add: codex_conflict_def codex_indexed_def)

lemma find_conflict:
  assumes "codex_indexed r" "rw_session_id r \<noteq> None" "rw_adapter x = codex" "codex_columns x = codex_columns r"
  shows "codex_conflict r x"
  using assms by (auto simp: codex_conflict_def codex_indexed_def codex_columns_def)

text \<open>
  What the statements implement: the new row replaces every row it conflicts with. The row
  counts as accepted exactly when there was none.
\<close>

lemma put_event_spec:
  assumes "table_ok t" "detailed = codex_indexed r"
  shows "\<exists>t'. put_event detailed r t = Inr (t', \<not> list_ex (conflicts r) t) \<and> table_ok t'
    \<and> set t' = insert r {x \<in> set t. \<not> conflicts r x}"
proof (cases "list_ex (conflicts r) t")
  case False
  then show ?thesis
    using assms(1) by (auto simp: put_event_def insert_or_ignore_def table_ok_append list_ex_iff conflicts_sym[of r])
next
  case True
  let ?i = "rw_event_id r"
  have ins: "insert_or_ignore r t = (t, 0)" using True by (simp add: insert_or_ignore_def)
  show ?thesis
  proof (cases "list_ex (conflicts r) (delete_id ?i t)")
    case False
    then have h: "has_id ?i t" using True by (auto simp: list_ex_iff has_id_def conflicts_def)
    have "update_or_ignore ?i r t = (replace_id ?i r t, True)" using h False by (simp add: update_or_ignore_def)
    moreover have "set (replace_id ?i r t) = insert r {x \<in> set t. \<not> conflicts r x}"
      using h False by (auto simp: set_replace_id list_ex_iff conflicts_def)
    ultimately show ?thesis
      using table_ok_replace[OF assms(1) False] True by (simp add: put_event_def ins refreshUsageEvent_def)
  next
    case clash: True
    then obtain x where x: "x \<in> set t" "rw_event_id x \<noteq> ?i" "codex_conflict r x"
      by (auto simp: list_ex_iff conflicts_def)
    have upd: "update_or_ignore ?i r t = (t, False)" using clash by (simp add: update_or_ignore_def)
    have only: "y = x" if "y \<in> set t" "codex_conflict r y" for y
      using table_ok_unique[OF assms(1) that(1) x(1)] codex_conflict_trans[OF that(2) x(3)] by (simp add: conflicts_def)
    have idx: "codex_indexed r" "rw_session_id r \<noteq> None" using x(3) by (auto simp: codex_conflict_def)
    have "findDetailedCodexDuplicate r t = Some (rw_event_id x)"
    proof -
      have "List.find (\<lambda>x. rw_adapter x = codex \<and> codex_columns x = codex_columns r) t \<noteq> None"
        using codex_conflict_find[OF x(3)] x(1) unfolding find_None_iff by blast
      then obtain y where y: "List.find (\<lambda>x. rw_adapter x = codex \<and> codex_columns x = codex_columns r) t = Some y"
        by blast
      then have "y \<in> set t" "rw_adapter y = codex \<and> codex_columns y = codex_columns r"
        by (auto simp: find_Some_iff)
      then have "y = x" using only find_conflict[OF idx] by blast
      then show ?thesis using y by (simp add: findDetailedCodexDuplicate_def)
    qed
    then have ref: "refreshUsageEvent detailed r t = update_plain (rw_event_id x) r (delete_id ?i t)"
      using upd x(2) assms(2) idx by (simp add: refreshUsageEvent_def Let_def)
    let ?d = "delete_id ?i t"
    have ok: "table_ok ?d" using assms(1) table_ok_filter by (simp add: delete_id_def)
    have no: "\<not> list_ex (conflicts r) (delete_id (rw_event_id x) ?d)"
      using only by (auto simp: list_ex_iff conflicts_def)
    have h: "has_id (rw_event_id x) ?d" using x by (auto simp: has_id_iff)
    have "set (replace_id (rw_event_id x) r ?d) = insert r {y \<in> set t. \<not> conflicts r y}"
    proof -
      have "{y \<in> set ?d. rw_event_id y \<noteq> rw_event_id x} = {y \<in> set t. \<not> conflicts r y}"
      proof (intro set_eqI iffI)
        fix y assume y: "y \<in> {y \<in> set ?d. rw_event_id y \<noteq> rw_event_id x}"
        then have "\<not> codex_conflict r y" using only[of y] by auto
        then show "y \<in> {y \<in> set t. \<not> conflicts r y}" using y by (auto simp: conflicts_def)
      next
        fix y assume y: "y \<in> {y \<in> set t. \<not> conflicts r y}"
        then have "y \<noteq> x" using x(3) by (auto simp: conflicts_def)
        then have "\<not> conflicts y x" using table_ok_unique[OF assms(1) _ x(1), of y] y by blast
        then show "y \<in> {y \<in> set ?d. rw_event_id y \<noteq> rw_event_id x}" using y by (auto simp: conflicts_def)
      qed
      then show ?thesis using h by (simp add: set_replace_id)
    qed
    then show ?thesis
      using ref no h table_ok_replace[OF ok no] True by (simp add: put_event_def ins update_plain_def)
  qed
qed


subsection \<open>The events table as a replacing table\<close>

definition store_row :: "row \<Rightarrow> row list \<Rightarrow> row list" where
  "store_row r t = (case put_event (codex_indexed r) r t of Inl e \<Rightarrow> t | Inr (t', added) \<Rightarrow> t')"

interpretation usage_events: replacing_table conflicts table_ok store_row
proof unfold_locales
  show "conflicts r r" for r by (simp add: conflicts_def)
  show "conflicts r x \<Longrightarrow> conflicts x r" for r x by (simp add: conflicts_sym)
  show "table_ok []" by simp
  show "table_ok t \<Longrightarrow> x \<in> set t \<Longrightarrow> y \<in> set t \<Longrightarrow> conflicts x y \<Longrightarrow> x = y" for t x y by (rule table_ok_unique)
  show "table_ok t \<Longrightarrow> table_ok (store_row r t)" for r t
    using put_event_spec[of t _ r, OF _ refl] by (auto simp: store_row_def)
  show "table_ok t \<Longrightarrow> set (store_row r t) = insert r {x \<in> set t. \<not> conflicts r x}" for r t
    using put_event_spec[of t _ r, OF _ refl] by (force simp: store_row_def)
qed

text \<open>The insert-or-refresh statements of \<open>Ingest\<close> never hit a violated constraint and never
  report an event that was ignored without a stored row. They replace exactly the rows in
  conflict with the new one, keep the primary key and the unique Codex index, and count the row
  as new exactly when nothing was in conflict; writing it again changes nothing.\<close>

theorem put_event_replaces:
  assumes "table_ok t"
  shows "put_event (codex_indexed r) r t = Inr (store_row r t, \<not> list_ex (conflicts r) t)
    \<and> table_ok (store_row r t)
    \<and> set (store_row r t) = insert r {x \<in> set t. \<not> conflicts r x}
    \<and> distinct (map rw_event_id (store_row r t))
    \<and> set (store_row r (store_row r t)) = set (store_row r t)"
  using put_event_spec[OF assms refl, of r] usage_events.put_ok[OF assms, of r] usage_events.put_set[OF assms, of r]
    table_ok_distinct usage_events.put_again[OF assms, of r] by (auto simp: store_row_def)

definition sample_row :: row where
  "sample_row = usageEventArgs (\<lambda>r. r) sample_event ''gpt'' None False"

theorem put_event_replaces_witness:
  "put_event (codex_indexed sample_row) sample_row [] = Inr (store_row sample_row [], True)
   \<and> set (store_row sample_row []) = {sample_row}"
  using put_event_replaces[of "[]" sample_row] by simp


subsection \<open>Migration\<close>

abbreviation indexed_columns where "indexed_columns t \<equiv> map codex_columns (filter codex_indexed t)"

lemma dedupe_after_columns:
  "set (indexed_columns (dedupe_after seen t)) = set (indexed_columns t) - set (indexed_columns seen)"
  "distinct (indexed_columns (dedupe_after seen t))"
proof -
  have "set (indexed_columns (dedupe_after seen t)) = set (indexed_columns t) - set (indexed_columns seen)
    \<and> distinct (indexed_columns (dedupe_after seen t))"
  proof (induction seen t rule: dedupe_after.induct)
    case (2 seen r t)
    show ?case
    proof (cases "codex_indexed r \<and> list_ex (\<lambda>x. codex_indexed x \<and> codex_columns x = codex_columns r) seen")
      case True
      then obtain x where x: "x \<in> set seen" "codex_indexed x" "codex_columns r = codex_columns x"
        unfolding list_ex_iff by metis
      then have "codex_columns r \<in> set (indexed_columns seen)" by simp
      then show ?thesis using 2(1)[OF True] True by (simp del: set_map set_filter) blast
    next
      case False
      then have n: "codex_indexed r \<Longrightarrow> codex_columns r \<notin> set (indexed_columns seen)" by (auto simp: list_ex_iff)
      have d: "dedupe_after seen (r # t) = r # dedupe_after (r # seen) t" using False by auto
      show ?thesis
      proof (cases "codex_indexed r")
        case True
        then show ?thesis using 2(2)[OF False] n unfolding d by (simp del: set_map set_filter) blast
      next
        case nx: False
        then show ?thesis using 2(2)[OF False] unfolding d by (simp del: set_map set_filter)
      qed
    qed
  qed simp
  then show "set (indexed_columns (dedupe_after seen t)) = set (indexed_columns t) - set (indexed_columns seen)"
    "distinct (indexed_columns (dedupe_after seen t))" by blast+
qed

lemma dedupe_after_plain: "filter (\<lambda>r. \<not> codex_indexed r) (dedupe_after seen t) = filter (\<lambda>r. \<not> codex_indexed r) t"
  by (induction seen t rule: dedupe_after.induct) auto

lemma dedupe_after_fixed:
  "distinct (indexed_columns t) \<Longrightarrow> set (indexed_columns t) \<inter> set (indexed_columns seen) = {} \<Longrightarrow> dedupe_after seen t = t"
proof (induction seen t rule: dedupe_after.induct)
  case (2 seen r t)
  have "\<not> (codex_indexed r \<and> list_ex (\<lambda>x. codex_indexed x \<and> codex_columns x = codex_columns r) seen)"
    using "2.prems"(2) by (auto simp: list_ex_iff)
  then show ?case using 2 by (cases "codex_indexed r") auto
qed simp

lemma distinct_no_violation: "distinct (indexed_columns t) \<Longrightarrow> \<not> index_violation t"
  by (induction t) (auto simp: list_ex_iff codex_conflict_def split: if_splits)

lemma dedupe_after_subset: "set (dedupe_after seen t) \<subseteq> set t"
  by (induction seen t rule: dedupe_after.induct) auto

text \<open>The Codex dedup migration always succeeds: afterwards creating the unique index cannot
  fail. It keeps every row outside the index in order, keeps a row for every value of the indexed
  columns, adds nothing, and running it again changes nothing.\<close>

theorem migrate_events_dedupes:
  "migrate_events t = Inr (dedupe t)
   \<and> filter (\<lambda>r. \<not> codex_indexed r) (dedupe t) = filter (\<lambda>r. \<not> codex_indexed r) t
   \<and> set (indexed_columns (dedupe t)) = set (indexed_columns t)
   \<and> distinct (indexed_columns (dedupe t)) \<and> set (dedupe t) \<subseteq> set t
   \<and> migrate_events (dedupe t) = Inr (dedupe t)"
proof -
  have d: "distinct (indexed_columns (dedupe t))" unfolding dedupe_def by (rule dedupe_after_columns(2))
  have i: "dedupe (dedupe t) = dedupe t" using dedupe_after_fixed[OF d, of "[]"] by (simp add: dedupe_def)
  show ?thesis
    using d i distinct_no_violation[OF d] dedupe_after_columns(1)[of "[]" t] dedupe_after_plain[of "[]" t]
      dedupe_after_subset[of "[]" t]
    by (simp add: migrate_events_def Let_def) (simp add: dedupe_def)
qed

end
