(* ===== verification/Evolution.thy ===== *)
theory Evolution
  imports Float64
begin

text \<open>
  Package \<open>internal/evolution\<close> (\<open>evolution.go\<close>): the table of evolution forms, the stage a
  lifetime token count has reached, and the snapshot the dashboard shows. The lemmas relate the
  downward search of \<open>Stage\<close> to its specification (the last form whose threshold is met) and
  bound the progress value.
\<close>

record form =
  f_stage :: int
  f_slug :: gostr
  f_name :: gostr
  f_lowerThreshold :: i64

definition mk_form :: "int \<Rightarrow> gostr \<Rightarrow> gostr \<Rightarrow> i64 \<Rightarrow> form" where
  "mk_form st sl nm lo = \<lparr>f_stage = st, f_slug = sl, f_name = nm, f_lowerThreshold = lo\<rparr>"

definition forms :: "form list" where
  "forms =
    [mk_form 0 ''egg'' ''Egg'' 0,
     mk_form 1 ''bitling'' ''Bitling'' 10,
     mk_form 2 ''bytelet'' ''Bytelet'' 100,
     mk_form 3 ''promptling'' ''Promptling'' 1000,
     mk_form 4 ''context-cub'' ''Context Cub'' 10000,
     mk_form 5 ''token-scout'' ''Token Scout'' 100000,
     mk_form 6 ''code-caster'' ''Code Caster'' 1000000,
     mk_form 7 ''agent-beast'' ''Agent Beast'' 10000000,
     mk_form 8 ''context-dragon'' ''Context Dragon'' 100000000,
     mk_form 9 ''token-titan'' ''Token Titan'' 1000000000,
     mk_form 10 ''model-eater'' ''Model Eater'' 2000000000,
     mk_form 11 ''context-deity'' ''Context Deity'' 5000000000,
     mk_form 12 ''reality-core'' ''Reality Core'' 10000000000,
     mk_form 13 ''inference-leviathan'' ''Inference Leviathan'' 20000000000,
     mk_form 14 ''parameter-colossus'' ''Parameter Colossus'' 50000000000,
     mk_form 15 ''world-weaver'' ''World Weaver'' 100000000000,
     mk_form 16 ''cosmic-architect'' ''Cosmic Architect'' 200000000000,
     mk_form 17 ''universe-engine'' ''Universe Engine'' 500000000000,
     mk_form 18 ''the-singularity'' ''The Singularity'' 1000000000000]"

text \<open>The loop \<open>for stage := len(forms) - 1; stage > 0; stage--\<close>.\<close>

fun stage_search :: "nat \<Rightarrow> i64 \<Rightarrow> nat" where
  "stage_search 0 tokens = 0"
| "stage_search (Suc s) tokens =
    (if f_lowerThreshold (forms ! Suc s) \<le> tokens then Suc s else stage_search s tokens)"

definition Stage :: "i64 \<Rightarrow> nat" where
  "Stage tokens = (if tokens \<le> 0 then 0 else stage_search (length forms - 1) tokens)"

definition FormForStage :: "int \<Rightarrow> form" where
  "FormForStage stage =
    (let s = (if stage < 0 then 0 else stage);
         s = (if int (length forms) \<le> s then int (length forms) - 1 else s)
     in forms ! nat s)"

record snapshot =
  sn_LifetimeTokens :: i64
  sn_Stage :: nat
  sn_Form :: gostr
  sn_FormName :: gostr
  sn_LowerThreshold :: i64
  sn_NextThreshold :: "i64 option"
  sn_TokensRemaining :: "i64 option"
  sn_Progress :: f64

definition SnapshotFor :: "i64 \<Rightarrow> snapshot" where
  "SnapshotFor tokens0 =
    (let tokens = (if tokens0 < 0 then 0 else tokens0);
         stage = Stage tokens;
         form = FormForStage (int stage)
     in if stage = length forms - 1 then
          \<lparr>sn_LifetimeTokens = tokens, sn_Stage = stage, sn_Form = f_slug form, sn_FormName = f_name form,
           sn_LowerThreshold = f_lowerThreshold form, sn_NextThreshold = None, sn_TokensRemaining = None,
           sn_Progress = Fin 1\<rparr>
        else
          (let lower = f_lowerThreshold form;
               next_t = f_lowerThreshold (forms ! Suc stage);
               remaining = i64_sub next_t tokens;
               progress = f64_div (f64_of_int (i64_sub tokens lower)) (f64_of_int (i64_sub next_t lower));
               progress = (if f64_less progress (Fin 0) then Fin 0 else progress);
               progress = (if f64_less (Fin 1) progress then Fin 1 else progress)
           in \<lparr>sn_LifetimeTokens = tokens, sn_Stage = stage, sn_Form = f_slug form, sn_FormName = f_name form,
               sn_LowerThreshold = lower, sn_NextThreshold = Some next_t,
               sn_TokensRemaining = Some remaining, sn_Progress = progress\<rparr>))"

subsection \<open>The table\<close>

abbreviation threshold :: "nat \<Rightarrow> i64" where
  "threshold s \<equiv> f_lowerThreshold (forms ! s)"

lemma length_forms [simp]: "length forms = 19"
  by (simp add: forms_def)

lemma threshold_0 [simp]: "threshold 0 = 0"
  by (simp add: forms_def mk_form_def)

lemma thresholds_sorted: "sorted_wrt (<) (map f_lowerThreshold forms)"
  by (simp add: forms_def mk_form_def)

lemma thresholds_bounded: "list_all (\<lambda>f. 0 \<le> f_lowerThreshold f \<and> f_lowerThreshold f \<le> 1000000000000) forms"
  by (simp add: forms_def mk_form_def)

lemma stages_numbered: "i < length forms \<Longrightarrow> f_stage (forms ! i) = int i"
proof -
  have "map f_stage forms = map int [0..<19]"
    by (simp add: forms_def mk_form_def upt_rec)
  then show "i < length forms \<Longrightarrow> f_stage (forms ! i) = int i"
    by (metis length_forms length_map nth_map nth_upt add_0 diff_zero length_upt)
qed

lemma threshold_strict: "i < j \<Longrightarrow> j < length forms \<Longrightarrow> threshold i < threshold j"
  using thresholds_sorted by (auto simp: sorted_wrt_iff_nth_less)

lemma threshold_mono: "i \<le> j \<Longrightarrow> j < length forms \<Longrightarrow> threshold i \<le> threshold j"
  using threshold_strict[of i j] by (cases "i = j") auto

lemma threshold_range: "i < length forms \<Longrightarrow> 0 \<le> threshold i \<and> threshold i \<le> 1000000000000"
  using thresholds_bounded by (auto simp: list_all_length)

subsection \<open>The stage search\<close>

lemma stage_search_spec:
  assumes "0 \<le> tokens" "n < length forms"
  shows "stage_search n tokens \<le> n \<and> threshold (stage_search n tokens) \<le> tokens
    \<and> (\<forall>j. stage_search n tokens < j \<and> j \<le> n \<longrightarrow> tokens < threshold j)"
  using assms(2)
proof (induction n)
  case 0
  then show ?case using assms(1) by simp
next
  case (Suc n)
  then show ?case by (auto simp: le_Suc_eq)
qed

lemma Stage_le: "Stage tokens \<le> 18"
  using stage_search_spec[of tokens 18] by (simp add: Stage_def)

lemma Stage_spec:
  assumes "0 \<le> tokens"
  shows "threshold (Stage tokens) \<le> tokens"
    and "Stage tokens < j \<Longrightarrow> j < length forms \<Longrightarrow> tokens < threshold j"
proof -
  show "threshold (Stage tokens) \<le> tokens"
    using stage_search_spec[of tokens 18] assms by (simp add: Stage_def)
  assume j: "Stage tokens < j" "j < length forms"
  show "tokens < threshold j"
  proof (cases "tokens = 0")
    case True
    have "threshold 0 < threshold j" using j by (intro threshold_strict) auto
    then show ?thesis using True by simp
  next
    case False
    then show ?thesis using stage_search_spec[of tokens 18] assms j by (simp add: Stage_def)
  qed
qed

lemma FormForStage_in_range: "s < length forms \<Longrightarrow> FormForStage (int s) = forms ! s"
  by (simp add: FormForStage_def Let_def)

lemma Stage_unique:
  assumes "0 \<le> tokens" "s < length forms" "threshold s \<le> tokens"
    "\<And>j. s < j \<Longrightarrow> j < length forms \<Longrightarrow> tokens < threshold j"
  shows "Stage tokens = s"
proof (rule linorder_cases[of "Stage tokens" s])
  assume "Stage tokens < s"
  then show ?thesis using Stage_spec(2)[OF assms(1), of s] assms(2,3) by simp
next
  assume "s < Stage tokens"
  then have "tokens < threshold (Stage tokens)" using assms(4) Stage_le[of tokens] by simp
  then show ?thesis using Stage_spec(1)[OF assms(1)] by simp
qed

lemma Stage_mono: "a \<le> b \<Longrightarrow> Stage a \<le> Stage b"
proof (cases "0 \<le> a")
  case True
  assume "a \<le> b"
  show ?thesis
  proof (rule ccontr)
    assume "\<not> Stage a \<le> Stage b"
    then have "b < threshold (Stage a)" using Stage_spec(2)[of b] True \<open>a \<le> b\<close> Stage_le[of a] by simp
    then show False using Stage_spec(1)[OF True] \<open>a \<le> b\<close> by simp
  qed
qed (simp add: Stage_def)

subsection \<open>The snapshot\<close>

lemma snapshot_progress:
  assumes "0 \<le> t" "Stage t < 18"
  defines "lo \<equiv> threshold (Stage t)" and "nx \<equiv> threshold (Suc (Stage t))"
  shows "f64_div (f64_of_int (i64_sub t lo)) (f64_of_int (i64_sub nx lo))
      = round64 (of_int (t - lo) / of_int (nx - lo))"
    and "lo \<le> t" "t < nx" "i64_sub nx t = nx - t"
proof -
  have lo: "lo \<le> t" using Stage_spec(1)[OF assms(1)] by (simp add: lo_def)
  have nx: "t < nx" using Stage_spec(2)[OF assms(1), of "Suc (Stage t)"] assms(2) by (simp add: nx_def)
  have r: "0 \<le> lo" "nx \<le> 1000000000000"
    using threshold_range[of "Stage t"] threshold_range[of "Suc (Stage t)"] assms(2) by (simp_all add: lo_def nx_def)
  show "lo \<le> t" "t < nx" by (fact lo nx)+
  show "i64_sub nx t = nx - t"
    using lo nx r by (intro i64_sub_exact) (simp add: is_i64_def min_i64_def max_i64_def)
  have "i64_sub t lo = t - lo" "i64_sub nx lo = nx - lo"
    using lo nx r by (intro i64_sub_exact; simp add: is_i64_def min_i64_def max_i64_def)+
  moreover have "f64_of_int (t - lo) = Fin (of_int (t - lo))" "f64_of_int (nx - lo) = Fin (of_int (nx - lo))"
    using lo nx r by (intro f64_of_int_exact; linarith)+
  moreover have "(of_int (nx - lo) :: rat) \<noteq> 0" using lo nx by simp
  ultimately show "f64_div (f64_of_int (i64_sub t lo)) (f64_of_int (i64_sub nx lo))
      = round64 (of_int (t - lo) / of_int (nx - lo))" by simp
qed

lemma snapshot_ratio_unit:
  assumes "0 \<le> t" "Stage t < 18"
  shows "(0 :: rat) \<le> of_int (t - threshold (Stage t)) / of_int (threshold (Suc (Stage t)) - threshold (Stage t))"
    "(of_int (t - threshold (Stage t)) / of_int (threshold (Suc (Stage t)) - threshold (Stage t)) :: rat) \<le> 1"
  using snapshot_progress(2,3)[OF assms] by (simp_all add: zero_le_divide_iff divide_le_eq_1)

lemma f64_le_not_less: "f64_le a b \<Longrightarrow> \<not> f64_less b a"
  by (cases a; cases b) auto

text \<open>C0: \<open>Stage\<close> returns stage \<open>s\<close> exactly when \<open>s\<close> is the last form whose threshold the token
  count (negative counts read as zero) has reached.\<close>

theorem Stage_characterised:
  "Stage tokens = s \<longleftrightarrow>
     s < length forms \<and> f_lowerThreshold (forms ! s) \<le> max 0 tokens
     \<and> (s = length forms - 1 \<or> max 0 tokens < f_lowerThreshold (forms ! Suc s))"
proof -
  have m: "Stage tokens = Stage (max 0 tokens)" by (simp add: Stage_def max_def)
  have nn: "0 \<le> max 0 tokens" by simp
  show ?thesis
  proof
    assume "Stage tokens = s"
    then show "s < length forms \<and> threshold s \<le> max 0 tokens
        \<and> (s = length forms - 1 \<or> max 0 tokens < threshold (Suc s))"
      using Stage_spec[OF nn] Stage_le[of tokens] m by auto
  next
    assume r: "s < length forms \<and> threshold s \<le> max 0 tokens
        \<and> (s = length forms - 1 \<or> max 0 tokens < threshold (Suc s))"
    have "max 0 tokens < threshold j" if "s < j" "j < length forms" for j
      using r that threshold_mono[of "Suc s" j] by (cases "s = length forms - 1") auto
    then show "Stage tokens = s" unfolding m using r by (intro Stage_unique nn) auto
  qed
qed

text \<open>The snapshot for any token count is consistent: the counter is not negative, the progress
  is the correctly rounded quotient and lies between 0 and 1 (so the clamps of the code never fire), a next threshold is
  shown exactly below the final stage, and the remaining tokens are the exact difference,
  without overflow.\<close>

theorem SnapshotFor_consistent:
  "let sn = SnapshotFor t; u = max 0 t in
     sn_LifetimeTokens sn = u \<and> sn_Stage sn = Stage t \<and> sn_LowerThreshold sn \<le> u
     \<and> f64_le (Fin 0) (sn_Progress sn) \<and> f64_le (sn_Progress sn) (Fin 1)
     \<and> (case sn_NextThreshold sn of
          None \<Rightarrow> sn_Stage sn = length forms - 1 \<and> sn_TokensRemaining sn = None \<and> sn_Progress sn = Fin 1
        | Some nx \<Rightarrow> sn_Stage sn < length forms - 1 \<and> u < nx \<and> sn_TokensRemaining sn = Some (nx - u)
            \<and> sn_Progress sn = round64 (of_int (u - sn_LowerThreshold sn) / of_int (nx - sn_LowerThreshold sn)))"
proof -
  define u where "u = max 0 t"
  have u: "0 \<le> u" "(if t < 0 then 0 else t) = u" by (auto simp: u_def)
  have st: "Stage t = Stage u" by (simp add: u_def Stage_def max_def)
  have form: "FormForStage (int (Stage u)) = forms ! Stage u"
    using Stage_le[of u] by (intro FormForStage_in_range) simp
  show ?thesis
  proof (cases "Stage u = 18")
    case True
    then show ?thesis
      using Stage_spec(1)[OF u(1)] form
      by (simp add: SnapshotFor_def Let_def u(2) u_def[symmetric] st)
  next
    case False
    then have lt: "Stage u < 18" using Stage_le[of u] by simp
    note p = snapshot_progress[OF u(1) lt] and r = snapshot_ratio_unit[OF u(1) lt]
    note ri = round64_unit_interval[OF r]
    show ?thesis
      using False lt p(2-4) form ri f64_le_not_less[OF ri(1)] f64_le_not_less[OF ri(2)]
      by (simp add: SnapshotFor_def Let_def u(2) u_def[symmetric] st p(1))
  qed
qed

end
