(* ===== verification/Store_Ingest.thy ===== *)
theory Store_Ingest
  imports Store_Events Evolution
begin

text \<open>
  \<open>Store.Ingest\<close> of \<open>internal/database/database.go\<close> as a whole: validation, the suppression of
  obsolete aggregates, pricing, the machine row, insert or refresh, the transaction and the
  lifetime totals around it. An SQL statement fails only for the reasons modelled (a violated
  constraint, an integer sum out of range); input and output errors of the database are not.
\<close>

record machine =
  mc_id :: gostr
  mc_name :: gostr
  mc_operating_system :: gostr
  mc_architecture :: gostr
  mc_agent_version :: gostr
  mc_detected_adapters :: gostr
  mc_source_count :: int
  mc_source_error_count :: int
  mc_first_seen_at :: gostr
  mc_last_seen_at :: gostr

text \<open>A row of \<open>machine_source_health\<close> and one of \<open>display_aliases\<close>.\<close>

record health =
  hl_machine_id :: gostr
  hl_adapter :: gostr
  hl_source_hash :: gostr
  hl_last_successful_sync :: gostr
  hl_last_error_class :: gostr
  hl_updated_at :: gostr

record alias_row =
  al_kind :: gostr
  al_identity :: gostr
  al_alias :: gostr
  al_updated_at :: gostr

record store =
  st_events :: "row list"
  st_machines :: "machine list"
  st_health :: "health list"
  st_aliases :: "alias_row list"

text \<open>What \<open>Ingest\<close> reads besides the store; \<open>in_now i\<close> is the clock when event \<open>i\<close> is validated.\<close>

record ingest_env =
  in_ulow :: "nat \<Rightarrow> nat"
  in_marshal :: "(gostr \<times> json) list \<Rightarrow> gostr option"
  in_catalog :: "catalog option"
  in_now :: "nat \<Rightarrow> instant"

record counters =
  ct_Accepted :: nat
  ct_Duplicates :: nat
  ct_Rejected :: nat
  ct_Errors :: "(nat \<times> usage_error) list"

record ingest_result =
  ir_Counters :: counters
  ir_PreviousStage :: i64
  ir_CurrentStage :: i64
  ir_Evolved :: bool
  ir_PreviousTotal :: i64
  ir_CurrentTotal :: i64

definition no_counts :: counters where
  "no_counts = \<lparr>ct_Accepted = 0, ct_Duplicates = 0, ct_Rejected = 0, ct_Errors = []\<rparr>"

definition upsertMachine :: "event \<Rightarrow> gostr \<Rightarrow> machine list \<Rightarrow> machine list" where
  "upsertMachine e name ms =
    (let now = rfc3339_nano (ev_Timestamp e); i = ev_MachineID e in
     if list_ex (\<lambda>m. mc_id m = i) ms
     then map (\<lambda>m. if mc_id m = i
                   then m\<lparr>mc_name := name,
                          mc_last_seen_at := (if mc_last_seen_at m < now then now else mc_last_seen_at m)\<rparr>
                   else m) ms
     else ms @ [\<lparr>mc_id = i, mc_name = name, mc_operating_system = [], mc_architecture = [],
                 mc_agent_version = [], mc_detected_adapters = [], mc_source_count = 0,
                 mc_source_error_count = 0, mc_first_seen_at = now, mc_last_seen_at = now\<rparr>])"

text \<open>The canonical model, the cost and the \<open>cost_estimated\<close> flag of the row.\<close>

definition price_event :: "catalog option \<Rightarrow> event \<Rightarrow> gostr \<times> f64 option \<times> bool" where
  "price_event cat e =
    (let resolved = (if ev_CanonicalModel e = [] then Resolve cat (ev_Model e) else None);
         canonicalModel = (case resolved of None \<Rightarrow> ev_CanonicalModel e | Some (i, m) \<Rightarrow> i);
         estimatedCost = (case resolved of None \<Rightarrow> None
                          | Some (i, m) \<Rightarrow> if ev_Cost e = None then Estimate e m else None)
     in if ev_Cost e = None \<and> estimatedCost \<noteq> None then (canonicalModel, estimatedCost, True)
        else (canonicalModel, ev_Cost e, ev_CostEstimated e))"

definition event_row :: "ingest_env \<Rightarrow> event \<Rightarrow> row" where
  "event_row env e = (case price_event (in_catalog env) e of (canonicalModel, cost, estimated) \<Rightarrow>
    usageEventArgs (in_ulow env) e canonicalModel cost estimated)"

text \<open>The two session rules for Codex.\<close>

definition obsolete_aggregate :: "event \<Rightarrow> row list \<Rightarrow> bool" where
  "obsolete_aggregate e t \<longleftrightarrow>
    isAggregateCodexEvent e \<and> ev_SessionID e \<noteq> [] \<and> detailedExists (ev_MachineID e) (ev_SessionID e) t"

definition supersedes_aggregate :: "event \<Rightarrow> bool" where
  "supersedes_aggregate e \<longleftrightarrow> src_Adapter (ev_Source e) = codex \<and> ev_SessionID e \<noteq> []
    \<and> ev_InputTokens e \<noteq> None \<and> ev_TotalTokens e \<noteq> None"

definition drop_superseded :: "event \<Rightarrow> row list \<Rightarrow> row list" where
  "drop_superseded e t =
    (if supersedes_aggregate e then delete_aggregates (ev_MachineID e) (ev_SessionID e) t else t)"

text \<open>One iteration of the loop over the events.\<close>

definition ingest_event ::
  "ingest_env \<Rightarrow> store \<times> counters \<Rightarrow> nat \<times> event \<Rightarrow> store_error + store \<times> counters" where
  "ingest_event env sr ie = (case (sr, ie) of ((st, res), (i, e0)) \<Rightarrow>
    (let e = e0\<lparr>ev_Project := NormalizeProject (in_ulow env) (ev_Project e0)\<rparr> in
     case validateAt (in_ulow env) (in_marshal env) (in_now env i) e of
       Some err \<Rightarrow> Inr (st, res\<lparr>ct_Rejected := ct_Rejected res + 1, ct_Errors := ct_Errors res @ [(i + 1, err)]\<rparr>)
     | None \<Rightarrow>
        if obsolete_aggregate e (st_events st)
        then Inr (st, res\<lparr>ct_Duplicates := ct_Duplicates res + 1\<rparr>)
        else (case put_event (isDetailedCodexEvent e) (event_row env e) (drop_superseded e (st_events st)) of
            Inl err \<Rightarrow> Inl err
          | Inr (t, added) \<Rightarrow>
              Inr (st\<lparr>st_events := t, st_machines := upsertMachine e (ev_MachineID e) (st_machines st)\<rparr>,
                   if added then res\<lparr>ct_Accepted := ct_Accepted res + 1\<rparr>
                   else res\<lparr>ct_Duplicates := ct_Duplicates res + 1\<rparr>))))"

text \<open>
  The whole operation: the store afterwards, and the error or the result. A failure inside the
  transaction rolls it back; a failure of the total after the commit does not.
\<close>

definition Ingest :: "ingest_env \<Rightarrow> store \<Rightarrow> event list \<Rightarrow> store \<times> (store_error + ingest_result)" where
  "Ingest env st events =
    (case LifetimeTokens (st_events st) of
       Inl err \<Rightarrow> (st, Inl err)
     | Inr before \<Rightarrow>
        (case fold_err (ingest_event env) (st, no_counts) (enumerate 0 events) of
           Inl err \<Rightarrow> (st, Inl err)
         | Inr (st', res) \<Rightarrow>
            (case LifetimeTokens (st_events st') of
               Inl err \<Rightarrow> (st', Inl err)
             | Inr after \<Rightarrow>
                (st', Inr \<lparr>ir_Counters = res, ir_PreviousStage = Stage before, ir_CurrentStage = Stage after,
                           ir_Evolved = (Stage before < Stage after), ir_PreviousTotal = before,
                           ir_CurrentTotal = after\<rparr>))))"

subsection \<open>Totals\<close>

lemma sql_sum_exact: "sql_sum acc vs = Inr n \<Longrightarrow> n = acc + sum_list vs"
  by (induction acc vs rule: sql_sum.induct) (auto split: if_splits)

lemma sql_sum_nonneg:
  "\<forall>v \<in> set vs. 0 \<le> v \<Longrightarrow> 0 \<le> acc \<Longrightarrow> acc + sum_list vs \<le> max_i64 \<Longrightarrow> sql_sum acc vs = Inr (acc + sum_list vs)"
proof (induction acc vs rule: sql_sum.induct)
  case (2 acc v vs)
  have "0 \<le> sum_list vs" using 2(2) by (intro sum_list_nonneg) auto
  then have "is_i64 (acc + v)" using 2 by (auto simp: is_i64_def min_i64_def)
  then show ?case using 2 by (auto simp: add.assoc)
qed simp

lemma sql_sum_overflow:
  "\<forall>v \<in> set vs. 0 \<le> v \<Longrightarrow> is_i64 acc \<Longrightarrow> max_i64 < acc + sum_list vs \<Longrightarrow> sql_sum acc vs = Inl IntegerOverflow"
  by (induction acc vs rule: sql_sum.induct) (auto simp: is_i64_def add.assoc)

subsection \<open>The invariant of the store\<close>

text \<open>An aggregate row and a detailed row with a total in one session.\<close>

definition double_counted :: "row \<Rightarrow> row \<Rightarrow> bool" where
  "double_counted a d \<longleftrightarrow> row_aggregate a \<and> rw_adapter d = codex \<and> rw_input d \<noteq> None \<and> rw_total d \<noteq> None
    \<and> rw_machine_id a = rw_machine_id d \<and> rw_session_id a \<noteq> None \<and> rw_session_id a = rw_session_id d"

definition no_double_count :: "row list \<Rightarrow> bool" where
  "no_double_count t = list_all (\<lambda>a. list_all (\<lambda>d. \<not> double_counted a d) t) t"

definition total_ok :: "row \<Rightarrow> bool" where
  "total_ok r = (case rw_total r of None \<Rightarrow> True | Some v \<Rightarrow> 0 \<le> v)"

definition machine_known :: "machine list \<Rightarrow> row \<Rightarrow> bool" where
  "machine_known ms r = list_ex (\<lambda>m. mc_id m = rw_machine_id r) ms"

definition store_ok :: "store \<Rightarrow> bool" where
  "store_ok st \<longleftrightarrow> table_ok (st_events st) \<and> no_double_count (st_events st)
    \<and> list_all total_ok (st_events st) \<and> list_all (machine_known (st_machines st)) (st_events st)
    \<and> distinct (map mc_id (st_machines st))"

lemma event_row_fields:
  "rw_event_id (event_row env e) = ev_EventID e" "rw_adapter (event_row env e) = src_Adapter (ev_Source e)"
  "rw_machine_id (event_row env e) = ev_MachineID e" "rw_session_id (event_row env e) = nullString (ev_SessionID e)"
  "rw_input (event_row env e) = ev_InputTokens e" "rw_output (event_row env e) = ev_OutputTokens e"
  "rw_cache_read (event_row env e) = ev_CacheReadTokens e" "rw_cache_write (event_row env e) = ev_CacheWriteTokens e"
  "rw_reasoning (event_row env e) = ev_ReasoningTokens e" "rw_total (event_row env e) = ev_TotalTokens e"
  "rw_timestamp (event_row env e) = rfc3339_nano (ev_Timestamp e)"
  by (simp_all add: event_row_def usageEventArgs_def split: prod.splits)

lemmas [row_simps] = event_row_fields

lemma detailed_indexed [row_simps]: "isDetailedCodexEvent e = codex_indexed (event_row env e)"
  by (simp add: isDetailedCodexEvent_def codex_indexed_def event_row_fields)

lemma aggregate_row [row_simps]: "row_aggregate (event_row env e) = isAggregateCodexEvent e"
  by (simp add: isAggregateCodexEvent_def row_aggregate_def event_row_fields)

text \<open>One event: the machine row and the rows of the table afterwards.\<close>

lemma upsertMachine_distinct: "distinct (map mc_id ms) \<Longrightarrow> distinct (map mc_id (upsertMachine e n ms))"
proof -
  assume d: "distinct (map mc_id ms)"
  have "map mc_id (map (\<lambda>m. if mc_id m = i then f m else m) ms) = map mc_id ms" if "\<And>m. mc_id (f m) = mc_id m" for i f
    using that by simp
  then show ?thesis using d by (auto simp: upsertMachine_def Let_def list_ex_iff simp del: map_map)
qed

definition after_event :: "ingest_env \<Rightarrow> event \<Rightarrow> row list \<Rightarrow> row list" where
  "after_event env e t = store_row (event_row env e) (drop_superseded e t)"

lemma table_ok_drop: "table_ok t \<Longrightarrow> table_ok (drop_superseded e t)"
  by (simp add: drop_superseded_def delete_aggregates_def table_ok_filter)

lemma set_after_event:
  assumes "table_ok t"
  shows "set (after_event env e t) = insert (event_row env e) {x \<in> set (drop_superseded e t). \<not> conflicts (event_row env e) x}"
  unfolding after_event_def by (rule usage_events.put_set[OF table_ok_drop[OF assms]])

lemma no_double_count_after:
  assumes "table_ok t" "no_double_count t" "\<not> obsolete_aggregate e t"
  shows "no_double_count (after_event env e t)"
proof -
  let ?r = "event_row env e"
  have old: "x \<in> set t" if "x \<in> set (drop_superseded e t)" for x
    using that by (auto simp: drop_superseded_def delete_aggregates_def split: if_splits)
  have m: "x = ?r \<or> x \<in> set (drop_superseded e t)" if "x \<in> set (after_event env e t)" for x
    using that unfolding set_after_event[OF assms(1)] by blast
  have "\<not> double_counted a d" if "a \<in> set (after_event env e t)" "d \<in> set (after_event env e t)" for a d
  proof
    assume dc: "double_counted a d"
    consider "a \<in> set (drop_superseded e t)" "d \<in> set (drop_superseded e t)" | "a = ?r" "d \<noteq> ?r" | "a \<noteq> ?r" "d = ?r" | "a = ?r" "d = ?r"
      using m[OF \<open>a \<in> set (after_event env e t)\<close>] m[OF \<open>d \<in> set (after_event env e t)\<close>] by blast
    then show False
    proof cases
      case 1
      then show False using old assms(2) dc by (auto simp: no_double_count_def list_all_iff)
    next
      case 2
      then have d: "d \<in> set t" using m[OF that(2)] old by blast
      have s: "ev_SessionID e \<noteq> []" "rw_session_id d = Some (ev_SessionID e)" "rw_machine_id d = ev_MachineID e"
        "isAggregateCodexEvent e" "rw_adapter d = codex" "rw_input d \<noteq> None"
        using dc 2 by (auto simp: double_counted_def row_simps nullString_def split: if_splits)
      then have "detailedExists (ev_MachineID e) (ev_SessionID e) t"
        using d unfolding detailedExists_def list_ex_iff in_session_def by blast
      then show False using assms(3) s by (simp add: obsolete_aggregate_def)
    next
      case 3
      then have a: "a \<in> set (drop_superseded e t)" using m[OF that(1)] by blast
      have "supersedes_aggregate e" "in_session (ev_MachineID e) (ev_SessionID e) a" "row_aggregate a"
        using dc 3 by (auto simp: double_counted_def supersedes_aggregate_def in_session_def row_simps nullString_def split: if_splits)
      then show False using a by (simp add: drop_superseded_def delete_aggregates_def)
    next
      case 4
      then show False using dc by (auto simp: double_counted_def row_aggregate_def)
    qed
  qed
  then show ?thesis by (simp add: no_double_count_def list_all_iff)
qed


lemma upsertMachine_ids: "mc_id ` set (upsertMachine e n ms) = insert (ev_MachineID e) (mc_id ` set ms)"
proof -
  have "mc_id ` set (map (\<lambda>m. if mc_id m = i then f m else m) ms) = mc_id ` set ms"
    if "\<And>m. mc_id (f m) = mc_id m" for i f
    unfolding set_map image_image using that by (intro image_cong) auto
  moreover have "ev_MachineID e \<in> mc_id ` set ms" if "list_ex (\<lambda>m. mc_id m = ev_MachineID e) ms"
    using that unfolding list_ex_iff by force
  ultimately show ?thesis by (simp add: upsertMachine_def Let_def insert_absorb)
qed

lemma machine_known_iff: "machine_known ms r \<longleftrightarrow> rw_machine_id r \<in> mc_id ` set ms"
  unfolding machine_known_def list_ex_iff by force

lemma after_event_all:
  assumes "table_ok t" "list_all P t" "P (event_row env e)" shows "list_all P (after_event env e t)"
proof -
  have "list_all P (drop_superseded e t)"
    using assms(2) by (auto simp: drop_superseded_def delete_aggregates_def list_all_iff)
  then show ?thesis
    unfolding after_event_def using usage_events.put_all[OF table_ok_drop[OF assms(1)]] assms(3) by blast
qed

lemma total_ok_row: "validateAt ulow marshal now e = None \<Longrightarrow> total_ok (event_row env e)"
  using validateAt_totals(2)[of ulow marshal now e]
  by (auto simp: total_ok_def row_simps negative_field_def split: option.splits)

text \<open>The normalized event that the loop works on, and the store after it was written.\<close>

definition normalized :: "ingest_env \<Rightarrow> event \<Rightarrow> event" where
  "normalized env e = e\<lparr>ev_Project := NormalizeProject (in_ulow env) (ev_Project e)\<rparr>"

definition valid_in :: "ingest_env \<Rightarrow> nat \<Rightarrow> event \<Rightarrow> bool" where
  "valid_in env i e \<longleftrightarrow> validateAt (in_ulow env) (in_marshal env) (in_now env i) (normalized env e) = None"

definition write_event :: "ingest_env \<Rightarrow> event \<Rightarrow> store \<Rightarrow> store" where
  "write_event env e st =
    st\<lparr>st_events := after_event env e (st_events st),
       st_machines := upsertMachine e (ev_MachineID e) (st_machines st)\<rparr>"

lemma write_event_ok:
  assumes "store_ok st" "validateAt ulow marshal now e = None" "\<not> obsolete_aggregate e (st_events st)"
  shows "store_ok (write_event env e st)"
proof -
  have s: "table_ok (st_events st)" "no_double_count (st_events st)" "list_all total_ok (st_events st)"
    "list_all (machine_known (st_machines st)) (st_events st)" "distinct (map mc_id (st_machines st))"
    using assms(1) by (simp_all add: store_ok_def)
  let ?ms = "upsertMachine e (ev_MachineID e) (st_machines st)"
  have "list_all (machine_known ?ms) (st_events st)"
    using s(4) by (auto simp: list_all_iff machine_known_iff upsertMachine_ids)
  then have "list_all (machine_known ?ms) (after_event env e (st_events st))"
    by (rule after_event_all[OF s(1)]) (simp add: machine_known_iff upsertMachine_ids row_simps)
  moreover have "table_ok (after_event env e (st_events st))"
    unfolding after_event_def by (rule usage_events.put_ok[OF table_ok_drop[OF s(1)]])
  ultimately show ?thesis
    using no_double_count_after[OF s(1,2) assms(3)] after_event_all[OF s(1,3) total_ok_row[OF assms(2)]]
      upsertMachine_distinct[OF s(5)]
    by (simp add: store_ok_def write_event_def)
qed

text \<open>One iteration, case by case.\<close>

lemma ingest_event_cases:
  assumes "store_ok st"
  shows "ingest_event env (st, res) (i, e0) =
    (case validateAt (in_ulow env) (in_marshal env) (in_now env i) (normalized env e0) of
       Some err \<Rightarrow> Inr (st, res\<lparr>ct_Rejected := ct_Rejected res + 1, ct_Errors := ct_Errors res @ [(i + 1, err)]\<rparr>)
     | None \<Rightarrow>
        (let e = normalized env e0 in
         if obsolete_aggregate e (st_events st) then Inr (st, res\<lparr>ct_Duplicates := ct_Duplicates res + 1\<rparr>)
         else Inr (write_event env e st,
           if list_ex (conflicts (event_row env e)) (drop_superseded e (st_events st))
           then res\<lparr>ct_Duplicates := ct_Duplicates res + 1\<rparr> else res\<lparr>ct_Accepted := ct_Accepted res + 1\<rparr>)))"
proof -
  let ?e = "normalized env e0"
  have "table_ok (drop_superseded ?e (st_events st))" using assms table_ok_drop by (simp add: store_ok_def)
  from put_event_spec[OF this refl, of "event_row env ?e"]
  have "put_event (isDetailedCodexEvent ?e) (event_row env ?e) (drop_superseded ?e (st_events st))
    = Inr (after_event env ?e (st_events st), \<not> list_ex (conflicts (event_row env ?e)) (drop_superseded ?e (st_events st)))"
    by (auto simp: after_event_def store_row_def detailed_indexed[of ?e env])
  then show ?thesis
    unfolding ingest_event_def normalized_def[symmetric] write_event_def by (simp add: Let_def split: option.split)
qed

definition counted :: "counters \<Rightarrow> nat" where
  "counted c = ct_Accepted c + ct_Duplicates c + ct_Rejected c"

lemma ingest_event_step:
  assumes "store_ok st" "length (ct_Errors res) = ct_Rejected res"
  shows "\<exists>st' res'. ingest_event env (st, res) ie = Inr (st', res') \<and> store_ok st'
    \<and> counted res' = counted res + 1 \<and> length (ct_Errors res') = ct_Rejected res'"
proof -
  obtain i e0 where ie: "ie = (i, e0)" by (cases ie)
  show ?thesis
    unfolding ie ingest_event_cases[OF assms(1)]
    using assms write_event_ok[OF assms(1)] by (auto simp: Let_def counted_def split: option.splits)
qed

lemma ingest_loop:
  assumes "store_ok st" "length (ct_Errors res) = ct_Rejected res"
  shows "\<exists>st' res'. fold_err (ingest_event env) (st, res) ies = Inr (st', res') \<and> store_ok st'
    \<and> counted res' = counted res + length ies \<and> length (ct_Errors res') = ct_Rejected res'"
  using assms
proof (induction ies arbitrary: st res)
  case (Cons ie ies)
  obtain st1 res1 where 1: "ingest_event env (st, res) ie = Inr (st1, res1)" "store_ok st1"
    "counted res1 = counted res + 1" "length (ct_Errors res1) = ct_Rejected res1"
    using ingest_event_step[OF Cons.prems] by metis
  then show ?case using Cons.IH[OF 1(2,4)] by auto
qed simp

text \<open>C2: \<open>Ingest\<close> keeps the invariant of the store: unique event IDs and Codex rows, no session
  counted both as an aggregate and in detail, no negative total, a machine row for every event
  and one row per machine. The only error it can return is that the lifetime total leaves 64
  bits; on success every event was accepted, found to be a duplicate or rejected with a message,
  and the totals and stages reported are those of the store before and after.\<close>

theorem Ingest_keeps_store:
  assumes "store_ok st"
  shows "store_ok (fst (Ingest env st events))
    \<and> (case snd (Ingest env st events) of
         Inl err \<Rightarrow> err = IntegerOverflow
       | Inr r \<Rightarrow> counted (ir_Counters r) = length events
           \<and> length (ct_Errors (ir_Counters r)) = ct_Rejected (ir_Counters r)
           \<and> ir_PreviousTotal r = sum_list (row_totals (st_events st))
           \<and> ir_CurrentTotal r = sum_list (row_totals (st_events (fst (Ingest env st events))))
           \<and> ir_PreviousStage r = Stage (ir_PreviousTotal r) \<and> ir_CurrentStage r = Stage (ir_CurrentTotal r)
           \<and> ir_Evolved r = (ir_PreviousStage r < ir_CurrentStage r))"
proof -
  have err: "err = IntegerOverflow" if "sql_sum acc vs = Inl err" for acc vs err
    using that by (induction acc vs rule: sql_sum.induct) (auto split: if_splits)
  have cnt: "length (ct_Errors no_counts) = ct_Rejected no_counts" "counted no_counts = 0"
    by (simp_all add: no_counts_def counted_def)
  obtain st' res where l: "fold_err (ingest_event env) (st, no_counts) (enumerate 0 events) = Inr (st', res)" "store_ok st'"
    "counted res = length events" "length (ct_Errors res) = ct_Rejected res"
    using ingest_loop[OF assms cnt(1), of env "enumerate 0 events"] cnt(2) by auto
  show ?thesis
    unfolding Ingest_def l(1) LifetimeTokens_def
    using l assms err sql_sum_exact[of 0] by (auto split: sum.splits)
qed


subsection \<open>What one event does, and what a retry does\<close>

definition empty_store :: store where
  "empty_store = \<lparr>st_events = [], st_machines = [], st_health = [], st_aliases = []\<rparr>"

lemma empty_store_ok: "store_ok empty_store"
  by (simp add: store_ok_def empty_store_def no_double_count_def)

definition sample_env :: ingest_env where
  "sample_env = \<lparr>in_ulow = (\<lambda>r. r), in_marshal = (\<lambda>_. Some []), in_catalog = None, in_now = (\<lambda>_. 10)\<rparr>"

lemma normalized_sample: "normalized sample_env sample_event = sample_event"
  by (simp add: normalized_def sample_event_def NormalizeProject_def sample_env_def replace_char_def
      trim_space_def trim_right_char_def)

lemma sample_validates: "validateAt (in_ulow sample_env) (in_marshal sample_env) (in_now sample_env i) sample_event = None"
  using sample_event_valid by (simp add: sample_env_def)

lemma sample_not_obsolete: "\<not> obsolete_aggregate sample_event t" "\<not> isAggregateCodexEvent sample_event"
  "\<not> supersedes_aggregate sample_event" "drop_superseded sample_event t = t"
  by (simp_all add: obsolete_aggregate_def isAggregateCodexEvent_def supersedes_aggregate_def drop_superseded_def sample_event_def)

theorem Ingest_keeps_store_witness:
  "store_ok (fst (Ingest sample_env empty_store [sample_event, sample_event]))
   \<and> (case snd (Ingest sample_env empty_store [sample_event, sample_event]) of
        Inl err \<Rightarrow> err = IntegerOverflow | Inr r \<Rightarrow> counted (ir_Counters r) = 2)"
  using Ingest_keeps_store[OF empty_store_ok, of sample_env "[sample_event, sample_event]"] by (auto split: sum.splits)

text \<open>C13: One iteration of \<open>Ingest\<close> on a valid store: an invalid event changes nothing and is
  rejected, an aggregate of a session with detailed rows changes nothing and is a duplicate,
  and any other event ends up as a row of the table, in place of exactly the rows that share its
  event ID or its detailed Codex columns and of the session's aggregates when it supersedes
  them. It is accepted exactly when nothing was in conflict.\<close>

theorem ingest_event_effect:
  assumes "store_ok st"
  shows "ingest_event env (st, res) (i, e0) =
    (let e = normalized env e0; r = event_row env e; old = drop_superseded e (st_events st) in
     case validateAt (in_ulow env) (in_marshal env) (in_now env i) e of
       Some err \<Rightarrow> Inr (st, res\<lparr>ct_Rejected := ct_Rejected res + 1, ct_Errors := ct_Errors res @ [(i + 1, err)]\<rparr>)
     | None \<Rightarrow>
       if obsolete_aggregate e (st_events st) then Inr (st, res\<lparr>ct_Duplicates := ct_Duplicates res + 1\<rparr>)
       else Inr (st\<lparr>st_events := store_row r old,
                    st_machines := upsertMachine e (ev_MachineID e) (st_machines st)\<rparr>,
                 if list_ex (conflicts r) old then res\<lparr>ct_Duplicates := ct_Duplicates res + 1\<rparr>
                 else res\<lparr>ct_Accepted := ct_Accepted res + 1\<rparr>))
    \<and> (let e = normalized env e0; r = event_row env e; old = drop_superseded e (st_events st) in
       set (store_row r old) = insert r {x \<in> set old. \<not> conflicts r x}
       \<and> set old = {x \<in> set (st_events st). \<not> (supersedes_aggregate e
           \<and> in_session (ev_MachineID e) (ev_SessionID e) x \<and> row_aggregate x)})"
proof -
  have t: "table_ok (st_events st)" using assms by (simp add: store_ok_def)
  show ?thesis
    unfolding ingest_event_cases[OF assms] write_event_def after_event_def Let_def
    using usage_events.put_set[OF table_ok_drop[OF t]]
    by (auto simp: drop_superseded_def delete_aggregates_def split: option.splits)
qed

theorem ingest_event_effect_witness:
  "ingest_event sample_env (empty_store, no_counts) (0, sample_event)
    = Inr (empty_store\<lparr>st_events := store_row (event_row sample_env sample_event) [],
             st_machines := upsertMachine sample_event ''m'' []\<rparr>, no_counts\<lparr>ct_Accepted := 1\<rparr>)
   \<and> set (store_row (event_row sample_env sample_event) []) = {event_row sample_env sample_event}"
  using ingest_event_effect[OF empty_store_ok, of sample_env no_counts 0 sample_event]
  by (simp add: normalized_sample sample_validates sample_not_obsolete Let_def)
    (simp add: empty_store_def sample_event_def no_counts_def)

text \<open>An event that the store has dealt with: another attempt to send it finds it settled.\<close>

definition settled :: "ingest_env \<Rightarrow> store \<Rightarrow> nat \<Rightarrow> event \<Rightarrow> bool" where
  "settled env st i e0 = (let e = normalized env e0 in
    validateAt (in_ulow env) (in_marshal env) (in_now env i) e \<noteq> None
    \<or> obsolete_aggregate e (st_events st) \<or> event_row env e \<in> set (st_events st))"

lemma drop_superseded_settled:
  assumes "no_double_count t" "event_row env e \<in> set t"
  shows "drop_superseded e t = t"
proof (cases "supersedes_aggregate e")
  case True
  have "\<not> (in_session (ev_MachineID e) (ev_SessionID e) x \<and> row_aggregate x)" if "x \<in> set t" for x
  proof
    assume "in_session (ev_MachineID e) (ev_SessionID e) x \<and> row_aggregate x"
    then have "double_counted x (event_row env e)"
      using True by (auto simp: double_counted_def row_simps supersedes_aggregate_def in_session_def nullString_def)
    then show False using assms that by (auto simp: no_double_count_def list_all_iff)
  qed
  then show ?thesis by (simp add: drop_superseded_def delete_aggregates_def)
qed (simp add: drop_superseded_def)

lemma store_row_stored:
  assumes "table_ok t" "r \<in> set t" shows "store_row r t = t" "list_ex (conflicts r) t"
proof -
  let ?i = "rw_event_id r"
  have same: "y = r" if "y \<in> set t" "conflicts r y" for y using table_ok_unique[OF assms that(1,2)] by simp
  have "\<not> list_ex (conflicts r) (delete_id ?i t)" using same by (auto simp: list_ex_iff)
  moreover have "has_id ?i t" using assms(2) by (auto simp: has_id_iff)
  moreover have "replace_id ?i r t = t"
    unfolding replace_id_def
  proof (intro map_idI)
    fix x assume "x \<in> set t"
    then show "(if rw_event_id x = ?i then r else x) = x" using same[of x] by (auto simp: conflicts_def)
  qed
  ultimately have "update_or_ignore ?i r t = (t, True)" by (simp add: update_or_ignore_def)
  moreover show c: "list_ex (conflicts r) t" using assms(2) by (auto simp: list_ex_iff conflicts_def)
  ultimately show "store_row r t = t" by (simp add: store_row_def put_event_def insert_or_ignore_def refreshUsageEvent_def)
qed

lemma settled_step:
  assumes "store_ok st" "settled env st i e0"
  shows "\<exists>st' res'. ingest_event env (st, res) (i, e0) = Inr (st', res') \<and> st_events st' = st_events st
    \<and> store_ok st' \<and> ct_Accepted res' = ct_Accepted res"
proof -
  let ?e = "normalized env e0"
  have t: "table_ok (st_events st)" "no_double_count (st_events st)" using assms(1) by (simp_all add: store_ok_def)
  show ?thesis
  proof (cases "validateAt (in_ulow env) (in_marshal env) (in_now env i) ?e")
    case None
    show ?thesis
    proof (cases "obsolete_aggregate ?e (st_events st)")
      case False
      then have r: "event_row env ?e \<in> set (st_events st)" using assms(2) None by (simp add: settled_def Let_def)
      have d: "drop_superseded ?e (st_events st) = st_events st" by (rule drop_superseded_settled[OF t(2) r])
      show ?thesis
        using write_event_ok[OF assms(1) None False, of env] None False store_row_stored[OF t(1) r]
        unfolding ingest_event_cases[OF assms(1)] by (simp add: Let_def d write_event_def after_event_def)
    qed (use None assms(1) in \<open>simp add: ingest_event_cases[OF assms(1)] Let_def\<close>)
  qed (use assms(1) in \<open>simp add: ingest_event_cases[OF assms(1)]\<close>)
qed

lemma settled_cong: "st_events st = st_events st' \<Longrightarrow> settled env st i e = settled env st' i e"
  by (simp add: settled_def obsolete_aggregate_def)

lemma settled_loop:
  assumes "store_ok st" "\<forall>(i, e) \<in> set ies. settled env st i e"
  shows "\<exists>st' res'. fold_err (ingest_event env) (st, res) ies = Inr (st', res') \<and> st_events st' = st_events st
    \<and> ct_Accepted res' = ct_Accepted res"
  using assms
proof (induction ies arbitrary: st res)
  case (Cons ie ies)
  obtain i e0 where ie: "ie = (i, e0)" by (cases ie)
  obtain st1 res1 where 1: "ingest_event env (st, res) (i, e0) = Inr (st1, res1)" "st_events st1 = st_events st"
    "store_ok st1" "ct_Accepted res1 = ct_Accepted res"
    using settled_step[OF Cons.prems(1)] Cons.prems(2) ie by fastforce
  have "\<forall>(i, e) \<in> set ies. settled env st1 i e" using Cons.prems(2) settled_cong[OF 1(2)] by auto
  from Cons.IH[OF 1(3) this, of res1] show ?case using 1 ie by auto
qed simp

lemma settled_after:
  assumes "store_ok st" "ingest_event env (st, res) (i, e0) = Inr (st', res')"
  shows "settled env st' i e0"
proof -
  have t: "table_ok (st_events st)" using assms(1) by (simp add: store_ok_def)
  show ?thesis
    using assms(2) set_after_event[OF t, of env "normalized env e0"] unfolding ingest_event_cases[OF assms(1)]
    by (auto simp: settled_def Let_def write_event_def split: option.splits if_splits)
qed

text \<open>Sending again what the store has dealt with is harmless: when every event of a batch is
  settled (invalid, an obsolete aggregate, or stored), \<open>Ingest\<close> leaves the events table exactly as
  it is, accepts nothing and reports no evolution; and every event is settled once ingested.\<close>

theorem Ingest_replay:
  assumes "store_ok st" and "list_all (\<lambda>(i, e). settled env st i e) (enumerate 0 events)"
  shows "st_events (fst (Ingest env st events)) = st_events st
    \<and> (case snd (Ingest env st events) of Inl err \<Rightarrow> True
       | Inr r \<Rightarrow> ct_Accepted (ir_Counters r) = 0 \<and> ir_CurrentTotal r = ir_PreviousTotal r \<and> \<not> ir_Evolved r)
    \<and> (case ingest_event env (st, res) (i, e) of Inl err \<Rightarrow> True | Inr (st', res') \<Rightarrow> settled env st' i e)"
proof -
  obtain st' res' where l: "fold_err (ingest_event env) (st, no_counts) (enumerate 0 events) = Inr (st', res')"
    "st_events st' = st_events st" "ct_Accepted res' = 0"
    using settled_loop[OF assms(1), of "enumerate 0 events" env no_counts] assms(2)
    by (auto simp: list_all_iff no_counts_def)
  show ?thesis
    unfolding Ingest_def l(1) using l(2,3) settled_after[OF assms(1), of env res i e] by (auto split: sum.splits)
qed

definition one_event_store :: store where "one_event_store = write_event sample_env sample_event empty_store"

lemma one_event_store_ok: "store_ok one_event_store"
  unfolding one_event_store_def by (rule write_event_ok[OF empty_store_ok sample_validates sample_not_obsolete(1)])

lemma one_event_rows: "st_events one_event_store = [event_row sample_env sample_event]"
  by (simp add: one_event_store_def write_event_def after_event_def empty_store_def sample_not_obsolete
      store_row_def put_event_def insert_or_ignore_def)

theorem Ingest_replay_witness:
  "st_events (fst (Ingest sample_env one_event_store [sample_event, sample_event])) = [event_row sample_env sample_event]"
proof -
  have "settled sample_env one_event_store i sample_event" for i
    by (simp add: settled_def Let_def normalized_sample one_event_rows)
  then show ?thesis
    using Ingest_replay[OF one_event_store_ok, of sample_env "[sample_event, sample_event]"]
    by (simp add: one_event_rows)
qed

text \<open>C14: Nothing bounds a single valid total below 64 bits, and the total is checked only after the
  commit: an event that takes the lifetime sum out of range is stored although \<open>Ingest\<close> returns an
  error, and from then on every \<open>Ingest\<close> fails without storing anything.\<close>

theorem Ingest_overflow_stuck:
  assumes "store_ok st" "LifetimeTokens (st_events st) = Inr n"
    and "valid_in env 0 e" "\<not> isAggregateCodexEvent (normalized env e)" "\<not> supersedes_aggregate (normalized env e)"
    and "\<not> list_ex (conflicts (event_row env (normalized env e))) (st_events st)"
    and "ev_TotalTokens e = Some v" "max_i64 < n + v"
  shows "(let st' = fst (Ingest env st [e]) in
      Ingest env st [e] = (st', Inl IntegerOverflow)
      \<and> set (st_events st') = insert (event_row env (normalized env e)) (set (st_events st))
      \<and> Ingest env' st' events = (st', Inl IntegerOverflow))"
proof -
  let ?e = "normalized env e"
  have t: "table_ok (st_events st)" using assms(1) by (simp add: store_ok_def)
  have drop: "drop_superseded ?e (st_events st) = st_events st" using assms(5) by (simp add: drop_superseded_def)
  have nob: "\<not> obsolete_aggregate ?e (st_events st)" using assms(4) by (simp add: obsolete_aggregate_def)
  have val: "validateAt (in_ulow env) (in_marshal env) (in_now env 0) ?e = None" using assms(3) by (simp add: valid_in_def)
  have put: "put_event (codex_indexed (event_row env ?e)) (event_row env ?e) (st_events st) = Inr (st_events st @ [event_row env ?e], True)"
    using assms(6) by (simp add: put_event_def insert_or_ignore_def)
  have rows: "st_events (write_event env ?e st) = st_events st @ [event_row env ?e]"
    by (simp add: write_event_def after_event_def drop store_row_def put)
  have step: "ingest_event env (st, no_counts) (0, e) = Inr (write_event env ?e st, no_counts\<lparr>ct_Accepted := 1\<rparr>)"
    using val nob assms(6) by (simp add: ingest_event_cases[OF assms(1)] Let_def drop no_counts_def)
  have ok': "store_ok (write_event env ?e st)" by (rule write_event_ok[OF assms(1) val nob])
  have tv: "rw_total (event_row env ?e) = Some v" using assms(7) by (simp add: row_simps normalized_def)
  have "row_totals (st_events (write_event env ?e st)) = row_totals (st_events st) @ [v]"
    by (simp add: rows row_totals_def tv)
  moreover have "n = sum_list (row_totals (st_events st))" using assms(2) sql_sum_exact[of 0] by (simp add: LifetimeTokens_def)
  moreover have "\<forall>x \<in> set (row_totals (st_events (write_event env ?e st))). 0 \<le> x"
    using ok' by (auto simp: store_ok_def list_all_iff total_ok_def row_totals_def split: option.splits)
  ultimately have "LifetimeTokens (st_events (write_event env ?e st)) = Inl IntegerOverflow"
    unfolding LifetimeTokens_def using assms(8) by (intro sql_sum_overflow) (auto simp: is_i64_def min_i64_def max_i64_def)
  then show ?thesis using assms(2) step by (simp add: Ingest_def rows Let_def)
qed


definition huge_event :: event where
  "huge_event = sample_event\<lparr>ev_EventID := ''e2'', ev_TotalTokens := Some max_i64\<rparr>"

lemma huge_event_facts:
  "valid_in sample_env 0 huge_event" "\<not> isAggregateCodexEvent (normalized sample_env huge_event)"
  "\<not> supersedes_aggregate (normalized sample_env huge_event)" "normalized sample_env huge_event = huge_event"
proof -
  show n: "normalized sample_env huge_event = huge_event"
    by (simp add: normalized_def huge_event_def sample_event_def NormalizeProject_def sample_env_def replace_char_def
      trim_space_def trim_right_char_def)
  show "\<not> isAggregateCodexEvent (normalized sample_env huge_event)" "\<not> supersedes_aggregate (normalized sample_env huge_event)"
    unfolding n by (simp_all add: isAggregateCodexEvent_def supersedes_aggregate_def huge_event_def sample_event_def)
  show "valid_in sample_env 0 huge_event"
    unfolding valid_in_def n
    by (simp add: huge_event_def sample_env_def sample_event_def validateAt_def validateIdentifier_def validateText_def str_eval
      validateEventIDDigest_def eventIDPrefix_def event_schema_version_def zero_time_def nanos_per_day_def
      contains_any_def Accuracy_Valid_def AccuracyReported_def negative_field_def bad_currency_def
      validateTokenTotals_def token_components_def max_i64_def i64_sub_def i64_add_def wrap64_def isASCIIAlpha_def fail_if_def
      upper_ascii_def has_prefix_def del: runes.simps(2))
qed

theorem Ingest_overflow_stuck_witness:
  "Ingest sample_env (fst (Ingest sample_env one_event_store [huge_event])) [sample_event]
    = (fst (Ingest sample_env one_event_store [huge_event]), Inl IntegerOverflow)"
proof -
  have l: "LifetimeTokens (st_events one_event_store) = Inr 7"
    by (simp add: LifetimeTokens_def one_event_rows row_totals_def row_simps sample_event_def is_i64_def min_i64_def max_i64_def)
  have c: "\<not> list_ex (conflicts (event_row sample_env (normalized sample_env huge_event))) (st_events one_event_store)"
    by (simp add: one_event_rows conflicts_def codex_conflict_def row_simps huge_event_facts(4))
      (simp add: huge_event_def sample_event_def nullString_def)
  show ?thesis
    using Ingest_overflow_stuck[OF one_event_store_ok l huge_event_facts(1-3) c, of max_i64 sample_env "[sample_event]"]
    by (simp add: huge_event_def Let_def)
qed

end
