(* ===== verification/Go_Zone.thy ===== *)
theory Go_Zone
  imports Go_Time
begin

text \<open>
  Durations and time zones of package \<open>time\<close>: the saturating \<open>Sub\<close>, and dates in a location,
  which is given by its offset from UTC (in seconds) at each Unix second. The zone database is
  data of the Go distribution.
\<close>

subsection \<open>Durations\<close>

definition seconds :: "int \<Rightarrow> i64" where "seconds n = n * nanos_per_second"

definition minutes :: "int \<Rightarrow> i64" where "minutes n = seconds (60 * n)"

text \<open>\<open>Sub\<close> saturates.\<close>

definition time_sub :: "instant \<Rightarrow> instant \<Rightarrow> i64" where
  "time_sub a b = (if a - b < min_i64 then min_i64 else if max_i64 < a - b then max_i64 else a - b)"

lemma time_sub_pos: "0 < time_sub a b \<longleftrightarrow> 0 < a - b"
  by (simp add: time_sub_def min_i64_def max_i64_def)

lemma time_sub_exact: "is_i64 (a - b) \<Longrightarrow> time_sub a b = a - b"
  by (simp add: time_sub_def is_i64_def)

lemma time_sub_le: "is_i64 d \<Longrightarrow> d < max_i64 \<Longrightarrow> time_sub a b \<le> d \<longleftrightarrow> a - b \<le> d"
  by (auto simp: time_sub_def is_i64_def)

lemma time_sub_neg: "time_sub a b < 0 \<longleftrightarrow> a - b < 0"
  by (auto simp: time_sub_def min_i64_def max_i64_def)

text \<open>\<open>Duration.Milliseconds\<close>.\<close>

definition duration_ms :: "i64 \<Rightarrow> i64" where "duration_ms d = go_div d 1000000"

subsection \<open>Locations\<close>

type_synonym location = "int \<Rightarrow> int"

definition UTC :: location where "UTC = (\<lambda>_. 0)"

definition local_seconds :: "location \<Rightarrow> instant \<Rightarrow> int" where
  "local_seconds loc t = unix_seconds t + loc (unix_seconds t)"

definition local_day :: "location \<Rightarrow> instant \<Rightarrow> int" where "local_day loc t = local_seconds loc t div 86400 + epoch_day"

definition local_clock :: "location \<Rightarrow> instant \<Rightarrow> int" where "local_clock loc t = local_seconds loc t mod 86400"

text \<open>
  \<open>time.Date\<close>: the wall clock as if in UTC, moved by the offset found there, or by the offset
  found after moving when that is the one in force.
\<close>

definition date_at :: "location \<Rightarrow> int \<Rightarrow> int \<Rightarrow> int \<Rightarrow> instant" where
  "date_at loc day clock nanos =
    (let s = (day - epoch_day) * 86400 + clock; o1 = loc s;
         unix = (if o1 = 0 then s else s - loc (s - o1))
     in unix * nanos_per_second + nanos)"

definition add_days :: "location \<Rightarrow> int \<Rightarrow> instant \<Rightarrow> instant" where
  "add_days loc n t = date_at loc (local_day loc t + n) (local_clock loc t) (t mod nanos_per_second)"

lemma local_UTC [simp]: "local_day UTC t = instant_day t" "local_clock UTC t = instant_clock t"
  by (simp_all add: local_day_def local_clock_def local_seconds_def UTC_def instant_day_def instant_clock_def)

lemma date_at_UTC: "date_at UTC d 0 0 = instant_of_day d"
  by (simp add: date_at_def UTC_def instant_of_day_def)

lemma instant_of_day_parts [simp]:
  "unix_seconds (instant_of_day d) = (d - epoch_day) * 86400" "instant_day (instant_of_day d) = d"
  "instant_clock (instant_of_day d) = 0" "instant_of_day d mod nanos_per_second = 0"
  by (simp_all add: instant_of_day_def unix_seconds_def instant_day_def instant_clock_def nanos_per_second_def)

end
