(* ===== verification/Agent_Client.thy ===== *)
theory Agent_Client
  imports Adapters_Core Usage_Privacy Store_Ingest Go_Zone
begin

text \<open>
  The client of the agent, \<open>internal/agent/client.go\<close>: batches under the size limit of the hub, the
  requests and how their replies are read. The network and the hub behind it are a state of type
  \<open>'h\<close> and the functions of a \<open>peer\<close>, which also holds the JSON encoders and decoders.
\<close>

record client =
  cl_ServerURL :: gostr
  cl_Token :: gostr
  cl_RequestTimeout :: i64

record capabilities =
  cp_InputTokens :: bool
  cp_OutputTokens :: bool
  cp_CacheTokens :: bool
  cp_ReasoningTokens :: bool
  cp_Cost :: bool
  cp_SessionID :: bool
  cp_Duration :: bool

record adapter_heartbeat =
  ab_ID :: gostr
  ab_Version :: gostr
  ab_Capabilities :: capabilities

record source_health_heartbeat =
  sh_Adapter :: gostr
  sh_IdentityHash :: gostr
  sh_LastSuccessfulSync :: "instant option"
  sh_LastErrorClass :: gostr

record heartbeat_request =
  hq_MachineID :: gostr
  hq_AgentVersion :: gostr
  hq_OperatingSystem :: gostr
  hq_Architecture :: gostr
  hq_Adapters :: "adapter_heartbeat list"
  hq_SourceCount :: int
  hq_SourceErrorCount :: int
  hq_Sources :: "source_health_heartbeat list"

definition SourceErrorClass :: "go_err option \<Rightarrow> gostr" where
  "SourceErrorClass err =
    (case err of None \<Rightarrow> []
     | Some e \<Rightarrow> if NotExist \<in> set e then ''missing''
         else if Permission \<in> set e then ''permission''
         else if DeadlineExceeded \<in> set e \<or> Canceled \<in> set e then ''timeout''
         else ''other'')"

definition maxIngestBatchBytes :: nat where "maxIngestBatchBytes = 4 * 2 ^ 20"
definition maxIngestBatchEvents :: nat where "maxIngestBatchEvents = 100"
definition DefaultClientTimeout :: i64 where "DefaultClientTimeout = seconds 30"
definition healthTimeout :: i64 where "healthTimeout = seconds 10"

text \<open>What goes over the wire, and what comes back.\<close>

record outgoing =
  og_Method :: gostr
  og_URL :: gostr
  og_Header :: "gostr \<Rightarrow> gostr"
  og_Body :: gostr
  og_Timeout :: i64

record reply =
  re_StatusCode :: int
  re_Status :: gostr
  re_Body :: gostr

record 'h peer =
  pe_ulow :: "nat \<Rightarrow> nat"
  pe_event :: "event \<Rightarrow> gostr option"
  pe_heartbeat :: "heartbeat_request \<Rightarrow> gostr option"
  pe_result :: "gostr \<Rightarrow> ingest_result option"
  pe_url_ok :: "gostr \<Rightarrow> bool"
  pe_Do :: "outgoing \<Rightarrow> 'h \<Rightarrow> 'h \<times> (go_err + reply)"

datatype client_error =
    ServerURLRequired
  | EventsEmpty
  | NotPrivate nat privacy_error
  | EventNotEncoded
  | EventTooLarge
  | PayloadNotEncoded
  | BadURL
  | TransportFailed go_err
  | ServerReturned gostr gostr
  | BadResponse

definition requestTimeout :: "client \<Rightarrow> i64" where
  "requestTimeout c = (if cl_RequestTimeout c \<le> 0 then DefaultClientTimeout else cl_RequestTimeout c)"

definition sanitizeOutboundEvents :: "event list \<Rightarrow> event list" where
  "sanitizeOutboundEvents events = map SanitizeOutbound events"

subsection \<open>Batches\<close>

definition envelope :: gostr where "envelope = ''{\"events\":[]}''"
definition envelopeBytes :: nat where "envelopeBytes = length envelope - 2"

text \<open>\<open>json.Marshal\<close> of a \<open>batchRequest\<close> with at least one event.\<close>

definition marshal_batch :: "(event \<Rightarrow> gostr option) \<Rightarrow> event list \<Rightarrow> gostr option" where
  "marshal_batch marshal es =
    (if list_ex (\<lambda>e. marshal e = None) es then None
     else Some (''{\"events\":['' @ join_with '','' (map (the \<circ> marshal) es) @ '']}''))"

text \<open>One iteration of the loop: the finished batches, the current one and the bytes counted for it.\<close>

definition split_step ::
  "(event \<Rightarrow> gostr option) \<Rightarrow> event list list \<times> event list \<times> nat \<Rightarrow> event
    \<Rightarrow> client_error + event list list \<times> event list \<times> nat" where
  "split_step marshal s event = (case s of (batches, batch, batchBytes) \<Rightarrow>
    (case marshal event of
       None \<Rightarrow> Inl EventNotEncoded
     | Some encoded \<Rightarrow>
        (let separatorBytes = (if batch \<noteq> [] then 1 else 0);
             full = batch \<noteq> [] \<and> (maxIngestBatchBytes < batchBytes + separatorBytes + length encoded
                                    \<or> maxIngestBatchEvents \<le> length batch);
             batches' = (if full then batches @ [batch] else batches);
             batch' = (if full then [] else batch);
             bytes' = (if full then envelopeBytes else batchBytes);
             separator' = (if full then 0 else separatorBytes)
         in if maxIngestBatchBytes < bytes' + separator' + length encoded then Inl EventTooLarge
            else Inr (batches', batch' @ [event], bytes' + separator' + length encoded))))"

definition splitIngestBatches :: "(event \<Rightarrow> gostr option) \<Rightarrow> event list \<Rightarrow> client_error + event list list" where
  "splitIngestBatches marshal events =
    (case fold_err (split_step marshal) ([], [], envelopeBytes) events of
       Inl err \<Rightarrow> Inl err
     | Inr (batches, batch, _) \<Rightarrow> Inr (if batch \<noteq> [] then batches @ [batch] else batches))"

subsection \<open>Requests\<close>

definition trim_slashes :: "gostr \<Rightarrow> gostr" where
  "trim_slashes s = rev (dropWhile (\<lambda>c. c = CHR ''/'') (rev s))"

definition bearer :: "client \<Rightarrow> (gostr \<Rightarrow> gostr) \<Rightarrow> gostr \<Rightarrow> gostr" where
  "bearer c h = (if cl_Token c \<noteq> [] then h(''Authorization'' := ''Bearer '' @ cl_Token c) else h)"

text \<open>A request and the test of its status; the body of a refusal is read up to 4 KiB.\<close>

definition exchange :: "'h peer \<Rightarrow> outgoing \<Rightarrow> 'h \<Rightarrow> 'h \<times> (client_error + reply)" where
  "exchange p og h =
    (if \<not> pe_url_ok p (og_URL og) then (h, Inl BadURL)
     else (case pe_Do p og h of
       (h', Inl err) \<Rightarrow> (h', Inl (TransportFailed err))
     | (h', Inr r) \<Rightarrow>
         if re_StatusCode r < 200 \<or> 300 \<le> re_StatusCode r
         then (h', Inl (ServerReturned (re_Status r) (trim_space (take 4096 (re_Body r)))))
         else (h', Inr r)))"

definition post_request :: "client \<Rightarrow> gostr \<Rightarrow> gostr \<Rightarrow> outgoing" where
  "post_request c path encoded =
    \<lparr>og_Method = ''POST'', og_URL = trim_slashes (cl_ServerURL c) @ path,
     og_Header = bearer c ((\<lambda>_. [])(''Content-Type'' := ''application/json'')),
     og_Body = encoded, og_Timeout = requestTimeout c\<rparr>"

text \<open>\<open>postJSON\<close>: \<open>encoded\<close> is the marshalled payload, \<open>decode\<close> reads the result out of the reply.\<close>

definition postJSON ::
  "'h peer \<Rightarrow> client \<Rightarrow> gostr \<Rightarrow> gostr option \<Rightarrow> (gostr \<Rightarrow> 'r option) \<Rightarrow> 'h \<Rightarrow> 'h \<times> (client_error + 'r)" where
  "postJSON p c path encoded decode h =
    (if trim_space (cl_ServerURL c) = [] then (h, Inl ServerURLRequired)
     else (case encoded of
       None \<Rightarrow> (h, Inl PayloadNotEncoded)
     | Some body \<Rightarrow>
        (case exchange p (post_request c path body) h of
           (h', Inl err) \<Rightarrow> (h', Inl err)
         | (h', Inr r) \<Rightarrow> (case decode (re_Body r) of None \<Rightarrow> (h', Inl BadResponse) | Some v \<Rightarrow> (h', Inr v)))))"

definition ingestBatch :: "'h peer \<Rightarrow> client \<Rightarrow> event list \<Rightarrow> 'h \<Rightarrow> 'h \<times> (client_error + ingest_result)" where
  "ingestBatch p c events = postJSON p c ''/api/v1/events/batch'' (marshal_batch (pe_event p) events) (pe_result p)"

definition client_Heartbeat :: "'h peer \<Rightarrow> client \<Rightarrow> heartbeat_request \<Rightarrow> 'h \<Rightarrow> 'h \<times> (client_error + unit)" where
  "client_Heartbeat p c hb = postJSON p c ''/api/v1/agents/heartbeat'' (pe_heartbeat p hb) (\<lambda>_. Some ())"

definition client_Health :: "'h peer \<Rightarrow> client \<Rightarrow> 'h \<Rightarrow> 'h \<times> (client_error + unit)" where
  "client_Health p c h =
    (if trim_space (cl_ServerURL c) = [] then (h, Inl ServerURLRequired)
     else (let timeout = (if cl_RequestTimeout c \<le> 0 \<or> healthTimeout < cl_RequestTimeout c then healthTimeout
                          else cl_RequestTimeout c) in
       (case exchange p \<lparr>og_Method = ''GET'', og_URL = trim_slashes (cl_ServerURL c) @ ''/healthz'',
                         og_Header = bearer c (\<lambda>_. []), og_Body = [], og_Timeout = timeout\<rparr> h of
          (h', Inl err) \<Rightarrow> (h', Inl err)
        | (h', Inr _) \<Rightarrow> (h', Inr ()))))"

subsection \<open>Ingest\<close>

definition no_result :: ingest_result where
  "no_result = \<lparr>ir_Counters = no_counts, ir_PreviousStage = 0, ir_CurrentStage = 0, ir_Evolved = False,
     ir_PreviousTotal = 0, ir_CurrentTotal = 0\<rparr>"

definition add_counts :: "counters \<Rightarrow> counters \<Rightarrow> counters" where
  "add_counts a b = \<lparr>ct_Accepted = ct_Accepted a + ct_Accepted b, ct_Duplicates = ct_Duplicates a + ct_Duplicates b,
     ct_Rejected = ct_Rejected a + ct_Rejected b, ct_Errors = ct_Errors a @ ct_Errors b\<rparr>"

definition combine :: "nat \<Rightarrow> ingest_result \<Rightarrow> ingest_result \<Rightarrow> ingest_result" where
  "combine index combined result =
    \<lparr>ir_Counters = add_counts (ir_Counters combined) (ir_Counters result),
     ir_PreviousStage = (if index = 0 then ir_PreviousStage result else ir_PreviousStage combined),
     ir_CurrentStage = ir_CurrentStage result,
     ir_Evolved = (ir_Evolved combined \<or> ir_Evolved result),
     ir_PreviousTotal = (if index = 0 then ir_PreviousTotal result else ir_PreviousTotal combined),
     ir_CurrentTotal = ir_CurrentTotal result\<rparr>"

fun ingest_batches ::
  "'h peer \<Rightarrow> client \<Rightarrow> nat \<Rightarrow> ingest_result \<Rightarrow> event list list \<Rightarrow> 'h \<Rightarrow> 'h \<times> (client_error + ingest_result)" where
  "ingest_batches p c index combined [] h = (h, Inr combined)"
| "ingest_batches p c index combined (b # bs) h =
    (case ingestBatch p c b h of
       (h', Inl err) \<Rightarrow> (h', Inl err)
     | (h', Inr result) \<Rightarrow> ingest_batches p c (Suc index) (combine index combined result) bs h')"

definition client_Ingest :: "'h peer \<Rightarrow> client \<Rightarrow> event list \<Rightarrow> 'h \<Rightarrow> 'h \<times> (client_error + ingest_result)" where
  "client_Ingest p c events0 h =
    (if trim_space (cl_ServerURL c) = [] then (h, Inl ServerURLRequired)
     else if events0 = [] then (h, Inl EventsEmpty)
     else (let events = sanitizeOutboundEvents events0 in
       (case ValidateOutboundBatch (pe_ulow p) events of
          Some (i, err) \<Rightarrow> (h, Inl (NotPrivate i err))
        | None \<Rightarrow>
           (case splitIngestBatches (pe_event p) events of
              Inl err \<Rightarrow> (h, Inl err)
            | Inr batches \<Rightarrow> ingest_batches p c 0 no_result batches h))))"

subsection \<open>Batches: lemmas\<close>

text \<open>The length of the encoding of a batch, from those of its events.\<close>

definition wire_length :: "(event \<Rightarrow> gostr option) \<Rightarrow> event list \<Rightarrow> nat" where
  "wire_length marshal es = 12 + length es + sum_list (map (length \<circ> the \<circ> marshal) es)"

lemma length_join_comma: "es \<noteq> [] \<Longrightarrow> length (join_with '','' (map f es)) + 1 = length es + sum_list (map (length \<circ> f) es)"
proof (induction "'',''" "map f es" arbitrary: es rule: join_with.induct)
  case (2 x)
  then show ?case by (cases es) auto
next
  case (3 x y ys)
  then obtain a b r where e: "es = a # b # r" by (cases es; cases "tl es") auto
  have "length (join_with '','' (map f (b # r))) + 1 = length (b # r) + sum_list (map (length \<circ> f) (b # r))"
    using 3(1)[of "b # r"] 3(2) e by simp
  then show ?case using e by simp
qed simp

lemma length_marshal_batch:
  "es \<noteq> [] \<Longrightarrow> marshal_batch m es = Some w \<Longrightarrow> length w = wire_length m es"
  using length_join_comma[of es "the \<circ> m"] by (auto simp: marshal_batch_def wire_length_def comp_assoc split: if_splits)

lemma envelopeBytes_eq: "envelopeBytes = 11"
  by (simp add: envelopeBytes_def envelope_def)

text \<open>A batch that may be sent, and why the next event did not go into it.\<close>

definition good_batch :: "(event \<Rightarrow> gostr option) \<Rightarrow> event list \<Rightarrow> bool" where
  "good_batch marshal b \<longleftrightarrow> b \<noteq> [] \<and> length b \<le> maxIngestBatchEvents
    \<and> (case marshal_batch marshal b of None \<Rightarrow> False | Some w \<Rightarrow> length w \<le> maxIngestBatchBytes + 2)"

definition closed_by :: "(event \<Rightarrow> gostr option) \<Rightarrow> event list \<Rightarrow> event list \<Rightarrow> bool" where
  "closed_by marshal b next \<longleftrightarrow>
    length b = maxIngestBatchEvents \<or> maxIngestBatchBytes + 2 < wire_length marshal (b @ [hd next])"

definition fits_alone :: "(event \<Rightarrow> gostr option) \<Rightarrow> event \<Rightarrow> bool" where
  "fits_alone marshal e \<longleftrightarrow> (case marshal e of None \<Rightarrow> False | Some w \<Rightarrow> envelopeBytes + length w \<le> maxIngestBatchBytes)"

definition split_inv :: "(event \<Rightarrow> gostr option) \<Rightarrow> event list \<Rightarrow> event list list \<times> event list \<times> nat \<Rightarrow> bool" where
  "split_inv m es s = (case s of (bs, b, n) \<Rightarrow>
    concat bs @ b = es \<and> list_all (good_batch m) bs
    \<and> (if b = [] then bs = [] \<and> n = envelopeBytes
       else n + 2 = wire_length m b \<and> good_batch m b \<and> successively (closed_by m) (bs @ [b])))"

lemma good_batch_iff:
  "good_batch m b \<longleftrightarrow> b \<noteq> [] \<and> length b \<le> maxIngestBatchEvents \<and> (\<forall>e \<in> set b. m e \<noteq> None)
    \<and> wire_length m b \<le> maxIngestBatchBytes + 2"
proof (cases "marshal_batch m b")
  case None
  then show ?thesis by (auto simp: good_batch_def marshal_batch_def list_ex_iff split: if_splits)
next
  case (Some w)
  then have "\<forall>e \<in> set b. m e \<noteq> None" by (auto simp: marshal_batch_def list_ex_iff split: if_splits)
  then show ?thesis using Some length_marshal_batch[of b m w] by (auto simp: good_batch_def)
qed

lemma wire_length_snoc: "wire_length m (b @ [e]) = wire_length m b + 1 + length (the (m e))"
  by (simp add: wire_length_def)

lemma wire_length_single: "wire_length m [e] = 13 + length (the (m e))"
  by (simp add: wire_length_def)

lemma split_step_inv:
  assumes "split_inv m es s" "split_step m s e = Inr s'"
  shows "split_inv m (es @ [e]) s'" "fits_alone m e"
proof -
  obtain bs b n where s: "s = (bs, b, n)" by (cases s)
  obtain w where w: "m e = Some w" using assms(2) by (cases "m e") (simp_all add: split_step_def s)
  note step = assms(2)[unfolded split_step_def s, simplified w, simplified Let_def]
  have "split_inv m (es @ [e]) s' \<and> fits_alone m e"
  proof (cases "b = []")
    case True
    then have "s' = ([], [e], 11 + length w)" "11 + length w \<le> maxIngestBatchBytes" "es = []"
      using step assms(1) s by (auto simp: split_inv_def envelopeBytes_eq split: if_splits)
    then show ?thesis
      using w by (simp add: split_inv_def good_batch_iff wire_length_single maxIngestBatchEvents_def fits_alone_def envelopeBytes_eq)
  next
    case b: False
    have i: "concat bs @ b = es" "list_all (good_batch m) bs" "n + 2 = wire_length m b" "good_batch m b"
      "successively (closed_by m) (bs @ [b])"
      using assms(1) b by (simp_all add: split_inv_def s)
    show ?thesis
    proof (cases "maxIngestBatchBytes < n + 1 + length w \<or> maxIngestBatchEvents \<le> length b")
      case full: True
      then have s': "s' = (bs @ [b], [e], 11 + length w)" "11 + length w \<le> maxIngestBatchBytes"
        using step b by (auto simp: envelopeBytes_eq split: if_splits)
      have "closed_by m b [e]" using full i(3,4) w by (auto simp: closed_by_def wire_length_snoc good_batch_iff)
      then have "successively (closed_by m) ((bs @ [b]) @ [[e]])"
        using i(5) by (simp only: successively_append_iff[of _ "bs @ [b]"]) simp
      then show ?thesis
        using i s' w by (simp add: split_inv_def good_batch_iff wire_length_single maxIngestBatchEvents_def fits_alone_def
            envelopeBytes_eq)
    next
      case more: False
      then have s': "s' = (bs, b @ [e], n + 1 + length w)" using step b by (auto split: if_splits)
      have "successively (closed_by m) (bs @ [b @ [e]])"
        using i(5) b by (auto simp: successively_append_iff closed_by_def)
      moreover have "envelopeBytes + length w \<le> maxIngestBatchBytes"
        using more i(3) by (simp add: envelopeBytes_eq wire_length_def)
      ultimately show ?thesis
        using i s' w more by (auto simp: split_inv_def good_batch_iff wire_length_snoc fits_alone_def)
    qed
  qed
  then show "split_inv m (es @ [e]) s'" "fits_alone m e" by simp_all
qed

lemma split_step_ok: "fits_alone m e \<Longrightarrow> split_inv m es s \<Longrightarrow> \<exists>s'. split_step m s e = Inr s'"
  by (cases s) (auto simp: split_step_def fits_alone_def split_inv_def Let_def split: option.splits if_splits)

lemma split_loop:
  "split_inv m done s \<Longrightarrow>
    (case fold_err (split_step m) s es of Inl err \<Rightarrow> \<not> list_all (fits_alone m) es
     | Inr s' \<Rightarrow> list_all (fits_alone m) es \<and> split_inv m (done @ es) s')"
proof (induction es arbitrary: s "done")
  case (Cons e es)
  show ?case
  proof (cases "split_step m s e")
    case (Inl err)
    then show ?thesis using split_step_ok[of m e "done" s] Cons.prems by auto
  next
    case (Inr s1)
    note i = split_step_inv[OF Cons.prems Inr]
    show ?thesis using Cons.IH[OF i(1)] i(2) Inr by (auto split: sum.splits)
  qed
qed simp

lemma splitIngestBatches_concat: "splitIngestBatches m events = Inr bs \<Longrightarrow> concat bs = events"
  using split_loop[of m "[]" "([], [], envelopeBytes)" events]
  by (auto simp: splitIngestBatches_def split_inv_def split: sum.splits if_splits)

subsection \<open>What every exchange preserves\<close>

text \<open>An invariant of the peer under single requests is one under everything that the client does.\<close>

locale peer_invariant =
  fixes p :: "'h peer" and inv :: "'h \<Rightarrow> bool"
  assumes step: "inv h \<Longrightarrow> inv (fst (pe_Do p og h))"
begin

lemma exchange: "inv h \<Longrightarrow> inv (fst (exchange p og h))"
  using step[of h og] by (auto simp: exchange_def split: prod.splits sum.splits)

lemma postJSON: "inv h \<Longrightarrow> inv (fst (postJSON p c path encoded decode h))"
  using exchange[of h "post_request c path (the encoded)"]
  by (auto simp: postJSON_def split: prod.splits sum.splits option.splits)

lemma ingest_batches: "inv h \<Longrightarrow> inv (fst (ingest_batches p c k combined bs h))"
proof (induction bs arbitrary: k combined h)
  case (Cons b bs)
  have "inv (fst (ingestBatch p c b h))" unfolding ingestBatch_def by (rule postJSON[OF Cons.prems])
  then show ?case using Cons.IH by (auto split: prod.splits sum.splits)
qed simp

lemma client_Ingest: "inv h \<Longrightarrow> inv (fst (client_Ingest p c events h))"
  using ingest_batches[of h] by (auto simp: client_Ingest_def Let_def split: sum.splits option.splits)

lemma client_Heartbeat: "inv h \<Longrightarrow> inv (fst (client_Heartbeat p c q h))"
  unfolding client_Heartbeat_def by (rule postJSON)

lemma client_Health: "inv h \<Longrightarrow> inv (fst (client_Health p c h))"
  using exchange[of h] by (auto simp: client_Health_def Let_def split: prod.splits sum.splits) (metis fst_conv)+

end

text \<open>C11: Splitting loses, repeats and reorders nothing: the batches, in order, are exactly the events;
  every batch has between 1 and 100 events and is at most 4 MiB + 2 bytes long on the wire (the
  code counts 11 bytes for the 13 of the envelope); a batch is closed only because it has 100
  events or because its encoding with the next event would be longer than that. Splitting fails
  exactly when some event cannot be encoded or is too large even alone.\<close>

theorem splitIngestBatches_correct:
  "(case splitIngestBatches m events of
      Inl err \<Rightarrow> \<not> list_all (fits_alone m) events
    | Inr bs \<Rightarrow> list_all (fits_alone m) events \<and> concat bs = events \<and> list_all (good_batch m) bs
        \<and> successively (closed_by m) bs)"
proof -
  have 0: "split_inv m [] ([], [], envelopeBytes)" by (simp add: split_inv_def)
  show ?thesis
    using split_loop[OF 0, of events]
    by (auto simp: splitIngestBatches_def split_inv_def split: sum.splits if_splits)
qed

end
