(* ===== verification/Agent_State.thy ===== *)
theory Agent_State
  imports Adapters_Core Tables
begin

text \<open>
  Package \<open>internal/agent\<close>, files \<open>state.go\<close> and \<open>delta.go\<close>: the cursors and fingerprints that make
  uploads incremental. The two SQL tables are row lists; \<open>marshal\<close> is \<open>json.Marshal\<close> on an event.
  The filter of unchanged events is stated once, as a locale over what is known of an event ID,
  and interpreted for the in-memory tracker and for the SQL store.
\<close>

subsection \<open>Fingerprints\<close>

definition eventFingerprint :: "(event \<Rightarrow> gostr option) \<Rightarrow> event \<Rightarrow> gostr" where
  "eventFingerprint marshal e =
    (case marshal e of None \<Rightarrow> sha256_sum (ev_EventID e) | Some payload \<Rightarrow> sha256_sum payload)"

text \<open>The events to send: those whose recorded fingerprint is missing or different.\<close>

definition unsent :: "(gostr \<Rightarrow> gostr option) \<Rightarrow> (event \<Rightarrow> gostr) \<Rightarrow> event list \<Rightarrow> event list" where
  "unsent known fp events = filter (\<lambda>e. known (ev_EventID e) \<noteq> Some (fp e)) events"

subsection \<open>The in-memory tracker\<close>

type_synonym tracker = "(gostr \<times> gostr) list"

definition NewDeltaTracker :: tracker where "NewDeltaTracker = []"

definition tracker_Pending :: "(event \<Rightarrow> gostr option) \<Rightarrow> tracker \<Rightarrow> event list \<Rightarrow> event list" where
  "tracker_Pending marshal t events = unsent (map_of t) (eventFingerprint marshal) events"

fun MarkSent :: "(event \<Rightarrow> gostr option) \<Rightarrow> tracker \<Rightarrow> event list \<Rightarrow> tracker" where
  "MarkSent marshal t [] = t"
| "MarkSent marshal t (e # es) = MarkSent marshal (upsert (ev_EventID e) (eventFingerprint marshal e) t) es"

subsection \<open>The SQL state store\<close>

record cursor_row =
  cr_machine_id :: gostr
  cr_adapter :: gostr
  cr_source_path :: gostr
  cr_source_identity :: gostr
  cr_cursor_identity :: gostr
  cr_cursor_offset :: i64
  cr_cursor_line :: i64
  cr_cursor_state :: gostr
  cr_last_successful_sync :: gostr

record event_state =
  es_machine_id :: gostr
  es_event_id :: gostr
  es_fingerprint :: gostr
  es_last_successful_sync :: gostr

record agent_state =
  as_sources :: "cursor_row list"
  as_events :: "event_state list"

definition empty_agent_state :: agent_state where "empty_agent_state = \<lparr>as_sources = [], as_events = []\<rparr>"

datatype state_error = BadFingerprintLength gostr nat | MachineIDRequired | EventWithoutID

definition cursor_of_row :: "cursor_row \<Rightarrow> cursor" where
  "cursor_of_row r = \<lparr>cu_Identity = cr_cursor_identity r, cu_Offset = cr_cursor_offset r,
    cu_Line = cr_cursor_line r, cu_State = cr_cursor_state r\<rparr>"

text \<open>\<open>Snapshot\<close> and \<open>LastSuccessfulSyncs\<close>: loops over the rows of the machine.\<close>

fun snapshot_rows :: "gostr \<Rightarrow> (gostr \<times> cursor) list \<Rightarrow> cursor_row list \<Rightarrow> (gostr \<times> cursor) list" where
  "snapshot_rows m acc [] = acc"
| "snapshot_rows m acc (r # rs) =
    snapshot_rows m
      (if cr_machine_id r = m then upsert (SourceKey (cr_adapter r) (cr_source_path r)) (cursor_of_row r) acc else acc) rs"

definition state_Snapshot :: "agent_state \<Rightarrow> gostr \<Rightarrow> (gostr \<times> cursor) list" where
  "state_Snapshot s machineID = snapshot_rows machineID [] (as_sources s)"

fun sync_rows :: "gostr \<Rightarrow> (gostr \<times> instant) list \<Rightarrow> cursor_row list \<Rightarrow> (gostr \<times> instant) list" where
  "sync_rows m acc [] = acc"
| "sync_rows m acc (r # rs) =
    sync_rows m
      (if cr_machine_id r = m
       then (case parse_rfc3339 (cr_last_successful_sync r) of None \<Rightarrow> acc
             | Some t \<Rightarrow> upsert (SourceKey (cr_adapter r) (cr_source_path r)) t acc)
       else acc) rs"

definition LastSuccessfulSyncs :: "agent_state \<Rightarrow> gostr \<Rightarrow> (gostr \<times> instant) list" where
  "LastSuccessfulSyncs s machineID = sync_rows machineID [] (as_sources s)"

text \<open>
  The lookup of \<open>Pending\<close>: the event IDs in chunks of 500, and for each chunk the rows of the
  machine with one of its IDs, whose fingerprints must have the length of a digest.
\<close>

fun read_rows :: "(gostr \<times> gostr) list \<Rightarrow> event_state list \<Rightarrow> state_error + (gostr \<times> gostr) list" where
  "read_rows known [] = Inr known"
| "read_rows known (r # rs) =
    (if length (es_fingerprint r) \<noteq> 32 then Inl (BadFingerprintLength (es_event_id r) (length (es_fingerprint r)))
     else read_rows (upsert (es_event_id r) (es_fingerprint r) known) rs)"

function read_chunks ::
  "event_state list \<Rightarrow> gostr \<Rightarrow> (gostr \<times> gostr) list \<Rightarrow> event list \<Rightarrow> state_error + (gostr \<times> gostr) list" where
  "read_chunks t m known [] = Inr known"
| "read_chunks t m known (e # es) =
    (let chunk = take 500 (e # es);
         rows = filter (\<lambda>r. es_machine_id r = m \<and> es_event_id r \<in> ev_EventID ` set chunk) t
     in case read_rows known rows of Inl err \<Rightarrow> Inl err
        | Inr known' \<Rightarrow> read_chunks t m known' (drop 500 (e # es)))"
  by pat_completeness auto

termination by (relation "measure (\<lambda>(t, m, known, es). length es)") auto

definition state_Pending ::
  "(event \<Rightarrow> gostr option) \<Rightarrow> agent_state \<Rightarrow> gostr \<Rightarrow> event list \<Rightarrow> state_error + event list" where
  "state_Pending marshal s machineID events =
    (case read_chunks (as_events s) machineID [] events of Inl err \<Rightarrow> Inl err
     | Inr known \<Rightarrow> Inr (unsent (map_of known) (eventFingerprint marshal) events))"

definition cursor_key :: "cursor_row \<Rightarrow> gostr \<times> gostr \<times> gostr" where
  "cursor_key r = (cr_machine_id r, cr_adapter r, cr_source_path r)"

definition event_key :: "event_state \<Rightarrow> gostr \<times> gostr" where
  "event_key r = (es_machine_id r, es_event_id r)"

text \<open>The identity and cursor that \<open>Commit\<close> saves for a report.\<close>

definition report_identity :: "source_report \<Rightarrow> gostr" where
  "report_identity r =
    (if cu_Identity (rp_Cursor r) \<noteq> [] then cu_Identity (rp_Cursor r)
     else if so_Identity (rp_Source r) \<noteq> [] then so_Identity (rp_Source r)
     else HashIdentity (rp_Adapter r @ '':'' @ rp_Path r))"

definition report_cursor :: "source_report \<Rightarrow> cursor" where
  "report_cursor r = (rp_Cursor r)\<lparr>cu_Identity := report_identity r\<rparr>"

definition report_row :: "gostr \<Rightarrow> gostr \<Rightarrow> source_report \<Rightarrow> cursor_row" where
  "report_row machineID synced r = (let c = report_cursor r in
    \<lparr>cr_machine_id = machineID, cr_adapter = rp_Adapter r, cr_source_path = rp_Path r,
     cr_source_identity = report_identity r, cr_cursor_identity = cu_Identity c, cr_cursor_offset = cu_Offset c,
     cr_cursor_line = cu_Line c, cr_cursor_state = cu_State c, cr_last_successful_sync = synced\<rparr>)"

definition commit_report ::
  "gostr \<Rightarrow> gostr \<Rightarrow> (gostr \<times> cursor) list \<Rightarrow> source_report \<Rightarrow> cursor_row list \<Rightarrow> cursor_row list" where
  "commit_report machineID synced committed r t =
    (if rp_Err r \<noteq> None \<or> map_of committed (SourceKey (rp_Adapter r) (rp_Path r)) = Some (report_cursor r) then t
     else put_by cursor_key (report_row machineID synced r) t)"

definition event_state_row :: "(event \<Rightarrow> gostr option) \<Rightarrow> gostr \<Rightarrow> gostr \<Rightarrow> event \<Rightarrow> event_state" where
  "event_state_row marshal machineID synced e =
    \<lparr>es_machine_id = machineID, es_event_id = ev_EventID e, es_fingerprint = eventFingerprint marshal e,
     es_last_successful_sync = synced\<rparr>"

definition commit_event ::
  "(event \<Rightarrow> gostr option) \<Rightarrow> gostr \<Rightarrow> gostr \<Rightarrow> event_state list \<Rightarrow> event \<Rightarrow> state_error + event_state list" where
  "commit_event marshal machineID synced t e =
    (if trim_space (ev_EventID e) = [] then Inl EventWithoutID
     else Inr (put_by event_key (event_state_row marshal machineID synced e) t))"

text \<open>\<open>Commit\<close>: one transaction; an error leaves the state as it was.\<close>

definition state_Commit ::
  "(event \<Rightarrow> gostr option) \<Rightarrow> agent_state \<Rightarrow> gostr \<Rightarrow> (gostr \<times> cursor) list \<Rightarrow> source_report list \<Rightarrow> event list
    \<Rightarrow> instant \<Rightarrow> agent_state \<times> state_error goerror" where
  "state_Commit marshal s machineID committed reports events syncedAt =
    (if trim_space machineID = [] then (s, Some MachineIDRequired)
     else (let synced = rfc3339_nano syncedAt;
               sources = fold (commit_report machineID synced committed) reports (as_sources s)
           in case fold_err (commit_event marshal machineID synced) (as_events s) events of
                Inl err \<Rightarrow> (s, Some err)
              | Inr evs \<Rightarrow> (\<lparr>as_sources = sources, as_events = evs\<rparr>, None)))"

subsection \<open>The delta filter\<close>

text \<open>
  What a store of fingerprints owes its client: after recording a batch, an ID's fingerprint is
  that of the last event of the batch with the ID, and the others are as before.
\<close>

locale delta_filter =
  fixes known :: "'s \<Rightarrow> gostr \<Rightarrow> gostr option" and mark :: "'s \<Rightarrow> event list \<Rightarrow> 's" and fp :: "event \<Rightarrow> gostr"
    and ok :: "'s \<Rightarrow> bool"
  assumes known_mark: "ok s \<Longrightarrow> known (mark s es) i
      = (case find_by ev_EventID i (rev es) of None \<Rightarrow> known s i | Some e \<Rightarrow> Some (fp e))"
    and mark_ok: "ok s \<Longrightarrow> ok (mark s es)"
begin

text \<open>Events with the same ID in a batch must agree for the batch to be recorded as a whole.\<close>

lemma known_sent:
  assumes "ok s" "e \<in> set es" "\<forall>x \<in> set es. ev_EventID x = ev_EventID e \<longrightarrow> fp x = fp e"
  shows "known (mark s es) (ev_EventID e) = Some (fp e)"
proof -
  have "find_by ev_EventID (ev_EventID e) (rev es) \<noteq> None" using assms(2) by (auto simp: find_by_None)
  then obtain x where x: "find_by ev_EventID (ev_EventID e) (rev es) = Some x" by blast
  from find_by_SomeD[OF x] have "x \<in> set es" "ev_EventID x = ev_EventID e" by simp_all
  then show ?thesis using x assms(1,3) by (simp add: known_mark)
qed

lemma known_other: "ok s \<Longrightarrow> i \<notin> ev_EventID ` set es \<Longrightarrow> known (mark s es) i = known s i"
  using find_by_None[of ev_EventID i "rev es"] by (simp add: known_mark)

text \<open>Sending what is unsent and recording it leaves nothing to send.\<close>

lemma unsent_after_mark:
  assumes "ok s" "\<forall>x \<in> set es. \<forall>y \<in> set es. ev_EventID x = ev_EventID y \<longrightarrow> fp x = fp y"
  shows "unsent (known (mark s (unsent (known s) fp es))) fp es = []"
proof -
  have "known (mark s (unsent (known s) fp es)) (ev_EventID e) = Some (fp e)" if e: "e \<in> set es" for e
  proof (cases "known s (ev_EventID e) = Some (fp e)")
    case True
    have "ev_EventID e \<notin> ev_EventID ` set (unsent (known s) fp es)"
    proof
      assume "ev_EventID e \<in> ev_EventID ` set (unsent (known s) fp es)"
      then obtain x where x: "x \<in> set es" "ev_EventID x = ev_EventID e" "known s (ev_EventID x) \<noteq> Some (fp x)"
        unfolding unsent_def by force
      moreover have "fp x = fp e" using assms(2) x(1,2) e by blast
      ultimately show False using True by simp
    qed
    then show ?thesis using known_other[OF assms(1)] True by simp
  next
    case False
    then have "e \<in> set (unsent (known s) fp es)" using e by (simp add: unsent_def)
    moreover have "\<forall>x \<in> set (unsent (known s) fp es). ev_EventID x = ev_EventID e \<longrightarrow> fp x = fp e"
    proof (intro ballI impI)
      fix x assume "x \<in> set (unsent (known s) fp es)" "ev_EventID x = ev_EventID e"
      then have "x \<in> set es" by (simp add: unsent_def)
      with assms(2) e \<open>ev_EventID x = ev_EventID e\<close> show "fp x = fp e" by blast
    qed
    ultimately show ?thesis by (rule known_sent[OF assms(1)])
  qed
  then show ?thesis by (auto simp: unsent_def filter_empty_conv)
qed

text \<open>A changed event is sent again.\<close>

lemma changed_is_unsent:
  assumes "ok s" "e \<in> set es" "\<forall>x \<in> set es. ev_EventID x = ev_EventID e \<longrightarrow> fp x = fp e"
    "ev_EventID e' = ev_EventID e" "fp e' \<noteq> fp e"
  shows "unsent (known (mark s es)) fp [e'] = [e']"
  using known_sent[OF assms(1-3)] assms(4,5) by (simp add: unsent_def)

end

lemma map_of_MarkSent:
  "map_of (MarkSent marshal t es) i
    = (case find_by ev_EventID i (rev es) of None \<Rightarrow> map_of t i | Some e \<Rightarrow> Some (eventFingerprint marshal e))"
proof (induction marshal t es rule: MarkSent.induct)
  case (2 marshal t e es)
  then show ?case by (simp add: find_by_append find_by_Cons split: option.splits) (simp add: find_by_def)
qed (simp add: find_by_def)

interpretation tracker: delta_filter map_of "MarkSent marshal" "eventFingerprint marshal" "\<lambda>t. True" for marshal
  by unfold_locales (simp_all add: map_of_MarkSent)


subsection \<open>The SQL store as a delta filter\<close>

text \<open>The invariant of the state database: primary keys, and fingerprints that are digests.\<close>

definition agent_state_ok :: "agent_state \<Rightarrow> bool" where
  "agent_state_ok s \<longleftrightarrow> distinct (map cursor_key (as_sources s)) \<and> distinct (map event_key (as_events s))
    \<and> list_all (\<lambda>r. length (es_fingerprint r) = 32) (as_events s)
    \<and> list_all (\<lambda>r. nul_free (cr_adapter r)) (as_sources s)"

interpretation source_state: keyed_table cursor_key "put_by cursor_key"
  by unfold_locales (simp_all add: distinct_put_by set_put_by)

interpretation event_state: keyed_table event_key "put_by event_key"
  by unfold_locales (simp_all add: distinct_put_by set_put_by)

lemma length_fingerprint [simp]: "length (eventFingerprint marshal e) = 32"
  by (simp add: eventFingerprint_def split: option.split)

text \<open>What \<open>Pending\<close> knows of an ID: the fingerprint in the machine's row.\<close>

definition recorded :: "event_state list \<Rightarrow> gostr \<Rightarrow> gostr \<Rightarrow> gostr option" where
  "recorded t m i = map_option es_fingerprint (find_by event_key (m, i) t)"

lemma read_rows_ok:
  "list_all (\<lambda>r. length (es_fingerprint r) = 32) rs \<Longrightarrow>
    read_rows known rs = Inr (fold (\<lambda>r k. upsert (es_event_id r) (es_fingerprint r) k) rs known)"
  by (induction known rs rule: read_rows.induct) auto

lemma map_of_fold_upsert:
  "map_of (fold (\<lambda>r k. upsert (f r) (g r) k) rs known) i
    = (case find_by f i (rev rs) of None \<Rightarrow> map_of known i | Some r \<Rightarrow> Some (g r))"
  by (induction rs arbitrary: known) (auto simp: find_by_append find_by_Cons find_by_def[of _ _ "[]"] split: option.splits)

lemma recorded_in_chunk:
  assumes "distinct (map event_key t)" "i \<in> ids"
  shows "map_option es_fingerprint (find_by es_event_id i (rev (filter (\<lambda>r. es_machine_id r = m \<and> es_event_id r \<in> ids) t)))
    = recorded t m i"
proof -
  let ?rows = "filter (\<lambda>r. es_machine_id r = m \<and> es_event_id r \<in> ids) t"
  have d: "distinct (map es_event_id ?rows)"
    using assms(1) unfolding distinct_map by (auto simp: inj_on_def event_key_def)
  have d': "distinct (map es_event_id (rev ?rows))" unfolding rev_map[symmetric] using d by simp
  have "find_by es_event_id i (rev ?rows) = Some r \<longleftrightarrow> find_by event_key (m, i) t = Some r" for r
    unfolding find_by_Some[OF d'] find_by_Some[OF assms(1)] using assms(2) by (auto simp: event_key_def)
  then have "find_by es_event_id i (rev ?rows) = find_by event_key (m, i) t" by (metis option.exhaust)
  then show ?thesis by (simp add: recorded_def)
qed

lemma read_chunks_ok:
  assumes "distinct (map event_key t)" "list_all (\<lambda>r. length (es_fingerprint r) = 32) t"
    and "\<forall>j. map_of known j = None \<or> map_of known j = recorded t m j"
  shows "\<exists>known'. read_chunks t m known es = Inr known'
    \<and> (\<forall>i \<in> ev_EventID ` set es. map_of known' i = recorded t m i)
    \<and> (\<forall>j. map_of known' j = None \<or> map_of known' j = recorded t m j)
    \<and> (\<forall>j. map_of known j = recorded t m j \<longrightarrow> map_of known' j = recorded t m j)"
  using assms
proof (induction t m known es rule: read_chunks.induct)
  case (2 t m known e es)
  let ?chunk = "take 500 (e # es)" and ?rest = "drop 500 (e # es)"
  let ?rows = "filter (\<lambda>r. es_machine_id r = m \<and> es_event_id r \<in> ev_EventID ` set ?chunk) t"
  let ?k1 = "fold (\<lambda>r k. upsert (es_event_id r) (es_fingerprint r) k) ?rows known"
  have rr: "read_rows known ?rows = Inr ?k1"
    by (rule read_rows_ok) (use "2.prems"(2) in \<open>auto simp: list_all_iff\<close>)
  define k1 where "k1 = ?k1"
  define C where "C = ev_EventID ` set ?chunk"
  have in1: "map_of k1 i = recorded t m i" if "i \<in> C" for i
    using recorded_in_chunk[OF "2.prems"(1) that[unfolded C_def], of m] "2.prems"(3)[rule_format, of i]
    unfolding k1_def map_of_fold_upsert by (auto split: option.splits)
  have out1: "map_of k1 j = map_of known j" if "j \<notin> C" for j
  proof -
    have "find_by es_event_id j (rev ?rows) = None" using that by (auto simp: find_by_None C_def)
    then show ?thesis unfolding k1_def map_of_fold_upsert by simp
  qed
  have k1: "\<forall>j. map_of k1 j = None \<or> map_of k1 j = recorded t m j"
  proof
    fix j show "map_of k1 j = None \<or> map_of k1 j = recorded t m j"
      using in1[of j] out1[of j] "2.prems"(3)[rule_format, of j] by (cases "j \<in> C") simp_all
  qed
  obtain known' where k': "read_chunks t m k1 ?rest = Inr known'"
    "\<forall>i \<in> ev_EventID ` set ?rest. map_of known' i = recorded t m i"
    "\<forall>j. map_of known' j = None \<or> map_of known' j = recorded t m j"
    "\<forall>j. map_of k1 j = recorded t m j \<longrightarrow> map_of known' j = recorded t m j"
    using "2.IH"[OF refl refl rr "2.prems"(1,2)] k1 unfolding k1_def by blast
  have "set (e # es) = set ?chunk \<union> set ?rest" by (metis append_take_drop_id set_append)
  then have "\<forall>i \<in> ev_EventID ` set (e # es). map_of known' i = recorded t m i"
    using k'(2,4) in1 unfolding C_def image_Un by blast
  moreover have "map_of known' j = recorded t m j" if "map_of known j = recorded t m j" for j
    using k'(4)[rule_format, of j] in1[of j] out1[of j] that by (cases "j \<in> C") simp_all
  moreover have "read_chunks t m known (e # es) = Inr known'" using rr k'(1) unfolding k1_def by (simp add: Let_def)
  ultimately show ?case using k'(3) by blast
qed simp

lemma state_Pending_unsent:
  assumes "agent_state_ok s"
  shows "state_Pending marshal s m es = Inr (unsent (recorded (as_events s) m) (eventFingerprint marshal) es)"
proof -
  obtain known where k: "read_chunks (as_events s) m [] es = Inr known"
    "\<forall>i \<in> ev_EventID ` set es. map_of known i = recorded (as_events s) m i"
    using read_chunks_ok[of "as_events s" "[]" m es] assms by (auto simp: agent_state_ok_def)
  have "unsent (map_of known) (eventFingerprint marshal) es = unsent (recorded (as_events s) m) (eventFingerprint marshal) es"
    unfolding unsent_def using k(2) by (intro filter_cong) auto
  then show ?thesis using k(1) by (simp add: state_Pending_def)
qed


definition record_events :: "(event \<Rightarrow> gostr option) \<Rightarrow> gostr \<Rightarrow> gostr \<Rightarrow> agent_state \<Rightarrow> event list \<Rightarrow> agent_state" where
  "record_events marshal m synced s es =
    s\<lparr>as_events := fold (put_by event_key) (map (event_state_row marshal m synced) es) (as_events s)\<rparr>"

lemma event_state_row_fields [simp]:
  "event_key (event_state_row marshal m synced e) = (m, ev_EventID e)"
  "es_fingerprint (event_state_row marshal m synced e) = eventFingerprint marshal e"
  by (simp_all add: event_state_row_def event_key_def)

lemma find_event_rows:
  "find_by event_key (m', i) (map (event_state_row marshal m synced) es)
    = (if m' = m then map_option (event_state_row marshal m synced) (find_by ev_EventID i es) else None)"
  by (induction es) (auto simp: find_by_Cons find_by_def[of _ _ "[]"])

lemma recorded_record_events:
  assumes "agent_state_ok s"
  shows "recorded (as_events (record_events marshal m synced s es)) m' i
    = (if m' = m then (case find_by ev_EventID i (rev es) of None \<Rightarrow> recorded (as_events s) m i
         | Some e \<Rightarrow> Some (eventFingerprint marshal e)) else recorded (as_events s) m' i)"
  using event_state.find_fold[of "as_events s" "(m', i)" "map (event_state_row marshal m synced) es"] assms
  by (auto simp: recorded_def record_events_def rev_map find_event_rows agent_state_ok_def split: option.splits)

lemma record_events_ok: "agent_state_ok s \<Longrightarrow> agent_state_ok (record_events marshal m synced s es)"
  using event_state.replacing.fold_ok[of "as_events s" "map (event_state_row marshal m synced) es"]
    event_state.replacing.fold_all[of "as_events s" "\<lambda>r. length (es_fingerprint r) = 32" "map (event_state_row marshal m synced) es"]
  by (simp add: agent_state_ok_def record_events_def list_all_iff)

interpretation state_store: delta_filter "\<lambda>s. recorded (as_events s) m" "record_events marshal m synced"
  "eventFingerprint marshal" agent_state_ok for marshal m synced
  by unfold_locales (simp_all add: recorded_record_events record_events_ok)

subsection \<open>Committing a pass\<close>

definition with_ids :: "event list \<Rightarrow> bool" where
  "with_ids es = list_all (\<lambda>e. trim_space (ev_EventID e) \<noteq> []) es"

lemma commit_events_fold:
  "fold_err (commit_event marshal m synced) t es
    = (if with_ids es then Inr (fold (put_by event_key) (map (event_state_row marshal m synced) es) t) else Inl EventWithoutID)"
  by (induction es arbitrary: t) (auto simp: commit_event_def with_ids_def)

lemma state_Commit_eq:
  "state_Commit marshal s m committed reports es t =
    (if trim_space m = [] then (s, Some MachineIDRequired)
     else if \<not> with_ids es then (s, Some EventWithoutID)
     else ((record_events marshal m (rfc3339_nano t) s es)
             \<lparr>as_sources := fold (commit_report m (rfc3339_nano t) committed) reports (as_sources s)\<rparr>, None))"
  by (simp add: state_Commit_def commit_events_fold Let_def record_events_def)

lemma commit_report_props:
  assumes "distinct (map cursor_key t)"
  shows "distinct (map cursor_key (commit_report m synced c r t))"
    "list_all (\<lambda>r. nul_free (cr_adapter r)) t \<Longrightarrow> nul_free (rp_Adapter r) \<Longrightarrow>
      list_all (\<lambda>r. nul_free (cr_adapter r)) (commit_report m synced c r t)"
  using assms distinct_put_by[OF assms]
  by (auto simp: commit_report_def list_all_iff set_put_by report_row_def Let_def)

lemma commit_reports_props:
  assumes "distinct (map cursor_key t)" "list_all (\<lambda>r. nul_free (cr_adapter r)) t" "list_all (\<lambda>r. nul_free (rp_Adapter r)) rs"
  shows "distinct (map cursor_key (fold (commit_report m synced c) rs t))
    \<and> list_all (\<lambda>r. nul_free (cr_adapter r)) (fold (commit_report m synced c) rs t)"
  using assms by (induction rs arbitrary: t) (simp_all add: commit_report_props)

lemma state_Commit_ok:
  assumes "agent_state_ok s" "list_all (\<lambda>r. nul_free (rp_Adapter r)) reports"
  shows "agent_state_ok (fst (state_Commit marshal s m committed reports es t))"
  using record_events_ok[OF assms(1), of marshal m "rfc3339_nano t" es] assms
    commit_reports_props[of "as_sources s" reports m "rfc3339_nano t" committed]
  by (auto simp: state_Commit_eq agent_state_ok_def)

text \<open>A pass uploads each change once: for a batch in which equal event IDs carry equal content,
  committing the pending events succeeds and then nothing of the batch is pending, while what is
  pending for another machine does not change; the pending events are events of the batch; the
  lookup in chunks never fails on a valid state; and a commit that returns an error leaves the
  state as it was.\<close>

theorem Commit_settles_Pending:
  assumes "agent_state_ok s" "list_all (\<lambda>r. nul_free (rp_Adapter r)) reports"
    and "trim_space m \<noteq> []" "with_ids events"
    and "\<forall>x \<in> set events. \<forall>y \<in> set events. ev_EventID x = ev_EventID y \<longrightarrow> eventFingerprint marshal x = eventFingerprint marshal y"
  shows "(case state_Pending marshal s m events of Inl err \<Rightarrow> False
     | Inr pending \<Rightarrow>
        set pending \<subseteq> set events
        \<and> (case state_Commit marshal s m committed reports pending t of (s', err) \<Rightarrow>
             err = None \<and> agent_state_ok s' \<and> state_Pending marshal s' m events = Inr []
             \<and> (m' = m \<or> state_Pending marshal s' m' other = state_Pending marshal s m' other)))
    \<and> (case state_Commit marshal s m committed reports anyEvents t of (s', err) \<Rightarrow> err = None \<or> s' = s)"
proof -
  let ?p = "unsent (recorded (as_events s) m) (eventFingerprint marshal) events"
  let ?r = "record_events marshal m (rfc3339_nano t) s ?p"
  have sub: "set ?p \<subseteq> set events" by (auto simp: unsent_def)
  then have ids: "with_ids ?p" using assms(4) by (auto simp: with_ids_def list_all_iff)
  obtain s' where c: "state_Commit marshal s m committed reports ?p t = (s', None)" "as_events s' = as_events ?r"
    using assms(3) ids by (simp add: state_Commit_eq)
  have ok: "agent_state_ok s'" using state_Commit_ok[OF assms(1,2), of marshal m committed ?p t] c(1) by simp
  have "unsent (recorded (as_events ?r) m) (eventFingerprint marshal) events = []"
    using state_store.unsent_after_mark[OF assms(1,5)] .
  then have p: "state_Pending marshal s' m events = Inr []" using state_Pending_unsent[OF ok] c(2) by simp
  have o: "state_Pending marshal s' m' other = state_Pending marshal s m' other" if "m' \<noteq> m"
  proof -
    have "recorded (as_events s') m' = recorded (as_events s) m'"
      using that recorded_record_events[OF assms(1), of marshal m "rfc3339_nano t" ?p m'] c(2) by auto
    then show ?thesis using state_Pending_unsent[OF ok] state_Pending_unsent[OF assms(1)] by simp
  qed
  have e: "case state_Commit marshal s m committed reports anyEvents t of (s', err) \<Rightarrow> err = None \<or> s' = s"
    by (simp add: state_Commit_eq)
  have p0: "state_Pending marshal s m events = Inr ?p" by (rule state_Pending_unsent[OF assms(1)])
  show ?thesis unfolding p0 using sub c(1) ok p o e by auto
qed

theorem Commit_settles_Pending_witness:
  "case state_Pending (\<lambda>e. None) empty_agent_state ''m'' [sample_event] of Inl err \<Rightarrow> False
     | Inr pending \<Rightarrow>
        (case state_Commit (\<lambda>e. None) empty_agent_state ''m'' [] [] pending 5 of (s', err) \<Rightarrow>
             err = None \<and> state_Pending (\<lambda>e. None) s' ''m'' [sample_event] = Inr []
             \<and> state_Pending (\<lambda>e. None) s' ''n'' [sample_event] = state_Pending (\<lambda>e. None) empty_agent_state ''n'' [sample_event])"
proof -
  have h: "agent_state_ok empty_agent_state" "list_all (\<lambda>r. nul_free (rp_Adapter r)) []" "trim_space ''m'' \<noteq> []"
    "with_ids [sample_event]"
    by (simp_all add: agent_state_ok_def empty_agent_state_def with_ids_def sample_event_def str_eval del: runes.simps(2))
  show ?thesis
    using Commit_settles_Pending[where marshal = "\<lambda>e. None" and committed = "[]" and t = 5 and m' = "''n''"
        and other = "[sample_event]" and anyEvents = "[]", OF h]
    by (auto split: sum.splits prod.splits)
qed

subsection \<open>Cursors\<close>

lemma SourceKey_inject:
  assumes "nul_free a" "nul_free b"
  shows "SourceKey a p = SourceKey b q \<longleftrightarrow> a = b \<and> p = q"
proof
  assume e: "SourceKey a p = SourceKey b q"
  have t: "takeWhile (\<lambda>c. c \<noteq> char_of (0 :: nat)) (SourceKey x r) = x" if "nul_free x" for x r
    using that by (auto simp: SourceKey_def takeWhile_append nul_def)
  have "a = b" using t[OF assms(1), of p] t[OF assms(2), of q] e by simp
  then show "a = b \<and> p = q" using e by (simp add: SourceKey_def)
qed simp

text \<open>The cursor stored for a source.\<close>

definition stored_cursor :: "cursor_row list \<Rightarrow> gostr \<Rightarrow> gostr \<Rightarrow> gostr \<Rightarrow> cursor option" where
  "stored_cursor t m a p = map_option cursor_of_row (find_by cursor_key (m, a, p) t)"

lemma map_of_snapshot_rows:
  "distinct (map cursor_key t) \<Longrightarrow> list_all (\<lambda>r. nul_free (cr_adapter r)) t \<Longrightarrow> nul_free a \<Longrightarrow>
    map_of (snapshot_rows m acc t) (SourceKey a p)
      = (case find_by cursor_key (m, a, p) t of None \<Rightarrow> map_of acc (SourceKey a p) | Some r \<Rightarrow> Some (cursor_of_row r))"
proof (induction m acc t rule: snapshot_rows.induct)
  case (2 m acc r rs)
  have none: "find_by cursor_key (m, a, p) rs = None" if "cursor_key r = (m, a, p)"
    using "2.prems"(1) that by (auto simp: find_by_None)
  have ck: "cursor_key r = (m, a, p) \<longleftrightarrow> cr_machine_id r = m \<and> cr_adapter r = a \<and> cr_source_path r = p"
    by (simp add: cursor_key_def)
  show ?case
    using 2 none by (auto simp: find_by_Cons SourceKey_inject ck split: option.splits)
qed (simp add: find_by_def)

lemma state_Snapshot_lookup:
  "agent_state_ok s \<Longrightarrow> nul_free a \<Longrightarrow> map_of (state_Snapshot s m) (SourceKey a p) = stored_cursor (as_sources s) m a p"
  by (simp add: agent_state_ok_def state_Snapshot_def map_of_snapshot_rows stored_cursor_def split: option.splits)

lemma cursor_of_report_row [simp]: "cursor_of_row (report_row m synced r) = report_cursor r"
  by (simp add: cursor_of_row_def report_row_def Let_def)

lemma cursor_key_report_row [simp]: "cursor_key (report_row m synced r) = (m, rp_Adapter r, rp_Path r)"
  by (simp add: cursor_key_def report_row_def Let_def)

definition source_of :: "source_report \<Rightarrow> gostr \<times> gostr" where "source_of r = (rp_Adapter r, rp_Path r)"

lemma stored_commit_report:
  assumes "distinct (map cursor_key t)"
    and "map_of c (SourceKey (rp_Adapter r) (rp_Path r)) = stored_cursor t m (rp_Adapter r) (rp_Path r)"
  shows "stored_cursor (commit_report m synced c r t) m a p
    = (if rp_Err r = None \<and> source_of r = (a, p) then Some (report_cursor r) else stored_cursor t m a p)"
  using source_state.find_put[OF assms(1), of "(m, a, p)" "report_row m synced r"] assms(2)
  by (auto simp: stored_cursor_def commit_report_def source_of_def)

lemma stored_commit_reports:
  assumes "distinct (map cursor_key t)" "distinct (map source_of rs)"
    and "\<forall>r \<in> set rs. map_of c (SourceKey (rp_Adapter r) (rp_Path r)) = stored_cursor t m (rp_Adapter r) (rp_Path r)"
  shows "stored_cursor (fold (commit_report m synced c) rs t) m a p
    = (case find_by source_of (a, p) (filter (\<lambda>r. rp_Err r = None) rs) of None \<Rightarrow> stored_cursor t m a p
       | Some r \<Rightarrow> Some (report_cursor r))"
  using assms
proof (induction rs arbitrary: t)
  case Nil
  then show ?case by (simp add: find_by_def)
next
  case (Cons r rs)
  note step = stored_commit_report[OF Cons.prems(1), of c r m synced]
  have r: "map_of c (SourceKey (rp_Adapter r) (rp_Path r)) = stored_cursor t m (rp_Adapter r) (rp_Path r)"
    using Cons.prems(3) by simp
  have d: "distinct (map cursor_key (commit_report m synced c r t))" by (rule commit_report_props(1)[OF Cons.prems(1)])
  have keep: "map_of c (SourceKey (rp_Adapter x) (rp_Path x))
      = stored_cursor (commit_report m synced c r t) m (rp_Adapter x) (rp_Path x)" if "x \<in> set rs" for x
  proof -
    have "source_of r \<noteq> (rp_Adapter x, rp_Path x)" using Cons.prems(2) that by (force simp: source_of_def)
    then show ?thesis using step[OF r, of "rp_Adapter x" "rp_Path x"] Cons.prems(3) that by simp
  qed
  have none: "find_by source_of (a, p) (filter (\<lambda>r. rp_Err r = None) rs) = None" if "source_of r = (a, p)"
    using Cons.prems(2) that by (force simp: find_by_None)
  have "stored_cursor (fold (commit_report m synced c) rs (commit_report m synced c r t)) m a p
    = (case find_by source_of (a, p) (filter (\<lambda>r. rp_Err r = None) rs) of
         None \<Rightarrow> stored_cursor (commit_report m synced c r t) m a p | Some r \<Rightarrow> Some (report_cursor r))"
    by (rule Cons.IH[OF d]) (use Cons.prems(2) keep in auto)
  then show ?case using step[OF r, of a p] none by (auto simp: find_by_Cons split: option.splits)
qed

text \<open>C15: The next pass resumes where the committed one stopped: after a successful commit against the
  snapshot the pass started from, the snapshot holds for every source that was read without an
  error the cursor the adapter reported, with its identity filled in, and for every other source
  (failed, or not part of the pass) the cursor it held before.\<close>

theorem Commit_then_Snapshot:
  assumes "agent_state_ok s" "list_all (\<lambda>r. nul_free (rp_Adapter r)) reports" "distinct (map source_of reports)"
    and "trim_space m \<noteq> []" "with_ids es" "nul_free a"
  shows "map_of (state_Snapshot (fst (state_Commit marshal s m (state_Snapshot s m) reports es t)) m) (SourceKey a p)
    = (case find_by source_of (a, p) (filter (\<lambda>r. rp_Err r = None) reports) of
         None \<Rightarrow> map_of (state_Snapshot s m) (SourceKey a p) | Some r \<Rightarrow> Some (report_cursor r))"
proof -
  let ?s' = "fst (state_Commit marshal s m (state_Snapshot s m) reports es t)"
  have ok: "agent_state_ok ?s'" by (rule state_Commit_ok[OF assms(1,2)])
  have src: "as_sources ?s' = fold (commit_report m (rfc3339_nano t) (state_Snapshot s m)) reports (as_sources s)"
    using assms(4,5) by (simp add: state_Commit_eq)
  have d: "distinct (map cursor_key (as_sources s))" using assms(1) by (simp add: agent_state_ok_def)
  have c: "\<forall>r \<in> set reports. map_of (state_Snapshot s m) (SourceKey (rp_Adapter r) (rp_Path r))
      = stored_cursor (as_sources s) m (rp_Adapter r) (rp_Path r)"
    using state_Snapshot_lookup[OF assms(1)] assms(2) by (simp add: list_all_iff)
  show ?thesis
    using state_Snapshot_lookup[OF ok assms(6)] state_Snapshot_lookup[OF assms(1,6)]
      stored_commit_reports[OF d assms(3) c] by (simp add: src split: option.splits)
qed

definition sample_report :: source_report where
  "sample_report = \<lparr>rp_Adapter = ''codex'', rp_Path = ''p'',
    rp_Source = \<lparr>so_Path = ''p'', so_Identity = ''sha256:1''\<rparr>, rp_Events = 0, rp_Cursor = no_cursor, rp_Err = None\<rparr>"

theorem Commit_then_Snapshot_witness:
  "map_of (state_Snapshot (fst (state_Commit (\<lambda>e. None) empty_agent_state ''m''
      (state_Snapshot empty_agent_state ''m'') [sample_report] [sample_event] 5)) ''m'') (SourceKey ''codex'' ''p'')
    = Some (report_cursor sample_report)"
proof -
  have h: "agent_state_ok empty_agent_state" "list_all (\<lambda>r. nul_free (rp_Adapter r)) [sample_report]"
    "distinct (map source_of [sample_report])" "trim_space ''m'' \<noteq> []" "with_ids [sample_event]" "nul_free ''codex''"
    by (simp_all add: agent_state_ok_def empty_agent_state_def with_ids_def sample_event_def sample_report_def str_eval
        char_of_def bit_0 del: runes.simps(2))
  show ?thesis
    by (subst Commit_then_Snapshot[OF h]) (simp add: sample_report_def source_of_def find_by_def)
qed

end
