(* ===== verification/Agent_Pass.thy ===== *)
theory Agent_Pass
  imports Agent_Client Agent_State
begin

text \<open>
  A pass of the agent and the loop around it, from \<open>runAgent\<close> of \<open>cmd/tokemon/main.go\<close>: health check,
  collection, heartbeat, upload of what is pending, commit. The state is that of the local database
  and of the peer; log lines and messages on the terminal are left out.
\<close>

text \<open>\<open>pv_synced i\<close> is the clock when report \<open>i\<close> is turned into its heartbeat entry.\<close>

record pass_env =
  pv_adapters :: "adapter list"
  pv_definitions :: "adapter_heartbeat list"
  pv_machineID :: gostr
  pv_includeProjects :: bool
  pv_Version :: gostr
  pv_OS :: gostr
  pv_Arch :: gostr
  pv_synced :: "nat \<Rightarrow> instant"
  pv_commit :: instant

datatype pass_error =
    HubUnhealthy client_error
  | StateFailed state_error
  | UploadFailed client_error
  | HubRejected nat nat "(nat \<times> usage_error) list"
  | SourcesFailed "gostr list"

text \<open>The heartbeat entry of a report.\<close>

definition entry_identity :: "source_report \<Rightarrow> gostr" where
  "entry_identity r =
    (let identity = cu_Identity (rp_Cursor r);
         identity = (if identity = [] then so_Identity (rp_Source r) else identity);
         identity = (if identity = [] \<and> rp_Path r \<noteq> [] then HashIdentity (rp_Adapter r @ '':'' @ rp_Path r) else identity)
     in if identity = [] then HashIdentity (rp_Adapter r @ '':discover'') else identity)"

definition source_entry :: "(gostr \<times> instant) list \<Rightarrow> instant \<Rightarrow> source_report \<Rightarrow> source_health_heartbeat" where
  "source_entry lastSyncs now r =
    \<lparr>sh_Adapter = rp_Adapter r, sh_IdentityHash = entry_identity r,
     sh_LastSuccessfulSync =
       (if rp_Err r = None then Some now
        else if rp_Path r \<noteq> [] then map_of lastSyncs (SourceKey (rp_Adapter r) (rp_Path r)) else None),
     sh_LastErrorClass = SourceErrorClass (rp_Err r)\<rparr>"

definition source_entries :: "(gostr \<times> instant) list \<Rightarrow> (nat \<Rightarrow> instant) \<Rightarrow> source_report list \<Rightarrow> source_health_heartbeat list" where
  "source_entries lastSyncs clock reports = map (\<lambda>(i, r). source_entry lastSyncs (clock i) r) (enumerate 0 reports)"

definition failed_sources :: "source_report list \<Rightarrow> gostr list" where
  "failed_sources reports = map rp_Adapter (filter (\<lambda>r. rp_Err r \<noteq> None) reports)"

definition pass_heartbeat :: "pass_env \<Rightarrow> agent_state \<Rightarrow> source_report list \<Rightarrow> heartbeat_request" where
  "pass_heartbeat env s reports =
    \<lparr>hq_MachineID = pv_machineID env, hq_AgentVersion = pv_Version env, hq_OperatingSystem = pv_OS env,
     hq_Architecture = pv_Arch env, hq_Adapters = pv_definitions env,
     hq_SourceCount = int (length (filter (\<lambda>r. rp_Path r \<noteq> []) reports)),
     hq_SourceErrorCount = int (length (failed_sources reports)),
     hq_Sources = source_entries (LastSuccessfulSyncs s (pv_machineID env)) (pv_synced env) reports\<rparr>"

definition strip_projects :: "pass_env \<Rightarrow> event list \<Rightarrow> event list" where
  "strip_projects env es = (if pv_includeProjects env then es else map (\<lambda>e. e\<lparr>ev_Project := []\<rparr>) es)"

text \<open>The upload of the pending events; nothing is sent when there are none.\<close>

definition upload :: "'h peer \<Rightarrow> client \<Rightarrow> event list \<Rightarrow> 'h \<Rightarrow> 'h \<times> pass_error goerror" where
  "upload p c pending h =
    (if pending = [] then (h, None)
     else (case client_Ingest p c pending h of
       (h', Inl err) \<Rightarrow> (h', Some (UploadFailed err))
     | (h', Inr result) \<Rightarrow>
         (h', fail_if (0 < ct_Rejected (ir_Counters result))
            (HubRejected (ct_Rejected (ir_Counters result)) (length pending) (ct_Errors (ir_Counters result))))))"

definition pass :: "'h peer \<Rightarrow> client \<Rightarrow> pass_env \<Rightarrow> agent_state \<times> 'h \<Rightarrow> (agent_state \<times> 'h) \<times> pass_error goerror" where
  "pass p c env sh = (case sh of (s, h0) \<Rightarrow>
    (case client_Health p c h0 of
       (h1, Inl err) \<Rightarrow> ((s, h1), Some (HubUnhealthy err))
     | (h1, Inr _) \<Rightarrow>
        (let snapshot = state_Snapshot s (pv_machineID env) in
         case CollectWithCursors (pv_adapters env) (pv_machineID env) snapshot of (collected, reports) \<Rightarrow>
          (let events = strip_projects env collected;
               h2 = fst (client_Heartbeat p c (pass_heartbeat env s reports) h1)
           in case state_Pending (pe_event p) s (pv_machineID env) events of
                Inl err \<Rightarrow> ((s, h2), Some (StateFailed err))
              | Inr pending \<Rightarrow>
                 (case upload p c pending h2 of
                    (h3, Some err) \<Rightarrow> ((s, h3), Some err)
                  | (h3, None) \<Rightarrow>
                     (case state_Commit (pe_event p) s (pv_machineID env) snapshot reports pending (pv_commit env) of
                        (s', Some err) \<Rightarrow> ((s', h3), Some (StateFailed err))
                      | (s', None) \<Rightarrow>
                         ((s', h3), fail_if (failed_sources reports \<noteq> []) (SourcesFailed (failed_sources reports)))))))))"

subsection \<open>The loop\<close>

definition minAgentFailureBackoff :: i64 where "minAgentFailureBackoff = seconds 5"
definition maxAgentFailureBackoff :: i64 where "maxAgentFailureBackoff = minutes 5"

definition nextAgentFailureInterval :: "i64 \<Rightarrow> i64 \<Rightarrow> i64" where
  "nextAgentFailureInterval configured current =
    (let baseline = (if configured < minAgentFailureBackoff then minAgentFailureBackoff else configured);
         ceiling = (if maxAgentFailureBackoff < baseline then baseline else maxAgentFailureBackoff)
     in if current < baseline then baseline
        else if ceiling \<le> current \<or> go_div ceiling 2 < current then ceiling
        else i64_mul current 2)"

text \<open>The interval after each pass of a run; \<open>True\<close> is a pass that failed while the agent was not stopping.\<close>

fun intervals :: "i64 \<Rightarrow> i64 \<Rightarrow> bool list \<Rightarrow> i64 list" where
  "intervals configured current [] = []"
| "intervals configured current (failed # rest) =
    (let next = (if failed then nextAgentFailureInterval configured current else configured)
     in next # intervals configured next rest)"

subsection \<open>Backoff: lemmas\<close>

definition backoff_floor :: "i64 \<Rightarrow> i64" where "backoff_floor configured = max (seconds 5) configured"
definition backoff_ceiling :: "i64 \<Rightarrow> i64" where "backoff_ceiling configured = max (minutes 5) configured"

lemmas backoff_consts = minAgentFailureBackoff_def maxAgentFailureBackoff_def backoff_floor_def backoff_ceiling_def
  minutes_def seconds_def nanos_per_second_def

lemma backoff_floor_ceiling: "backoff_floor c \<le> backoff_ceiling c" "0 < backoff_floor c"
  by (simp_all add: backoff_consts)

lemma nextAgentFailureInterval_min:
  assumes "c \<le> max_i64"
  shows "nextAgentFailureInterval c current =
    (if current < backoff_floor c then backoff_floor c else min (backoff_ceiling c) (2 * current))"
proof -
  have i: "i64_mul current 2 = 2 * current" if "0 < current" "current \<le> backoff_ceiling c div 2"
    using that assms by (simp add: i64_mul_def is_i64_def min_i64_def max_i64_def backoff_consts)
  have b: "(if c < minAgentFailureBackoff then minAgentFailureBackoff else c) = backoff_floor c"
    "(if maxAgentFailureBackoff < backoff_floor c then backoff_floor c else maxAgentFailureBackoff) = backoff_ceiling c"
    by (simp_all add: backoff_consts)
  have d: "go_div (backoff_ceiling c) 2 = backoff_ceiling c div 2"
    using backoff_floor_ceiling[of c] by (simp add: go_div_def)
  show ?thesis
    unfolding nextAgentFailureInterval_def b Let_def d
    using i backoff_floor_ceiling[of c] by (auto simp: min_def)
qed

text \<open>The delay after \<open>k\<close> failures in a row.\<close>

definition backoff :: "i64 \<Rightarrow> nat \<Rightarrow> i64" where
  "backoff c k = min (backoff_ceiling c) (backoff_floor c * 2 ^ (if c < seconds 5 then k else Suc k))"

lemma backoff_range: "backoff_floor c \<le> backoff c k" "backoff c k \<le> backoff_ceiling c"
proof -
  have "backoff_floor c * 1 \<le> backoff_floor c * 2 ^ n" for n
    using backoff_floor_ceiling[of c] by (intro mult_left_mono) simp_all
  then show "backoff_floor c \<le> backoff c k" using backoff_floor_ceiling[of c] by (simp add: backoff_def)
qed (simp add: backoff_def)

lemma backoff_Suc: "c \<le> max_i64 \<Longrightarrow> nextAgentFailureInterval c (backoff c k) = backoff c (Suc k)"
  using backoff_range[of c k] backoff_floor_ceiling[of c]
  by (simp add: nextAgentFailureInterval_min) (simp add: backoff_def min_def)

lemma intervals_failing:
  "c \<le> max_i64 \<Longrightarrow> intervals c (backoff c k) (replicate n True) = map (backoff c) [Suc k..<Suc k + n]"
proof (induction n arbitrary: k)
  case (Suc n)
  have "[Suc k..<Suc k + Suc n] = Suc k # [Suc (Suc k)..<Suc (Suc k) + n]" by (simp add: upt_rec)
  then show ?case using Suc.IH[of "Suc k"] Suc.prems by (simp add: backoff_Suc Let_def del: upt_Suc)
qed simp

lemma intervals_range:
  "c \<le> max_i64 \<Longrightarrow> 0 < c \<Longrightarrow> current = c \<or> backoff_floor c \<le> current \<Longrightarrow>
    list_all (\<lambda>d. d = c \<or> (backoff_floor c \<le> d \<and> d \<le> backoff_ceiling c)) (intervals c current fs)"
proof (induction fs arbitrary: current)
  case (Cons f fs)
  let ?n = "if f then nextAgentFailureInterval c current else c"
  have "?n = c \<or> (backoff_floor c \<le> ?n \<and> ?n \<le> backoff_ceiling c)"
    using Cons.prems backoff_floor_ceiling[of c] by (auto simp: nextAgentFailureInterval_min)
  then show ?case using Cons.IH[of ?n] Cons.prems by (auto simp: Let_def)
qed simp

text \<open>The retry delay of the agent: after \<open>n\<close> failures in a row it has doubled from the interval (or
  from 5 seconds, when the interval is shorter) up to the ceiling of 5 minutes (or the interval, when
  that is longer); one pass that succeeds resets it to the interval; and in any run each delay is
  the interval or between these bounds, so the arithmetic never overflows.\<close>

theorem agent_backoff:
  assumes "0 < c" "c \<le> max_i64"
  shows "intervals c c (replicate n True) = map (backoff c) [0..<n]
    \<and> intervals c c (replicate n True @ False # fs) = map (backoff c) [0..<n] @ c # intervals c c fs
    \<and> list_all (\<lambda>d. d = c \<or> (backoff_floor c \<le> d \<and> d \<le> backoff_ceiling c)) (intervals c c fs)"
proof -
  have first: "nextAgentFailureInterval c c = backoff c 0"
    using assms backoff_floor_ceiling[of c] by (simp add: nextAgentFailureInterval_min backoff_def) (simp add: backoff_consts mult.commute)
  have run: "intervals c c (replicate n True) = map (backoff c) [0..<n]" for n
    using intervals_failing[OF assms(2), of 0] first by (cases n) (simp_all add: Let_def upt_rec del: upt_Suc)
  have app: "intervals c current (xs @ False # fs) = intervals c current xs @ c # intervals c c fs" for current xs
    by (induction xs arbitrary: current) (simp_all add: Let_def)
  show ?thesis using run app intervals_range[OF assms(2,1), of c fs] by simp
qed

theorem agent_backoff_witness:
  "intervals (minutes 1) (minutes 1) [True, True, True, False, True] = map minutes [2, 4, 5, 1, 2]
    \<and> intervals (minutes 1) (minutes 1) (replicate 3 True) = map (backoff (minutes 1)) [0..<3]"
  using agent_backoff[of "minutes 1" 3 "[]"]
  by (simp add: nextAgentFailureInterval_min Let_def max_i64_def backoff_consts numeral_3_eq_3)

subsection \<open>A pass: lemmas\<close>

lemma Commit_settles:
  assumes "agent_state_ok s" "list_all (\<lambda>r. nul_free (rp_Adapter r)) reports" "trim_space m \<noteq> []" "with_ids events"
    and "\<forall>x \<in> set events. \<forall>y \<in> set events. ev_EventID x = ev_EventID y \<longrightarrow> eventFingerprint marshal x = eventFingerprint marshal y"
  shows "\<exists>pending s'. state_Pending marshal s m events = Inr pending
    \<and> state_Commit marshal s m committed reports pending t = (s', None)
    \<and> agent_state_ok s' \<and> state_Pending marshal s' m events = Inr []"
proof -
  let ?p = "unsent (recorded (as_events s) m) (eventFingerprint marshal) events"
  have "with_ids ?p" using assms(4) by (auto simp: unsent_def with_ids_def list_all_iff)
  then obtain s' where c: "state_Commit marshal s m committed reports ?p t = (s', None)"
    "as_events s' = as_events (record_events marshal m (rfc3339_nano t) s ?p)"
    using assms(3) by (simp add: state_Commit_eq)
  have ok: "agent_state_ok s'" using state_Commit_ok[OF assms(1,2), of marshal m committed ?p t] c(1) by simp
  show ?thesis
    using c ok state_Pending_unsent[OF assms(1)] state_Pending_unsent[OF ok]
      state_store.unsent_after_mark[OF assms(1,5), of m "rfc3339_nano t"] by fastforce
qed

lemma rp_Adapter_source: "rp_Adapter (snd (collect_source m cs a src)) = ad_ID a"
  by (simp add: collect_source_def Let_def split: sum.split)

lemma rp_Adapter_pass: "r \<in> set (snd (adapter_pass m cs a)) \<Longrightarrow> rp_Adapter r = ad_ID a"
  by (auto simp: adapter_pass_def rp_Adapter_source discover_failed_def split: sum.splits)

lemma rp_Adapter_collected: "r \<in> set (snd (CollectWithCursors as m cs)) \<Longrightarrow> rp_Adapter r \<in> ad_ID ` set as"
  by (auto simp: CollectWithCursors_def collect_adapters_append dest!: rp_Adapter_pass)

text \<open>What a pass collects, and whether it ended with everything delivered.\<close>

definition collected :: "pass_env \<Rightarrow> agent_state \<Rightarrow> event list" where
  "collected env s = strip_projects env (fst (CollectWithCursors (pv_adapters env) (pv_machineID env) (state_Snapshot s (pv_machineID env))))"

definition delivered :: "pass_error goerror \<Rightarrow> bool" where
  "delivered err \<longleftrightarrow> (case err of None \<Rightarrow> True | Some (SourcesFailed ids) \<Rightarrow> True | _ \<Rightarrow> False)"

definition consistent_ids :: "(event \<Rightarrow> gostr option) \<Rightarrow> event list \<Rightarrow> bool" where
  "consistent_ids marshal es \<longleftrightarrow> (\<forall>x \<in> set es. \<forall>y \<in> set es. ev_EventID x = ev_EventID y
    \<longrightarrow> eventFingerprint marshal x = eventFingerprint marshal y)"

context peer_invariant begin

lemma upload: "inv h \<Longrightarrow> inv (fst (upload p c pending h))"
  using client_Ingest[of h c pending] by (auto simp: upload_def split: prod.splits sum.splits)

lemma pass_keeps: "inv h \<Longrightarrow> inv (snd (fst (pass p c env (s, h))))"
proof -
  assume i: "inv h"
  obtain h1 r1 where h1: "client_Health p c h = (h1, r1)" by fastforce
  then have i1: "inv h1" using client_Health[OF i, of c] by simp
  have i2: "inv (fst (client_Heartbeat p c q h1))" for q by (rule client_Heartbeat[OF i1])
  have i3: "upload p c pending (fst (client_Heartbeat p c q h1)) = (h3, e) \<Longrightarrow> inv h3" for pending q h3 e
    using upload[OF i2, of c pending q] by simp
  show ?thesis using i1 i2 i3 by (auto simp: pass_def h1 Let_def split: prod.split sum.split option.split)
qed

end


text \<open>A peer that answers every request, and a pass over one source with one event.\<close>

definition kind_peer :: "nat peer" where
  "kind_peer = \<lparr>pe_ulow = (\<lambda>r. r), pe_event = (\<lambda>e. Some (ev_EventID e)), pe_heartbeat = (\<lambda>_. Some []),
     pe_result = (\<lambda>_. Some no_result), pe_url_ok = (\<lambda>_. True),
     pe_Do = (\<lambda>og n. (n + 1, Inr \<lparr>re_StatusCode = 200, re_Status = ''200 OK'', re_Body = []\<rparr>))\<rparr>"

definition local_client :: client where
  "local_client = \<lparr>cl_ServerURL = ''http://hub'', cl_Token = [], cl_RequestTimeout = 0\<rparr>"

definition one_source :: adapter where
  "one_source = \<lparr>ad_ID = ''generic'', ad_Discover = Inr [\<lparr>so_Path = ''/a'', so_Identity = []\<rparr>],
     ad_Parse = (\<lambda>_ _ _. Inr \<lparr>ps_Events = [sample_event], ps_Cursor = no_cursor\<rparr>)\<rparr>"

definition sample_pass :: pass_env where
  "sample_pass = \<lparr>pv_adapters = [one_source], pv_definitions = [], pv_machineID = ''m'', pv_includeProjects = True,
     pv_Version = ''v'', pv_OS = [], pv_Arch = [], pv_synced = (\<lambda>_. 7), pv_commit = 7\<rparr>"

lemma sample_pass_collected: "collected sample_pass empty_agent_state = [sample_event]"
  by (simp add: collected_def CollectWithCursors_def collect_adapters_append adapter_pass_def collect_source_def
      sample_pass_def one_source_def strip_projects_def)


end
