(* ===== verification/Go_Net.thy ===== *)
theory Go_Net
  imports Sha256
begin

unbundle bit_operations_syntax

text \<open>
  What the program uses of packages \<open>net\<close>, \<open>net/http\<close>, \<open>encoding/base64\<close> and \<open>crypto/hmac\<close>:
  \<open>SplitHostPort\<close>, the addresses \<open>ParseIP\<close> and \<open>ParseCIDR\<close> accept, the header accessors of a
  request, base 64 and HMAC-SHA256. An IP address is its 4 or 16 bytes as numbers.
\<close>

subsection \<open>Addresses\<close>

type_synonym ip = "nat list"

definition count_char :: "char \<Rightarrow> gostr \<Rightarrow> nat" where "count_char c s = length (filter (\<lambda>x. x = c) s)"

definition split_host_port :: "gostr \<Rightarrow> (gostr \<times> gostr) option" where
  "split_host_port s =
    (if CHR '':'' \<notin> set s then None
     else if hd s = CHR ''['' then
       (case cut_on (CHR '']'') s of (pre, rest, ok) \<Rightarrow>
          if ok \<and> rest \<noteq> [] \<and> hd rest = CHR '':'' \<and> CHR '':'' \<notin> set (tl rest)
             \<and> CHR ''['' \<notin> set (tl s) \<and> CHR '']'' \<notin> set rest
          then Some (tl pre, tl rest) else None)
     else (case cut_on (CHR '':'') s of (host, port, _) \<Rightarrow>
          if CHR '':'' \<in> set port \<or> CHR ''['' \<in> set s \<or> CHR '']'' \<in> set s then None else Some (host, port)))"

definition decimal :: "gostr \<Rightarrow> nat" where
  "decimal s = foldl (\<lambda>n c. n * 10 + (byte c - 48)) 0 s"

definition dec_digit :: "char \<Rightarrow> bool" where "dec_digit c \<longleftrightarrow> 48 \<le> byte c \<and> byte c \<le> 57"

text \<open>One field of a dotted address: digits without a leading zero, at most 255.\<close>

definition ipv4_field :: "gostr \<Rightarrow> bool" where
  "ipv4_field f \<longleftrightarrow> f \<noteq> [] \<and> list_all dec_digit f \<and> (hd f = CHR ''0'' \<longrightarrow> tl f = []) \<and> decimal f \<le> 255"

definition parse_ipv4 :: "gostr \<Rightarrow> ip option" where
  "parse_ipv4 s =
    (let fs = split_on (CHR ''.'') s in
     if length fs = 4 \<and> list_all ipv4_field fs then Some (map decimal fs) else None)"

definition hex_val :: "char \<Rightarrow> nat" where
  "hex_val c = (if byte c \<le> 57 then byte c - 48 else if byte c \<le> 70 then byte c - 55 else byte c - 87)"

text \<open>
  The loop of \<open>parseIPv6\<close>: the bytes so far and where the ellipsis stands among them.
\<close>

lemma takeWhile_rest_shorter: "takeWhile P s \<noteq> [] \<Longrightarrow> length s - length (takeWhile P s) < length s"
  by (cases s) (auto split: if_splits)

function ip6_groups :: "gostr \<Rightarrow> ip \<Rightarrow> nat option \<Rightarrow> (ip \<times> nat option \<times> gostr) option" where
  "ip6_groups s ip ell =
    (if 16 \<le> length ip then Some (ip, ell, s)
     else let h = takeWhile is_hex_char s; rest = drop (length h) s; v = foldl (\<lambda>n c. n * 16 + hex_val c) 0 h;
              ip' = ip @ [v div 256, v mod 256] in
       if h = [] \<or> 4 < length h then None
       else if rest \<noteq> [] \<and> hd rest = CHR ''.'' then
         (if (ell = None \<and> length ip \<noteq> 12) \<or> 16 < length ip + 4 then None
          else case parse_ipv4 s of None \<Rightarrow> None | Some b \<Rightarrow> Some (ip @ b, ell, []))
       else if rest = [] then Some (ip', ell, [])
       else if hd rest \<noteq> CHR '':'' \<or> tl rest = [] then None
       else if hd (tl rest) = CHR '':'' then
         (if ell \<noteq> None then None
          else if tl (tl rest) = [] then Some (ip', Some (length ip'), [])
          else ip6_groups (tl (tl rest)) ip' (Some (length ip')))
       else ip6_groups (tl rest) ip' ell)"
  by pat_completeness auto
termination
  by (relation "measure (\<lambda>(s, _, _). length s)") (auto dest: takeWhile_rest_shorter simp: less_imp_diff_less)

declare ip6_groups.simps [simp del]

definition expand_ip6 :: "ip \<times> nat option \<times> gostr \<Rightarrow> ip option" where
  "expand_ip6 r =
    (case r of (ip, ell, s) \<Rightarrow>
       if s \<noteq> [] then None
       else if length ip < 16 then
         (case ell of None \<Rightarrow> None | Some e \<Rightarrow> Some (take e ip @ replicate (16 - length ip) 0 @ drop e ip))
       else if ell \<noteq> None then None else Some ip)"

definition parse_ipv6 :: "gostr \<Rightarrow> ip option" where
  "parse_ipv6 s =
    (if take 2 s = ''::'' then
       (if length s = 2 then Some (replicate 16 0) else Option.bind (ip6_groups (drop 2 s) [] (Some 0)) expand_ip6)
     else Option.bind (ip6_groups s [] None) expand_ip6)"

text \<open>\<open>netip.ParseAddr\<close> without a zone: 4 bytes or 16.\<close>

definition parse_addr :: "gostr \<Rightarrow> ip option" where
  "parse_addr s =
    (if CHR ''%'' \<in> set s then None
     else (case dropWhile (\<lambda>c. c \<noteq> CHR ''.'' \<and> c \<noteq> CHR '':'') s of [] \<Rightarrow> None
           | c # _ \<Rightarrow> if c = CHR ''.'' then parse_ipv4 s else parse_ipv6 s))"

definition v4_prefix :: ip where "v4_prefix = replicate 10 0 @ [255, 255]"

definition to16 :: "ip \<Rightarrow> ip" where "to16 ip = (if length ip = 4 then v4_prefix @ ip else ip)"

text \<open>\<open>net.ParseIP\<close> gives the 16-byte form; \<open>To4\<close> undoes it for an IPv4 address.\<close>

definition parse_ip :: "gostr \<Rightarrow> ip option" where "parse_ip s = map_option to16 (parse_addr s)"

definition to4 :: "ip \<Rightarrow> ip option" where
  "to4 ip = (if length ip = 4 then Some ip
             else if length ip = 16 \<and> take 12 ip = v4_prefix then Some (drop 12 ip) else None)"

definition is_loopback :: "ip \<Rightarrow> bool" where
  "is_loopback ip = (case to4 ip of Some b \<Rightarrow> hd b = 127 | None \<Rightarrow> ip = replicate 15 0 @ [1])"

text \<open>A network: the masked address and the mask, both with 4 or both with 16 bytes.\<close>

record ip_net =
  net_IP :: ip
  net_Mask :: ip

definition cidr_mask :: "nat \<Rightarrow> nat \<Rightarrow> ip" where
  "cidr_mask n l = map (\<lambda>i. 256 - 2 ^ (8 - min 8 (n - 8 * i))) [0 ..< l]"

definition and_bytes :: "ip \<Rightarrow> ip \<Rightarrow> ip" where "and_bytes a m = map2 (\<lambda>x y. x AND y) a m"

definition parse_cidr :: "gostr \<Rightarrow> ip_net option" where
  "parse_cidr s =
    (case cut_on (CHR ''/'') s of (a, m, found) \<Rightarrow>
       if \<not> found then None
       else case parse_addr a of None \<Rightarrow> None
        | Some ip \<Rightarrow>
            if m = [] \<or> \<not> list_all dec_digit m \<or> 8 * length ip < decimal m then None
            else (let mask = cidr_mask (decimal m) (length ip) in
                  Some \<lparr>net_IP = and_bytes ip mask, net_Mask = mask\<rparr>))"

text \<open>\<open>IPNet.Contains\<close>: an IPv4-mapped network compares the last four bytes.\<close>

definition net_contains :: "ip_net \<Rightarrow> ip \<Rightarrow> bool" where
  "net_contains n ip =
    (let (nn, m) = (case to4 (net_IP n) of
                      Some b \<Rightarrow> (b, if length (net_Mask n) = 16 then drop 12 (net_Mask n) else net_Mask n)
                    | None \<Rightarrow> (net_IP n, net_Mask n));
         x = (case to4 ip of Some b \<Rightarrow> b | None \<Rightarrow> ip)
     in length x = length nn \<and> and_bytes nn m = and_bytes x m)"

subsection \<open>Base 64 and HMAC\<close>

definition base64_digit :: "char \<Rightarrow> nat option" where
  "base64_digit c =
    (let b = byte c in
     if 65 \<le> b \<and> b \<le> 90 then Some (b - 65) else if 97 \<le> b \<and> b \<le> 122 then Some (b - 71)
     else if 48 \<le> b \<and> b \<le> 57 then Some (b + 4) else if b = 43 then Some 62 else if b = 47 then Some 63 else None)"

text \<open>
  \<open>StdEncoding.DecodeString\<close>: line breaks are skipped, the groups have four characters, only the
  last may be padded, and the spare bits of a padded group are ignored.
\<close>

fun base64_groups :: "gostr \<Rightarrow> gostr option" where
  "base64_groups [] = Some []"
| "base64_groups (a # b # c # d # rest) =
    (case (base64_digit a, base64_digit b) of
       (Some x, Some y) \<Rightarrow>
         if rest = [] \<and> c = CHR ''='' \<and> d = CHR ''='' then Some [char_of (x * 4 + y div 16)]
         else (case base64_digit c of None \<Rightarrow> None
            | Some z \<Rightarrow>
                if rest = [] \<and> d = CHR ''='' then Some [char_of (x * 4 + y div 16), char_of (y mod 16 * 16 + z div 4)]
                else (case (base64_digit d, base64_groups rest) of
                        (Some w, Some r) \<Rightarrow> Some (char_of (x * 4 + y div 16) # char_of (y mod 16 * 16 + z div 4)
                                                  # char_of (z mod 4 * 64 + w) # r)
                      | _ \<Rightarrow> None))
     | _ \<Rightarrow> None)"
| "base64_groups _ = None"

definition base64_decode :: "gostr \<Rightarrow> gostr option" where
  "base64_decode s = base64_groups (filter (\<lambda>c. byte c \<noteq> 10 \<and> byte c \<noteq> 13) s)"

definition url_digit :: "nat \<Rightarrow> char" where
  "url_digit n = (if n < 26 then char_of (n + 65) else if n < 52 then char_of (n + 71)
     else if n < 62 then char_of (n - 4) else if n = 62 then CHR ''-'' else CHR ''_'')"

text \<open>\<open>RawURLEncoding.EncodeToString\<close>.\<close>

fun base64_raw_url :: "gostr \<Rightarrow> gostr" where
  "base64_raw_url [] = []"
| "base64_raw_url [a] = [url_digit (byte a div 4), url_digit (byte a mod 4 * 16)]"
| "base64_raw_url [a, b] = [url_digit (byte a div 4), url_digit (byte a mod 4 * 16 + byte b div 16), url_digit (byte b mod 16 * 4)]"
| "base64_raw_url (a # b # c # r) =
    [url_digit (byte a div 4), url_digit (byte a mod 4 * 16 + byte b div 16),
     url_digit (byte b mod 16 * 4 + byte c div 64), url_digit (byte c mod 64)] @ base64_raw_url r"

definition xor_pad :: "nat \<Rightarrow> gostr \<Rightarrow> gostr" where
  "xor_pad p k = map (\<lambda>c. char_of (byte c XOR p)) (k @ replicate (64 - length k) (char_of (0 :: nat)))"

definition hmac_sha256 :: "gostr \<Rightarrow> gostr \<Rightarrow> gostr" where
  "hmac_sha256 key msg =
    (let k = (if 64 < length key then sha256_sum key else key)
     in sha256_sum (xor_pad 92 k @ sha256_sum (xor_pad 54 k @ msg)))"

subsection \<open>Requests\<close>

text \<open>
  A request as the handlers read it: the peer's address, the host, whether the connection is
  encrypted, the headers by canonical name (empty when absent) and the body.
\<close>

record request =
  rq_Method :: gostr
  rq_RemoteAddr :: gostr
  rq_Host :: gostr
  rq_TLS :: bool
  rq_Header :: "gostr \<Rightarrow> gostr"
  rq_Body :: gostr

text \<open>
  \<open>strings.EqualFold\<close>: equal runes after folding; \<open>ufold\<close> is the folding table of non-ASCII
  runes, data of the Go distribution.
\<close>

definition equal_fold :: "(nat \<Rightarrow> nat) \<Rightarrow> gostr \<Rightarrow> gostr \<Rightarrow> bool" where
  "equal_fold ufold s t \<longleftrightarrow> map (lower_rune ufold) (rune_list s) = map (lower_rune ufold) (rune_list t)"

definition lower_ascii :: "gostr \<Rightarrow> gostr" where
  "lower_ascii s = map (\<lambda>c. if 65 \<le> byte c \<and> byte c \<le> 90 then char_of (byte c + 32) else c) s"

definition BasicAuth :: "request \<Rightarrow> (gostr \<times> gostr) option" where
  "BasicAuth r =
    (let auth = rq_Header r ''Authorization'' in
     if length auth < 6 \<or> lower_ascii (take 6 auth) \<noteq> ''basic '' then None
     else case base64_decode (drop 6 auth) of None \<Rightarrow> None
      | Some cs \<Rightarrow> (case cut_on (CHR '':'') cs of (u, p, ok) \<Rightarrow> if ok then Some (u, p) else None))"

end
