(* ===== verification/Api_Security.thy ===== *)
theory Api_Security
  imports Go_Net Go_Zone
begin

text \<open>
  Package \<open>internal/api\<close>, file \<open>security.go\<close>: who may ingest, who may see the dashboard, and how
  failed dashboard logins are throttled. \<open>bcrypt\<close> (a third-party package), \<open>url.Parse\<close>, the gzip
  and JSON decoders and the printing of an address are parameters.
\<close>

subsection \<open>Configuration\<close>

record config =
  cf_IngestToken :: gostr
  cf_DashboardToken :: gostr
  cf_DashboardUsername :: gostr
  cf_DashboardPasswordHash :: gostr
  cf_DashboardTokenFallback :: bool
  cf_AllowLoopbackDev :: bool
  cf_TrustedProxyCIDRs :: "gostr list"
  cf_RequestTimeout :: i64
  cf_HealthTimeout :: i64
  cf_HeartbeatTimeout :: i64
  cf_IngestTimeout :: i64
  cf_StaleAgentAfter :: i64

definition DefaultRequestTimeout :: i64 where "DefaultRequestTimeout = seconds 30"
definition DefaultHealthTimeout :: i64 where "DefaultHealthTimeout = seconds 5"
definition DefaultHeartbeatTimeout :: i64 where "DefaultHeartbeatTimeout = seconds 15"
definition DefaultIngestTimeout :: i64 where "DefaultIngestTimeout = seconds 30"
definition DefaultStaleAgentAfter :: i64 where "DefaultStaleAgentAfter = minutes 5"

definition maxCompressedBodyBytes :: nat where "maxCompressedBodyBytes = 10485760"
definition maxDecompressedBodyBytes :: nat where "maxDecompressedBodyBytes = 8388608"
definition maxBatchBodyBytes :: nat where "maxBatchBodyBytes = 4194304"
definition maxBatchEvents :: nat where "maxBatchEvents = 1000"

definition positive_or :: "i64 \<Rightarrow> i64 \<Rightarrow> i64" where "positive_or d v = (if v \<le> 0 then d else v)"

definition normalized_config :: "config \<Rightarrow> config" where
  "normalized_config c = c\<lparr>
    cf_DashboardToken := (if cf_DashboardToken c = [] then cf_IngestToken c else cf_DashboardToken c),
    cf_RequestTimeout := positive_or DefaultRequestTimeout (cf_RequestTimeout c),
    cf_HealthTimeout := positive_or DefaultHealthTimeout (cf_HealthTimeout c),
    cf_HeartbeatTimeout := positive_or DefaultHeartbeatTimeout (cf_HeartbeatTimeout c),
    cf_IngestTimeout := positive_or DefaultIngestTimeout (cf_IngestTimeout c),
    cf_StaleAgentAfter := positive_or DefaultStaleAgentAfter (cf_StaleAgentAfter c)\<rparr>"

datatype security_error = InvalidTrustedProxyCIDR | PasswordPairRequired | NotBcryptHash
  | IngestTokenRequired | LoopbackAddressRequired

fun parseTrustedProxyCIDRs :: "gostr list \<Rightarrow> security_error + ip_net list" where
  "parseTrustedProxyCIDRs [] = Inr []"
| "parseTrustedProxyCIDRs (v # vs) =
    (let value = trim_space v in
     if value = [] then parseTrustedProxyCIDRs vs
     else case parse_cidr value of None \<Rightarrow> Inl InvalidTrustedProxyCIDR
      | Some n \<Rightarrow> (case parseTrustedProxyCIDRs vs of Inl e \<Rightarrow> Inl e | Inr ns \<Rightarrow> Inr (n # ns)))"

definition loopbackListenAddress :: "gostr \<Rightarrow> bool" where
  "loopbackListenAddress addr =
    (let host0 = trim_space addr;
         after_host = (\<lambda>host. host = ''localhost'' \<or> (case parse_ip host of None \<Rightarrow> False | Some ip \<Rightarrow> is_loopback ip))
     in if has_prefix host0 ''['' then
          (case cut_on (CHR '']'') host0 of (pre, _, found) \<Rightarrow> after_host (if found then tl pre else host0))
        else if count_char (CHR '':'') host0 = 1 then
          (case split_host_port host0 of Some (h, _) \<Rightarrow> after_host h | None \<Rightarrow> after_host host0)
        else if has_prefix host0 '':'' then False
        else after_host host0)"

definition validateDashboardPasswordAuth :: "(gostr \<Rightarrow> bool) \<Rightarrow> config \<Rightarrow> security_error goerror" where
  "validateDashboardPasswordAuth bcrypt_cost_ok c = first_error [
    fail_if ((cf_DashboardUsername c = []) \<noteq> (cf_DashboardPasswordHash c = [])) PasswordPairRequired,
    fail_if (cf_DashboardPasswordHash c \<noteq> [] \<and> \<not> bcrypt_cost_ok (cf_DashboardPasswordHash c)) NotBcryptHash]"

definition ValidateServeConfig :: "gostr \<Rightarrow> gostr \<Rightarrow> bool \<Rightarrow> security_error goerror" where
  "ValidateServeConfig addr ingestToken allowLoopbackDev =
    (if trim_space ingestToken \<noteq> [] then None
     else if \<not> allowLoopbackDev then Some IngestTokenRequired
     else if \<not> loopbackListenAddress addr then Some LoopbackAddressRequired
     else None)"

datatype auth_mode = PasswordAccount | DashboardTokenMode | LoopbackDevelopment | Closed
datatype token_origin = IngestFallback | ExplicitToken | NoToken

definition authSummary :: "config \<Rightarrow> auth_mode \<times> token_origin" where
  "authSummary c =
    ((if cf_DashboardUsername c \<noteq> [] \<and> cf_DashboardPasswordHash c \<noteq> [] then PasswordAccount
      else if cf_DashboardToken c \<noteq> [] then DashboardTokenMode
      else if cf_AllowLoopbackDev c then LoopbackDevelopment else Closed),
     (if cf_DashboardTokenFallback c then IngestFallback
      else if cf_DashboardToken c \<noteq> [] then ExplicitToken else NoToken))"

subsection \<open>Credentials of a request\<close>

definition newCSRFSecret :: "gostr \<Rightarrow> gostr \<Rightarrow> gostr" where
  "newCSRFSecret random32 tok = (if tok \<noteq> [] then sha256_sum (''tokemon/settings/csrf/'' @ tok) else random32)"

definition csrfToken :: "gostr \<Rightarrow> gostr" where
  "csrfToken secret = base64_raw_url (hmac_sha256 secret ''settings'')"

definition validCSRFToken :: "gostr \<Rightarrow> gostr \<Rightarrow> bool" where
  "validCSRFToken secret value \<longleftrightarrow> value = csrfToken secret"

definition trim_brackets :: "gostr \<Rightarrow> gostr" where
  "trim_brackets s = (let b = (\<lambda>c. c = CHR ''['' \<or> c = CHR '']'') in rev (dropWhile b (rev (dropWhile b s))))"

definition requestRemoteIP :: "request \<Rightarrow> ip option" where
  "requestRemoteIP r =
    (let remote = trim_space (rq_RemoteAddr r);
         host = (case split_host_port remote of Some (h, _) \<Rightarrow> h | None \<Rightarrow> remote)
     in parse_ip (trim_brackets host))"

definition requestIsLoopback :: "request \<Rightarrow> bool" where
  "requestIsLoopback r = (case requestRemoteIP r of None \<Rightarrow> False | Some ip \<Rightarrow> is_loopback ip)"

definition trustedProxyUser :: "ip_net list \<Rightarrow> request \<Rightarrow> gostr" where
  "trustedProxyUser networks r =
    (if networks = [] then []
     else case requestRemoteIP r of None \<Rightarrow> []
      | Some ip \<Rightarrow> if list_ex (\<lambda>n. net_contains n ip) networks then trim_space (rq_Header r ''X-Forwarded-User'') else [])"

definition constantTimeEqual :: "gostr \<Rightarrow> gostr \<Rightarrow> bool" where
  "constantTimeEqual provided expected \<longleftrightarrow> sha256_sum provided = sha256_sum expected"

definition dashboardPasswordAuthorized :: "(gostr \<Rightarrow> gostr \<Rightarrow> bool) \<Rightarrow> request \<Rightarrow> gostr \<Rightarrow> gostr \<Rightarrow> bool" where
  "dashboardPasswordAuthorized bcrypt_matches r username hash =
    (if username = [] \<or> hash = [] then False
     else case BasicAuth r of None \<Rightarrow> False
      | Some (u, p) \<Rightarrow> if \<not> constantTimeEqual u username then False else bcrypt_matches hash p)"

definition bearerToken :: "request \<Rightarrow> gostr option" where
  "bearerToken r =
    (let header = rq_Header r ''Authorization'' in
     if \<not> has_prefix header ''Bearer '' then None
     else (let tok = trim_prefix header ''Bearer '' in
       if tok = [] \<or> trim_space tok \<noteq> tok \<or> list_ex (\<lambda>c. byte c = 13 \<or> byte c = 10) tok then None else Some tok))"

definition validToken :: "request \<Rightarrow> gostr \<Rightarrow> bool" where
  "validToken r expected =
    (if expected = [] then False
     else (let headerToken = rq_Header r ''X-Tokemon-Ingest-Token'' in
       case bearerToken r of
         Some bearer \<Rightarrow>
           if headerToken \<noteq> [] then constantTimeEqual headerToken expected \<and> constantTimeEqual bearer expected
           else constantTimeEqual bearer expected
       | None \<Rightarrow> if headerToken \<noteq> [] then constantTimeEqual headerToken expected else False))"

definition ingestAuthorized :: "config \<Rightarrow> request \<Rightarrow> bool" where
  "ingestAuthorized c r =
    (if cf_IngestToken c = [] then cf_AllowLoopbackDev c \<and> requestIsLoopback r else validToken r (cf_IngestToken c))"

definition dashboardAuthorized :: "(gostr \<Rightarrow> gostr \<Rightarrow> bool) \<Rightarrow> config \<Rightarrow> ip_net list \<Rightarrow> request \<Rightarrow> bool" where
  "dashboardAuthorized bcrypt_matches c networks r =
    (if cf_AllowLoopbackDev c \<and> cf_IngestToken c = [] \<and> requestIsLoopback r then True
     else if trustedProxyUser networks r \<noteq> [] then True
     else (let tok = cf_DashboardToken c in
       if tok = [] then False
       else if (case BasicAuth r of Some (u, p) \<Rightarrow> u \<noteq> [] \<and> constantTimeEqual p tok | None \<Rightarrow> False) then True
       else if (case bearerToken r of Some b \<Rightarrow> constantTimeEqual b tok | None \<Rightarrow> False) then True
       else dashboardPasswordAuthorized bcrypt_matches r (cf_DashboardUsername c) (cf_DashboardPasswordHash c)))"

text \<open>
  \<open>sameOrigin\<close> and \<open>validSettingsOrigin\<close>: \<open>url_parse\<close> gives the scheme and host of a URL that
  \<open>url.Parse\<close> accepts.
\<close>

definition sameOrigin :: "(nat \<Rightarrow> nat) \<Rightarrow> (gostr \<Rightarrow> (gostr \<times> gostr) option) \<Rightarrow> gostr \<Rightarrow> request \<Rightarrow> bool" where
  "sameOrigin ufold url_parse value r =
    (case url_parse value of None \<Rightarrow> False
     | Some (scheme, host) \<Rightarrow>
         if host = [] \<or> \<not> equal_fold ufold host (rq_Host r) then False
         else if scheme = [] then True
         else equal_fold ufold scheme (if rq_TLS r then ''https'' else ''http''))"

definition validSettingsOrigin :: "(nat \<Rightarrow> nat) \<Rightarrow> (gostr \<Rightarrow> (gostr \<times> gostr) option) \<Rightarrow> request \<Rightarrow> bool" where
  "validSettingsOrigin ufold url_parse r =
    list_all (\<lambda>header. let value = trim_space (rq_Header r header) in \<not> (value \<noteq> [] \<and> \<not> sameOrigin ufold url_parse value r))
      [''Origin'', ''Referer'']"

subsection \<open>Throttling failed logins\<close>

definition loginFailuresAllowed :: int where "loginFailuresAllowed = 5"
definition loginFailureWindow :: i64 where "loginFailureWindow = minutes 5"
definition loginBaseLockout :: i64 where "loginBaseLockout = seconds 15"
definition loginMaxLockout :: i64 where "loginMaxLockout = minutes 10"
definition loginMaxTrackedRemote :: nat where "loginMaxTrackedRemote = 1024"

record loginAttempt =
  la_failures :: int
  la_firstFailure :: instant
  la_lastFailure :: instant
  la_lockedUntil :: instant

text \<open>The table, a Go map: an association list in the order an iteration visits it.\<close>

type_synonym loginThrottle = "(gostr \<times> loginAttempt) list"

fun lockout_loop :: "nat \<Rightarrow> i64 \<Rightarrow> i64" where
  "lockout_loop 0 lockout = lockout"
| "lockout_loop (Suc excess) lockout =
    (if lockout < loginMaxLockout then lockout_loop excess (i64_mul lockout 2) else lockout)"

definition loginLockout :: "int \<Rightarrow> i64" where
  "loginLockout failures =
    (if failures < loginFailuresAllowed then 0
     else (let lockout = lockout_loop (nat (failures - loginFailuresAllowed)) loginBaseLockout in
           if loginMaxLockout < lockout then loginMaxLockout else lockout))"

definition throttle_check :: "loginThrottle \<Rightarrow> instant \<Rightarrow> gostr \<Rightarrow> bool \<times> i64" where
  "throttle_check l now remote =
    (case map_of l remote of None \<Rightarrow> (False, 0)
     | Some entry \<Rightarrow>
         if loginFailureWindow < time_sub now (la_lastFailure entry) then (False, 0)
         else (let remaining = time_sub (la_lockedUntil entry) now in
               if 0 < remaining then (True, remaining) else (False, 0)))"

definition expired :: "instant \<Rightarrow> loginAttempt \<Rightarrow> bool" where
  "expired now entry \<longleftrightarrow> la_lockedUntil entry < now \<and> loginFailureWindow < time_sub now (la_lastFailure entry)"

text \<open>The scan of \<open>evict\<close>: what is kept, and the least recently active remote among it.\<close>

fun evict_scan :: "instant \<Rightarrow> gostr \<Rightarrow> instant \<Rightarrow> loginThrottle \<Rightarrow> loginThrottle \<times> gostr" where
  "evict_scan now oldestKey oldestFailure [] = ([], oldestKey)"
| "evict_scan now oldestKey oldestFailure ((remote, entry) # l) =
    (if expired now entry then evict_scan now oldestKey oldestFailure l
     else (let older = la_lastFailure entry < oldestFailure in
       case evict_scan now (if older then remote else oldestKey) (if older then la_lastFailure entry else oldestFailure) l of
         (kept, k) \<Rightarrow> ((remote, entry) # kept, k)))"

definition evict :: "instant \<Rightarrow> loginThrottle \<Rightarrow> loginThrottle" where
  "evict now l =
    (case evict_scan now [] now l of (kept, oldestKey) \<Rightarrow>
       if loginMaxTrackedRemote \<le> length kept \<and> oldestKey \<noteq> [] then remove_key oldestKey kept else kept)"

definition recordFailure :: "instant \<Rightarrow> gostr \<Rightarrow> loginThrottle \<Rightarrow> loginThrottle" where
  "recordFailure now remote l =
    (let (l1, entry1) = (case map_of l remote of
            None \<Rightarrow> (if loginMaxTrackedRemote \<le> length l then evict now l else l,
                     \<lparr>la_failures = 0, la_firstFailure = zero_time, la_lastFailure = zero_time, la_lockedUntil = zero_time\<rparr>)
          | Some entry \<Rightarrow>
              (l, if loginFailureWindow < time_sub now (la_lastFailure entry)
                  then entry\<lparr>la_lockedUntil := zero_time, la_failures := 0\<rparr> else entry));
         entry2 = (if la_failures entry1 = 0 then entry1\<lparr>la_firstFailure := now\<rparr> else entry1);
         entry3 = entry2\<lparr>la_failures := la_failures entry2 + 1, la_lastFailure := now\<rparr>;
         entry4 = (if loginFailuresAllowed \<le> la_failures entry3
                   then entry3\<lparr>la_lockedUntil := now + loginLockout (la_failures entry3)\<rparr> else entry3)
     in upsert remote entry4 l1)"

definition recordSuccess :: "gostr \<Rightarrow> loginThrottle \<Rightarrow> loginThrottle" where
  "recordSuccess remote l = remove_key remote l"

definition loginLimitKey :: "(ip \<Rightarrow> gostr) \<Rightarrow> request \<Rightarrow> gostr" where
  "loginLimitKey ip_string r = (case requestRemoteIP r of Some ip \<Rightarrow> ip_string ip | None \<Rightarrow> rq_RemoteAddr r)"

text \<open>What the wrapper answers, and whether the wrapped handler runs.\<close>

datatype dashboard_answer = TooManyRequests int | Unauthorized | Serve

definition dashboardAuth ::
  "(gostr \<Rightarrow> gostr \<Rightarrow> bool) \<Rightarrow> (ip \<Rightarrow> gostr) \<Rightarrow> config \<Rightarrow> ip_net list \<Rightarrow> instant \<Rightarrow> request \<Rightarrow> loginThrottle
    \<Rightarrow> loginThrottle \<times> dashboard_answer" where
  "dashboardAuth bcrypt_matches ip_string c networks now r l =
    (let remote = loginLimitKey ip_string r in
     case throttle_check l now remote of (blocked, retryAfter) \<Rightarrow>
       if blocked then
         (l, TooManyRequests (go_div retryAfter nanos_per_second + (if go_mod retryAfter nanos_per_second \<noteq> 0 then 1 else 0)))
       else if \<not> dashboardAuthorized bcrypt_matches c networks r then (recordFailure now remote l, Unauthorized)
       else (recordSuccess remote l, Serve))"

subsection \<open>Decoding a body\<close>

datatype body_error = InvalidGzip | BodyRead | BodyTooLarge | InvalidJSON

text \<open>
  The decoders: \<open>gz_open raw\<close> says whether a gzip header can be read from the raw bytes (at most
  the first 10 MiB, \<open>over\<close> when there were more), \<open>gz_read\<close> reads at most \<open>n\<close> decompressed bytes,
  \<open>json\<close> decodes one value and gives the bytes after it.
\<close>

record 'a decoders =
  gz_open :: "gostr \<Rightarrow> bool"
  gz_read :: "gostr \<Rightarrow> bool \<Rightarrow> nat \<Rightarrow> gostr option"
  json_value :: "gostr \<Rightarrow> ('a \<times> gostr) option"

definition json_space :: "char \<Rightarrow> bool" where
  "json_space c \<longleftrightarrow> byte c = 32 \<or> byte c = 9 \<or> byte c = 10 \<or> byte c = 13"

definition raw_read :: "gostr \<Rightarrow> bool \<Rightarrow> nat \<Rightarrow> gostr option" where
  "raw_read raw over n = (if over \<and> length raw < n then None else Some (take n raw))"

definition decodeJSONBody :: "(nat \<Rightarrow> nat) \<Rightarrow> 'a decoders \<Rightarrow> request \<Rightarrow> nat \<Rightarrow> body_error + 'a" where
  "decodeJSONBody ufold d r limit =
    (let raw = take maxCompressedBodyBytes (rq_Body r);
         over = (maxCompressedBodyBytes < length (rq_Body r));
         gzipped = equal_fold ufold (rq_Header r ''Content-Encoding'') ''gzip''
     in if gzipped \<and> \<not> gz_open d raw then Inl InvalidGzip
        else case (if gzipped then gz_read d raw over (limit + 1) else raw_read raw over (limit + 1)) of
          None \<Rightarrow> Inl BodyRead
        | Some body \<Rightarrow>
            if limit < length body then Inl BodyTooLarge
            else case json_value d body of None \<Rightarrow> Inl InvalidJSON
              | Some (v, rest) \<Rightarrow> if list_all json_space rest then Inr v else Inl InvalidJSON)"

subsection \<open>Lockouts\<close>

lemmas security_consts = loginFailuresAllowed_def loginFailureWindow_def loginBaseLockout_def loginMaxLockout_def
  minutes_def seconds_def nanos_per_second_def

lemma lockout_loop_min:
  "0 < x \<Longrightarrow> x < 2 * loginMaxLockout \<Longrightarrow> min loginMaxLockout (lockout_loop k x) = min loginMaxLockout (x * 2 ^ k)"
proof (induction k arbitrary: x)
  case (Suc k)
  show ?case
  proof (cases "x < loginMaxLockout")
    case True
    then have "i64_mul x 2 = x * 2"
      using Suc.prems by (simp add: i64_mul_def is_i64_def min_i64_def max_i64_def security_consts)
    then show ?thesis using True Suc.IH[of "x * 2"] Suc.prems by (simp add: mult.assoc)
  next
    case False
    have "x * 1 \<le> x * 2 ^ Suc k" using Suc.prems one_le_power[of "2 :: int" "Suc k"] by (intro mult_left_mono) simp_all
    then show ?thesis using False by simp
  qed
qed simp

text \<open>The doubling loop against its closed form.\<close>

lemma loginLockout_closed:
  "loginLockout n = (if n < 5 then 0 else min (minutes 10) (seconds 15 * 2 ^ nat (n - 5)))"
  using lockout_loop_min[of loginBaseLockout "nat (n - 5)"]
  by (auto simp: loginLockout_def loginFailuresAllowed_def Let_def min_def loginMaxLockout_def loginBaseLockout_def
      minutes_def seconds_def nanos_per_second_def split: if_splits)

lemma loginLockout_pos: "5 \<le> n \<Longrightarrow> 0 < loginLockout n"
  by (simp add: loginLockout_closed minutes_def seconds_def nanos_per_second_def)

lemma loginLockout_le: "loginLockout n \<le> minutes 10"
  by (simp add: loginLockout_closed minutes_def seconds_def nanos_per_second_def)

lemma time_sub_window: "loginFailureWindow < time_sub a b \<longleftrightarrow> loginFailureWindow < a - b"
  by (simp add: time_sub_def security_consts min_i64_def max_i64_def)

lemma time_sub_minutes: "minutes 5 < time_sub a b \<longleftrightarrow> minutes 5 < a - b"
  using time_sub_window by (simp add: loginFailureWindow_def)

text \<open>The record a failure leaves behind.\<close>

definition next_attempt :: "instant \<Rightarrow> loginAttempt option \<Rightarrow> loginAttempt" where
  "next_attempt now old =
    (let n = (case old of None \<Rightarrow> 1
                | Some e \<Rightarrow> if loginFailureWindow < now - la_lastFailure e then 1 else la_failures e + 1)
     in \<lparr>la_failures = n,
         la_firstFailure = (if n = 1 then now else case old of None \<Rightarrow> now | Some e \<Rightarrow> la_firstFailure e),
         la_lastFailure = now,
         la_lockedUntil = (if 5 \<le> n then now + loginLockout n
            else case old of None \<Rightarrow> zero_time
              | Some e \<Rightarrow> if loginFailureWindow < now - la_lastFailure e then zero_time else la_lockedUntil e)\<rparr>)"

lemma recordFailure_entry: "map_of (recordFailure now remote l) remote = Some (next_attempt now (map_of l remote))"
  by (auto simp: recordFailure_def next_attempt_def Let_def time_sub_window loginFailuresAllowed_def split: option.splits)

definition burst :: "instant list \<Rightarrow> bool" where
  "burst ts = successively (\<lambda>a b. a \<le> b \<and> b - a \<le> loginFailureWindow) ts"

lemma burst_snoc: "burst (ts @ [t]) \<longleftrightarrow> burst ts \<and> (ts \<noteq> [] \<longrightarrow> last ts \<le> t \<and> t - last ts \<le> loginFailureWindow)"
  by (auto simp: burst_def successively_append_iff)

lemma burst_entry:
  assumes "map_of l remote = None" "burst ts" "ts \<noteq> []"
  shows "\<exists>e. map_of (fold (\<lambda>t. recordFailure t remote) ts l) remote = Some e \<and> la_failures e = int (length ts)
    \<and> la_lastFailure e = last ts
    \<and> la_lockedUntil e = (if 5 \<le> length ts then last ts + loginLockout (int (length ts)) else zero_time)"
  using assms(2,3)
proof (induction ts rule: rev_induct)
  case (snoc t ts)
  show ?case
  proof (cases "ts = []")
    case True
    then show ?thesis using assms(1) by (simp add: recordFailure_entry next_attempt_def Let_def)
  next
    case False
    then obtain e where e: "map_of (fold (\<lambda>t. recordFailure t remote) ts l) remote = Some e"
      "la_failures e = int (length ts)" "la_lastFailure e = last ts"
      "la_lockedUntil e = (if 5 \<le> length ts then last ts + loginLockout (int (length ts)) else zero_time)"
      using snoc by (auto simp: burst_snoc)
    have "\<not> loginFailureWindow < t - last ts" using snoc.prems(1) False by (simp add: burst_snoc)
    then show ?thesis using e False by (auto simp: recordFailure_entry next_attempt_def Let_def add.commute)
  qed
qed simp

text \<open>C12: The login throttle, end to end: after a burst of failed logins from a remote that had no
  record (each at most five minutes after the one before), the remote is blocked exactly while the
  burst has at least five failures, the lockout of 15 seconds doubled per further failure (at most
  ten minutes) has not run out, and the last failure is at most five minutes old; the retry time
  reported is the rest of the lockout.\<close>

theorem throttle_burst:
  assumes "map_of l remote = None" "burst ts" "ts \<noteq> []" "last ts \<le> now" "zero_time \<le> now"
  shows "throttle_check (fold (\<lambda>t. recordFailure t remote) ts l) now remote =
    (let n = length ts; until = last ts + min (minutes 10) (seconds 15 * 2 ^ (n - 5))
     in if 5 \<le> n \<and> now < until \<and> now - last ts \<le> minutes 5 then (True, until - now) else (False, 0))"
proof -
  obtain e where e: "map_of (fold (\<lambda>t. recordFailure t remote) ts l) remote = Some e"
    "la_lastFailure e = last ts"
    "la_lockedUntil e = (if 5 \<le> length ts then last ts + loginLockout (int (length ts)) else zero_time)"
    using burst_entry[OF assms(1-3)] by blast
  let ?lock = "min (minutes 10) (seconds 15 * 2 ^ (length ts - 5))"
  have lock: "loginLockout (int (length ts)) = ?lock" if "5 \<le> length ts"
    using that by (simp add: loginLockout_closed nat_diff_distrib)
  have "?lock \<le> minutes 10" by simp
  then have exact: "time_sub (last ts + ?lock) now = last ts + ?lock - now" if "now < last ts + ?lock"
    using that assms(4) by (intro time_sub_exact) (simp add: is_i64_def min_i64_def max_i64_def minutes_def seconds_def nanos_per_second_def)
  show ?thesis
    using exact assms(5) lock by (auto simp: throttle_check_def e Let_def time_sub_minutes time_sub_pos loginFailureWindow_def)
qed

theorem throttle_burst_witness:
  "throttle_check (fold (\<lambda>t. recordFailure t ''r'') [0, 1, 2, 3, 4] []) (seconds 14) ''r'' = (True, seconds 1 + 4)"
  by (subst throttle_burst) (simp_all add: burst_def security_consts zero_time_def instant_of_day_def epoch_day_def Let_def)

subsection \<open>The dashboard wrapper\<close>

lemma evict_scan_Cons:
  "evict_scan now k f ((r, e) # l) = (if expired now e then evict_scan now k f l
    else let s = (if la_lastFailure e < f then evict_scan now r (la_lastFailure e) l else evict_scan now k f l)
         in ((r, e) # fst s, snd s))"
  by (simp add: Let_def case_prod_beta)

lemma evict_scan_filter: "fst (evict_scan now k f l) = filter (\<lambda>p. \<not> expired now (snd p)) l"
proof (induction l arbitrary: k f)
  case (Cons a l)
  then show ?case by (cases a) (simp add: evict_scan_Cons Let_def del: evict_scan.simps(2))
qed simp

lemma evict_scan_key: "k \<noteq> [] \<Longrightarrow> [] \<notin> fst ` set l \<Longrightarrow> snd (evict_scan now k f l) \<noteq> []"
proof (induction l arbitrary: k f)
  case (Cons a l)
  have "fst a \<noteq> []" using Cons.prems(2) by auto
  then show ?case using Cons by (cases a) (simp add: evict_scan_Cons Let_def del: evict_scan.simps(2))
qed simp

lemma evict_scan_mem:
  "snd (evict_scan now k f l) = k \<or> snd (evict_scan now k f l) \<in> fst ` set (fst (evict_scan now k f l))"
proof (induction l arbitrary: k f)
  case (Cons a l)
  obtain r e where a: "a = (r, e)" by (cases a)
  consider "expired now e" | "\<not> expired now e" "la_lastFailure e < f" | "\<not> expired now e" "\<not> la_lastFailure e < f" by blast
  then show ?case
    using Cons.IH[of k f] Cons.IH[of r "la_lastFailure e"]
    by cases (auto simp add: a evict_scan_Cons Let_def simp del: evict_scan.simps(2))
qed simp

lemma evict_scan_found:
  assumes "p \<in> set (fst (evict_scan now k f l))" "la_lastFailure (snd p) < f" "[] \<notin> fst ` set l"
  shows "snd (evict_scan now k f l) \<noteq> []"
  using assms
proof (induction l arbitrary: k f)
  case (Cons a l)
  obtain r e where a: "a = (r, e)" by (cases a)
  have ne: "[] \<notin> fst ` set l" "r \<noteq> []" using Cons.prems(3) a by auto
  consider "expired now e" | "\<not> expired now e" "la_lastFailure e < f" | "\<not> expired now e" "\<not> la_lastFailure e < f" by blast
  then show ?case
  proof cases
    case 2
    then show ?thesis using evict_scan_key[OF ne(2,1)] by (simp add: a evict_scan_Cons Let_def del: evict_scan.simps(2))
  qed (use Cons.IH[of k f] Cons.prems(1,2) ne in \<open>auto simp add: a evict_scan_Cons Let_def simp del: evict_scan.simps(2)\<close>)
qed simp

text \<open>The table between requests: unique non-empty keys, failures in the past, at most 1024 of them.\<close>

definition throttle_ok :: "instant \<Rightarrow> loginThrottle \<Rightarrow> bool" where
  "throttle_ok now l \<longleftrightarrow> distinct (keys_of l) \<and> [] \<notin> fst ` set l \<and> list_all (\<lambda>p. la_lastFailure (snd p) < now) l
    \<and> length l \<le> loginMaxTrackedRemote"

lemma evict_room:
  assumes "throttle_ok now l"
  shows "distinct (keys_of (evict now l)) \<and> set (evict now l) \<subseteq> set l \<and> length (evict now l) < loginMaxTrackedRemote"
proof -
  obtain kept k where e: "evict_scan now [] now l = (kept, k)" by (cases "evict_scan now [] now l")
  have kept: "kept = filter (\<lambda>p. \<not> expired now (snd p)) l" using evict_scan_filter[of now "[]" now l] e by simp
  then have d: "distinct (keys_of kept)" using assms by (simp add: throttle_ok_def distinct_filter_map)
  have len: "length kept \<le> loginMaxTrackedRemote" using assms unfolding kept throttle_ok_def by (meson length_filter_le order_trans)
  show ?thesis
  proof (cases "loginMaxTrackedRemote \<le> length kept")
    case True
    then obtain p where p: "p \<in> set kept" by (cases kept) (auto simp: loginMaxTrackedRemote_def)
    then have "la_lastFailure (snd p) < now" using kept assms by (auto simp: throttle_ok_def list_all_iff)
    then have k: "k \<noteq> []" using evict_scan_found[of p now "[]" now l] p e assms by (simp add: throttle_ok_def)
    then have "k \<in> fst ` set kept" using evict_scan_mem[of now "[]" now l] e by simp
    have ev: "evict now l = remove_key k kept" using True k by (simp add: evict_def e)
    have "set (remove_key k kept) \<subseteq> set l" using kept by (auto simp: remove_key_def)
    moreover have "length (remove_key k kept) < loginMaxTrackedRemote"
      using len \<open>k \<in> fst ` set kept\<close> length_remove_key[OF d, of k] by (simp add: loginMaxTrackedRemote_def)
    ultimately show ?thesis using distinct_keys_remove_key[OF d] by (simp add: ev)
  next
    case False
    then show ?thesis using d kept by (auto simp: evict_def e)
  qed
qed

lemma throttle_ok_mono: "throttle_ok now l \<Longrightarrow> now \<le> now' \<Longrightarrow> throttle_ok now' l"
  by (auto simp: throttle_ok_def list_all_iff)

lemma map_of_None_key: "map_of l k = None \<longleftrightarrow> k \<notin> fst ` set l"
  by (simp add: map_of_eq_None_iff)

lemma upsert_all: "list_all P l \<Longrightarrow> P (k, v) \<Longrightarrow> list_all P (upsert k v l)"
  by (induction k v l rule: upsert.induct) auto

lemma recordFailure_ok:
  assumes "throttle_ok now l" "remote \<noteq> []" "now < now'"
  shows "throttle_ok now' (recordFailure now remote l)"
proof -
  define l1 where "l1 = (if map_of l remote = None \<and> loginMaxTrackedRemote \<le> length l then evict now l else l)"
  obtain e where e: "recordFailure now remote l = upsert remote e l1" "la_lastFailure e = now"
    unfolding recordFailure_def Let_def l1_def by (cases "map_of l remote") auto
  have l1: "distinct (keys_of l1)" "set l1 \<subseteq> set l" "remote \<notin> fst ` set l1 \<Longrightarrow> length l1 < loginMaxTrackedRemote"
      "length l1 \<le> loginMaxTrackedRemote"
    using evict_room[OF assms(1)] assms(1) unfolding l1_def by (auto simp: throttle_ok_def map_of_None_key split: if_splits)
  have "[] \<notin> fst ` set l1" "list_all (\<lambda>p. la_lastFailure (snd p) < now') l1"
    using l1(2) assms(1,3) by (force simp: throttle_ok_def list_all_iff)+
  then show ?thesis using l1(1,3,4) assms(2,3) e by (auto simp: throttle_ok_def length_upsert upsert_all)
qed

lemma recordSuccess_ok: "throttle_ok now l \<Longrightarrow> throttle_ok now (recordSuccess remote l)"
  using length_remove_key_le[of remote l]
  by (auto simp: throttle_ok_def recordSuccess_def distinct_keys_remove_key list_all_remove_key)

text \<open>A server's life: the requests for the dashboard in the order of their times.\<close>

definition serve_requests ::
  "(gostr \<Rightarrow> gostr \<Rightarrow> bool) \<Rightarrow> (ip \<Rightarrow> gostr) \<Rightarrow> config \<Rightarrow> ip_net list \<Rightarrow> (instant \<times> request) list \<Rightarrow> loginThrottle" where
  "serve_requests bm ips c networks reqs = fold (\<lambda>(t, r) l. fst (dashboardAuth bm ips c networks t r l)) reqs []"

lemma dashboardAuth_ok:
  assumes "throttle_ok t l" "loginLimitKey ips r \<noteq> []" "t < t'"
  shows "throttle_ok t' (fst (dashboardAuth bm ips c networks t r l))"
  using recordFailure_ok[OF assms] throttle_ok_mono[OF recordSuccess_ok[OF assms(1)], of t'] throttle_ok_mono[OF assms(1), of t'] assms(3)
  by (auto simp: dashboardAuth_def Let_def split: prod.splits)

text \<open>Request floods cannot grow the table of failed logins: whatever requests arrive, from however
  many addresses and with whatever credentials, at strictly increasing times, the table never holds
  more than 1024 remotes, and never two records of one remote.\<close>

theorem throttle_bounded:
  assumes "sorted_wrt (<) (map fst reqs)" "list_all (\<lambda>(t, r). loginLimitKey ips r \<noteq> []) reqs"
  shows "length (serve_requests bm ips c networks reqs) \<le> 1024 \<and> distinct (keys_of (serve_requests bm ips c networks reqs))"
proof -
  have "\<exists>t'. throttle_ok t' l \<Longrightarrow> list_all (\<lambda>t. throttle_ok t l) (take 1 (map fst reqs)) \<Longrightarrow>
     \<exists>t'. throttle_ok t' (fold (\<lambda>(t, r) l. fst (dashboardAuth bm ips c networks t r l)) reqs l)" for l
    using assms
  proof (induction reqs arbitrary: l)
    case (Cons a reqs)
    obtain t r where a: "a = (t, r)" by (cases a)
    let ?l = "fst (dashboardAuth bm ips c networks t r l)"
    have ok: "throttle_ok t' ?l" if "t < t'" for t'
      using dashboardAuth_ok[of t l ips r t'] that Cons.prems(2,4) a by simp
    have "list_all (\<lambda>t. throttle_ok t ?l) (take 1 (map fst reqs))"
      using ok Cons.prems(3) a by (cases reqs) auto
    then show ?case using Cons.IH[of ?l] ok[of "t + 1"] Cons.prems(3,4) a by auto
  qed simp
  from this[of "[]"] show ?thesis
    by (cases reqs) (auto simp: serve_requests_def throttle_ok_def loginMaxTrackedRemote_def)
qed

definition sample_config :: config where
  "sample_config = \<lparr>cf_IngestToken = ''tok'', cf_DashboardToken = ''dash'', cf_DashboardUsername = [],
    cf_DashboardPasswordHash = [], cf_DashboardTokenFallback = False, cf_AllowLoopbackDev = False, cf_TrustedProxyCIDRs = [],
    cf_RequestTimeout = 0, cf_HealthTimeout = 0, cf_HeartbeatTimeout = 0, cf_IngestTimeout = 0, cf_StaleAgentAfter = 0\<rparr>"

definition sample_request :: request where
  "sample_request = \<lparr>rq_Method = ''GET'', rq_RemoteAddr = ''r'', rq_Host = ''h'', rq_TLS = False, rq_Header = (\<lambda>_. []), rq_Body = []\<rparr>"

lemma sample_key: "loginLimitKey (\<lambda>_. ''ip'') sample_request \<noteq> []"
  by (simp add: loginLimitKey_def sample_request_def split: option.split)

theorem throttle_bounded_witness:
  "length (serve_requests (\<lambda>_ _. False) (\<lambda>_. ''ip'') sample_config [] [(0, sample_request), (1, sample_request)]) \<le> 1024"
  using throttle_bounded[of "[(0, sample_request), (1, sample_request)]" "\<lambda>_. ''ip''" "\<lambda>_ _. False" sample_config "[]"] sample_key
  by simp

text \<open>The wrapper in front of every dashboard page: the page is served only to a request whose
  remote is not locked out and that carries valid credentials, and serving clears the remote's
  record; a locked-out remote is refused whatever it sends and the table is unchanged; and the
  Retry-After it is given is a positive number of seconds after which it is no longer locked out.\<close>

theorem dashboardAuth_serves:
  "case dashboardAuth bm ips c networks now r l of (l', answer) \<Rightarrow>
    (answer = Serve) = (\<not> fst (throttle_check l now (loginLimitKey ips r)) \<and> dashboardAuthorized bm c networks r)
    \<and> (case answer of
        Serve \<Rightarrow> throttle_check l' t (loginLimitKey ips r) = (False, 0)
      | Unauthorized \<Rightarrow> map_of l' (loginLimitKey ips r) = Some (next_attempt now (map_of l (loginLimitKey ips r)))
      | TooManyRequests n \<Rightarrow> l' = l \<and> fst (throttle_check l now (loginLimitKey ips r)) \<and> 1 \<le> n
          \<and> (if is_i64 (la_lockedUntil (the (map_of l (loginLimitKey ips r))) - now)
             then throttle_check l (now + seconds n) (loginLimitKey ips r) = (False, 0) else True))"
proof -
  let ?k = "loginLimitKey ips r"
  obtain b d where c: "throttle_check l now ?k = (b, d)" by (cases "throttle_check l now ?k")
  show ?thesis
  proof (cases b)
    case True
    then obtain e where e: "map_of l ?k = Some e" "0 < d" "d = time_sub (la_lockedUntil e) now"
      using c by (auto simp: throttle_check_def Let_def split: option.splits if_splits)
    define n where "n = go_div d nanos_per_second + (if go_mod d nanos_per_second \<noteq> 0 then 1 else 0)"
    have div: "go_div d nanos_per_second = d div nanos_per_second" "go_mod d nanos_per_second = d mod nanos_per_second"
      using e(2) by (simp_all add: go_div_nonneg go_mod_def nanos_per_second_def minus_mult_div_eq_mod)
    have dm: "d = nanos_per_second * (d div nanos_per_second) + d mod nanos_per_second" by simp
    have "0 \<le> d mod nanos_per_second" "d mod nanos_per_second < nanos_per_second" "0 \<le> d div nanos_per_second"
      using e(2) by (simp_all add: nanos_per_second_def pos_imp_zdiv_nonneg_iff)
    then have n: "d \<le> seconds n" "1 \<le> n"
      using dm e(2) unfolding n_def div seconds_def by (auto simp: nanos_per_second_def)
    have "throttle_check l (now + seconds n) ?k = (False, 0)" if "is_i64 (la_lockedUntil e - now)"
    proof -
      have "la_lockedUntil e - now \<le> seconds n" using n(1) e(3) time_sub_exact[OF that] by simp
      then have "\<not> 0 < time_sub (la_lockedUntil e) (now + seconds n)" unfolding time_sub_pos by simp
      then show ?thesis by (simp add: throttle_check_def e(1) Let_def)
    qed
    then show ?thesis using True c n e by (simp add: dashboardAuth_def n_def Let_def)
  next
    case False
    then show ?thesis using c
      by (simp add: dashboardAuth_def Let_def recordFailure_entry recordSuccess_def throttle_check_def)
  qed
qed

subsection \<open>Nobody without credentials\<close>

definition from_proxy :: "ip_net list \<Rightarrow> request \<Rightarrow> bool" where
  "from_proxy networks r = (case requestRemoteIP r of None \<Rightarrow> False | Some ip \<Rightarrow> list_ex (\<lambda>n. net_contains n ip) networks)"

definition with_header :: "gostr \<Rightarrow> gostr \<Rightarrow> request \<Rightarrow> request" where
  "with_header name v r = r\<lparr>rq_Header := (rq_Header r)(name := v)\<rparr>"

lemma requestRemoteIP_header [simp]: "requestRemoteIP (with_header name v r) = requestRemoteIP r"
  by (simp add: requestRemoteIP_def with_header_def)

lemma trustedProxyUser_outside: "\<not> from_proxy networks r \<Longrightarrow> trustedProxyUser networks r = []"
  by (auto simp: from_proxy_def trustedProxyUser_def split: option.splits)

lemma no_Authorization:
  assumes "rq_Header r ''Authorization'' = []"
  shows "BasicAuth r = None" "bearerToken r = None"
  using assms by (simp_all add: BasicAuth_def bearerToken_def has_prefix_def Let_def)

lemma dashboardAuthorized_forged:
  assumes "\<not> from_proxy networks r"
  shows "dashboardAuthorized bm c networks (with_header ''X-Forwarded-User'' v r) = dashboardAuthorized bm c networks r"
proof -
  let ?r = "with_header ''X-Forwarded-User'' v r"
  have "\<not> from_proxy networks ?r" using assms by (simp add: from_proxy_def)
  then have u: "trustedProxyUser networks ?r = []" "trustedProxyUser networks r = []"
    using assms by (simp_all add: trustedProxyUser_outside)
  have h: "rq_Header ?r ''Authorization'' = rq_Header r ''Authorization''" by (simp add: with_header_def)
  have "BasicAuth ?r = BasicAuth r" "bearerToken ?r = bearerToken r" "requestIsLoopback ?r = requestIsLoopback r"
    unfolding BasicAuth_def bearerToken_def requestIsLoopback_def h by simp_all
  then show ?thesis using u by (simp add: dashboardAuthorized_def dashboardPasswordAuthorized_def Let_def)
qed

text \<open>A server whose configuration was accepted at startup is closed to the outside: a request that
  carries neither an Authorization header nor an ingest token and does not come from a trusted
  proxy is let in, to ingest or to the dashboard, only when the server listens on a loopback
  address in development mode without a token and the request itself comes from loopback; and
  forging the proxy's user header from outside the trusted networks changes nothing.\<close>

theorem accepted_config_closed:
  assumes "ValidateServeConfig addr (cf_IngestToken c) (cf_AllowLoopbackDev c) = None"
    and "\<not> from_proxy networks r"
  shows "dashboardAuthorized bm (normalized_config c) networks (with_header ''X-Forwarded-User'' v r) = dashboardAuthorized bm (normalized_config c) networks r
    \<and> (rq_Header r ''Authorization'' = [] \<and> rq_Header r ''X-Tokemon-Ingest-Token'' = []
        \<and> (ingestAuthorized (normalized_config c) r \<or> dashboardAuthorized bm (normalized_config c) networks r) \<longrightarrow>
      cf_IngestToken c = [] \<and> cf_AllowLoopbackDev c \<and> loopbackListenAddress addr \<and> requestIsLoopback r)"
proof (intro conjI impI; (elim conjE)?)
  show "dashboardAuthorized bm (normalized_config c) networks (with_header ''X-Forwarded-User'' v r) = dashboardAuthorized bm (normalized_config c) networks r"
    by (rule dashboardAuthorized_forged[OF assms(2)])
next
  assume h: "rq_Header r ''Authorization'' = []" "rq_Header r ''X-Tokemon-Ingest-Token'' = []"
    and a: "ingestAuthorized (normalized_config c) r \<or> dashboardAuthorized bm (normalized_config c) networks r"
  have "cf_IngestToken (normalized_config c) = cf_IngestToken c" "cf_AllowLoopbackDev (normalized_config c) = cf_AllowLoopbackDev c"
    by (simp_all add: normalized_config_def)
  then have i: "cf_IngestToken c = [] \<and> cf_AllowLoopbackDev c \<and> requestIsLoopback r"
    using a no_Authorization[OF h(1)] h(2) trustedProxyUser_outside[OF assms(2)]
    by (auto simp: ingestAuthorized_def validToken_def dashboardAuthorized_def dashboardPasswordAuthorized_def Let_def split: if_splits)
  then show "cf_IngestToken c = []" "cf_AllowLoopbackDev c" "requestIsLoopback r" by simp_all
  show "loopbackListenAddress addr"
    using i assms(1) by (auto simp: ValidateServeConfig_def trim_space_def split: if_splits)
qed

lemma sample_request_outside: "\<not> from_proxy [] sample_request"
  by (simp add: from_proxy_def split: option.split)

theorem accepted_config_closed_witness:
  "\<not> ingestAuthorized (normalized_config sample_config) sample_request
    \<and> \<not> dashboardAuthorized (\<lambda>_ _. True) (normalized_config sample_config) [] sample_request"
proof -
  have "ValidateServeConfig '':80'' (cf_IngestToken sample_config) (cf_AllowLoopbackDev sample_config) = None"
    by (simp add: sample_config_def ValidateServeConfig_def str_eval del: runes.simps(2))
  from accepted_config_closed[OF this sample_request_outside, of "\<lambda>_ _. True"] show ?thesis
    by (auto simp: sample_request_def sample_config_def)
qed

end
