(* ===== verification/Api_Cache.thy ===== *)
theory Api_Cache
  imports Adapters_Core Go_Zone "HOL-Library.Sublist"
begin

text \<open>
  The single-flight caches of \<open>internal/api/server.go\<close> (\<open>cachedEvolution\<close> and \<open>cachedOverview\<close>
  are the same loop over different queries) as a transition system: any number of requests run the
  loop, ingests commit to the store and then invalidate the cache, contexts end and time passes,
  in any interleaving. A section under the mutex is one step; a query of the store is one step.
  The contents of the store are the log of its committed ingests; a cached value is the list of
  the results of the queries. The channel that waiters block on is a number; closing it puts it
  into \<open>sv_closed\<close>.
\<close>

datatype cache_error = CtxDone | QueryFailed go_err

type_synonym 'p cache_result = "cache_error + 'p list"

record 'p cache_entry =
  en_result :: "'p cache_result"
  en_fetched :: instant

text \<open>Where a request is in the loop.\<close>

datatype 'p request_pc =
    Start
  | Waiting nat
  | Computing "64 word" "'p list"
  | Computed "64 word" "'p cache_result"
  | Served "'p cache_result"

record ('b, 'p) cache_server =
  sv_log :: "'b list"
  sv_now :: instant
  sv_cache :: "'p cache_entry option"
  sv_ready :: "nat option"
  sv_closed :: "nat set"
  sv_channels :: nat
  sv_generation :: "64 word"
  sv_request :: "nat \<Rightarrow> 'p request_pc"
  sv_ended :: "nat set"
  sv_unflushed :: nat

type_synonym ('b, 'p) queries = "(instant \<Rightarrow> 'b list \<Rightarrow> go_err + 'p) list"

definition cacheTTL :: i64 where "cacheTTL = minutes 1"

definition cold :: "('b, 'p) cache_server" where
  "cold = \<lparr>sv_log = [], sv_now = 0, sv_cache = None, sv_ready = None, sv_closed = {}, sv_channels = 0, sv_generation = 0,
           sv_request = (\<lambda>_. Start), sv_ended = {}, sv_unflushed = 0\<rparr>"

definition goto :: "nat \<Rightarrow> 'p request_pc \<Rightarrow> ('b, 'p) cache_server \<Rightarrow> ('b, 'p) cache_server" where
  "goto i pc s = s\<lparr>sv_request := (sv_request s)(i := pc)\<rparr>"

text \<open>The first section under the mutex: a hit, a computation to wait for, or the start of one.\<close>

definition cache_hit :: "('b, 'p) cache_server \<Rightarrow> 'p cache_entry option" where
  "cache_hit s = (case sv_cache s of None \<Rightarrow> None | Some e \<Rightarrow> if time_sub (sv_now s) (en_fetched e) < cacheTTL then Some e else None)"

definition cache_lookup :: "nat \<Rightarrow> ('b, 'p) cache_server \<Rightarrow> ('b, 'p) cache_server" where
  "cache_lookup i s =
    (case cache_hit s of
       Some e \<Rightarrow> goto i (Served (en_result e)) s
     | None \<Rightarrow>
        (case sv_ready s of
           Some ch \<Rightarrow> goto i (Waiting ch) s
         | None \<Rightarrow> goto i (Computing (sv_generation s) []) (s\<lparr>sv_ready := Some (sv_channels s), sv_channels := sv_channels s + 1\<rparr>)))"

text \<open>One query of the computation; the first error ends it.\<close>

definition cache_query :: "('b, 'p) queries \<Rightarrow> nat \<Rightarrow> 64 word \<Rightarrow> 'p list \<Rightarrow> ('b, 'p) cache_server \<Rightarrow> ('b, 'p) cache_server" where
  "cache_query qs i g parts s =
    (if length parts < length qs
     then (case (qs ! length parts) (sv_now s) (sv_log s) of
             Inl e \<Rightarrow> goto i (Computed g (Inl (QueryFailed e))) s
           | Inr p \<Rightarrow> goto i (Computing g (parts @ [p])) s)
     else goto i (Computed g (Inr parts)) s)"

text \<open>The second section: the result is kept unless an ingest has invalidated it meanwhile.\<close>

definition cache_install :: "nat \<Rightarrow> 64 word \<Rightarrow> 'p cache_result \<Rightarrow> ('b, 'p) cache_server \<Rightarrow> ('b, 'p) cache_server" where
  "cache_install i g r s =
    goto i (Served r)
      (s\<lparr>sv_ready := None,
         sv_cache := (if sv_generation s = g then Some \<lparr>en_result = r, en_fetched = sv_now s\<rparr> else sv_cache s),
         sv_closed := (case sv_ready s of None \<Rightarrow> sv_closed s | Some ch \<Rightarrow> insert ch (sv_closed s))\<rparr>)"

definition cache_invalidate :: "('b, 'p) cache_server \<Rightarrow> ('b, 'p) cache_server" where
  "cache_invalidate s = s\<lparr>sv_generation := sv_generation s + 1, sv_cache := None\<rparr>"

inductive cache_step :: "('b, 'p) queries \<Rightarrow> ('b, 'p) cache_server \<Rightarrow> ('b, 'p) cache_server \<Rightarrow> bool" for qs where
  look: "sv_request s i = Start \<Longrightarrow> cache_step qs s (cache_lookup i s)"
| wake: "sv_request s i = Waiting ch \<Longrightarrow> ch \<in> sv_closed s \<Longrightarrow> cache_step qs s (goto i Start s)"
| give_up: "sv_request s i = Waiting ch \<Longrightarrow> i \<in> sv_ended s \<Longrightarrow> cache_step qs s (goto i (Served (Inl CtxDone)) s)"
| read: "sv_request s i = Computing g parts \<Longrightarrow> cache_step qs s (cache_query qs i g parts s)"
| read_ended: "sv_request s i = Computing g parts \<Longrightarrow> length parts < length qs \<Longrightarrow> i \<in> sv_ended s
    \<Longrightarrow> cache_step qs s (goto i (Computed g (Inl CtxDone)) s)"
| install: "sv_request s i = Computed g r \<Longrightarrow> cache_step qs s (cache_install i g r s)"
| commit: "cache_step qs s (s\<lparr>sv_log := sv_log s @ [b], sv_unflushed := sv_unflushed s + 1\<rparr>)"
| invalidate: "sv_unflushed s = Suc n \<Longrightarrow> cache_step qs s ((cache_invalidate s)\<lparr>sv_unflushed := n\<rparr>)"
| tick: "sv_now s \<le> t \<Longrightarrow> cache_step qs s (s\<lparr>sv_now := t\<rparr>)"
| end_context: "cache_step qs s (s\<lparr>sv_ended := insert i (sv_ended s)\<rparr>)"

inductive_cases cache_stepE: "cache_step qs s s'"

text \<open>Runs, with their number of steps.\<close>

inductive cache_run :: "('b, 'p) queries \<Rightarrow> ('b, 'p) cache_server \<Rightarrow> nat \<Rightarrow> ('b, 'p) cache_server \<Rightarrow> bool" for qs s where
  none: "cache_run qs s 0 s"
| more: "cache_run qs s n s1 \<Longrightarrow> cache_step qs s1 s2 \<Longrightarrow> cache_run qs s (Suc n) s2"

subsection \<open>What a result was computed from\<close>

text \<open>The queries were answered by the store as it was between two points of its log.\<close>

definition read_between :: "('b, 'p) queries \<Rightarrow> 'b list \<Rightarrow> 'b list \<Rightarrow> 'p list \<Rightarrow> bool" where
  "read_between qs lo hi parts \<longleftrightarrow> length parts \<le> length qs
    \<and> (\<forall>k < length parts. \<exists>t m. prefix lo m \<and> prefix m hi \<and> (qs ! k) t m = Inr (parts ! k))"

definition all_read :: "('b, 'p) queries \<Rightarrow> 'b list \<Rightarrow> 'b list \<Rightarrow> 'p cache_result \<Rightarrow> bool" where
  "all_read qs lo hi r \<longleftrightarrow> (case r of Inl _ \<Rightarrow> True | Inr parts \<Rightarrow> length parts = length qs \<and> read_between qs lo hi parts)"

fun pc_reads :: "('b, 'p) queries \<Rightarrow> 'b list \<Rightarrow> 'b list \<Rightarrow> 'p request_pc \<Rightarrow> bool" where
  "pc_reads qs lo hi Start = True"
| "pc_reads qs lo hi (Waiting _) = True"
| "pc_reads qs lo hi (Computing _ parts) = read_between qs lo hi parts"
| "pc_reads qs lo hi (Computed _ r) = all_read qs lo hi r"
| "pc_reads qs lo hi (Served r) = all_read qs lo hi r"

fun pc_generation :: "'p request_pc \<Rightarrow> 64 word option" where
  "pc_generation (Computing g _) = Some g"
| "pc_generation (Computed g _) = Some g"
| "pc_generation _ = None"

lemma read_between_Nil [simp]: "read_between qs lo hi []"
  by (simp add: read_between_def)

lemma read_between_extend: "read_between qs lo hi parts \<Longrightarrow> prefix hi hi' \<Longrightarrow> read_between qs lo hi' parts"
  unfolding read_between_def by (meson prefix_order.trans)

lemma read_between_snoc:
  "read_between qs lo hi parts \<Longrightarrow> prefix lo hi \<Longrightarrow> length parts < length qs \<Longrightarrow> (qs ! length parts) t hi = Inr p
    \<Longrightarrow> read_between qs lo hi (parts @ [p])"
  by (auto simp: read_between_def nth_append less_Suc_eq)

lemma all_read_extend: "all_read qs lo hi r \<Longrightarrow> prefix hi hi' \<Longrightarrow> all_read qs lo hi' r"
  by (auto simp: all_read_def intro: read_between_extend split: sum.splits)

lemma pc_reads_extend: "pc_reads qs lo hi pc \<Longrightarrow> prefix hi hi' \<Longrightarrow> pc_reads qs lo hi' pc"
  by (cases pc) (auto intro: read_between_extend all_read_extend)

lemma all_read_Inl [simp]: "all_read qs lo hi (Inl e)"
  by (simp add: all_read_def)

lemma all_read_Inr: "all_read qs lo hi (Inr parts) \<longleftrightarrow> length parts = length qs \<and> read_between qs lo hi parts"
  by (simp add: all_read_def)

lemma cache_query_pc:
  assumes "read_between qs lo (sv_log s) parts" "prefix lo (sv_log s)"
  shows "\<exists>pc. cache_query qs i g parts s = goto i pc s \<and> pc_reads qs lo (sv_log s) pc \<and> pc_generation pc = Some g"
proof (cases "length parts < length qs")
  case True
  then show ?thesis
    using read_between_snoc[OF assms True, of "sv_now s"] by (auto simp: cache_query_def split: sum.split)
next
  case False
  then have "length parts = length qs" using assms(1) by (simp add: read_between_def)
  then show ?thesis using assms(1) by (auto simp: cache_query_def all_read_Inr)
qed

lemma cache_lookup_cases:
  obtains (hit) e where "sv_cache s = Some e" "cache_lookup i s = goto i (Served (en_result e)) s"
  | (wait) ch where "sv_ready s = Some ch" "cache_lookup i s = goto i (Waiting ch) s"
  | (compute) "sv_ready s = None" "cache_lookup i s = goto i (Computing (sv_generation s) [])
      (s\<lparr>sv_ready := Some (sv_channels s), sv_channels := sv_channels s + 1\<rparr>)"
proof -
  have "\<exists>e. sv_cache s = Some e" if "cache_hit s = Some e" for e
    using that by (simp add: cache_hit_def split: option.splits if_splits)
  then show thesis
    using that by (cases "cache_hit s"; cases "sv_ready s") (auto simp: cache_lookup_def cache_hit_def split: option.splits if_splits)
qed

lemma cache_query_goto: "\<exists>pc. cache_query qs i g parts s = goto i pc s \<and> pc_generation pc = Some g"
  by (auto simp: cache_query_def split: sum.split)

lemma goto_simps [simp]:
  "sv_log (goto i pc s) = sv_log s" "sv_now (goto i pc s) = sv_now s" "sv_cache (goto i pc s) = sv_cache s"
  "sv_ready (goto i pc s) = sv_ready s" "sv_closed (goto i pc s) = sv_closed s" "sv_channels (goto i pc s) = sv_channels s"
  "sv_generation (goto i pc s) = sv_generation s" "sv_ended (goto i pc s) = sv_ended s"
  "sv_unflushed (goto i pc s) = sv_unflushed s" "sv_request (goto i pc s) = (sv_request s)(i := pc)"
  by (simp_all add: goto_def)

subsection \<open>Generations\<close>

text \<open>Fewer than 2^64 invalidations leave the generations of all computations told apart.\<close>

definition generations_below :: "nat \<Rightarrow> ('b, 'p) cache_server \<Rightarrow> bool" where
  "generations_below k s \<longleftrightarrow> (\<exists>m \<le> k. sv_generation s = of_nat m
    \<and> (\<forall>i g. pc_generation (sv_request s i) = Some g \<longrightarrow> (\<exists>j \<le> m. g = of_nat j)))"

lemma generations_goto:
  assumes "generations_below k s" "pc_generation pc = None \<or> pc_generation pc = Some (sv_generation s)
      \<or> pc_generation pc = pc_generation (sv_request s i)"
  shows "generations_below k (goto i pc s)"
proof -
  obtain m where m: "m \<le> k" "sv_generation s = of_nat m" "\<And>i g. pc_generation (sv_request s i) = Some g \<Longrightarrow> \<exists>j \<le> m. g = of_nat j"
    using assms(1) unfolding generations_below_def by blast
  have "\<exists>j \<le> m. g = of_nat j" if "pc_generation (sv_request (goto i pc s) l) = Some g" for l g
  proof (cases "l = i")
    case True
    then show ?thesis using assms(2) that m(2) m(3)[of i g] by auto
  qed (use that m(3) in simp)
  then show ?thesis using m(1,2) unfolding generations_below_def by (intro exI[of _ m]) (simp del: goto_simps(10) add: goto_simps(1-9))
qed

lemma generations_cong:
  "generations_below k s \<Longrightarrow> sv_generation s' = sv_generation s \<Longrightarrow> sv_request s' = sv_request s \<Longrightarrow> generations_below k s'"
  by (simp add: generations_below_def)

lemma generations_Suc: "generations_below k s \<Longrightarrow> generations_below (Suc k) s"
  unfolding generations_below_def using le_SucI by blast

lemma generations_step:
  assumes "cache_step qs s s'" "generations_below k s"
  shows "generations_below (Suc k) s'"
  using assms(1)
proof cases
  case (look i)
  show ?thesis
    by (cases rule: cache_lookup_cases[of s i])
      (use look assms(2) in \<open>auto intro!: generations_Suc generations_goto intro: generations_cong\<close>)
next
  case (read i g parts)
  then obtain pc where "s' = goto i pc s" "pc_generation pc = Some g" using cache_query_goto by metis
  then show ?thesis using read assms(2) by (auto intro!: generations_Suc generations_goto)
next
  case (install i g r)
  then show ?thesis using assms(2) unfolding cache_install_def
    by (auto intro!: generations_Suc generations_goto intro: generations_cong)
next
  case (invalidate n)
  obtain m where m: "m \<le> k" "sv_generation s = of_nat m" "\<And>i g. pc_generation (sv_request s i) = Some g \<Longrightarrow> \<exists>j \<le> m. g = of_nat j"
    using assms(2) unfolding generations_below_def by blast
  then have "\<And>i g. pc_generation (sv_request s i) = Some g \<Longrightarrow> \<exists>j \<le> Suc m. g = of_nat j" by (meson le_SucI)
  then show ?thesis
    using invalidate m unfolding generations_below_def cache_invalidate_def
    by (intro exI[of _ "Suc m"]) (simp add: add.commute)
qed (use assms(2) in \<open>auto intro!: generations_Suc generations_goto intro: generations_cong\<close>)

lemma generations_run: "cache_run qs s n s' \<Longrightarrow> generations_below k s \<Longrightarrow> generations_below (k + n) s'"
  by (induction rule: cache_run.induct) (auto dest: generations_step)

lemma stale_generation:
  assumes "generations_below k s" "Suc k < 2 ^ 64" "pc_generation (sv_request s i) = Some g"
  shows "g \<noteq> sv_generation s + 1"
proof -
  obtain m j where m: "m \<le> k" "sv_generation s = of_nat m" "j \<le> m" "g = of_nat j"
    using assms(1,3) unfolding generations_below_def by blast
  have small: "unat (of_nat x :: 64 word) = x" if "x < 2 ^ 64" for x
    using that by (simp add: unat_of_nat take_bit_nat_eq_self)
  have "unat (of_nat j :: 64 word) = j" "unat (of_nat (Suc m) :: 64 word) = Suc m"
    by (rule small; use m(1,3) assms(2) in linarith)+
  moreover have "sv_generation s + 1 = of_nat (Suc m)" using m(2) by (simp add: add.commute)
  ultimately show ?thesis using m(3,4) by (metis Suc_n_not_le_n)
qed

subsection \<open>Results that are current\<close>

definition current_from :: "('b, 'p) queries \<Rightarrow> 'b list \<Rightarrow> ('b, 'p) cache_server \<Rightarrow> bool" where
  "current_from qs lo s \<longleftrightarrow> prefix lo (sv_log s)
    \<and> (\<forall>e. sv_cache s = Some e \<longrightarrow> all_read qs lo (sv_log s) (en_result e))
    \<and> (\<forall>i. pc_generation (sv_request s i) = Some (sv_generation s) \<longrightarrow> pc_reads qs lo (sv_log s) (sv_request s i))"

lemma current_goto:
  assumes "current_from qs lo s" "pc_generation pc = Some (sv_generation s) \<Longrightarrow> pc_reads qs lo (sv_log s) pc"
  shows "current_from qs lo (goto i pc s)"
  using assms by (auto simp: current_from_def)

lemma current_cong:
  assumes "current_from qs lo s" "sv_log s' = sv_log s" "sv_cache s' = sv_cache s \<or> sv_cache s' = None"
    "sv_generation s' = sv_generation s" "sv_request s' = sv_request s"
  shows "current_from qs lo s'"
  using assms by (auto simp: current_from_def)

lemma current_step:
  assumes "cache_step qs s s'" "current_from qs lo s" "generations_below k s" "Suc k < 2 ^ 64"
  shows "current_from qs lo s'"
  using assms(1)
proof cases
  case (look i)
  show ?thesis
  proof (cases rule: cache_lookup_cases[of s i])
    case compute
    have "current_from qs lo (s\<lparr>sv_ready := Some (sv_channels s), sv_channels := sv_channels s + 1\<rparr>)"
      by (rule current_cong[OF assms(2)]) simp_all
    then show ?thesis using look compute by (auto intro: current_goto)
  qed (use look assms(2) in \<open>auto intro: current_goto\<close>)
next
  case (read i g parts)
  show ?thesis
  proof (cases "g = sv_generation s")
    case True
    then have "read_between qs lo (sv_log s) parts" "prefix lo (sv_log s)"
      using assms(2) read unfolding current_from_def by (metis pc_generation.simps(1) pc_reads.simps(3))+
    then obtain pc where "cache_query qs i g parts s = goto i pc s" "pc_reads qs lo (sv_log s) pc" using cache_query_pc by blast
    then show ?thesis using read assms(2) by (auto intro: current_goto)
  next
    case False
    obtain pc where "cache_query qs i g parts s = goto i pc s" "pc_generation pc = Some g" using cache_query_goto by blast
    then show ?thesis using read assms(2) False by (auto intro: current_goto)
  qed
next
  case (install i g r)
  have "all_read qs lo (sv_log s) r" if "sv_generation s = g"
    using assms(2) install that unfolding current_from_def by (metis pc_generation.simps(2) pc_reads.simps(4))
  then have "current_from qs lo (s\<lparr>sv_ready := None,
         sv_cache := (if sv_generation s = g then Some \<lparr>en_result = r, en_fetched = sv_now s\<rparr> else sv_cache s),
         sv_closed := (case sv_ready s of None \<Rightarrow> sv_closed s | Some ch \<Rightarrow> insert ch (sv_closed s))\<rparr>)"
    using assms(2) by (auto simp: current_from_def)
  then show ?thesis using install unfolding cache_install_def by (auto intro: current_goto)
next
  case (commit b)
  have "prefix (sv_log s) (sv_log s @ [b])" by simp
  then show ?thesis
    using commit assms(2) unfolding current_from_def by (auto intro: all_read_extend pc_reads_extend prefix_order.trans)
next
  case (invalidate n)
  then show ?thesis
    using assms(2) stale_generation[OF assms(3,4)] unfolding current_from_def cache_invalidate_def by auto
next
  case (read_ended i g parts)
  then show ?thesis using assms(2) by (auto intro: current_goto)
qed (use assms(2) in \<open>auto intro: current_goto current_cong\<close>)

text \<open>When every committed ingest has invalidated the cache, what it keeps is current.\<close>

lemma quiet_step:
  assumes "cache_step qs s s'" "generations_below k s" "Suc k < 2 ^ 64"
    and "sv_unflushed s = 0 \<Longrightarrow> current_from qs (sv_log s) s" "sv_unflushed s' = 0"
  shows "current_from qs (sv_log s') s'"
proof (cases "sv_unflushed s = 0")
  case True
  have "sv_log s' = sv_log s"
    using assms(1)
  proof cases
    case (look i) then show ?thesis by (cases rule: cache_lookup_cases[of s i]) simp_all
  next
    case (read i g parts) then show ?thesis using cache_query_goto goto_simps(1) by metis
  qed (use True assms(5) in \<open>auto simp: cache_install_def cache_invalidate_def\<close>)
  then show ?thesis using current_step[OF assms(1) assms(4)[OF True] assms(2,3)] by simp
next
  case False
  from assms(1) show ?thesis
  proof cases
    case (look i) then show ?thesis using False assms(5) by (cases rule: cache_lookup_cases[of s i]) simp_all
  next
    case (read i g parts) then show ?thesis using False assms(5) cache_query_goto goto_simps(9) by metis
  next
    case (invalidate n)
    then show ?thesis
      using stale_generation[OF assms(2,3)] by (auto simp: current_from_def cache_invalidate_def)
  qed (use False assms(5) in \<open>auto simp: cache_install_def\<close>)
qed

lemma cold_generations: "generations_below 0 cold"
  by (simp add: generations_below_def cold_def)

lemma quiet_run:
  assumes "cache_run qs cold n s" "n < 2 ^ 64" "sv_unflushed s = 0"
  shows "current_from qs (sv_log s) s"
  using assms
proof (induction rule: cache_run.induct)
  case none
  then show ?case by (simp add: current_from_def cold_def)
next
  case (more n s1 s2)
  have "generations_below n s1" using generations_run[OF more.hyps(1) cold_generations] by simp
  then show ?case using quiet_step[OF more.hyps(2)] more by simp
qed

lemma request_step:
  assumes "cache_step qs s s'" "current_from qs lo s" "pc_reads qs lo (sv_log s) (sv_request s i)"
  shows "pc_reads qs lo (sv_log s') (sv_request s' i)"
  using assms(1)
proof cases
  case (look l)
  show ?thesis
    by (cases rule: cache_lookup_cases[of s l]) (use look assms(2,3) in \<open>auto simp: current_from_def\<close>)
next
  case (read l g parts)
  show ?thesis
  proof (cases "l = i")
    case True
    then have "read_between qs lo (sv_log s) parts" "prefix lo (sv_log s)"
      using assms(2,3) read by (auto simp: current_from_def)
    then obtain pc where "cache_query qs i g parts s = goto i pc s" "pc_reads qs lo (sv_log s) pc" using cache_query_pc by blast
    then show ?thesis using read True by simp
  next
    case False
    obtain pc where "cache_query qs l g parts s = goto l pc s" using cache_query_goto by blast
    then show ?thesis using read False assms(3) by simp
  qed
next
  case (commit b)
  then show ?thesis using pc_reads_extend[OF assms(3)] by simp
next
  case (install l g r)
  then show ?thesis using assms(3) by (auto simp: cache_install_def)
qed (use assms(3) in \<open>auto simp: cache_invalidate_def\<close>)

lemma request_run:
  assumes "cache_run qs s m s'" "current_from qs lo s" "pc_reads qs lo (sv_log s) (sv_request s i)"
    "generations_below n s" "n + m < 2 ^ 64"
  shows "current_from qs lo s' \<and> pc_reads qs lo (sv_log s') (sv_request s' i)"
  using assms
proof (induction rule: cache_run.induct)
  case (more m s1 s2)
  then have IH: "current_from qs lo s1" "pc_reads qs lo (sv_log s1) (sv_request s1 i)" by simp_all
  have "generations_below (n + m) s1" using generations_run[OF more.hyps(1) more.prems(3)] .
  then show ?case using current_step[OF more.hyps(2) IH(1)] request_step[OF more.hyps(2) IH] more.prems(4) by simp
qed simp

text \<open>C7: read your writes. Take any moment at which every committed ingest has also invalidated
  the cache, as it has before it is acknowledged. A request that enters the loop after that moment
  and is served a value, from the cache, from a computation it waited for or from its own, in any
  interleaving with other requests and ingests, is served answers each of which the store gave at
  or after that moment: no acknowledged ingest is missing from them. Fewer than 2^64 steps, so
  that the generation counter does not come round.\<close>

theorem cache_read_your_writes:
  assumes "cache_run qs cold n s" and "sv_unflushed s = 0" and "sv_request s i = Start"
    and "cache_run qs s m s'" and "n + m < 2 ^ 64" and "sv_request s' i = Served (Inr parts)"
  shows "list_all2 (\<lambda>q p. \<exists>t l. prefix (sv_log s) l \<and> prefix l (sv_log s') \<and> q t l = Inr p) qs parts"
proof -
  have "current_from qs (sv_log s) s" using quiet_run[OF assms(1) _ assms(2)] assms(5) by simp
  moreover have "generations_below n s" using generations_run[OF assms(1) cold_generations] by simp
  ultimately have "pc_reads qs (sv_log s) (sv_log s') (sv_request s' i)"
    using request_run[OF assms(4), of "sv_log s" i n] assms(3,5) by simp
  then show ?thesis
    using assms(6) by (auto simp: all_read_Inr read_between_def list_all2_conv_all_nth)
qed

text \<open>An ingest, then a request that computes its answer.\<close>

definition count_query :: "(nat, nat) queries" where "count_query = [\<lambda>t l. Inr (length l)]"

definition after_ingest :: "(nat, nat) cache_server" where
  "after_ingest = cold\<lparr>sv_log := [7], sv_generation := 1\<rparr>"

lemma after_ingest_run: "cache_run count_query cold 2 after_ingest"
proof -
  define c where "c = (cold :: (nat, nat) cache_server)"
  have "cache_step count_query c (c\<lparr>sv_log := sv_log c @ [7], sv_unflushed := sv_unflushed c + 1\<rparr>)" by (rule cache_step.commit)
  moreover have "cache_step count_query (c\<lparr>sv_log := sv_log c @ [7], sv_unflushed := sv_unflushed c + 1\<rparr>) after_ingest"
    using cache_step.invalidate[of "c\<lparr>sv_log := sv_log c @ [7], sv_unflushed := sv_unflushed c + 1\<rparr>" 0 count_query]
    by (simp add: c_def cold_def after_ingest_def cache_invalidate_def)
  ultimately show ?thesis unfolding c_def by (metis cache_run.intros numeral_2_eq_2)
qed

lemma compute_run: "\<exists>s. cache_run count_query after_ingest 4 s \<and> sv_request s 0 = Served (Inr [1])"
proof -
  define s1 where "s1 = cache_lookup 0 after_ingest"
  define s2 where "s2 = cache_query count_query 0 1 [] s1"
  define s3 where "s3 = cache_query count_query 0 1 [1] s2"
  define s4 where "s4 = cache_install 0 1 (Inr [1]) s3"
  note defs = s4_def s3_def s2_def s1_def after_ingest_def cold_def cache_lookup_def cache_hit_def cache_install_def cache_query_def
    count_query_def
  have "cache_step count_query after_ingest s1" unfolding s1_def by (rule cache_step.look) (simp add: after_ingest_def cold_def)
  moreover have "cache_step count_query s1 s2" unfolding s2_def by (rule cache_step.read) (simp add: defs)
  moreover have "cache_step count_query s2 s3" unfolding s3_def by (rule cache_step.read) (simp add: defs)
  moreover have "cache_step count_query s3 s4" unfolding s4_def by (rule cache_step.install) (simp add: defs)
  ultimately have "cache_run count_query after_ingest (Suc (Suc (Suc (Suc 0)))) s4" by (metis cache_run.intros)
  moreover have "sv_request s4 0 = Served (Inr [1])" by (simp add: defs)
  ultimately show ?thesis by (auto simp: numeral_eq_Suc)
qed

theorem cache_read_your_writes_witness:
  "\<exists>s. cache_run count_query after_ingest 4 s \<and> sv_request s 0 = Served (Inr [1])
    \<and> list_all2 (\<lambda>q p. \<exists>t l. prefix [7] l \<and> prefix l (sv_log s) \<and> q t l = Inr p) count_query [1]"
proof -
  obtain s where s: "cache_run count_query after_ingest 4 s" "sv_request s 0 = Served (Inr [1])" using compute_run by blast
  have q: "sv_unflushed after_ingest = 0" "sv_request after_ingest 0 = Start" "sv_log after_ingest = [7]" "(2::nat) + 4 < 2 ^ 64"
    by (simp_all add: after_ingest_def cold_def)
  show ?thesis using s cache_read_your_writes[OF after_ingest_run q(1,2) s(1) q(4) s(2)] q(3) by auto
qed

subsection \<open>One computation at a time, and no lost wake-up\<close>

definition in_flight :: "'p request_pc \<Rightarrow> bool" where
  "in_flight pc \<longleftrightarrow> pc_generation pc \<noteq> None"

definition flight_ok :: "('b, 'p) queries \<Rightarrow> ('b, 'p) cache_server \<Rightarrow> bool" where
  "flight_ok qs s \<longleftrightarrow>
     (\<forall>ch \<in> sv_closed s. ch < sv_channels s)
   \<and> (\<forall>ch. sv_ready s = Some ch \<longrightarrow> ch < sv_channels s \<and> ch \<notin> sv_closed s)
   \<and> (\<forall>i ch. sv_request s i = Waiting ch \<longrightarrow> ch \<in> sv_closed s \<or> sv_ready s = Some ch)
   \<and> (sv_ready s \<noteq> None \<longleftrightarrow> (\<exists>i. in_flight (sv_request s i)))
   \<and> (\<forall>i j. in_flight (sv_request s i) \<longrightarrow> in_flight (sv_request s j) \<longrightarrow> i = j)
   \<and> (\<forall>i g parts. sv_request s i = Computing g parts \<longrightarrow> length parts \<le> length qs)"

lemma in_flight_simps [simp]:
  "\<not> in_flight Start" "\<not> in_flight (Waiting ch)" "in_flight (Computing g parts)" "in_flight (Computed g r)" "\<not> in_flight (Served r)"
  by (simp_all add: in_flight_def)

lemma flight_goto_still:
  assumes "flight_ok qs s" "in_flight pc = in_flight (sv_request s i)"
    "\<And>ch. pc = Waiting ch \<Longrightarrow> sv_ready s = Some ch" "\<And>g parts. pc = Computing g parts \<Longrightarrow> length parts \<le> length qs"
  shows "flight_ok qs (goto i pc s)"
proof -
  have "in_flight (sv_request (goto i pc s) j) = in_flight (sv_request s j)" for j using assms(2) by simp
  then show ?thesis
    using assms(1,3,4) unfolding flight_ok_def by (auto simp del: in_flight_simps split: if_splits)
qed

lemma flight_cong:
  "flight_ok qs s \<Longrightarrow> sv_closed s' = sv_closed s \<Longrightarrow> sv_ready s' = sv_ready s \<Longrightarrow> sv_channels s' = sv_channels s
    \<Longrightarrow> sv_request s' = sv_request s \<Longrightarrow> flight_ok qs s'"
  by (simp add: flight_ok_def)

lemma flight_start:
  assumes "flight_ok qs s" "sv_ready s = None"
  shows "flight_ok qs (goto i (Computing g []) (s\<lparr>sv_ready := Some (sv_channels s), sv_channels := sv_channels s + 1\<rparr>))"
proof -
  have idle: "\<not> in_flight (sv_request s j)" for j using assms unfolding flight_ok_def by blast
  have w: "sv_request s j = Waiting ch \<Longrightarrow> ch \<in> sv_closed s" for j ch using assms unfolding flight_ok_def by force
  have c: "ch \<in> sv_closed s \<Longrightarrow> ch < sv_channels s" for ch using assms unfolding flight_ok_def by blast
  have p: "sv_request s j \<noteq> Computing h parts" for j h parts using idle[of j] by auto
  show ?thesis unfolding flight_ok_def using idle w c p by (auto simp: less_SucI)
qed

lemma flight_install:
  assumes "flight_ok qs s" "sv_request s i = Computed g r"
  shows "flight_ok qs (cache_install i g r s)"
proof -
  have "in_flight (sv_request s i)" using assms(2) by simp
  then have "sv_ready s \<noteq> None" using assms(1) unfolding flight_ok_def by blast
  then obtain ch where ch: "sv_ready s = Some ch" by blast
  have idle: "\<not> in_flight (sv_request s j)" if "j \<noteq> i" for j
    using assms that unfolding flight_ok_def by (metis in_flight_simps(4))
  have w: "sv_request s j = Waiting c \<Longrightarrow> c \<in> insert ch (sv_closed s)" for j c using assms(1) ch unfolding flight_ok_def by (metis insert_iff option.inject)
  have c: "c \<in> insert ch (sv_closed s) \<Longrightarrow> c < sv_channels s" for c using assms ch unfolding flight_ok_def by blast
  have p: "sv_request s j \<noteq> Computing h parts" if "j \<noteq> i" for j h parts using idle[OF that] by auto
  show ?thesis unfolding flight_ok_def cache_install_def using idle w c p ch by auto
qed

lemma flight_query:
  assumes "flight_ok qs s" "sv_request s i = Computing g parts"
  shows "flight_ok qs (cache_query qs i g parts s)"
proof -
  have "length parts \<le> length qs" using assms unfolding flight_ok_def by blast
  moreover have "\<exists>pc. cache_query qs i g parts s = goto i pc s \<and> in_flight pc
      \<and> (\<forall>ch. pc \<noteq> Waiting ch) \<and> (\<forall>h ps. pc = Computing h ps \<longrightarrow> length parts < length qs \<and> length ps = Suc (length parts))"
    by (auto simp: cache_query_def split: sum.split)
  ultimately show ?thesis using assms by (auto intro!: flight_goto_still)
qed

lemma flight_step:
  assumes "cache_step qs s s'" "flight_ok qs s"
  shows "flight_ok qs s'"
  using assms(1)
proof cases
  case (look i)
  show ?thesis
  proof (cases rule: cache_lookup_cases[of s i])
    case compute
    then show ?thesis using look flight_start[OF assms(2)] by simp
  qed (use look assms(2) in \<open>auto intro: flight_goto_still\<close>)
next
  case (read i g parts)
  then show ?thesis using flight_query[OF assms(2)] by simp
next
  case (install i g r)
  then show ?thesis using flight_install[OF assms(2)] by simp
qed (use assms(2) in \<open>auto simp: cache_invalidate_def intro: flight_goto_still flight_cong\<close>)

lemma flight_run: "cache_run qs s n s' \<Longrightarrow> flight_ok qs s \<Longrightarrow> flight_ok qs s'"
  by (induction rule: cache_run.induct) (auto intro: flight_step)

lemma flight_cold: "flight_ok qs cold"
  by (simp add: flight_ok_def cold_def)

lemma cache_run_one: "cache_step qs s s' \<Longrightarrow> cache_run qs s 1 s'"
  using cache_run.more[OF cache_run.none] by simp

lemma cache_run_trans: "cache_run qs s1 m s2 \<Longrightarrow> cache_run qs s n s1 \<Longrightarrow> cache_run qs s (n + m) s2"
  by (induction rule: cache_run.induct) (auto intro: cache_run.more)

lemma cache_run_Suc: "cache_step qs s s1 \<Longrightarrow> cache_run qs s1 m s2 \<Longrightarrow> cache_run qs s (Suc m) s2"
  using cache_run_trans[OF _ cache_run_one] by fastforce

text \<open>A computation can run to its end without disturbing the other requests.\<close>

definition finishes :: "('b, 'p) queries \<Rightarrow> ('b, 'p) cache_server \<Rightarrow> nat \<Rightarrow> nat \<Rightarrow> bool" where
  "finishes qs s j b \<longleftrightarrow> (\<exists>m s' r. m \<le> b \<and> cache_run qs s m s' \<and> sv_request s' j = Served r
     \<and> (\<forall>l. l \<noteq> j \<longrightarrow> sv_request s' l = sv_request s l) \<and> sv_ready s' = None
     \<and> (\<forall>ch. sv_ready s = Some ch \<longrightarrow> ch \<in> sv_closed s') \<and> sv_closed s \<subseteq> sv_closed s')"

lemma finishes_computed: "sv_request s j = Computed g r \<Longrightarrow> finishes qs s j 1"
  using cache_run_one[OF cache_step.install, of s j g r] unfolding finishes_def
  by (intro exI[of _ 1] exI[of _ "cache_install j g r s"] exI[of _ r]) (auto simp: cache_install_def split: option.split)

lemma finishes_goto:
  assumes "cache_step qs s (goto j pc s)" "finishes qs (goto j pc s) j b"
  shows "finishes qs s j (Suc b)"
proof -
  obtain m s' r where "m \<le> b" "cache_run qs (goto j pc s) m s'" "sv_request s' j = Served r"
    "\<forall>l. l \<noteq> j \<longrightarrow> sv_request s' l = sv_request s l" "sv_ready s' = None"
    "\<forall>ch. sv_ready s = Some ch \<longrightarrow> ch \<in> sv_closed s'" "sv_closed s \<subseteq> sv_closed s'"
    using assms(2) unfolding finishes_def by auto
  then show ?thesis
    using cache_run_Suc[OF assms(1)] unfolding finishes_def
    by (intro exI[of _ "Suc m"] exI[of _ s'] exI[of _ r]) simp
qed

lemma finishes_mono: "finishes qs s j b \<Longrightarrow> b \<le> c \<Longrightarrow> finishes qs s j c"
  unfolding finishes_def by (meson le_trans)

lemma finishes_computing:
  "sv_request s j = Computing g parts \<Longrightarrow> length parts \<le> length qs \<Longrightarrow> finishes qs s j (length qs - length parts + 2)"
proof (induction "length qs - length parts" arbitrary: s parts)
  case 0
  then have c: "cache_query qs j g parts s = goto j (Computed g (Inr parts)) s" by (simp add: cache_query_def)
  then have "cache_step qs s (goto j (Computed g (Inr parts)) s)" using cache_step.read[OF 0(2), of qs] by simp
  moreover have "finishes qs (goto j (Computed g (Inr parts)) s) j 1" by (rule finishes_computed) simp
  ultimately show ?case using finishes_goto finishes_mono by fastforce
next
  case (Suc d)
  have step: "cache_step qs s (cache_query qs j g parts s)" by (rule cache_step.read[OF Suc.prems(1)])
  show ?case
  proof (cases "(qs ! length parts) (sv_now s) (sv_log s)")
    case (Inl e)
    then have c: "cache_query qs j g parts s = goto j (Computed g (Inl (QueryFailed e))) s" using Suc.hyps(2) by (simp add: cache_query_def)
    moreover have "finishes qs (goto j (Computed g (Inl (QueryFailed e))) s) j 1" by (rule finishes_computed) simp
    ultimately show ?thesis using step finishes_goto finishes_mono by fastforce
  next
    case (Inr p)
    then have c: "cache_query qs j g parts s = goto j (Computing g (parts @ [p])) s" using Suc.hyps(2) by (simp add: cache_query_def)
    have "finishes qs (goto j (Computing g (parts @ [p])) s) j (length qs - length (parts @ [p]) + 2)"
      by (rule Suc.hyps(1)) (use Suc.hyps(2) in auto)
    then have "finishes qs s j (Suc (length qs - length (parts @ [p]) + 2))" using step c finishes_goto by metis
    then show ?thesis using Suc.hyps(2) by (simp add: Suc_diff_Suc)
  qed
qed

lemma in_flight_finishes:
  assumes "flight_ok qs s" "in_flight (sv_request s j)"
  shows "finishes qs s j (length qs + 2)"
proof (cases "sv_request s j")
  case (Computing g parts)
  then have "length parts \<le> length qs" using assms(1) unfolding flight_ok_def by blast
  then show ?thesis using finishes_mono[OF finishes_computing[OF Computing]] by simp
next
  case (Computed g r)
  then show ?thesis using finishes_mono[OF finishes_computed] by fastforce
qed (use assms(2) in auto)

lemma idle_run:
  assumes "flight_ok qs s"
  shows "\<exists>m s'. m \<le> length qs + 2 \<and> cache_run qs s m s' \<and> sv_ready s' = None
    \<and> (sv_request s' i = sv_request s i \<or> (\<exists>r. sv_request s' i = Served r))"
proof (cases "sv_ready s")
  case None
  then show ?thesis using cache_run.none by (metis zero_le)
next
  case (Some ch)
  then obtain j where "in_flight (sv_request s j)" using assms unfolding flight_ok_def by auto
  from in_flight_finishes[OF assms this] show ?thesis unfolding finishes_def by metis
qed

lemma served_from_start:
  assumes "flight_ok qs s" "sv_ready s = None" "sv_request s i = Start"
  shows "\<exists>m s' r. m \<le> length qs + 3 \<and> cache_run qs s m s' \<and> sv_request s' i = Served r"
proof (cases rule: cache_lookup_cases[of s i])
  case (hit e)
  then have "sv_request (cache_lookup i s) i = Served (en_result e)" by simp
  then show ?thesis using cache_run_one[OF cache_step.look[OF assms(3), of qs]]
    by (intro exI[of _ 1] exI[of _ "cache_lookup i s"] exI[of _ "en_result e"]) simp
next
  case (wait ch)
  then show ?thesis using assms(2) by simp
next
  case compute
  have step: "cache_step qs s (cache_lookup i s)" by (rule cache_step.look[OF assms(3)])
  have "in_flight (sv_request (cache_lookup i s) i)" using compute by simp
  from in_flight_finishes[OF flight_step[OF step assms(1)] this]
  obtain m s' r where "m \<le> length qs + 2" "cache_run qs (cache_lookup i s) m s'" "sv_request s' i = Served r"
    unfolding finishes_def by blast
  then show ?thesis using cache_run_Suc[OF step] by (intro exI[of _ "Suc m"] exI[of _ s'] exI[of _ r]) simp
qed



text \<open>C18: the answer of a request that was cancelled is served to others. Whatever the queries
  answer, there is a run in which request 0 ends while it computes, request 1, which never ends,
  arrives afterwards, and request 1 is served the cancellation of request 0 from the cache.\<close>

theorem cache_serves_foreign_cancellation:
  fixes qs :: "('b, 'p) queries"
  assumes "qs \<noteq> []"
  shows "\<exists>n s. cache_run qs cold n s \<and> 1 \<notin> sv_ended s \<and> sv_request s 1 = Served (Inl CtxDone)"
proof -
  define s1 where "s1 = cache_lookup 0 (cold :: ('b, 'p) cache_server)"
  define s2 where "s2 = s1\<lparr>sv_ended := insert 0 (sv_ended s1)\<rparr>"
  define s3 where "s3 = goto 0 (Computed 0 (Inl CtxDone)) s2"
  define s4 where "s4 = cache_install 0 0 (Inl CtxDone) s3"
  define s5 where "s5 = cache_lookup 1 s4"
  note defs = s5_def s4_def s3_def s2_def s1_def cold_def cache_lookup_def cache_hit_def cache_install_def
  have "cache_step qs cold s1" unfolding s1_def by (rule cache_step.look) (simp add: cold_def)
  moreover have "cache_step qs s1 s2" unfolding s2_def by (rule cache_step.end_context)
  moreover have "cache_step qs s2 s3" unfolding s3_def
    by (rule cache_step.read_ended[of _ _ _ "[]"]) (use assms in \<open>simp_all add: defs\<close>)
  moreover have "cache_step qs s3 s4" unfolding s4_def by (rule cache_step.install) (simp add: s3_def)
  moreover have "cache_step qs s4 s5" unfolding s5_def by (rule cache_step.look) (simp add: defs)
  ultimately have "cache_run qs cold (Suc (Suc (Suc (Suc (Suc 0))))) s5" by (metis cache_run.intros)
  moreover have "1 \<notin> sv_ended s5 \<and> sv_request s5 1 = Served (Inl CtxDone)"
    by (simp add: defs time_sub_def min_i64_def max_i64_def cacheTTL_def minutes_def seconds_def nanos_per_second_def)
  ultimately show ?thesis by blast
qed

theorem cache_serves_foreign_cancellation_witness:
  "\<exists>n s. cache_run [\<lambda>t l. Inr (length (l :: nat list))] cold n s \<and> 1 \<notin> sv_ended s \<and> sv_request s 1 = Served (Inl CtxDone)"
  by (rule cache_serves_foreign_cancellation) simp

end
