(* ===== verification/Store_Heartbeat.thy ===== *)
theory Store_Heartbeat
  imports Store_Ingest Go_Parse Go_Zone
begin

text \<open>
  What the store does besides ingestion, from \<open>database.go\<close>, \<open>aliases.go\<close> and \<open>dashboard.go\<close>:
  heartbeats and the per-source health rows, the status of machines, the display aliases and
  the purge of old events. Each SQL statement is a function on the rows of its table.
\<close>

subsection \<open>Stored times\<close>

definition timeParse :: "gostr \<Rightarrow> instant option" where "timeParse value = parse_rfc3339 value"

text \<open>The store's timestamp text is read back exactly: parsing the RFC 3339 text of an instant of
  the years 0 to 9999, nanoseconds included, gives the instant, so distinct instants have
  distinct texts.\<close>

theorem timeParse_roundtrip:
  assumes "in_years t" "in_years u"
  shows "timeParse (rfc3339_nano t) = Some t \<and> (rfc3339_nano t = rfc3339_nano u) = (t = u)"
  using parse_rfc3339_nano[OF assms(1)] parse_rfc3339_nano[OF assms(2)] unfolding timeParse_def by (metis option.inject)

theorem timeParse_roundtrip_witness: "timeParse (rfc3339_nano 1700000000500000000) = Some 1700000000500000000"
  using timeParse_roundtrip[OF in_years_sample in_years_sample] by blast

subsection \<open>Adapter lists\<close>

fun normalize_loop :: "gostr list \<Rightarrow> gostr list \<Rightarrow> gostr list" where
  "normalize_loop result [] = result"
| "normalize_loop result (v # vs) =
    (let value = trim_space v in
     if value = [] \<or> value \<in> set result then normalize_loop result vs else normalize_loop (result @ [value]) vs)"

definition normalizeAdapterIDs :: "gostr list \<Rightarrow> gostr list" where
  "normalizeAdapterIDs values = sort (normalize_loop [] values)"

definition splitAdapterIDs :: "gostr \<Rightarrow> gostr list" where
  "splitAdapterIDs value = (if trim_space value = [] then [] else normalizeAdapterIDs (split_on (CHR '','') value))"

subsection \<open>Heartbeats\<close>

record agent_source_health =
  ah_Adapter :: gostr
  ah_SourceHash :: gostr
  ah_LastSuccessfulSync :: "instant option"
  ah_LastErrorClass :: gostr

record agent_heartbeat =
  hb_MachineID :: gostr
  hb_AgentVersion :: gostr
  hb_OperatingSystem :: gostr
  hb_Architecture :: gostr
  hb_Adapters :: "gostr list"
  hb_SourceCount :: int
  hb_SourceErrorCount :: int
  hb_Sources :: "agent_source_health list option"

datatype heartbeat_error = MachineRequired | NegativeCounts | SourceHealthIncomplete

definition source_incomplete :: "agent_source_health \<Rightarrow> bool" where
  "source_incomplete s \<longleftrightarrow> trim_space (ah_Adapter s) = [] \<or> trim_space (ah_SourceHash s) = []"

definition heartbeat_guards :: "agent_heartbeat \<Rightarrow> heartbeat_error goerror" where
  "heartbeat_guards h = first_error [
    fail_if (trim_space (hb_MachineID h) = []) MachineRequired,
    fail_if (hb_SourceCount h < 0 \<or> hb_SourceErrorCount h < 0) NegativeCounts,
    fail_if (case hb_Sources h of None \<Rightarrow> False | Some ss \<Rightarrow> list_ex source_incomplete ss) SourceHealthIncomplete]"

definition heartbeat_machine :: "gostr \<Rightarrow> agent_heartbeat \<Rightarrow> machine list \<Rightarrow> machine list" where
  "heartbeat_machine now h ms =
    (let i = hb_MachineID h; adapters = join_with '','' (normalizeAdapterIDs (hb_Adapters h)) in
     if list_ex (\<lambda>m. mc_id m = i) ms
     then map (\<lambda>m. if mc_id m = i
        then m\<lparr>mc_name := i,
               mc_operating_system := (if hb_OperatingSystem h \<noteq> [] then hb_OperatingSystem h else mc_operating_system m),
               mc_architecture := (if hb_Architecture h \<noteq> [] then hb_Architecture h else mc_architecture m),
               mc_agent_version := (if hb_AgentVersion h \<noteq> [] then hb_AgentVersion h else mc_agent_version m),
               mc_detected_adapters := adapters, mc_source_count := hb_SourceCount h,
               mc_source_error_count := hb_SourceErrorCount h, mc_last_seen_at := now\<rparr>
        else m) ms
     else ms @ [\<lparr>mc_id = i, mc_name = i, mc_operating_system = hb_OperatingSystem h, mc_architecture = hb_Architecture h,
                 mc_agent_version = hb_AgentVersion h, mc_detected_adapters = adapters, mc_source_count = hb_SourceCount h,
                 mc_source_error_count = hb_SourceErrorCount h, mc_first_seen_at = now, mc_last_seen_at = now\<rparr>])"

definition health_key :: "health \<Rightarrow> gostr \<times> gostr \<times> gostr" where
  "health_key r = (hl_machine_id r, hl_adapter r, hl_source_hash r)"

definition health_row :: "gostr \<Rightarrow> gostr \<Rightarrow> agent_source_health \<Rightarrow> health" where
  "health_row machineID now s =
    \<lparr>hl_machine_id = machineID, hl_adapter = ah_Adapter s, hl_source_hash = ah_SourceHash s,
     hl_last_successful_sync = (case ah_LastSuccessfulSync s of None \<Rightarrow> [] | Some t \<Rightarrow> rfc3339_nano t),
     hl_last_error_class = ah_LastErrorClass s, hl_updated_at = now\<rparr>"

definition replace_health :: "gostr \<Rightarrow> agent_heartbeat \<Rightarrow> health list \<Rightarrow> health list" where
  "replace_health now h t =
    (case hb_Sources h of None \<Rightarrow> t
     | Some sources \<Rightarrow>
         fold (put_by health_key) (map (health_row (hb_MachineID h) now) sources)
           (filter (\<lambda>r. hl_machine_id r \<noteq> hb_MachineID h) t))"

definition RecordHeartbeat :: "instant \<Rightarrow> store \<Rightarrow> agent_heartbeat \<Rightarrow> store \<times> heartbeat_error goerror" where
  "RecordHeartbeat clock st h =
    (case heartbeat_guards h of Some err \<Rightarrow> (st, Some err)
     | None \<Rightarrow>
         (let now = rfc3339_nano clock in
          (st\<lparr>st_machines := heartbeat_machine now h (st_machines st),
              st_health := replace_health now h (st_health st)\<rparr>, None)))"

definition StaleAgents :: "store \<Rightarrow> instant \<Rightarrow> nat" where
  "StaleAgents st cutoff = length (filter (\<lambda>m. mc_last_seen_at m < rfc3339_nano cutoff) (st_machines st))"

subsection \<open>Purging\<close>

definition PurgeBefore :: "store \<Rightarrow> gostr \<Rightarrow> store \<times> nat option" where
  "PurgeBefore st before =
    (let boundary = before @ ''T00:00:00Z'' in
     case timeParse boundary of None \<Rightarrow> (st, None)
     | Some _ \<Rightarrow>
        (st\<lparr>st_events := filter (\<lambda>r. \<not> rw_timestamp r < boundary) (st_events st)\<rparr>,
         Some (length (filter (\<lambda>r. rw_timestamp r < boundary) (st_events st)))))"

subsection \<open>Display aliases\<close>

definition AliasKindModel :: gostr where "AliasKindModel = ''model''"
definition AliasKindMachine :: gostr where "AliasKindMachine = ''machine''"

datatype alias_error = UnsupportedAliasKind gostr | AliasIdentityRequired | AliasIdentityTooLong | AliasTooLong

definition alias_key :: "alias_row \<Rightarrow> gostr \<times> gostr" where "alias_key r = (al_kind r, al_identity r)"

definition SetDisplayAlias :: "instant \<Rightarrow> store \<Rightarrow> gostr \<Rightarrow> gostr \<Rightarrow> gostr \<Rightarrow> store \<times> alias_error goerror" where
  "SetDisplayAlias clock st kind0 identity0 alias0 =
    (let kind = trim_space kind0; identity = trim_space identity0; alias = trim_space alias0 in
     if kind \<noteq> AliasKindModel \<and> kind \<noteq> AliasKindMachine then (st, Some (UnsupportedAliasKind kind))
     else if identity = [] then (st, Some AliasIdentityRequired)
     else if 256 < rune_count identity then (st, Some AliasIdentityTooLong)
     else if 48 < rune_count alias then (st, Some AliasTooLong)
     else if alias = [] then
       (st\<lparr>st_aliases := filter (\<lambda>r. alias_key r \<noteq> (kind, identity)) (st_aliases st)\<rparr>, None)
     else (st\<lparr>st_aliases := put_by alias_key
             \<lparr>al_kind = kind, al_identity = identity, al_alias = alias, al_updated_at = rfc3339_nano clock\<rparr> (st_aliases st)\<rparr>, None))"

record display_alias =
  da_Kind :: gostr
  da_Identity :: gostr
  da_Alias :: gostr

text \<open>\<open>DisplayAliases\<close>: the rows in the order of their key.\<close>

definition DisplayAliases :: "store \<Rightarrow> display_alias list" where
  "DisplayAliases st = map (\<lambda>r. \<lparr>da_Kind = al_kind r, da_Identity = al_identity r, da_Alias = al_alias r\<rparr>)
    (sort_key al_kind (sort_key al_identity (st_aliases st)))"

subsection \<open>Contracts\<close>

interpretation health_table: keyed_table health_key "put_by health_key"
  by unfold_locales (simp_all add: distinct_put_by set_put_by)

interpretation alias_table: keyed_table alias_key "put_by alias_key"
  by unfold_locales (simp_all add: distinct_put_by set_put_by)

text \<open>The invariant of the whole store: that of ingestion, and the keys of the other tables.\<close>

definition tables_ok :: "store \<Rightarrow> bool" where
  "tables_ok st \<longleftrightarrow> store_ok st \<and> distinct (map health_key (st_health st)) \<and> distinct (map alias_key (st_aliases st))"

lemma normalize_loop_distinct: "distinct result \<Longrightarrow> distinct (normalize_loop result vs)"
  by (induction result vs rule: normalize_loop.induct) (auto simp: Let_def)

lemma normalize_loop_set:
  "set (normalize_loop result vs) = set result \<union> {trim_space v | v. v \<in> set vs \<and> trim_space v \<noteq> []}"
  by (induction result vs rule: normalize_loop.induct) (auto simp: Let_def)

lemma normalizeAdapterIDs_props:
  "distinct (normalizeAdapterIDs vs)" "sorted (normalizeAdapterIDs vs)"
  "set (normalizeAdapterIDs vs) = {trim_space v | v. v \<in> set vs \<and> trim_space v \<noteq> []}"
  by (simp_all add: normalizeAdapterIDs_def normalize_loop_distinct normalize_loop_set)

subsection \<open>Adapter lists round trip\<close>

lemma decode_rune_ascii_byte:
  assumes "decode_rune c cs = (r, w)" "d \<in> set (take w (c # cs))" "byte d < 128"
  shows "r = byte d"
proof (cases "byte c < 128")
  case True
  then have "w = 1" "r = byte c" using assms(1) by (simp_all add: decode_rune_ascii)
  then show ?thesis using assms(2) by simp
next
  case False
  have "d \<noteq> c" using False assms(3) by auto
  then have "d \<in> set (take (w - 1) cs)" using assms(2) by (cases w) auto
  then obtain i where i: "i < w - 1" "i < length cs" "d = cs ! i" by (auto simp: in_set_conv_nth)
  then have "w = 2 \<and> i = 0 \<or> w = 3 \<and> i < 2 \<or> w = 4 \<and> i < 3"
    using assms(1) by (auto simp: decode_rune_def Let_def split: if_splits)
  then have "128 \<le> byte (cs ! i)"
    using assms(1) False by (auto simp: decode_rune_def Let_def cont_byte_def less_Suc_eq numeral_2_eq_2 numeral_3_eq_3 split: if_splits)
  then show ?thesis using i(3) assms(3) by simp
qed

lemma runes_ascii_byte: "(r, p) \<in> set (runes s) \<Longrightarrow> d \<in> set p \<Longrightarrow> byte d < 128 \<Longrightarrow> r = byte d"
proof (induction s rule: runes.induct)
  case (2 c cs)
  obtain r' w where d: "decode_rune c cs = (r', w)" by (cases "decode_rune c cs")
  consider "r = r'" "p = take w (c # cs)" | "(r, p) \<in> set (runes (drop w (c # cs)))" using "2.prems"(1) d by auto
  then show ?case
  proof cases
    case 1
    then show ?thesis using decode_rune_ascii_byte[OF d] "2.prems"(2,3) by simp
  next
    case 2
    then show ?thesis using "2.IH"[OF d[symmetric] refl] "2.prems"(2,3) by blast
  qed
qed simp

lemma trim_space_Nil_byte:
  assumes "trim_space s = []" "d \<in> set s" "byte d < 128"
  shows "is_space (byte d)"
proof -
  have "trim_runes (runes s) = []" using runes_trim_space[of s] assms(1) by simp
  then have sp: "\<forall>x \<in> set (runes s). is_space (fst x)"
    unfolding trim_runes_def by (auto simp: dropWhile_eq_Nil_conv dest: set_dropWhileD) (metis comp_apply dropWhile_eq_Nil_conv hd_dropWhile hd_in_set set_rev fst_conv)
  have "d \<in> set (concat (map snd (runes s)))" unfolding runes_concat by (rule assms(2))
  then obtain r p where "(r, p) \<in> set (runes s)" "d \<in> set p" unfolding set_concat by (auto simp del: runes_concat)
  then show ?thesis using sp runes_ascii_byte[OF _ _ assms(3)] by fastforce
qed

lemma normalize_loop_fixed:
  "distinct (result @ vs) \<Longrightarrow> list_all (\<lambda>v. trim_space v = v \<and> v \<noteq> []) vs \<Longrightarrow> normalize_loop result vs = result @ vs"
  by (induction result vs rule: normalize_loop.induct) (auto simp: Let_def)

text \<open>The adapter list of a machine survives the column it is stored in: for adapter IDs without a
  comma, splitting the joined column gives back the normalized list (trimmed, without empty or
  repeated IDs, sorted), and normalizing again changes nothing.\<close>

theorem adapter_list_roundtrip:
  assumes "list_all (\<lambda>v. CHR '','' \<notin> set v) vs"
  shows "splitAdapterIDs (join_with '','' (normalizeAdapterIDs vs)) = normalizeAdapterIDs vs
    \<and> normalizeAdapterIDs (normalizeAdapterIDs vs) = normalizeAdapterIDs vs
    \<and> distinct (normalizeAdapterIDs vs) \<and> set (normalizeAdapterIDs vs) = {trim_space v | v. v \<in> set vs \<and> trim_space v \<noteq> []}"
proof -
  let ?n = "normalizeAdapterIDs vs"
  note n = normalizeAdapterIDs_props[of vs]
  have trimmed: "list_all (\<lambda>v. trim_space v = v \<and> v \<noteq> []) ?n" unfolding list_all_iff n(3) by auto
  have comma: "list_all (\<lambda>v. CHR '','' \<notin> set v) ?n"
    using assms trim_space_subset unfolding list_all_iff n(3) by blast
  have again: "normalizeAdapterIDs ?n = ?n"
    using normalize_loop_fixed[of "[]" ?n] n(1,2) trimmed unfolding normalizeAdapterIDs_def[of ?n] by (simp add: sorted_sort_id)
  have "splitAdapterIDs (join_with '','' ?n) = ?n"
  proof (cases "?n = []")
    case False
    have "trim_space (join_with '','' ?n) \<noteq> []"
    proof (cases "tl ?n = []")
      case True
      then obtain x where "?n = [x]" using False by (cases ?n) auto
      then show ?thesis using trimmed by simp
    next
      case more: False
      then obtain x y ys where "?n = x # y # ys" using False by (metis list.exhaust list.sel(3))
      then have "CHR '','' \<in> set (join_with '','' ?n)" by simp
      then show ?thesis using trim_space_Nil_byte[of "join_with '','' ?n" "CHR '',''"] by (auto simp: is_space_def byte_def)
    qed
    then show ?thesis using split_join_with[OF False comma] again by (simp add: splitAdapterIDs_def)
  qed (simp add: splitAdapterIDs_def)
  then show ?thesis using again n(1,3) by blast
qed

theorem adapter_list_roundtrip_witness:
  "splitAdapterIDs (join_with '','' (normalizeAdapterIDs [''codex'', ''claude'', ''codex''])) = normalizeAdapterIDs [''codex'', ''claude'', ''codex'']"
  using adapter_list_roundtrip[of "[''codex'', ''claude'', ''codex'']"] by simp

subsection \<open>What a heartbeat does\<close>

lemma find_by_map_update:
  assumes "\<And>m. key m = i \<Longrightarrow> key (f m) = i"
  shows "find_by key k (map (\<lambda>m. if key m = i then f m else m) ms)
    = (if k = i then map_option f (find_by key i ms) else find_by key k ms)"
  using assms by (induction ms) (auto simp: find_by_def)

lemma map_update_keys:
  assumes "\<And>m. key m = i \<Longrightarrow> key (f m) = i"
  shows "map key (map (\<lambda>m. if key m = i then f m else m) ms) = map key ms"
  using assms by (simp add: comp_def)

text \<open>The row of a machine after a heartbeat, from the row before it.\<close>

definition heartbeat_row :: "gostr \<Rightarrow> agent_heartbeat \<Rightarrow> machine option \<Rightarrow> machine" where
  "heartbeat_row now h old =
    (let keep = (\<lambda>new field. if new \<noteq> [] then new else (case old of None \<Rightarrow> [] | Some m \<Rightarrow> field m)) in
     \<lparr>mc_id = hb_MachineID h, mc_name = hb_MachineID h,
      mc_operating_system = keep (hb_OperatingSystem h) mc_operating_system,
      mc_architecture = keep (hb_Architecture h) mc_architecture,
      mc_agent_version = keep (hb_AgentVersion h) mc_agent_version,
      mc_detected_adapters = join_with '','' (normalizeAdapterIDs (hb_Adapters h)),
      mc_source_count = hb_SourceCount h, mc_source_error_count = hb_SourceErrorCount h,
      mc_first_seen_at = (case old of None \<Rightarrow> now | Some m \<Rightarrow> mc_first_seen_at m), mc_last_seen_at = now\<rparr>)"

lemma heartbeat_machine_cases:
  "heartbeat_machine now h ms =
    (if hb_MachineID h \<in> mc_id ` set ms
     then map (\<lambda>m. if mc_id m = hb_MachineID h then heartbeat_row now h (Some m) else m) ms
     else ms @ [heartbeat_row now h None])"
proof -
  have "list_ex (\<lambda>m. mc_id m = hb_MachineID h) ms \<longleftrightarrow> hb_MachineID h \<in> mc_id ` set ms"
    by (auto simp: list_ex_iff image_iff) metis
  then show ?thesis
    unfolding heartbeat_machine_def heartbeat_row_def Let_def by (simp cong: if_cong)
qed

lemma mc_id_heartbeat_row [simp]: "mc_id (heartbeat_row now h old) = hb_MachineID h"
  by (simp add: heartbeat_row_def Let_def)

lemma find_heartbeat_machine:
  "find_by mc_id i (heartbeat_machine now h ms)
    = (if i = hb_MachineID h then Some (heartbeat_row now h (find_by mc_id i ms)) else find_by mc_id i ms)"
proof (cases "hb_MachineID h \<in> mc_id ` set ms")
  case True
  then have "find_by mc_id (hb_MachineID h) ms \<noteq> None" by (simp add: find_by_None)
  then show ?thesis
    using True find_by_map_update[of mc_id "hb_MachineID h" "\<lambda>m. heartbeat_row now h (Some m)" i ms]
    by (auto simp: heartbeat_machine_cases)
next
  case False
  then have "find_by mc_id (hb_MachineID h) ms = None" by (simp add: find_by_None)
  then show ?thesis using False
    by (auto simp: heartbeat_machine_cases find_by_append find_by_Cons find_by_def[of _ _ "[]"] split: option.splits)
qed

lemma heartbeat_machine_ids:
  "distinct (map mc_id ms) \<Longrightarrow> distinct (map mc_id (heartbeat_machine now h ms))"
  "mc_id ` set (heartbeat_machine now h ms) = insert (hb_MachineID h) (mc_id ` set ms)"
proof -
  have k: "map mc_id (map (\<lambda>m. if mc_id m = hb_MachineID h then heartbeat_row now h (Some m) else m) ms) = map mc_id ms"
    by (rule map_update_keys) simp
  then show "distinct (map mc_id ms) \<Longrightarrow> distinct (map mc_id (heartbeat_machine now h ms))"
    by (auto simp: heartbeat_machine_cases simp del: map_map)
  have "mc_id ` set (map (\<lambda>m. if mc_id m = hb_MachineID h then heartbeat_row now h (Some m) else m) ms) = mc_id ` set ms"
    using arg_cong[OF k, of set] by (simp only: set_map)
  then show "mc_id ` set (heartbeat_machine now h ms) = insert (hb_MachineID h) (mc_id ` set ms)"
    by (auto simp: heartbeat_machine_cases simp del: set_map)
qed

lemma health_key_row: "health_key (health_row m now s) = (m, ah_Adapter s, ah_SourceHash s)"
  by (simp add: health_key_def health_row_def)

lemma find_health_rows:
  "find_by health_key (m', k) (map (health_row m now) ss)
    = (if m' = m then map_option (health_row m now) (find_by (\<lambda>s. (ah_Adapter s, ah_SourceHash s)) k ss) else None)"
  by (induction ss) (auto simp: find_by_Cons health_key_row find_by_def[of _ _ "[]"])

lemma find_by_filter_out:
  "find_by health_key (m', k) (filter (\<lambda>r. hl_machine_id r \<noteq> m) t) = (if m' = m then None else find_by health_key (m', k) t)"
proof (induction t)
  case (Cons r t)
  have "health_key r = (m', k) \<Longrightarrow> hl_machine_id r = m'" by (simp add: health_key_def)
  then show ?case using Cons by (auto simp: find_by_Cons)
qed (simp add: find_by_def)

lemma find_replace_health:
  assumes "distinct (map health_key t)"
  shows "find_by health_key (m, k) (replace_health now h t) =
    (case hb_Sources h of None \<Rightarrow> find_by health_key (m, k) t
     | Some ss \<Rightarrow> if m = hb_MachineID h
         then map_option (health_row m now) (find_by (\<lambda>s. (ah_Adapter s, ah_SourceHash s)) k (rev ss))
         else find_by health_key (m, k) t)"
  using health_table.find_fold[OF distinct_filter_map[OF assms, of "\<lambda>r. hl_machine_id r \<noteq> hb_MachineID h"]]
  by (auto simp: replace_health_def rev_map find_health_rows find_by_filter_out split: option.splits)

lemma replace_health_distinct: "distinct (map health_key t) \<Longrightarrow> distinct (map health_key (replace_health now h t))"
  using health_table.replacing.fold_ok[OF distinct_filter_map[of health_key t]]
  by (auto simp: replace_health_def split: option.split)

lemma store_ok_machines:
  assumes "store_ok st" "distinct (map mc_id ms)" "mc_id ` set (st_machines st) \<subseteq> mc_id ` set ms"
  shows "store_ok (st\<lparr>st_machines := ms, st_health := hs\<rparr>)"
  using assms unfolding store_ok_def list_all_iff machine_known_iff by auto

text \<open>A heartbeat changes only what it reports: the store stays valid, the events and aliases are
  untouched; a refused heartbeat changes nothing; an accepted one has a machine ID, counts that are
  not negative and named sources, sets the row of its machine (keeping the first-seen time, and the
  platform fields it leaves empty) and no other, and, when it lists sources, the health rows of the
  machine become exactly the sources listed (the last one of equal identity), while without the
  list, as for other machines, the rows stay.\<close>

theorem RecordHeartbeat_effect:
  assumes "tables_ok st"
  shows "case RecordHeartbeat clock st h of (st', err) \<Rightarrow>
    tables_ok st' \<and> st_events st' = st_events st \<and> st_aliases st' = st_aliases st
    \<and> (if err \<noteq> None then st' = st
       else trim_space (hb_MachineID h) \<noteq> [] \<and> 0 \<le> hb_SourceCount h \<and> 0 \<le> hb_SourceErrorCount h
         \<and> find_by mc_id i (st_machines st') = (if i = hb_MachineID h
              then Some (heartbeat_row (rfc3339_nano clock) h (find_by mc_id i (st_machines st))) else find_by mc_id i (st_machines st))
         \<and> find_by health_key (m, k) (st_health st') = (case hb_Sources h of None \<Rightarrow> find_by health_key (m, k) (st_health st)
              | Some ss \<Rightarrow> if m = hb_MachineID h
                  then map_option (health_row m (rfc3339_nano clock)) (find_by (\<lambda>s. (ah_Adapter s, ah_SourceHash s)) k (rev ss))
                  else find_by health_key (m, k) (st_health st)))"
proof (cases "heartbeat_guards h")
  case None
  have g: "trim_space (hb_MachineID h) \<noteq> []" "0 \<le> hb_SourceCount h" "0 \<le> hb_SourceErrorCount h"
    using None by (auto simp: heartbeat_guards_def ok_simps)
  have ok: "store_ok st" "distinct (map health_key (st_health st))" "distinct (map alias_key (st_aliases st))"
    using assms by (simp_all add: tables_ok_def)
  have "distinct (map mc_id (st_machines st))" using ok(1) by (simp add: store_ok_def)
  then have "store_ok (st\<lparr>st_machines := heartbeat_machine n h (st_machines st), st_health := replace_health n h (st_health st)\<rparr>)" for n
    by (intro store_ok_machines ok heartbeat_machine_ids) (auto simp: heartbeat_machine_ids)
  then show ?thesis
    using None g ok replace_health_distinct[OF ok(2)]
    by (simp add: RecordHeartbeat_def Let_def tables_ok_def find_heartbeat_machine find_replace_health[OF ok(2)])
qed (use assms in \<open>simp add: RecordHeartbeat_def\<close>)

definition sample_heartbeat :: agent_heartbeat where
  "sample_heartbeat = \<lparr>hb_MachineID = ''m'', hb_AgentVersion = ''1'', hb_OperatingSystem = [], hb_Architecture = [],
    hb_Adapters = [''codex''], hb_SourceCount = 1, hb_SourceErrorCount = 0,
    hb_Sources = Some [\<lparr>ah_Adapter = ''codex'', ah_SourceHash = ''h'', ah_LastSuccessfulSync = None, ah_LastErrorClass = []\<rparr>]\<rparr>"

lemma sample_heartbeat_accepted: "heartbeat_guards sample_heartbeat = None"
  by (simp add: heartbeat_guards_def sample_heartbeat_def source_incomplete_def fail_if_def str_eval del: runes.simps(2))

lemma empty_tables_ok: "tables_ok empty_store"
  using empty_store_ok by (simp add: tables_ok_def empty_store_def)

theorem RecordHeartbeat_effect_witness:
  "find_by health_key (''m'', ''codex'', ''h'') (st_health (fst (RecordHeartbeat 5 empty_store sample_heartbeat))) \<noteq> None"
  using RecordHeartbeat_effect[where clock = 5 and h = sample_heartbeat and i = "''m''" and m = "''m''" and k = "(''codex'', ''h'')", OF empty_tables_ok] sample_heartbeat_accepted
  by (auto simp: RecordHeartbeat_def Let_def) (simp add: sample_heartbeat_def find_by_def)

subsection \<open>What a purge removes\<close>

lemma midnight_text: "clock_text 0 = ''00:00:00''"
  by code_simp

lemma day_boundary: "date_text (civil d) @ ''T00:00:00Z'' = rfc3339 (instant_of_day d)"
  by (simp add: rfc3339_def second_text_def midnight_text)

lemma first_second:
  assumes "t0 mod nanos_per_second = 0"
  shows "(unix_seconds t < unix_seconds t0 \<or> unix_seconds t = unix_seconds t0 \<and> t mod nanos_per_second \<noteq> 0)
    \<longleftrightarrow> t < t0 \<or> (t0 < t \<and> t < t0 + nanos_per_second)"
proof -
  define n where "n = nanos_per_second"
  define q where "q = t0 div n"
  define a where "a = t div n"
  define b where "b = t mod n"
  have n: "0 < n" by (simp add: n_def nanos_per_second_def)
  have t0: "t0 = q * n" using assms unfolding q_def n_def by (metis add.right_neutral div_mult_mod_eq)
  have t: "t = a * n + b" "0 \<le> b" "b < n" unfolding a_def b_def using n by simp_all
  have "a < q \<Longrightarrow> (a + 1) * n \<le> q * n" "q < a \<Longrightarrow> (q + 1) * n \<le> a * n" using n by (auto intro!: mult_right_mono)
  then have "(a < q \<or> a = q \<and> b \<noteq> 0) \<longleftrightarrow> t < t0 \<or> (t0 < t \<and> t < t0 + n)"
    using t unfolding t0 by (cases a q rule: linorder_cases) (auto simp: distrib_right)
  then show ?thesis unfolding unix_seconds_def n_def[symmetric] q_def[symmetric] a_def[symmetric] b_def[symmetric] .
qed

lemma store_ok_filter: "store_ok st \<Longrightarrow> store_ok (st\<lparr>st_events := filter P (st_events st)\<rparr>)"
  by (auto simp: store_ok_def table_ok_filter no_double_count_def list_all_iff)

text \<open>Purging before a day: the store stays valid; given the text of a day, the purge succeeds,
  keeps the machines and reports the number of rows it deleted; an event stored with a timestamp
  before that day is deleted and one stored from the second second of the day on is kept. In
  between, the comparison of texts deletes the events of the first second of the day that carry a
  fraction of a second, although they are not before the day.\<close>

theorem PurgeBefore_boundary:
  assumes "tables_ok st" "in_years (instant_of_day d)" "in_years t" "rw_timestamp r = rfc3339_nano t"
  shows "case PurgeBefore st (date_text (civil d)) of (st', removed) \<Rightarrow>
      tables_ok st' \<and> st_machines st' = st_machines st
      \<and> removed = Some (length (st_events st) - length (st_events st'))
      \<and> (r \<in> set (st_events st') \<longleftrightarrow> r \<in> set (st_events st) \<and> instant_of_day d \<le> t
           \<and> \<not> (instant_of_day d < t \<and> t < instant_of_day d + seconds 1))"
proof -
  let ?b = "rfc3339 (instant_of_day d)"
  have parse: "timeParse ?b = Some (instant_of_day d)"
    unfolding timeParse_def by (rule parse_rfc3339_second[OF assms(2)]) simp
  have gone: "rw_timestamp r < ?b \<longleftrightarrow> t < instant_of_day d \<or> (instant_of_day d < t \<and> t < instant_of_day d + seconds 1)"
    unfolding assms(4) rfc3339_nano_boundary[OF assms(3,2)] using first_second[of "instant_of_day d" t]
    by (simp add: seconds_def)
  have len: "length (filter (\<lambda>r. rw_timestamp r < ?b) l) = length l - length (filter (\<lambda>r. \<not> rw_timestamp r < ?b) l)" for l
    using sum_length_filter_compl[of "\<lambda>r. rw_timestamp r < ?b" l] by simp
  show ?thesis
    using assms(1) gone store_ok_filter[of st "\<lambda>r. \<not> rw_timestamp r < ?b"]
    by (auto simp: PurgeBefore_def day_boundary parse Let_def len tables_ok_def)
qed

lemma in_years_1970: "0 \<le> t \<Longrightarrow> t < 86400 * nanos_per_second \<Longrightarrow> in_years t"
proof -
  assume t: "0 \<le> t" "t < 86400 * nanos_per_second"
  then have "0 \<le> unix_seconds t" "unix_seconds t < 86400"
    using zdiv_mono1[of 0 t nanos_per_second] zdiv_mono1[of t "86400 * nanos_per_second - 1" nanos_per_second]
    by (simp_all add: unix_seconds_def nanos_per_second_def)
  then have "instant_day t = 719162" by (simp add: instant_day_def epoch_day_def)
  moreover have "year_of_day 719162 = 1970" by (simp add: year_of_day_def days_before_year_def Let_def)
  ultimately show ?thesis by (simp add: in_years_def)
qed

text \<open>An event five nanoseconds into a day is purged before that day.\<close>

theorem PurgeBefore_boundary_witness:
  "st_events one_event_store \<noteq> [] \<and> st_events (fst (PurgeBefore one_event_store (date_text (civil epoch_day)))) = []"
proof -
  have y: "in_years (instant_of_day epoch_day)" "in_years 5" by (rule in_years_1970; simp add: instant_of_day_def nanos_per_second_def)+
  have ok: "tables_ok one_event_store"
    using one_event_store_ok by (simp add: tables_ok_def one_event_store_def write_event_def empty_store_def)
  have ts: "rw_timestamp (event_row sample_env sample_event) = rfc3339_nano 5" by (simp add: row_simps sample_event_def)
  have sub: "set (st_events (fst (PurgeBefore st b))) \<subseteq> set (st_events st)" for st b
    by (auto simp: PurgeBefore_def Let_def split: option.splits)
  from PurgeBefore_boundary[OF ok y ts] have "event_row sample_env sample_event \<notin> set (st_events (fst (PurgeBefore one_event_store (date_text (civil epoch_day)))))"
    by (auto simp: instant_of_day_def seconds_def nanos_per_second_def split: prod.splits)
  moreover have "xs = []" if "x \<notin> set xs" "set xs \<subseteq> {x}" for x :: row and xs using that by (cases xs) auto
  ultimately have "st_events (fst (PurgeBefore one_event_store (date_text (civil epoch_day)))) = []"
    using sub[of one_event_store "date_text (civil epoch_day)"] by (simp add: one_event_rows)
  then show ?thesis by (simp add: one_event_rows)
qed

subsection \<open>What an alias does\<close>

text \<open>The alias shown for an identity.\<close>

definition shown_alias :: "store \<Rightarrow> gostr \<Rightarrow> gostr \<Rightarrow> gostr option" where
  "shown_alias st kind identity = map_option al_alias (find_by alias_key (kind, identity) (st_aliases st))"

lemma find_alias_filter:
  "find_by alias_key k (filter (\<lambda>r. alias_key r \<noteq> k') t) = (if k = k' then None else find_by alias_key k t)"
  by (induction t) (auto simp: find_by_Cons find_by_def[of _ _ "[]"])

text \<open>Display aliases: an accepted change sets the alias of exactly the one trimmed identity, to the
  trimmed alias, or clears it when that is empty; it touches nothing else of the store; a refused
  one changes nothing; the keys stay unique, and a stored alias is never empty and at most 48
  characters long.\<close>

theorem SetDisplayAlias_effect:
  assumes "tables_ok st" "list_all (\<lambda>r. al_alias r \<noteq> [] \<and> rune_count (al_alias r) \<le> 48) (st_aliases st)"
  shows "case SetDisplayAlias clock st kind identity new of (st', err) \<Rightarrow>
    tables_ok st' \<and> st_events st' = st_events st \<and> st_machines st' = st_machines st \<and> st_health st' = st_health st
    \<and> list_all (\<lambda>r. al_alias r \<noteq> [] \<and> rune_count (al_alias r) \<le> 48) (st_aliases st')
    \<and> (if err \<noteq> None then st' = st
       else trim_space kind \<in> {''model'', ''machine''} \<and> trim_space identity \<noteq> []
         \<and> shown_alias st' k i = (if k = trim_space kind \<and> i = trim_space identity
              then (if trim_space new = [] then None else Some (trim_space new)) else shown_alias st k i))"
proof -
  let ?k = "trim_space kind" and ?i = "trim_space identity" and ?a = "trim_space new"
  let ?row = "\<lparr>al_kind = ?k, al_identity = ?i, al_alias = ?a, al_updated_at = rfc3339_nano clock\<rparr>"
  have d: "distinct (map alias_key (st_aliases st))" using assms(1) by (simp add: tables_ok_def)
  have store: "store_ok (st\<lparr>st_aliases := t\<rparr>)" for t using assms(1) by (simp add: tables_ok_def store_ok_def)
  have cleared: "distinct (map alias_key (filter P (st_aliases st)))" for P by (rule distinct_filter_map[OF d])
  have key: "alias_key ?row = (?k, ?i)" by (simp add: alias_key_def)
  have kinds: "?k = ''model'' \<or> ?k = ''machine''" if "\<not> (?k \<noteq> AliasKindModel \<and> ?k \<noteq> AliasKindMachine)"
    using that by (auto simp: AliasKindModel_def AliasKindMachine_def)
  consider "?k \<noteq> AliasKindModel \<and> ?k \<noteq> AliasKindMachine \<or> ?i = [] \<or> 256 < rune_count ?i \<or> 48 < rune_count ?a"
    | "\<not> (?k \<noteq> AliasKindModel \<and> ?k \<noteq> AliasKindMachine)" "?i \<noteq> []" "\<not> 256 < rune_count ?i" "\<not> 48 < rune_count ?a" "?a = []"
    | "\<not> (?k \<noteq> AliasKindModel \<and> ?k \<noteq> AliasKindMachine)" "?i \<noteq> []" "\<not> 256 < rune_count ?i" "\<not> 48 < rune_count ?a" "?a \<noteq> []"
    by blast
  then show ?thesis
  proof cases
    case 1
    then show ?thesis using assms by (auto simp: SetDisplayAlias_def Let_def)
  next
    case 2
    have "list_all P (filter Q (st_aliases st))" if "list_all P (st_aliases st)" for P Q using that by (auto simp: list_all_iff)
    then show ?thesis
      using 2 kinds[OF 2(1)] assms store cleared
      by (simp add: SetDisplayAlias_def Let_def tables_ok_def shown_alias_def find_alias_filter)
  next
    case 3
    then show ?thesis
      using kinds[OF 3(1)] assms store alias_table.put_distinct[OF d, of ?row]
        alias_table.replacing.put_all[OF d assms(2), of ?row] alias_table.find_put[OF d, of "(k, i)" ?row]
      by (simp add: SetDisplayAlias_def Let_def tables_ok_def shown_alias_def key)
  qed
qed

theorem SetDisplayAlias_effect_witness:
  "shown_alias (fst (SetDisplayAlias 5 empty_store ''model'' ''gpt'' ''G'')) ''model'' ''gpt'' = Some ''G''"
proof -
  have t: "trim_space ''model'' = ''model''" "trim_space ''gpt'' = ''gpt''" "trim_space ''G'' = ''G''"
    by (simp_all add: str_eval is_space_def del: runes.simps(2))
  have a: "snd (SetDisplayAlias 5 empty_store ''model'' ''gpt'' ''G'') = None"
    by (simp add: SetDisplayAlias_def t AliasKindModel_def Let_def rune_count_def str_eval del: runes.simps(2))
  show ?thesis
    using SetDisplayAlias_effect[where clock = 5 and kind = "''model''" and identity = "''gpt''" and new = "''G''"
        and k = "''model''" and i = "''gpt''", OF empty_tables_ok] a
    by (auto simp: t empty_store_def split: prod.splits)
qed

end
