(* ===== verification/Go_Calendar.thy ===== *)
theory Go_Calendar
  imports Go_Parse Go_Zone
begin

text \<open>
  The calendar read in the other direction: a valid date determines its day, digits determine the
  text they were read from, and what a successful \<open>time.Parse(time.RFC3339Nano, s)\<close> says about
  a text that ends in \<open>Z\<close>.
\<close>

lemma year_of_day_unique: "days_before_year y \<le> d \<Longrightarrow> d < days_before_year (y + 1) \<Longrightarrow> year_of_day d = y"
proof (rule ccontr)
  assume d: "days_before_year y \<le> d" "d < days_before_year (y + 1)" and "year_of_day d \<noteq> y"
  then consider "year_of_day d + 1 \<le> y" | "y + 1 \<le> year_of_day d" by linarith
  then show False
  proof cases
    case 1
    then show False using year_of_day_bounds(2)[of d] d(1) days_before_year_mono[OF 1] mult_nonneg_nonneg[of 365 "y - (year_of_day d + 1)"] by simp
  next
    case 2
    then show False using year_of_day_bounds(1)[of d] d(2) days_before_year_mono[OF 2] mult_nonneg_nonneg[of 365 "year_of_day d - (y + 1)"] by simp
  qed
qed

lemma sum_part_nonneg:
  fixes ls :: "int list"
  assumes "\<forall>l \<in> set ls. 0 < l"
  shows "0 \<le> sum_list (take i ls)" "0 \<le> sum_list (drop i ls)"
  using assms by (auto intro!: sum_list_nonneg dest!: in_set_takeD in_set_dropD simp: less_imp_le)

lemma month_day_of:
  assumes "i < length ls" "1 \<le> d" "d \<le> ls ! i" "\<forall>l \<in> set ls. 0 < l"
  shows "month_day m ls (sum_list (take i ls) + (d - 1)) = (m + int i, d)"
  using assms
proof (induction i arbitrary: m ls)
  case 0
  then show ?case by (cases ls) auto
next
  case (Suc i)
  then obtain l rest where ls: "ls = l # rest" by (cases ls) auto
  have pos: "0 \<le> sum_list (take i rest)" using Suc.prems(4) ls by (intro sum_part_nonneg) auto
  have "month_day (m + 1) rest (sum_list (take i rest) + (d - 1)) = (m + 1 + int i, d)"
    by (rule Suc.IH) (use Suc.prems ls in auto)
  moreover have "rest \<noteq> []" using Suc.prems(1) ls by auto
  moreover have "sum_list (take (Suc i) ls) + (d - 1) - l = sum_list (take i rest) + (d - 1)" using ls by simp
  moreover have "\<not> sum_list (take (Suc i) ls) + (d - 1) < l" using ls pos Suc.prems(2) by simp
  ultimately show ?case using ls by (simp add: add.assoc)
qed

lemma sum_take_le: "i < length ls \<Longrightarrow> \<forall>l \<in> set ls. 0 < l \<Longrightarrow> sum_list (take i ls) + ls ! i \<le> (sum_list ls :: int)"
proof -
  assume i: "i < length ls" and p: "\<forall>l \<in> set ls. 0 < l"
  have "sum_list ls = sum_list (take i ls) + ls ! i + sum_list (drop (Suc i) ls)"
    by (metis append_take_drop_id Cons_nth_drop_Suc i sum_list.append sum_list.Cons add.assoc)
  moreover have "0 \<le> sum_list (drop (Suc i) ls)" using p by (rule sum_part_nonneg)
  ultimately show ?thesis by simp
qed

lemma civil_day_of:
  assumes "1 \<le> m" "m \<le> 12" "1 \<le> d" "d \<le> days_in_month y m"
  shows "civil (day_of y m d) = (y, m, d)"
proof -
  let ?ls = "month_lengths (is_leap y)" and ?i = "nat (m - 1)"
  have i: "?i < length ?ls" using assms(1,2) by (simp add: month_lengths_facts)
  have pos: "\<forall>l \<in> set ?ls. 0 < l" using month_lengths_facts(3) by blast
  have d: "d \<le> ?ls ! ?i" using assms(4) by (simp add: days_in_month_def)
  have s0: "0 \<le> sum_list (take ?i ?ls)" using pos by (rule sum_part_nonneg)
  have "sum_list (take ?i ?ls) + d - 1 < days_before_year (y + 1) - days_before_year y"
    using sum_take_le[OF i pos] d days_before_year_step[of y] by (simp add: month_lengths_facts split: if_splits)
  then have y: "year_of_day (day_of y m d) = y"
    using s0 assms(3) by (intro year_of_day_unique) (simp_all add: day_of_def)
  have "day_of y m d - days_before_year y = sum_list (take ?i ?ls) + (d - 1)" by (simp add: day_of_def)
  then show ?thesis using month_day_of[OF i assms(3) d pos, of 1] assms(1) by (simp add: civil_def Let_def y)
qed

lemma digits_value_bounds: "list_all is_digit s \<Longrightarrow> 0 \<le> digits_value 0 s \<and> digits_value 0 s < 10 ^ length s"
proof (induction s rule: rev_induct)
  case (snoc c s)
  then have "0 \<le> digit_val c" "digit_val c \<le> 9" by (auto simp: is_digit_def digit_val_def)
  then show ?case using snoc by (simp add: digits_value_append)
qed simp

lemma digit_char_val: "is_digit c \<Longrightarrow> digit_char (nat (digit_val c)) = c"
proof -
  assume d: "is_digit c"
  then have "nat (digit_val c) = byte c - 48" by (auto simp: is_digit_def digit_val_def)
  moreover have "byte c - 48 < 10" using d by (auto simp: is_digit_def)
  ultimately have "byte (digit_char (nat (digit_val c))) = byte c" using d by (simp add: digit_char_byte is_digit_def)
  then show ?thesis by (simp add: byte_def)
qed

lemma fixed_digits_value: "list_all is_digit s \<Longrightarrow> fixed (length s) (nat (digits_value 0 s)) = s"
proof (induction s rule: rev_induct)
  case (snoc c s)
  have c: "0 \<le> digit_val c" "digit_val c \<le> 9" using snoc.prems by (auto simp: is_digit_def digit_val_def)
  have v: "0 \<le> digits_value 0 s" using digits_value_bounds snoc.prems by simp
  have n: "nat (digits_value 0 s * 10 + digit_val c) = nat (digits_value 0 s) * 10 + nat (digit_val c)"
    using c v by (simp add: nat_add_distrib nat_mult_distrib)
  have "(nat (digits_value 0 s) * 10 + nat (digit_val c)) div 10 = nat (digits_value 0 s)"
    "(nat (digits_value 0 s) * 10 + nat (digit_val c)) mod 10 = nat (digit_val c)"
    using c by simp_all
  then show ?case using snoc c digit_char_val[of c] by (simp add: digits_value_append n)
qed simp

lemma get_fraction_range:
  "0 \<le> fst (get_fraction s)" "fst (get_fraction s) < nanos_per_second"
proof -
  have "0 \<le> digits_value 0 (take 9 ds) * 10 ^ (9 - length (take 9 ds)) \<and>
      digits_value 0 (take 9 ds) * 10 ^ (9 - length (take 9 ds)) < nanos_per_second" if "list_all is_digit ds" for ds
  proof -
    let ?u = "take 9 ds"
    have u: "0 \<le> digits_value 0 ?u" "digits_value 0 ?u < 10 ^ length ?u"
      using digits_value_bounds[of ?u] that by (auto simp: list_all_iff dest: in_set_takeD)
    have "digits_value 0 ?u * 10 ^ (9 - length ?u) < 10 ^ length ?u * 10 ^ (9 - length ?u)" using u(2) by simp
    also have "\<dots> = 10 ^ 9" by (simp flip: power_add)
    finally show ?thesis using u(1) by (simp add: nanos_per_second_def)
  qed
  note r = this[of "takeWhile is_digit ds" for ds]
  have "0 \<le> fst (get_fraction s) \<and> fst (get_fraction s) < nanos_per_second"
  proof (cases "\<exists>p d rest. s = p # d # rest \<and> (p = CHR ''.'' \<or> p = CHR '','') \<and> is_digit d")
    case True
    then obtain p d rest where s: "s = p # d # rest" "p = CHR ''.'' \<or> p = CHR '',''" "is_digit d" by blast
    have "list_all is_digit (takeWhile is_digit (d # rest))" by (auto simp: list_all_iff dest: set_takeWhileD)
    from r[OF this] show ?thesis using s by (simp add: get_fraction_def Let_def del: takeWhile.simps)
  next
    case False
    then have "get_fraction s = (0, s)" by (auto simp: get_fraction_def split: list.split)
    then show ?thesis by (simp add: nanos_per_second_def)
  qed
  then show "0 \<le> fst (get_fraction s)" "fst (get_fraction s) < nanos_per_second" by simp_all
qed

lemma get_fraction_suffix: "\<exists>pre. s = pre @ snd (get_fraction s)"
proof (cases "\<exists>p d rest. s = p # d # rest \<and> (p = CHR ''.'' \<or> p = CHR '','') \<and> is_digit d")
  case True
  then obtain p d rest where s: "s = p # d # rest" "p = CHR ''.'' \<or> p = CHR '',''" "is_digit d" by blast
  then have "snd (get_fraction s) = dropWhile is_digit (d # rest)" by (simp add: get_fraction_def Let_def)
  then have "s = (p # takeWhile is_digit (d # rest)) @ snd (get_fraction s)" using s(1) by simp
  then show ?thesis by blast
next
  case False
  then have "get_fraction s = (0, s)" by (auto simp: get_fraction_def split: list.split)
  then show ?thesis by simp
qed

lemma get_offset_ends_Z:
  assumes "get_offset s = Some (off, [])" "last s = CHR ''Z''"
  shows "off = 0"
proof (cases s)
  case (Cons c cs)
  show ?thesis
  proof (cases "c = CHR ''Z''")
    case True
    then show ?thesis using assms Cons by (simp add: get_offset_def)
  next
    case False
    then obtain mm x where m: "6 \<le> length s" "getnum True (take 2 (drop 4 s)) = Some (mm, x)" "drop 6 s = []"
      using assms(1) Cons by (auto simp: get_offset_def check_def split: if_splits Option.bind_splits)
    then have "length s = 6" by simp
    then obtain c0 c1 c2 c3 c4 c5 where "s = [c0, c1, c2, c3, c4, c5]" by (auto simp: numeral_eq_Suc length_Suc_conv)
    then have l: "last s = s ! 5" "take 2 (drop 4 s) = [s ! 4, s ! 5]" by simp_all
    have "is_digit (s ! 5)" using m(2) unfolding l by (auto simp: getnum_def split: if_splits)
    then show ?thesis using assms(2) l(1) by (simp add: is_digit_def byte_def)
  qed
qed (use assms in \<open>simp add: get_offset_def\<close>)

end
