(* ===== verification/Grouping.thy ===== *)
theory Grouping
  imports Prelude "HOL-Library.Multiset"
begin

text \<open>
  Grouping: a Go loop that keeps one accumulator per key in a map, and what it computes for each
  key; and sorting with a comparison on several fields, as \<open>sort.Slice\<close> is used.
\<close>

definition group_step :: "('a \<Rightarrow> 'k) \<Rightarrow> ('a \<Rightarrow> 'v option \<Rightarrow> 'v) \<Rightarrow> 'a \<Rightarrow> ('k \<times> 'v) list \<Rightarrow> ('k \<times> 'v) list" where
  "group_step key upd x m = upsert (key x) (upd x (map_of m (key x))) m"

definition group_by :: "('a \<Rightarrow> 'k) \<Rightarrow> ('a \<Rightarrow> 'v option \<Rightarrow> 'v) \<Rightarrow> 'a list \<Rightarrow> ('k \<times> 'v) list" where
  "group_by key upd xs = fold (group_step key upd) xs []"

definition one_group :: "('a \<Rightarrow> 'v option \<Rightarrow> 'v) \<Rightarrow> 'a list \<Rightarrow> 'v option" where
  "one_group upd xs = fold (\<lambda>x v. Some (upd x v)) xs None"

lemma one_group_simps [simp]:
  "one_group upd [] = None" "one_group upd [x] = Some (upd x None)" "one_group upd (xs @ [x]) = Some (upd x (one_group upd xs))"
  by (simp_all add: one_group_def)

lemma one_group_None: "one_group upd xs = None \<longleftrightarrow> xs = []"
  by (induction xs rule: rev_induct) simp_all

lemma group_by_snoc: "group_by key upd (xs @ [x]) = group_step key upd x (group_by key upd xs)"
  by (simp add: group_by_def)

lemma group_by_Nil [simp]: "group_by key upd [] = []"
  by (simp add: group_by_def)

text \<open>Each key has the fold of its own elements.\<close>

lemma map_of_group_by: "map_of (group_by key upd xs) k = one_group upd (filter (\<lambda>x. key x = k) xs)"
  by (induction xs rule: rev_induct) (auto simp: group_by_snoc group_step_def)

lemma keys_group_by: "fst ` set (group_by key upd xs) = key ` set xs"
  by (induction xs rule: rev_induct) (auto simp: group_by_snoc group_step_def)

lemma distinct_group_by [simp]: "distinct (keys_of (group_by key upd xs))"
  by (induction xs rule: rev_induct) (auto simp: group_by_snoc group_step_def)

lemma map_of_group_by_mem:
  "k \<in> key ` set xs \<Longrightarrow> \<exists>v. one_group upd (filter (\<lambda>x. key x = k) xs) = Some v \<and> (k, v) \<in> set (group_by key upd xs)"
proof -
  assume "k \<in> key ` set xs"
  then have "filter (\<lambda>x. key x = k) xs \<noteq> []" by (auto simp: filter_empty_conv)
  then obtain v where v: "one_group upd (filter (\<lambda>x. key x = k) xs) = Some v" using one_group_None[of upd "filter (\<lambda>x. key x = k) xs"] by auto
  then have "map_of (group_by key upd xs) k = Some v" by (simp add: map_of_group_by)
  then show ?thesis using v map_of_SomeD by metis
qed

text \<open>A list sorted by a key that its elements do not share is determined by its elements.\<close>

lemma sorted_keys_unique:
  assumes "sorted (map f xs)" "sorted (map f ys)" "distinct (map f xs)" "distinct (map f ys)" "set xs = set ys"
  shows "xs = (ys :: 'a list)"
proof -
  have m: "map f xs = map f ys"
    by (rule sorted_distinct_set_unique) (use assms in auto)
  have "inj_on f (set xs \<union> set ys)" using assms(3,5) by (simp add: distinct_map)
  then show ?thesis using m by (metis map_inj_on)
qed

lemma distinct_map_sort [simp]: "distinct (map f (sort_key g xs)) = distinct (map f xs)"
  by (rule mset_eq_imp_distinct_iff) simp

lemma sort_groups:
  "map fst (sort_key fst (group_by key upd xs)) = sorted_list_of_set (key ` set (xs :: 'a list))"
  for key :: "'a \<Rightarrow> 'k :: linorder"
  by (rule sorted_distinct_set_unique) (simp_all add: keys_group_by)

lemma sort_groups_eq:
  "sort_key fst (group_by key upd xs)
    = map (\<lambda>k. (k, the (one_group upd (filter (\<lambda>x. key x = k) xs)))) (sorted_list_of_set (key ` set xs))"
  (is "?l = map ?p ?ks") for key :: "'a \<Rightarrow> 'k :: linorder"
proof -
  have "p = ?p (fst p)" if "p \<in> set ?l" for p
  proof -
    have "map_of (group_by key upd xs) (fst p) = Some (snd p)" using that by simp
    then show ?thesis by (metis map_of_group_by option.sel prod.collapse)
  qed
  then have "map (?p \<circ> fst) ?l = ?l" by (intro map_idI) simp
  then have "?l = map ?p (map fst ?l)" by simp
  then show ?thesis by (simp add: sort_groups)
qed

text \<open>Decreasing in the first number, increasing in the second, as two stable sorts.\<close>

definition sort_desc :: "('a \<Rightarrow> int) \<Rightarrow> ('a \<Rightarrow> 'k :: linorder) \<Rightarrow> 'a list \<Rightarrow> 'a list" where
  "sort_desc amount name xs = sort_key (\<lambda>x. - amount x) (sort_key name xs)"

lemma set_sort_desc [simp]: "set (sort_desc amount name xs) = set xs"
  by (simp add: sort_desc_def)

lemma mset_sort_desc [simp]: "mset (sort_desc amount name xs) = mset xs"
  by (simp add: sort_desc_def)

lemma sum_list_sort_desc: "sum_list (map g (sort_desc amount name xs)) = (sum_list (map g xs) :: int)"
  by (metis mset_map mset_sort_desc sum_mset_sum_list)

lemma insort_key_map: "insort_key f (g x) (map g xs) = map g (insort_key (f \<circ> g) x xs)"
  by (induction xs) simp_all

lemma sort_key_map: "sort_key f (map g xs) = map g (sort_key (f \<circ> g) xs)"
  by (induction xs) (simp_all add: insort_key_map comp_def)

lemma insort_key_cong: "f x = g x \<Longrightarrow> (\<And>y. y \<in> set xs \<Longrightarrow> f y = g y) \<Longrightarrow> insort_key f x xs = insort_key g x xs"
  by (induction xs) simp_all

lemma sort_key_agree: "(\<And>x. x \<in> set xs \<Longrightarrow> f x = g x) \<Longrightarrow> sort_key f xs = sort_key g xs"
proof (induction xs)
  case (Cons x xs)
  then have "sort_key f xs = sort_key g xs" by simp
  then show ?case using insort_key_cong[of f x g "sort_key g xs"] Cons.prems by (simp del: sort_key_simps add: sort_key_simps(2))
qed simp

text \<open>The values of a map whose values carry their key, in the order of the keys.\<close>

lemma sort_group_values:
  assumes "\<And>x ys. ys \<noteq> [] \<Longrightarrow> (\<And>y. y \<in> set ys \<Longrightarrow> key y = key x) \<Longrightarrow> name (the (one_group upd ys)) = key x"
  shows "sort_key name (map snd (group_by key upd xs))
    = map (\<lambda>k. the (one_group upd (filter (\<lambda>x. key x = k) xs))) (sorted_list_of_set (key ` set xs))"
proof -
  have "name (snd p) = fst p" if "p \<in> set (group_by key upd xs)" for p
  proof -
    have "map_of (group_by key upd xs) (fst p) = Some (snd p)" using that by simp
    then have v: "one_group upd (filter (\<lambda>x. key x = fst p) xs) = Some (snd p)" by (simp add: map_of_group_by)
    then have ne: "filter (\<lambda>x. key x = fst p) xs \<noteq> []" by (metis one_group_None option.distinct(1))
    then have "hd (filter (\<lambda>x. key x = fst p) xs) \<in> set (filter (\<lambda>x. key x = fst p) xs)" by (rule hd_in_set)
    then have x: "key (hd (filter (\<lambda>x. key x = fst p) xs)) = fst p" by simp
    show ?thesis using assms[OF ne, of "hd (filter (\<lambda>x. key x = fst p) xs)"] v unfolding x by simp
  qed
  then have "sort_key (name \<circ> snd) (group_by key upd xs) = sort_key fst (group_by key upd xs)"
    by (intro sort_key_agree) simp
  then show ?thesis by (simp add: sort_key_map sort_groups_eq)
qed

end
