(* ===== verification/Store_Activity.thy ===== *)
theory Store_Activity
  imports Store_Ingest Go_Calendar Grouping
begin

text \<open>
  The calendar side of \<open>internal/database/database.go\<close>: local days, \<open>DailyUsage\<close> and the activity
  heatmap. The reporting zone is \<open>None\<close> for the pointer \<open>time.UTC\<close> and \<open>Some loc\<close> for any other
  location. Texts of dates are for years of four digits.
\<close>

datatype query_error = StoreFailed store_error | BadTimestamp gostr

type_synonym zone = "location option"

definition reportingLocation :: "zone \<Rightarrow> location" where
  "reportingLocation z = (case z of None \<Rightarrow> UTC | Some loc \<Rightarrow> loc)"

definition dateOnly :: "zone \<Rightarrow> instant \<Rightarrow> instant" where
  "dateOnly z t = (let loc = reportingLocation z in date_at loc (local_day loc t) 0 0)"

text \<open>\<open>t.In(loc).Format("2006-01-02")\<close>\<close>

definition day_text :: "location \<Rightarrow> instant \<Rightarrow> gostr" where
  "day_text loc t = date_text (civil (local_day loc t))"

subsection \<open>Day buckets\<close>

definition isASCIIDigits :: "gostr \<Rightarrow> bool" where "isASCIIDigits s \<longleftrightarrow> list_all is_digit s"

definition isCalendarDate :: "gostr \<Rightarrow> gostr \<Rightarrow> gostr \<Rightarrow> bool" where
  "isCalendarDate year month day =
    (if month \<le> ''00'' \<or> ''12'' < month \<or> day \<le> ''00'' \<or> ''31'' < day then False
     else (let y = digits_value 0 (take 4 year); m = digits_value 0 (take 2 month); d = digits_value 0 (take 2 day)
           in if m = 2 \<and> y mod 4 = 0 \<and> (y mod 100 \<noteq> 0 \<or> y mod 400 = 0) then d \<le> 29
              else d \<le> [31, 28, 31, 30, 31, 30, 31, 31, 30, 31, 30, 31] ! nat (m - 1)))"

text \<open>\<open>s[a:b]\<close>\<close>

definition slice :: "nat \<Rightarrow> nat \<Rightarrow> gostr \<Rightarrow> gostr" where "slice a b s = take (b - a) (drop a s)"

definition canonical_utc :: "gostr \<Rightarrow> bool" where
  "canonical_utc ts \<longleftrightarrow> 20 \<le> length ts \<and> ts ! 10 = CHR ''T'' \<and> ts ! 13 = CHR '':'' \<and> ts ! 16 = CHR '':'' \<and> last ts = CHR ''Z''
    \<and> isASCIIDigits (slice 0 4 ts) \<and> ts ! 4 = CHR ''-'' \<and> isASCIIDigits (slice 5 7 ts) \<and> ts ! 7 = CHR ''-''
    \<and> isASCIIDigits (slice 8 10 ts) \<and> isASCIIDigits (slice 11 13 ts) \<and> isASCIIDigits (slice 14 16 ts)
    \<and> isASCIIDigits (slice 17 19 ts) \<and> slice 11 13 ts \<le> ''23'' \<and> slice 14 16 ts \<le> ''59'' \<and> slice 17 19 ts \<le> ''59''
    \<and> isCalendarDate (slice 0 4 ts) (slice 5 7 ts) (slice 8 10 ts)"

definition localDayBucket :: "zone \<Rightarrow> gostr \<Rightarrow> query_error + gostr" where
  "localDayBucket z ts =
    (if z = None \<and> canonical_utc ts then Inr (take 10 ts)
     else case parse_rfc3339 ts of None \<Rightarrow> Inl (BadTimestamp ts)
      | Some t \<Rightarrow> Inr (day_text (reportingLocation z) t))"

subsection \<open>Daily usage\<close>

record token_breakdown =
  tb_Name :: gostr
  tb_Tokens :: i64
  tb_UnknownTokens :: i64

record daily_usage =
  du_Date :: gostr
  du_Tokens :: i64
  du_Events :: i64
  du_UnknownTokens :: i64
  du_ByModel :: "token_breakdown list"
  du_ByProvider :: "token_breakdown list"

record daily_accumulator =
  da_Tokens :: i64
  da_Events :: i64
  da_UnknownTokens :: i64
  da_byModel :: "(gostr \<times> token_breakdown) list"
  da_byProvider :: "(gostr \<times> token_breakdown) list"

text \<open>\<open>COALESCE(NULLIF(canonical_model, ''), raw_model)\<close>\<close>

definition shown_model :: "row \<Rightarrow> gostr" where
  "shown_model r = (if rw_canonical_model r = [] then rw_raw_model r else rw_canonical_model r)"

definition row_tokens :: "row \<Rightarrow> i64" where
  "row_tokens r = (case rw_total r of None \<Rightarrow> 0 | Some v \<Rightarrow> v)"

definition row_unknown :: "row \<Rightarrow> i64" where
  "row_unknown r = (if rw_total r = None then 1 else 0)"

definition add_breakdown :: "(row \<Rightarrow> gostr) \<Rightarrow> row \<Rightarrow> token_breakdown option \<Rightarrow> token_breakdown" where
  "add_breakdown name r b =
    (let old = (case b of None \<Rightarrow> \<lparr>tb_Name = [], tb_Tokens = 0, tb_UnknownTokens = 0\<rparr> | Some b \<Rightarrow> b)
     in old\<lparr>tb_Name := name r, tb_Tokens := i64_add (tb_Tokens old) (row_tokens r),
            tb_UnknownTokens := i64_add (tb_UnknownTokens old) (row_unknown r)\<rparr>)"

definition new_day :: daily_accumulator where
  "new_day = \<lparr>da_Tokens = 0, da_Events = 0, da_UnknownTokens = 0, da_byModel = [], da_byProvider = []\<rparr>"

definition add_to_day :: "row \<Rightarrow> daily_accumulator option \<Rightarrow> daily_accumulator" where
  "add_to_day r a =
    (let item = (case a of None \<Rightarrow> new_day | Some a \<Rightarrow> a)
     in item\<lparr>da_Tokens := i64_add (da_Tokens item) (row_tokens r), da_Events := i64_add (da_Events item) 1,
             da_UnknownTokens := i64_add (da_UnknownTokens item) (row_unknown r),
             da_byModel := group_step shown_model (add_breakdown shown_model) r (da_byModel item),
             da_byProvider := group_step rw_provider (add_breakdown rw_provider) r (da_byProvider item)\<rparr>)"

definition breakdowns :: "(gostr \<times> token_breakdown) list \<Rightarrow> token_breakdown list" where
  "breakdowns m = sort_desc tb_Tokens tb_Name (map snd m)"

definition finish_day :: "gostr \<times> daily_accumulator \<Rightarrow> daily_usage" where
  "finish_day p = (case p of (date, a) \<Rightarrow>
    \<lparr>du_Date = date, du_Tokens = da_Tokens a, du_Events = da_Events a, du_UnknownTokens = da_UnknownTokens a,
     du_ByModel = breakdowns (da_byModel a), du_ByProvider = breakdowns (da_byProvider a)\<rparr>)"

text \<open>\<open>WHERE timestamp >= ? AND timestamp < ?\<close>, compared as texts.\<close>

definition in_window :: "instant \<Rightarrow> instant \<Rightarrow> row \<Rightarrow> bool" where
  "in_window start until r \<longleftrightarrow> rfc3339 start \<le> rw_timestamp r \<and> rw_timestamp r < rfc3339 until"

definition day_step :: "zone \<Rightarrow> (gostr \<times> daily_accumulator) list \<Rightarrow> row \<Rightarrow> query_error + (gostr \<times> daily_accumulator) list" where
  "day_step z m r =
    (case localDayBucket z (rw_timestamp r) of Inl e \<Rightarrow> Inl e
     | Inr date \<Rightarrow> Inr (group_step (\<lambda>_. date) add_to_day r m))"

definition DailyUsage :: "zone \<Rightarrow> row list \<Rightarrow> instant \<Rightarrow> instant \<Rightarrow> query_error + daily_usage list" where
  "DailyUsage z t start until =
    (let start = dateOnly z start; until = dateOnly z until
     in if \<not> start < until then Inr []
        else case fold_err (day_step z) [] (sort_key rw_timestamp (filter (in_window start until) t)) of
          Inl e \<Rightarrow> Inl e
        | Inr m \<Rightarrow> Inr (sort_key du_Date (map finish_day m)))"

subsection \<open>The activity heatmap\<close>

record activity_day =
  ad_Date :: gostr
  ad_Label :: gostr
  ad_Tokens :: i64
  ad_Events :: i64
  ad_UnknownTokens :: i64
  ad_Level :: nat
  ad_Future :: bool
  ad_ByModel :: "token_breakdown list"
  ad_ByProvider :: "token_breakdown list"

record activity_week =
  aw_MonthLabel :: gostr
  aw_Days :: "activity_day list"

record activity_heatmap =
  ah_StartDate :: gostr
  ah_EndDate :: gostr
  ah_TotalTokens :: i64
  ah_ActiveDays :: i64
  ah_MaxDailyTokens :: i64
  ah_Weeks :: "activity_week list"

definition activityWeeks :: nat where "activityWeeks = 53"

definition activityLevel :: "i64 \<Rightarrow> i64 \<Rightarrow> nat" where
  "activityLevel tokens maxTokens =
    (if tokens \<le> 0 \<or> maxTokens \<le> 0 then 0
     else (let ratio = f64_div (f64_of_int tokens) (f64_of_int maxTokens)
           in if f64_le ratio (Fin (1 / 4)) then 1
              else if f64_le ratio (Fin (1 / 2)) then 2
              else if f64_le ratio (Fin (3 / 4)) then 3 else 4))"

definition month_names :: "gostr list" where
  "month_names = [''January'', ''February'', ''March'', ''April'', ''May'', ''June'', ''July'', ''August'', ''September'',
    ''October'', ''November'', ''December'']"

definition weekday_names :: "gostr list" where
  "weekday_names = [''Sunday'', ''Monday'', ''Tuesday'', ''Wednesday'', ''Thursday'', ''Friday'', ''Saturday'']"

text \<open>\<open>Format("Jan")\<close> and \<open>Format("Monday, January 2, 2006")\<close>\<close>

definition month_short :: "int \<Rightarrow> gostr" where
  "month_short d = (case civil d of (y, m, k) \<Rightarrow> take 3 (month_names ! nat (m - 1)))"

definition long_date :: "int \<Rightarrow> gostr" where
  "long_date d = (case civil d of (y, m, k) \<Rightarrow>
    weekday_names ! nat (weekday d) @ '', '' @ month_names ! nat (m - 1) @ '' '' @ nat_str (nat k) @ '', '' @ fixed 4 (nat y))"

definition day_of_month :: "int \<Rightarrow> int" where
  "day_of_month d = (case civil d of (y, m, k) \<Rightarrow> k)"

definition activityMonthLabel :: "location \<Rightarrow> instant \<Rightarrow> nat \<Rightarrow> gostr" where
  "activityMonthLabel loc weekStart weekIndex =
    (case find (\<lambda>i. day_of_month (local_day loc (add_days loc (int i) weekStart)) = 1) [0..<7] of
       Some i \<Rightarrow> month_short (local_day loc (add_days loc (int i) weekStart))
     | None \<Rightarrow> if weekIndex = 0 then month_short (local_day loc weekStart) else [])"

definition no_usage :: daily_usage where
  "no_usage = \<lparr>du_Date = [], du_Tokens = 0, du_Events = 0, du_UnknownTokens = 0, du_ByModel = [], du_ByProvider = []\<rparr>"

definition usage_of :: "daily_usage list \<Rightarrow> gostr \<Rightarrow> daily_usage" where
  "usage_of daily date = (case map_of (rev (map (\<lambda>d. (du_Date d, d)) daily)) date of None \<Rightarrow> no_usage | Some d \<Rightarrow> d)"

definition activity_cell :: "location \<Rightarrow> daily_usage list \<Rightarrow> i64 \<Rightarrow> instant \<Rightarrow> instant \<Rightarrow> activity_day" where
  "activity_cell loc daily maxDaily today date =
    (let dateString = day_text loc date; item = usage_of daily dateString
     in \<lparr>ad_Date = dateString, ad_Label = long_date (local_day loc date), ad_Tokens = du_Tokens item,
         ad_Events = du_Events item, ad_UnknownTokens = du_UnknownTokens item, ad_Level = activityLevel (du_Tokens item) maxDaily,
         ad_Future = (today < date), ad_ByModel = du_ByModel item, ad_ByProvider = du_ByProvider item\<rparr>)"

definition Activity :: "zone \<Rightarrow> row list \<Rightarrow> instant \<Rightarrow> query_error + activity_heatmap" where
  "Activity z t now =
    (let loc = reportingLocation z;
         today = dateOnly z now;
         currentWeekStart = add_days loc (- weekday (local_day loc today)) today;
         start = add_days loc (- 7 * (int activityWeeks - 1)) currentWeekStart;
         until = add_days loc (7 * int activityWeeks) currentWeekStart
     in case DailyUsage z t start until of Inl e \<Rightarrow> Inl e
      | Inr daily \<Rightarrow>
         (let totalTokens = fold (\<lambda>d n. i64_add n (du_Tokens d)) daily 0;
              activeDays = int (length (filter (\<lambda>d. 0 < du_Events d) daily));
              maxDaily = fold (\<lambda>d n. if n < du_Tokens d then du_Tokens d else n) daily 0
          in Inr \<lparr>ah_StartDate = day_text loc start, ah_EndDate = day_text loc today, ah_TotalTokens = totalTokens,
                  ah_ActiveDays = activeDays, ah_MaxDailyTokens = maxDaily,
                  ah_Weeks = map (\<lambda>w. let weekStart = add_days loc (int w * 7) start
                     in \<lparr>aw_MonthLabel = activityMonthLabel loc weekStart w,
                         aw_Days = map (\<lambda>i. activity_cell loc daily maxDaily today (add_days loc (int i) weekStart)) [0..<7]\<rparr>)
                    [0..<activityWeeks]\<rparr>))"

subsection \<open>The fast path of the day bucket\<close>

lemma take_explicit: "n \<le> length xs \<Longrightarrow> take n xs = map ((!) xs) [0..<n]"
  by (rule nth_equalityI) simp_all

lemma getnum_digits: "is_digit a \<Longrightarrow> is_digit b \<Longrightarrow> getnum w (a # b # s) = Some (10 * digit_val a + digit_val b, s)"
  by (simp add: getnum_def)

lemma two_digits: "digits_value 0 [a, b] = 10 * digit_val a + digit_val b"
  by (simp add: digit_val_def)

lemma bind_Some: "Option.bind x f = Some y \<longleftrightarrow> (\<exists>z. x = Some z \<and> f z = Some y)"
  by (cases x) auto

lemma check_Some: "check b = Some u \<longleftrightarrow> b"
  by (simp add: check_def)

lemma expect_same: "expect c (d # ds) = Some s \<longleftrightarrow> d = c \<and> s = ds"
  by (auto simp: expect_def)

lemma day_text_parts:
  assumes "1 \<le> m" "m \<le> 12" "1 \<le> d" "d \<le> days_in_month y m" "0 \<le> clock" "clock < 86400" "0 \<le> nanos" "nanos < nanos_per_second"
  shows "day_text UTC (((day_of y m d - epoch_day) * 86400 + clock) * nanos_per_second + nanos) = date_text (y, m, d)"
proof -
  define k where "k = day_of y m d - epoch_day"
  have u: "unix_seconds ((k * 86400 + clock) * nanos_per_second + nanos) = k * 86400 + clock"
    using assms(7,8) by (simp add: unix_seconds_def nanos_per_second_def)
  have "(k * 86400 + clock) div 86400 = k" using assms(5,6) by simp
  then have "instant_day ((k * 86400 + clock) * nanos_per_second + nanos) = day_of y m d"
    unfolding instant_day_def u by (simp add: k_def)
  then show ?thesis using civil_day_of[OF assms(1-4)] unfolding k_def[symmetric] by (simp add: day_text_def)
qed

lemma canonical_explicit:
  assumes "canonical_utc ts"
  obtains y1 y2 y3 y4 m1 m2 d1 d2 h1 h2 i1 i2 s1 s2 rest where
    "ts = y1 # y2 # y3 # y4 # CHR ''-'' # m1 # m2 # CHR ''-'' # d1 # d2 # CHR ''T'' # h1 # h2 # CHR '':'' # i1 # i2 # CHR '':'' # s1 # s2 # rest"
    "list_all is_digit [y1, y2, y3, y4, m1, m2, d1, d2, h1, h2, i1, i2, s1, s2]" "rest \<noteq> []" "last rest = CHR ''Z''"
proof -
  have l: "20 \<le> length ts" using assms by (simp add: canonical_utc_def)
  have "ts = take 19 ts @ drop 19 ts" by simp
  also have "take 19 ts = map ((!) ts) [0..<19]" using l by (intro take_explicit) simp
  also have "[0..<19] = [0, 1, 2, 3, 4, 5, 6, 7, 8, 9, 10, 11, 12, 13, 14, 15, 16, 17, 18]" by (simp add: upt_rec)
  finally obtain a0 a1 a2 a3 a4 a5 a6 a7 a8 a9 b0 b1 b2 b3 b4 b5 b6 b7 b8 where
    e: "ts = [a0, a1, a2, a3, a4, a5, a6, a7, a8, a9, b0, b1, b2, b3, b4, b5, b6, b7, b8] @ drop 19 ts" by simp
  obtain rest where ts: "ts = [a0, a1, a2, a3, a4, a5, a6, a7, a8, a9, b0, b1, b2, b3, b4, b5, b6, b7, b8] @ rest" using e by blast
  have "rest \<noteq> []" using l ts by auto
  moreover have "last rest = CHR ''Z''" using assms calculation by (simp add: canonical_utc_def ts)
  moreover have "a4 = CHR ''-''" "a7 = CHR ''-''" "b0 = CHR ''T''" "b3 = CHR '':''" "b6 = CHR '':''"
    "list_all is_digit [a0, a1, a2, a3, a5, a6, a8, a9, b1, b2, b4, b5, b7, b8]"
    using assms by (simp_all add: canonical_utc_def ts isASCIIDigits_def slice_def)
  ultimately show thesis using that[of a0 a1 a2 a3 a5 a6 a8 a9 b1 b2 b4 b5 b7 b8 rest] ts by simp
qed

lemma canonical_day:
  assumes "canonical_utc ts" "parse_rfc3339 ts = Some t"
  shows "day_text UTC t = take 10 ts"
proof -
  obtain y1 y2 y3 y4 m1 m2 d1 d2 h1 h2 i1 i2 s1 s2 rest where
    ts: "ts = y1 # y2 # y3 # y4 # CHR ''-'' # m1 # m2 # CHR ''-'' # d1 # d2 # CHR ''T'' # h1 # h2 # CHR '':'' # i1 # i2 # CHR '':'' # s1 # s2 # rest"
    and dg: "list_all is_digit [y1, y2, y3, y4, m1, m2, d1, d2, h1, h2, i1, i2, s1, s2]"
    and rest: "rest \<noteq> []" "last rest = CHR ''Z''"
    using canonical_explicit[OF assms(1)] by metis
  have yr: "get_year ts = Some (digits_value 0 [y1, y2, y3, y4], drop 4 ts)" using dg by (simp add: get_year_def ts)
  define m d hh mi ss where "m = digits_value 0 [m1, m2]" and "d = digits_value 0 [d1, d2]" and "hh = digits_value 0 [h1, h2]"
    and "mi = digits_value 0 [i1, i2]" and "ss = digits_value 0 [s1, s2]"
  define y where "y = digits_value 0 [y1, y2, y3, y4]"
  obtain off where r: "1 \<le> m" "m \<le> 12" "hh < 24" "mi < 60" "ss < 60" "get_offset (snd (get_fraction rest)) = Some (off, [])"
    "1 \<le> d" "d \<le> days_in_month y m"
    "t = ((day_of y m d - epoch_day) * 86400 + hh * 3600 + mi * 60 + ss - off) * nanos_per_second + fst (get_fraction rest)"
    using assms(2) dg unfolding parse_rfc3339_def bind_Some yr
    by (auto simp: ts bind_Some check_Some expect_same getnum_digits two_digits m_def d_def hh_def mi_def ss_def y_def
        simp del: digits_value.simps split: prod.splits)
  obtain pre where pre: "rest = pre @ snd (get_fraction rest)" using get_fraction_suffix by blast
  have "snd (get_fraction rest) \<noteq> []" using r(6) by (auto simp: get_offset_def)
  then have "off = 0" using get_offset_ends_Z[OF r(6)] pre rest(2) by (metis last_appendR)
  moreover have "0 \<le> hh" "0 \<le> mi" "0 \<le> ss"
    using dg digits_value_bounds[of "[h1, h2]"] digits_value_bounds[of "[i1, i2]"] digits_value_bounds[of "[s1, s2]"]
    unfolding hh_def mi_def ss_def by (simp_all del: digits_value.simps)
  ultimately have "day_text UTC t = date_text (y, m, d)"
    using day_text_parts[OF r(1,2,7,8), of "hh * 3600 + mi * 60 + ss" "fst (get_fraction rest)"] r(3-5,9) get_fraction_range[of rest]
    by (simp add: add.assoc)
  also have "\<dots> = take 10 ts"
    using dg fixed_digits_value[of "[y1, y2, y3, y4]"] fixed_digits_value[of "[m1, m2]"] fixed_digits_value[of "[d1, d2]"]
    unfolding date_text_def y_def m_def d_def by (simp add: ts numeral_eq_Suc del: digits_value.simps fixed.simps)
  finally show ?thesis .
qed

text \<open>The fast path of \<open>localDayBucket\<close> agrees with the parser. Whatever the reporting zone
  and whatever the text, if the text parses as a timestamp then its bucket is the calendar day of
  that instant in the zone; the date that the fast path cuts out of a UTC text is that day, also
  for a text with a fraction or with a comma in place of the point.\<close>

theorem localDayBucket_agrees:
  assumes "parse_rfc3339 ts = Some t"
  shows "localDayBucket z ts = Inr (day_text (reportingLocation z) t)"
  using assms canonical_day[OF _ assms] by (auto simp: localDayBucket_def reportingLocation_def)

theorem localDayBucket_agrees_witness:
  "localDayBucket None ''2024-02-29T23:59:59.5Z'' = Inr (day_text UTC 1709251199500000000)"
proof -
  have "parse_rfc3339 ''2024-02-29T23:59:59.5Z'' = Some 1709251199500000000" by code_simp
  then show ?thesis using localDayBucket_agrees[of "''2024-02-29T23:59:59.5Z''" _ None] by (simp add: reportingLocation_def)
qed

text \<open>The fast path does not look between the seconds and the final \<open>Z\<close>: a text that does not parse has a bucket.\<close>

lemma localDayBucket_accepts_garbage:
  "localDayBucket None ''2024-02-29T23:59:59 junkZ'' = Inr ''2024-02-29''" "parse_rfc3339 ''2024-02-29T23:59:59 junkZ'' = None"
  by code_simp+

subsection \<open>Daily usage is grouping by day\<close>

definition breakdown_of :: "gostr \<Rightarrow> row list \<Rightarrow> token_breakdown" where
  "breakdown_of n rows = \<lparr>tb_Name = n, tb_Tokens = wrap64 (\<Sum>r \<leftarrow> rows. row_tokens r),
     tb_UnknownTokens = wrap64 (\<Sum>r \<leftarrow> rows. row_unknown r)\<rparr>"

definition breakdown_by :: "(row \<Rightarrow> gostr) \<Rightarrow> row list \<Rightarrow> token_breakdown list" where
  "breakdown_by name rows = sort_desc tb_Tokens tb_Name
     (map (\<lambda>n. breakdown_of n (filter (\<lambda>r. name r = n) rows)) (sorted_list_of_set (name ` set rows)))"

definition day_summary :: "gostr \<Rightarrow> row list \<Rightarrow> daily_usage" where
  "day_summary date rows =
    \<lparr>du_Date = date, du_Tokens = wrap64 (\<Sum>r \<leftarrow> rows. row_tokens r), du_Events = wrap64 (int (length rows)),
     du_UnknownTokens = wrap64 (\<Sum>r \<leftarrow> rows. row_unknown r), du_ByModel = breakdown_by shown_model rows,
     du_ByProvider = breakdown_by rw_provider rows\<rparr>"

definition bucket_of :: "zone \<Rightarrow> row \<Rightarrow> gostr" where
  "bucket_of z r = projr (localDayBucket z (rw_timestamp r))"

definition window_rows :: "zone \<Rightarrow> row list \<Rightarrow> instant \<Rightarrow> instant \<Rightarrow> row list" where
  "window_rows z t start until = filter (in_window (dateOnly z start) (dateOnly z until)) t"

lemma wrap64_add: "wrap64 (wrap64 a + b) = wrap64 (a + b)"
  by (simp add: wrap64_def mod_simps algebra_simps)

lemma i64_add_wrap: "i64_add (wrap64 a) b = wrap64 (a + b)" "i64_add 0 b = wrap64 b" "i64_add (wrap64 a) 1 = wrap64 (1 + a)"
  using wrap64_add[of a 1] by (simp_all add: i64_add_def wrap64_add add.commute[of 1])

lemma one_group_breakdown:
  "rows \<noteq> [] \<Longrightarrow> \<forall>r \<in> set rows. name r = n \<Longrightarrow> one_group (add_breakdown name) rows = Some (breakdown_of n rows)"
proof (induction rows rule: rev_induct)
  case (snoc r rows)
  then show ?case
    by (cases "rows = []") (simp_all add: add_breakdown_def breakdown_of_def i64_add_wrap)
qed simp

lemma breakdowns_group: "breakdowns (group_by name (add_breakdown name) rows) = breakdown_by name rows"
proof -
  have v: "the (one_group (add_breakdown name) ys) = breakdown_of n ys" if "ys \<noteq> []" "\<forall>y \<in> set ys. name y = n" for ys n
    using one_group_breakdown[OF that] by simp
  have "sort_key tb_Name (map snd (group_by name (add_breakdown name) rows))
      = map (\<lambda>n. the (one_group (add_breakdown name) (filter (\<lambda>r. name r = n) rows))) (sorted_list_of_set (name ` set rows))"
  proof (rule sort_group_values)
    fix r ys
    assume "ys \<noteq> []" "\<And>y. y \<in> set ys \<Longrightarrow> name y = name r"
    then show "tb_Name (the (one_group (add_breakdown name) ys)) = name r" using v[of ys "name r"] by (simp add: breakdown_of_def)
  qed
  also have "\<dots> = map (\<lambda>n. breakdown_of n (filter (\<lambda>r. name r = n) rows)) (sorted_list_of_set (name ` set rows))"
    by (rule map_cong) (auto intro!: v simp: filter_empty_conv)
  finally have s: "sort_key tb_Name (map snd (group_by name (add_breakdown name) rows)) = \<dots>" .
  have n: "sort_key tb_Name (map (\<lambda>n. breakdown_of n (filter (\<lambda>r. name r = n) rows)) ns)
      = map (\<lambda>n. breakdown_of n (filter (\<lambda>r. name r = n) rows)) ns" if "sorted ns" for ns
    using that by (intro sort_key_id_if_sorted) (simp add: comp_def breakdown_of_def)
  show ?thesis unfolding breakdowns_def breakdown_by_def sort_desc_def s by (simp add: n)
qed

lemma one_group_day:
  "rows \<noteq> [] \<Longrightarrow> one_group add_to_day rows = Some \<lparr>da_Tokens = wrap64 (\<Sum>r \<leftarrow> rows. row_tokens r),
     da_Events = wrap64 (int (length rows)), da_UnknownTokens = wrap64 (\<Sum>r \<leftarrow> rows. row_unknown r),
     da_byModel = group_by shown_model (add_breakdown shown_model) rows,
     da_byProvider = group_by rw_provider (add_breakdown rw_provider) rows\<rparr>"
proof (induction rows rule: rev_induct)
  case (snoc r rows)
  show ?case
  proof (cases "rows = []")
    case True
    then show ?thesis by (simp add: add_to_day_def new_day_def i64_add_wrap group_by_def)
  next
    case False
    then show ?thesis using snoc.IH i64_add_wrap(3)[of "int (length rows)"] by (simp add: add_to_day_def i64_add_wrap(1) group_by_snoc)
  qed
qed simp

lemma finish_day_summary: "rows \<noteq> [] \<Longrightarrow> finish_day (d, the (one_group add_to_day rows)) = day_summary d rows"
  by (simp add: one_group_day finish_day_def day_summary_def breakdowns_group)

lemma fold_day_step:
  "fold_err (day_step z) m rows = Inr m' \<Longrightarrow> m' = fold (group_step (bucket_of z) add_to_day) rows m"
proof (induction rows arbitrary: m)
  case (Cons r rows)
  then obtain d where d: "localDayBucket z (rw_timestamp r) = Inr d" by (auto simp: day_step_def split: sum.splits)
  then have "group_step (\<lambda>_. d) add_to_day r m = group_step (bucket_of z) add_to_day r m"
    by (simp add: group_step_def bucket_of_def)
  then show ?case using Cons d by (simp add: day_step_def)
qed simp

lemma day_summary_perm:
  assumes "mset rows = mset rows'"
  shows "day_summary d rows = day_summary d rows'"
proof -
  have s: "sum_list (map f (filter P rows)) = sum_list (map f (filter P rows'))" for f :: "row \<Rightarrow> int" and P
    using assms by (metis mset_filter mset_map sum_mset_sum_list)
  have "set rows = set rows'" "length rows = length rows'" using assms by (metis set_mset_mset) (metis assms size_mset)
  moreover have "(\<Sum>r \<leftarrow> rows. f r) = (\<Sum>r \<leftarrow> rows'. f r)" for f :: "row \<Rightarrow> int" using s[of f "\<lambda>_. True"] by simp
  ultimately show ?thesis by (simp add: day_summary_def breakdown_by_def breakdown_of_def s)
qed

text \<open>C0: \<open>DailyUsage\<close> is grouping by calendar day. When it returns, its days are exactly the
  local days of the rows in the window, each once and in increasing order, and each day carries the
  sums (as 64-bit integers) of the totals, the events and the events without a total of the rows of
  that day, per model and per provider too, ordered by decreasing tokens and then by name; the
  order of the rows and of the iteration over the Go maps is of no influence.\<close>

theorem DailyUsage_groups:
  assumes "DailyUsage z t start until = Inr days" and "dateOnly z start < dateOnly z until"
  shows "days = map (\<lambda>d. day_summary d (filter (\<lambda>r. bucket_of z r = d) (window_rows z t start until)))
    (sorted_list_of_set (bucket_of z ` set (window_rows z t start until)))"
proof -
  define rows where "rows = sort_key rw_timestamp (window_rows z t start until)"
  obtain m where m: "fold_err (day_step z) [] rows = Inr m" "days = sort_key du_Date (map finish_day m)"
    using assms unfolding DailyUsage_def Let_def rows_def window_rows_def by (auto split: sum.splits)
  have g: "m = group_by (bucket_of z) add_to_day rows" using fold_day_step[OF m(1)] by (simp add: group_by_def)
  have "days = map finish_day (sort_key fst m)"
    unfolding m(2) sort_key_map by (intro arg_cong[of _ _ "map finish_day"] sort_key_agree) (auto simp: finish_day_def)
  also have "\<dots> = map (\<lambda>d. finish_day (d, the (one_group add_to_day (filter (\<lambda>r. bucket_of z r = d) rows))))
      (sorted_list_of_set (bucket_of z ` set rows))"
    unfolding g sort_groups_eq by simp
  also have "\<dots> = map (\<lambda>d. day_summary d (filter (\<lambda>r. bucket_of z r = d) rows)) (sorted_list_of_set (bucket_of z ` set rows))"
    by (rule map_cong) (auto intro!: finish_day_summary simp: filter_empty_conv)
  also have "\<dots> = map (\<lambda>d. day_summary d (filter (\<lambda>r. bucket_of z r = d) (window_rows z t start until)))
      (sorted_list_of_set (bucket_of z ` set (window_rows z t start until)))"
    unfolding rows_def by (intro map_cong day_summary_perm) (simp_all add: mset_filter)
  finally show ?thesis .
qed

text \<open>Two rows of one day and a row of the next.\<close>

definition busy_rows :: "row list" where
  "busy_rows = [sample_row\<lparr>rw_timestamp := ''2024-02-29T23:59:59.5Z'', rw_total := Some 5\<rparr>,
     sample_row\<lparr>rw_timestamp := ''2024-03-01T00:00:00Z'', rw_total := None\<rparr>,
     sample_row\<lparr>rw_timestamp := ''2024-02-29T08:00:00Z'', rw_total := Some 7\<rparr>]"

lemma fold_day_step_total:
  "\<forall>r \<in> set rows. \<exists>d. localDayBucket z (rw_timestamp r) = Inr d \<Longrightarrow> \<exists>m'. fold_err (day_step z) m rows = Inr m'"
  by (induction rows arbitrary: m) (auto simp: day_step_def)

lemma DailyUsage_total:
  assumes "\<forall>r \<in> set t. \<exists>d. localDayBucket z (rw_timestamp r) = Inr d"
  shows "\<exists>days. DailyUsage z t start until = Inr days"
proof -
  have "\<exists>m. fold_err (day_step z) [] (sort_key rw_timestamp (filter (in_window a b) t)) = Inr m" for a b
    by (rule fold_day_step_total) (use assms in simp)
  then show ?thesis unfolding DailyUsage_def Let_def by (metis (no_types, lifting) old.sum.simps(6))
qed

lemma busy_days: "\<exists>days. DailyUsage None busy_rows start until = Inr days"
proof (rule DailyUsage_total)
  have "localDayBucket None ''2024-02-29T23:59:59.5Z'' = Inr ''2024-02-29''" by code_simp
  moreover have "localDayBucket None ''2024-03-01T00:00:00Z'' = Inr ''2024-03-01''" by code_simp
  moreover have "localDayBucket None ''2024-02-29T08:00:00Z'' = Inr ''2024-02-29''" by code_simp
  ultimately show "\<forall>r \<in> set busy_rows. \<exists>d. localDayBucket None (rw_timestamp r) = Inr d" by (simp add: busy_rows_def)
qed

theorem DailyUsage_groups_witness:
  "\<exists>days. DailyUsage None busy_rows 1709164800000000000 1709337600000000000 = Inr days
    \<and> days = map (\<lambda>d. day_summary d (filter (\<lambda>r. bucket_of None r = d) (window_rows None busy_rows 1709164800000000000 1709337600000000000)))
    (sorted_list_of_set (bucket_of None ` set (window_rows None busy_rows 1709164800000000000 1709337600000000000)))"
proof -
  obtain days where "DailyUsage None busy_rows 1709164800000000000 1709337600000000000 = Inr days" using busy_days by blast
  moreover have "dateOnly None 1709164800000000000 < dateOnly None 1709337600000000000" by code_simp
  ultimately show ?thesis using DailyUsage_groups by blast
qed

subsection \<open>Levels of the heatmap\<close>

lemma f64_of_int_pos:
  assumes "0 < n" "n \<le> max_i64"
  shows "\<exists>r. f64_of_int n = Fin r \<and> 0 < r"
proof -
  obtain r where r: "f64_of_int n = Fin r" using f64_of_int_finite[of n] assms by (auto simp: max_i64_def)
  have "f64_le (round64 1) (f64_of_int n)" unfolding f64_of_int_def using assms(1) by (intro round64_mono) simp_all
  then show ?thesis using r round64_consts(1) by simp
qed

lemma f64_of_int_mono: "0 \<le> a \<Longrightarrow> a \<le> b \<Longrightarrow> f64_le (f64_of_int a) (f64_of_int b)"
  unfolding f64_of_int_def by (rule round64_mono) simp_all

text \<open>The levels of the activity heatmap are a faithful scale despite the floating-point
  division: between 0 and 4, 0 exactly for the days without counted tokens, never decreasing in
  the tokens of the day, and 4 for the busiest day.\<close>

theorem activityLevel_scale:
  assumes "a \<le> b" and "0 < m" and "m \<le> max_i64" and "b \<le> m"
  shows "activityLevel a m \<le> activityLevel b m \<and> activityLevel b m \<le> 4
    \<and> (activityLevel a m = 0 \<longleftrightarrow> a \<le> 0) \<and> activityLevel m m = 4"
proof -
  obtain r where r: "f64_of_int m = Fin r" "0 < r" using f64_of_int_pos[OF assms(2,3)] by blast
  have "f64_div (f64_of_int m) (f64_of_int m) = Fin 1" using r round64_consts(1) by simp
  then have top: "activityLevel m m = 4" using assms(2) by (simp add: activityLevel_def Let_def)
  have mono: "activityLevel a m \<le> activityLevel b m" if a: "0 < a"
  proof -
    obtain x y where xy: "f64_of_int a = Fin x" "f64_of_int b = Fin y" "0 < x" "0 < y"
      using f64_of_int_pos[of a] f64_of_int_pos[of b] a assms by (meson le_less_trans less_le_trans order.trans less_imp_le)
    have "x \<le> y" using f64_of_int_mono[of a b] a assms(1) xy by simp
    then have "f64_le (f64_div (Fin x) (Fin r)) (f64_div (Fin y) (Fin r))"
      using r(2) xy by (auto intro!: round64_mono simp: divide_right_mono)
    then have le: "f64_le (f64_div (f64_of_int b) (f64_of_int m)) (Fin c) \<Longrightarrow> f64_le (f64_div (f64_of_int a) (f64_of_int m)) (Fin c)" for c
      using f64_le_trans xy r(1) by metis
    have "0 < b" using a assms(1) by simp
    then show ?thesis using a assms(2) le by (simp add: activityLevel_def Let_def)
  qed
  show ?thesis using top mono by (cases "0 < a") (auto simp: activityLevel_def Let_def)
qed

theorem activityLevel_scale_witness:
  "activityLevel 3 10 \<le> activityLevel 7 10 \<and> activityLevel 7 10 \<le> 4 \<and> (activityLevel 3 10 = 0 \<longleftrightarrow> (3 :: int) \<le> 0) \<and> activityLevel 10 10 = 4"
  by (rule activityLevel_scale) (simp_all add: max_i64_def)

end
