(* ===== verification/Store_Dashboard.thy ===== *)
theory Store_Dashboard
  imports Store_Activity Store_Heartbeat
begin

text \<open>
  \<open>internal/database/dashboard.go\<close>: period summaries, the session table, machines with the state
  of their connectors, and the catalog joined with the usage; with the normalisation of analytics
  queries of \<open>database.go\<close> that the session table uses. A statement with sums fails when one of them
  leaves 64 bits. The sum of a column of floating-point numbers is the parameter \<open>real_sum\<close>:
  SQLite's compensated summation.
\<close>

subsection \<open>Sums and groups of a statement\<close>

definition fits :: "(row \<Rightarrow> i64) \<Rightarrow> row list \<Rightarrow> bool" where
  "fits f t \<longleftrightarrow> (case sql_sum 0 (map f t) of Inl _ \<Rightarrow> False | Inr _ \<Rightarrow> True)"

abbreviation total_of :: "(row \<Rightarrow> i64) \<Rightarrow> row list \<Rightarrow> i64" where
  "total_of f t \<equiv> (\<Sum>r \<leftarrow> t. f r)"

definition overflow :: query_error where "overflow = StoreFailed IntegerOverflow"

text \<open>\<open>GROUP BY\<close>: the groups in the order of their key, each with its rows.\<close>

definition groups :: "(row \<Rightarrow> 'k :: linorder) \<Rightarrow> row list \<Rightarrow> ('k \<times> row list) list" where
  "groups key t = map (\<lambda>k. (k, filter (\<lambda>r. key r = k) t)) (sorted_list_of_set (key ` set t))"

definition or_zero :: "i64 option \<Rightarrow> i64" where "or_zero v = (case v of None \<Rightarrow> 0 | Some n \<Rightarrow> n)"

definition costs :: "row list \<Rightarrow> f64 list" where
  "costs t = concat (map (\<lambda>r. case rw_cost r of None \<Rightarrow> [] | Some c \<Rightarrow> [c]) t)"

definition cost_sum :: "(f64 list \<Rightarrow> f64) \<Rightarrow> row list \<Rightarrow> f64" where
  "cost_sum real_sum t = (if costs t = [] then Fin 0 else real_sum (costs t))"

definition priced_tokens :: "row \<Rightarrow> i64" where
  "priced_tokens r = (if rw_cost r \<noteq> None then row_tokens r else 0)"

definition unpriced_tokens :: "row \<Rightarrow> i64" where
  "unpriced_tokens r = (if rw_cost r = None then row_tokens r else 0)"

text \<open>\<open>MAX\<close> of a column of texts, and stable sorting downwards.\<close>

definition max_text :: "gostr list \<Rightarrow> gostr option" where
  "max_text xs = (case xs of [] \<Rightarrow> None | x # xs \<Rightarrow> Some (fold max xs x))"

definition sort_down :: "('a \<Rightarrow> 'k :: linorder) \<Rightarrow> 'a list \<Rightarrow> 'a list" where
  "sort_down f xs = rev (sort_key f (rev xs))"

subsection \<open>Period summaries\<close>

record cost_summary =
  cs_Amount :: f64
  cs_PricedTokens :: i64
  cs_UnpricedTokens :: i64

record period_summary =
  pe_StartDate :: gostr
  pe_EndDate :: gostr
  pe_Tokens :: i64
  pe_Events :: i64
  pe_UnknownTokens :: i64
  pe_InputTokens :: i64
  pe_OutputTokens :: i64
  pe_EstimatedCost :: cost_summary

definition PeriodSummary :: "(f64 list \<Rightarrow> f64) \<Rightarrow> zone \<Rightarrow> row list \<Rightarrow> instant \<Rightarrow> instant \<Rightarrow> query_error + period_summary" where
  "PeriodSummary real_sum z t start until =
    (let loc = reportingLocation z; start = dateOnly z start; until = dateOnly z until;
         dates = (day_text loc start, day_text loc (until - 1));
         rows = filter (in_window start until) t;
         input = (\<lambda>r. or_zero (rw_input r)); out = (\<lambda>r. or_zero (rw_output r))
     in if \<not> start < until
        then Inr \<lparr>pe_StartDate = fst dates, pe_EndDate = snd dates, pe_Tokens = 0, pe_Events = 0, pe_UnknownTokens = 0,
                  pe_InputTokens = 0, pe_OutputTokens = 0, pe_EstimatedCost = \<lparr>cs_Amount = Fin 0, cs_PricedTokens = 0, cs_UnpricedTokens = 0\<rparr>\<rparr>
        else if list_all (\<lambda>f. fits f rows) [row_tokens, row_unknown, input, out, priced_tokens, unpriced_tokens]
        then Inr \<lparr>pe_StartDate = fst dates, pe_EndDate = snd dates, pe_Tokens = total_of row_tokens rows, pe_Events = int (length rows),
                  pe_UnknownTokens = total_of row_unknown rows, pe_InputTokens = total_of input rows,
                  pe_OutputTokens = total_of out rows,
                  pe_EstimatedCost = \<lparr>cs_Amount = cost_sum real_sum rows, cs_PricedTokens = total_of priced_tokens rows,
                    cs_UnpricedTokens = total_of unpriced_tokens rows\<rparr>\<rparr>
        else Inl overflow)"

subsection \<open>Analytics queries\<close>

text \<open>A zero \<open>Now\<close>, start or end is \<open>None\<close>.\<close>

record analytics_query =
  aq_Period :: gostr
  aq_Dimension :: gostr
  aq_Machine :: gostr
  aq_Provider :: gostr
  aq_Model :: gostr
  aq_Tool :: gostr
  aq_Now :: "instant option"

definition normalizeAnalyticsQuery ::
  "zone \<Rightarrow> instant \<Rightarrow> analytics_query \<Rightarrow> analytics_query \<times> instant option \<times> instant option" where
  "normalizeAnalyticsQuery z clock q =
    (let loc = reportingLocation z;
         period = (if aq_Period q \<in> {''24h'', ''7d'', ''30d'', ''90d'', ''all''} then aq_Period q else ''30d'');
         dim = (if aq_Dimension q \<in> {''projects'', ''harnesses'', ''providers'', ''models'', ''machines''} then aq_Dimension q else ''projects'');
         now = (case aq_Now q of None \<Rightarrow> clock | Some t \<Rightarrow> t);
         today = dateOnly z now;
         until = (if period = ''24h'' then now else add_days loc 1 today);
         start = (if period = ''24h'' then Some (now - 86400 * nanos_per_second)
                  else if period = ''7d'' then Some (add_days loc (- 6) today)
                  else if period = ''30d'' then Some (add_days loc (- 29) today)
                  else if period = ''90d'' then Some (add_days loc (- 89) today) else None)
     in (q\<lparr>aq_Period := period, aq_Dimension := dim, aq_Now := None\<rparr>, start, Some until))"

definition analyticsWhere :: "analytics_query \<Rightarrow> instant option \<Rightarrow> instant option \<Rightarrow> row \<Rightarrow> bool" where
  "analyticsWhere q start until r \<longleftrightarrow>
     (case start of None \<Rightarrow> True | Some s \<Rightarrow> rfc3339 s \<le> rw_timestamp r)
   \<and> (case until of None \<Rightarrow> True | Some e \<Rightarrow> rw_timestamp r < rfc3339 e)
   \<and> (aq_Machine q \<noteq> [] \<longrightarrow> rw_machine_id r = aq_Machine q)
   \<and> (aq_Provider q \<noteq> [] \<longrightarrow> rw_provider r = aq_Provider q)
   \<and> (aq_Model q \<noteq> [] \<longrightarrow> shown_model r = aq_Model q)
   \<and> (aq_Tool q \<noteq> [] \<longrightarrow> rw_tool r = aq_Tool q)"

subsection \<open>The session table\<close>

record session_record =
  se_SessionID :: gostr
  se_Timestamp :: gostr
  se_Machine :: gostr
  se_Provider :: gostr
  se_Model :: gostr
  se_Tool :: gostr
  se_Project :: gostr
  se_InputTokens :: "i64 option"
  se_OutputTokens :: "i64 option"
  se_TotalTokens :: "i64 option"
  se_Cost :: "f64 option"
  se_CostEstimated :: bool
  se_DurationMS :: "i64 option"
  se_Accuracy :: gostr
  se_Events :: i64

definition NormalizeSessionSort :: "gostr \<Rightarrow> gostr \<Rightarrow> gostr \<times> gostr" where
  "NormalizeSessionSort srt dir =
    (if srt \<in> {''when'', ''tokens'', ''cost'', ''duration''} then srt else ''when'',
     if dir \<noteq> ''asc'' \<and> dir \<noteq> ''desc'' then ''desc'' else dir)"

text \<open>\<open>CASE WHEN COUNT(x) = COUNT(*) THEN SUM(x) END\<close>\<close>

definition complete_sum :: "(row \<Rightarrow> i64 option) \<Rightarrow> row list \<Rightarrow> i64 option" where
  "complete_sum f t = (if list_all (\<lambda>r. f r \<noteq> None) t then Some (total_of (\<lambda>r. or_zero (f r)) t) else None)"

definition complete_fits :: "(row \<Rightarrow> i64 option) \<Rightarrow> row list \<Rightarrow> bool" where
  "complete_fits f t \<longleftrightarrow> fits (\<lambda>r. or_zero (f r)) t"

definition the_max :: "(row \<Rightarrow> gostr) \<Rightarrow> row list \<Rightarrow> gostr" where
  "the_max f t = (case max_text (map f t) of None \<Rightarrow> [] | Some x \<Rightarrow> x)"

definition session_of :: "(f64 list \<Rightarrow> f64) \<Rightarrow> row list \<Rightarrow> session_record" where
  "session_of real_sum t =
    (let r = hd t; canonical = filter (\<lambda>m. m \<noteq> []) (map rw_canonical_model t)
     in \<lparr>se_SessionID = (case rw_session_id r of None \<Rightarrow> [] | Some s \<Rightarrow> s), se_Timestamp = the_max rw_timestamp t,
         se_Machine = rw_machine_id r, se_Provider = rw_provider r,
         se_Model = (case max_text canonical of None \<Rightarrow> the_max rw_raw_model t | Some m \<Rightarrow> m),
         se_Tool = rw_tool r, se_Project = the_max rw_project t,
         se_InputTokens = complete_sum rw_input t, se_OutputTokens = complete_sum rw_output t,
         se_TotalTokens = complete_sum rw_total t,
         se_Cost = (if costs t = [] then None else Some (real_sum (costs t))),
         se_CostEstimated = list_ex rw_cost_estimated t,
         se_DurationMS = complete_sum rw_duration t,
         se_Accuracy = (if list_all (\<lambda>x. rw_accuracy x = rw_accuracy r) t then rw_accuracy r else ''unknown''),
         se_Events = int (length t)\<rparr>)"

text \<open>
  The order: \<open>column IS NULL ASC, column DIR, MAX(timestamp) DESC\<close>, as stable sorts from the last
  key to the first; a floating-point column by its infinities and then by its value.
\<close>

definition sort_dir :: "gostr \<Rightarrow> ('a \<Rightarrow> 'k :: linorder) \<Rightarrow> 'a list \<Rightarrow> 'a list" where
  "sort_dir dir f xs = (if dir = ''asc'' then sort_key f xs else sort_down f xs)"

definition f64_class :: "f64 \<Rightarrow> nat" where
  "f64_class x = (case x of NInf \<Rightarrow> 0 | Fin _ \<Rightarrow> 1 | PInf \<Rightarrow> 2 | NaN \<Rightarrow> 3)"

definition f64_value :: "f64 \<Rightarrow> rat" where "f64_value x = (case x of Fin r \<Rightarrow> r | _ \<Rightarrow> 0)"

definition sessionOrderBy :: "gostr \<Rightarrow> gostr \<Rightarrow> session_record list \<Rightarrow> session_record list" where
  "sessionOrderBy srt dir xs =
    (let ys = sort_down se_Timestamp xs in
     if srt = ''tokens'' then sort_key (\<lambda>s. se_TotalTokens s = None) (sort_dir dir (\<lambda>s. or_zero (se_TotalTokens s)) ys)
     else if srt = ''cost'' then sort_key (\<lambda>s. se_Cost s = None)
       (sort_dir dir (\<lambda>s. case se_Cost s of None \<Rightarrow> 0 | Some c \<Rightarrow> f64_class c)
         (sort_dir dir (\<lambda>s. case se_Cost s of None \<Rightarrow> 0 | Some c \<Rightarrow> f64_value c) ys))
     else if srt = ''duration'' then sort_key (\<lambda>s. se_DurationMS s = None) (sort_dir dir (\<lambda>s. or_zero (se_DurationMS s)) ys)
     else sort_dir dir se_Timestamp ys)"

definition SessionsWithSort ::
  "(f64 list \<Rightarrow> f64) \<Rightarrow> zone \<Rightarrow> instant \<Rightarrow> row list \<Rightarrow> analytics_query \<Rightarrow> gostr \<Rightarrow> gostr \<Rightarrow> query_error + session_record list" where
  "SessionsWithSort real_sum z clock t q0 srt0 dir0 =
    (case NormalizeSessionSort srt0 dir0 of (srt, dir) \<Rightarrow>
     (case normalizeAnalyticsQuery z clock q0 of (q, start, until) \<Rightarrow>
      (let rows = filter (\<lambda>r. analyticsWhere q start until r \<and> rw_session_id r \<noteq> None \<and> rw_session_id r \<noteq> Some []) t;
           key = (\<lambda>r. [the (rw_session_id r), rw_machine_id r, rw_provider r, rw_tool r]);
           gs = map snd (groups key rows)
       in if list_all (\<lambda>g. list_all (\<lambda>f. complete_fits f g) [rw_input, rw_output, rw_total, rw_duration]) gs
          then Inr (take 100 (sessionOrderBy srt dir (map (session_of real_sum) gs)))
          else Inl overflow)))"

definition Sessions ::
  "(f64 list \<Rightarrow> f64) \<Rightarrow> zone \<Rightarrow> instant \<Rightarrow> row list \<Rightarrow> analytics_query \<Rightarrow> query_error + session_record list" where
  "Sessions real_sum z clock t q = SessionsWithSort real_sum z clock t q ''when'' ''desc''"

subsection \<open>Machines\<close>

definition MachineConnectedWindow :: i64 where "MachineConnectedWindow = minutes 5"
definition MachineStaleWindow :: i64 where "MachineStaleWindow = minutes 30"

definition machineStatus :: "gostr \<Rightarrow> instant \<Rightarrow> gostr" where
  "machineStatus lastSeen now =
    (case timeParse lastSeen of None \<Rightarrow> ''Offline''
     | Some seen \<Rightarrow>
        (let age = time_sub now seen
         in if age < 0 \<or> age \<le> MachineConnectedWindow then ''Connected''
            else if age \<le> MachineStaleWindow then ''Stale'' else ''Offline''))"

definition pluralSuffix :: "int \<Rightarrow> gostr" where "pluralSuffix n = (if n = 1 then [] else ''s'')"

text \<open>\<open>fmt.Sprintf("%.1f", float64(ms)/1000)\<close>: the nearest tenth, ties to even.\<close>

definition tenths_text :: "i64 \<Rightarrow> gostr" where
  "tenths_text ms =
    (case f64_div (f64_of_int ms) (Fin 1000) of
       Fin q \<Rightarrow> (let n = nat (round_even (10 * q)) in nat_str (n div 10) @ ''.'' @ nat_str (n mod 10))
     | _ \<Rightarrow> [])"

definition syncAgeLabel :: "i64 \<Rightarrow> gostr" where
  "syncAgeLabel elapsed =
    (let ms = duration_ms elapsed
     in if ms < 1000 then int_str ms @ ''ms''
        else if ms < 60000 then tenths_text ms @ ''s''
        else (let secs = nat ((ms + 500) div 1000)
              in if secs < 3600 then nat_str (secs div 60) @ ''m '' @ pad_str 2 (secs mod 60) @ ''s''
                 else nat_str (secs div 3600) @ ''h '' @ pad_str 2 (secs mod 3600 div 60) @ ''m''))"

definition machineSourceHealthState :: "gostr \<Rightarrow> instant \<Rightarrow> gostr \<times> gostr" where
  "machineSourceHealthState lastSync now =
    (case timeParse lastSync of None \<Rightarrow> (''Unknown'', ''never synced'')
     | Some seen \<Rightarrow>
        (let elapsed = max 0 (time_sub now seen); label = syncAgeLabel elapsed @ '' ago''
         in if elapsed \<le> MachineStaleWindow then (''Fresh'', label) else (''Stale'', label)))"

record machine_source_health =
  mh_Adapter :: gostr
  mh_SourceHash :: gostr
  mh_LastSuccessfulSync :: "gostr option"
  mh_LastErrorClass :: gostr
  mh_State :: gostr
  mh_Age :: gostr

record machine_info =
  mi_ID :: gostr
  mi_Name :: gostr
  mi_OperatingSystem :: gostr
  mi_Architecture :: gostr
  mi_AgentVersion :: gostr
  mi_DetectedAdapters :: "gostr list"
  mi_SourceCount :: int
  mi_SourceErrorCount :: int
  mi_FirstSeenAt :: gostr
  mi_LastSeenAt :: gostr
  mi_Status :: gostr
  mi_SyncContext :: gostr
  mi_Sources :: "machine_source_health list"
  mi_TodayTokens :: i64
  mi_WeekTokens :: i64
  mi_LifetimeTokens :: i64

definition source_health_of :: "instant \<Rightarrow> health \<Rightarrow> machine_source_health" where
  "source_health_of now h =
    (let state = machineSourceHealthState (hl_last_successful_sync h) now
     in \<lparr>mh_Adapter = hl_adapter h, mh_SourceHash = hl_source_hash h,
         mh_LastSuccessfulSync = (if trim_space (hl_last_successful_sync h) \<noteq> [] then Some (hl_last_successful_sync h) else None),
         mh_LastErrorClass = trim_space (hl_last_error_class h), mh_State = fst state, mh_Age = snd state\<rparr>)"

text \<open>The rows of one machine, \<open>ORDER BY machine_id, adapter, source_hash\<close>.\<close>

definition machineSourceHealth :: "instant \<Rightarrow> health list \<Rightarrow> gostr \<Rightarrow> machine_source_health list" where
  "machineSourceHealth now t machineID =
    map (source_health_of now) (sort_key hl_adapter (sort_key hl_source_hash (filter (\<lambda>h. hl_machine_id h = machineID) t)))"

definition sync_context :: "machine \<Rightarrow> gostr" where
  "sync_context m =
    (if 0 < mc_source_error_count m
     then int_str (mc_source_error_count m) @ '' source error'' @ pluralSuffix (mc_source_error_count m)
     else if 0 < mc_source_count m then int_str (mc_source_count m) @ '' source'' @ pluralSuffix (mc_source_count m) @ '' synced''
     else ''Heartbeat metadata only'')"

definition windowed :: "instant \<Rightarrow> instant \<Rightarrow> row \<Rightarrow> i64" where
  "windowed start until r = (if in_window start until r then row_tokens r else 0)"

definition machine_info_of :: "instant \<Rightarrow> instant \<Rightarrow> instant \<Rightarrow> instant \<Rightarrow> store \<Rightarrow> machine \<Rightarrow> machine_info" where
  "machine_info_of now today weekStart tomorrow st m =
    (let rows = filter (\<lambda>r. rw_machine_id r = mc_id m) (st_events st)
     in \<lparr>mi_ID = mc_id m, mi_Name = mc_name m, mi_OperatingSystem = mc_operating_system m, mi_Architecture = mc_architecture m,
         mi_AgentVersion = mc_agent_version m, mi_DetectedAdapters = splitAdapterIDs (mc_detected_adapters m),
         mi_SourceCount = mc_source_count m, mi_SourceErrorCount = mc_source_error_count m,
         mi_FirstSeenAt = mc_first_seen_at m, mi_LastSeenAt = mc_last_seen_at m,
         mi_Status = machineStatus (mc_last_seen_at m) now, mi_SyncContext = sync_context m,
         mi_Sources = machineSourceHealth now (st_health st) (mc_id m),
         mi_TodayTokens = total_of (windowed today tomorrow) rows,
         mi_WeekTokens = total_of (windowed weekStart tomorrow) rows,
         mi_LifetimeTokens = total_of row_tokens rows\<rparr>)"

definition MachinesAt :: "zone \<Rightarrow> store \<Rightarrow> instant \<Rightarrow> query_error + machine_info list" where
  "MachinesAt z st now =
    (let loc = reportingLocation z; today = dateOnly z now;
         weekStart = add_days loc (- weekday (local_day loc today)) today;
         tomorrow = add_days loc 1 today
     in if list_all (\<lambda>(i, rows). list_all (\<lambda>f. fits f rows) [row_tokens, windowed today tomorrow, windowed weekStart tomorrow])
             (groups rw_machine_id (st_events st))
        then Inr (map (machine_info_of now today weekStart tomorrow st)
               (sort_down mc_last_seen_at (sort_key mc_id (st_machines st))))
        else Inl overflow)"

subsection \<open>The catalog with its usage\<close>

record catalog_entry =
  ce_ID :: gostr
  ce_Model :: model
  ce_Tier :: gostr
  ce_UsageTokens :: i64
  ce_UsageEvents :: i64
  ce_Context :: gostr

record catalog_snapshot =
  sn_Models :: "catalog_entry list"
  sn_Uncataloged :: "(gostr \<times> i64 \<times> i64) list"
  sn_ObservedTokens :: i64
  sn_PricedTokens :: i64

definition normalizeTier :: "gostr \<Rightarrow> gostr" where
  "normalizeTier value = (let v = trim_space value in if v \<in> {''S'', ''A'', ''B'', ''C'', ''D''} then v else ''Unranked'')"

text \<open>Tokens and events observed under an identifier.\<close>

type_synonym observed = "(gostr \<times> i64 \<times> i64) list"

definition add_context :: "i64 \<times> i64 \<Rightarrow> i64 \<times> i64 \<Rightarrow> i64 \<times> i64" where
  "add_context a b = (i64_add (fst a) (fst b), i64_add (snd a) (snd b))"

text \<open>One turn of the loop that folds an alias into its catalog model, deleting its entry.\<close>

definition fold_alias :: "catalog \<Rightarrow> gostr \<Rightarrow> observed \<Rightarrow> observed" where
  "fold_alias c i m =
    (if map_of (cat_Models c) i \<noteq> None then m
     else case Resolve (Some c) i of None \<Rightarrow> m
      | Some (resolved, _) \<Rightarrow>
         if map_of (cat_Models c) resolved = None then m
         else case map_of m i of None \<Rightarrow> m
          | Some u \<Rightarrow> remove_key i (upsert resolved
              (add_context (case map_of m resolved of None \<Rightarrow> (0, 0) | Some v \<Rightarrow> v) u) m))"

definition observed_usage :: "row list \<Rightarrow> observed" where
  "observed_usage t = map (\<lambda>(k, rows). (k, total_of row_tokens rows, int (length rows))) (groups shown_model t)"

text \<open>
  The Go map \<open>observed\<close> is iterated in an arbitrary \<open>order\<close> of its keys, which the caller of the
  model chooses; the entries that the loop adds are those of catalog models, which it skips.
\<close>

definition CatalogSnapshot :: "catalog option \<Rightarrow> gostr list \<Rightarrow> row list \<Rightarrow> query_error + catalog_snapshot" where
  "CatalogSnapshot catalog order t =
    (case catalog of None \<Rightarrow> Inr \<lparr>sn_Models = [], sn_Uncataloged = [], sn_ObservedTokens = 0, sn_PricedTokens = 0\<rparr>
     | Some c \<Rightarrow>
        if \<not> list_all (\<lambda>(k, rows). fits row_tokens rows) (groups shown_model t) then Inl overflow
        else (let m = fold (fold_alias c) order (observed_usage t);
                  known = filter (\<lambda>(i, u). map_of (cat_Models c) i \<noteq> None) m;
                  unknown = filter (\<lambda>(i, u). map_of (cat_Models c) i = None) m
              in Inr \<lparr>sn_Models = map (\<lambda>i. let md = the (map_of (cat_Models c) i);
                          u = (case map_of m i of None \<Rightarrow> (0, 0) | Some v \<Rightarrow> v)
                        in \<lparr>ce_ID = i, ce_Model = md, ce_Tier = normalizeTier (md_Tier md), ce_UsageTokens = fst u, ce_UsageEvents = snd u,
                            ce_Context = (if 0 < snd u then ''Observed in usage'' else ''No usage observed'')\<rparr>)
                        (sort (remdups (keys_of (cat_Models c)))),
                      sn_Uncataloged = sort_key (\<lambda>(i, n, k). - n) unknown,
                      sn_ObservedTokens = fold (\<lambda>(i, u) n. i64_add n (fst u)) m 0,
                      sn_PricedTokens = fold (\<lambda>(i, u) n. i64_add n (fst u)) known 0\<rparr>))"

subsection \<open>A heartbeat on the dashboard\<close>

lemma fits_total: "fits f t \<Longrightarrow> sql_sum 0 (map f t) = Inr (total_of f t)"
  using sql_sum_exact[of 0 "map f t"] by (auto simp: fits_def split: sum.splits)

lemma set_sort_down [simp]: "set (sort_down f xs) = set xs"
  by (simp add: sort_down_def)

lemma distinct_map_sort_down [simp]: "distinct (map g (sort_down f xs)) = distinct (map g xs)"
  by (rule mset_eq_imp_distinct_iff) (simp add: sort_down_def)

lemma machineStatus_stored:
  assumes "in_years t"
  shows "machineStatus (rfc3339_nano t) now
    = (if now - t \<le> MachineConnectedWindow then ''Connected'' else if now - t \<le> MachineStaleWindow then ''Stale'' else ''Offline'')"
proof -
  have w: "is_i64 MachineConnectedWindow" "MachineConnectedWindow < max_i64" "is_i64 MachineStaleWindow" "MachineStaleWindow < max_i64"
    "0 \<le> MachineConnectedWindow"
    by (simp_all add: MachineConnectedWindow_def MachineStaleWindow_def minutes_def seconds_def nanos_per_second_def is_i64_def min_i64_def max_i64_def)
  show ?thesis
    using w time_sub_le[OF w(1,2)] time_sub_le[OF w(3,4)]
    by (auto simp: machineStatus_def timeParse_def parse_rfc3339_nano[OF assms] Let_def time_sub_neg)
qed

text \<open>What a heartbeat at time \<open>t\<close> makes of a machine on the dashboard at time \<open>now\<close>. Whatever
  the store before, the list of machines then has exactly one entry for the machine: last seen at
  \<open>t\<close>, with the reported counts, and Connected up to five minutes after the heartbeat, Stale up to
  thirty and Offline from then on, to the nanosecond and also when the clocks run backwards.\<close>

theorem heartbeat_then_machines:
  assumes "tables_ok st" and "RecordHeartbeat t st h = (st', None)" and "in_years t" and "MachinesAt z st' now = Inr infos"
  shows "distinct (map mi_ID infos) \<and> (\<exists>m \<in> set infos. mi_ID m = hb_MachineID h \<and> mi_LastSeenAt m = rfc3339_nano t
    \<and> mi_SourceCount m = hb_SourceCount h \<and> mi_SourceErrorCount m = hb_SourceErrorCount h
    \<and> mi_Status m = (if now - t \<le> MachineConnectedWindow then ''Connected''
        else if now - t \<le> MachineStaleWindow then ''Stale'' else ''Offline''))"
proof -
  have st': "st_machines st' = heartbeat_machine (rfc3339_nano t) h (st_machines st)"
    using assms(2) by (auto simp: RecordHeartbeat_def Let_def split: option.splits)
  define row where "row = heartbeat_row (rfc3339_nano t) h (find_by mc_id (hb_MachineID h) (st_machines st))"
  have "find_by mc_id (hb_MachineID h) (st_machines st') = Some row"
    unfolding st' row_def by (simp add: find_heartbeat_machine)
  then have row: "row \<in> set (st_machines st')" by (auto simp: find_by_def find_Some_iff)
  have "distinct (map mc_id (st_machines st))" using assms(1) by (simp add: tables_ok_def store_ok_def)
  then have dist: "distinct (map mc_id (st_machines st'))" unfolding st' by (rule heartbeat_machine_ids)
  obtain a b c where infos: "infos = map (machine_info_of now a b c st') (sort_down mc_last_seen_at (sort_key mc_id (st_machines st')))"
    using assms(4) by (auto simp: MachinesAt_def Let_def split: if_splits)
  have ids: "mi_ID (machine_info_of now a b c st' m) = mc_id m" for m by (simp add: machine_info_of_def Let_def)
  have "map mi_ID infos = map mc_id (sort_down mc_last_seen_at (sort_key mc_id (st_machines st')))"
    unfolding infos by (simp add: ids)
  then have "distinct (map mi_ID infos)" using dist by (simp del: list.map_comp map_map)
  moreover have "machine_info_of now a b c st' row \<in> set infos" unfolding infos using row by simp
  moreover have "mi_Status (machine_info_of now a b c st' row) = machineStatus (rfc3339_nano t) now"
    "mi_LastSeenAt (machine_info_of now a b c st' row) = rfc3339_nano t"
    "mi_SourceCount (machine_info_of now a b c st' row) = hb_SourceCount h"
    "mi_SourceErrorCount (machine_info_of now a b c st' row) = hb_SourceErrorCount h"
    by (simp_all add: machine_info_of_def row_def heartbeat_row_def Let_def)
  ultimately show ?thesis using ids[of row] machineStatus_stored[OF assms(3)] row_def by auto
qed

theorem heartbeat_then_machines_witness:
  "\<exists>infos. MachinesAt None (fst (RecordHeartbeat 1700000000500000000 empty_store sample_heartbeat)) 1700000400000000000 = Inr infos
    \<and> (\<exists>m \<in> set infos. mi_ID m = ''m'' \<and> mi_Status m = ''Stale'')"
proof -
  let ?st = "fst (RecordHeartbeat 1700000000500000000 empty_store sample_heartbeat)"
  have r: "RecordHeartbeat 1700000000500000000 empty_store sample_heartbeat = (?st, None)"
    using sample_heartbeat_accepted by (simp add: RecordHeartbeat_def Let_def)
  have "st_events ?st = []" using sample_heartbeat_accepted by (simp add: RecordHeartbeat_def Let_def empty_store_def)
  then obtain infos where i: "MachinesAt None ?st 1700000400000000000 = Inr infos" by (simp add: MachinesAt_def Let_def groups_def)
  show ?thesis
    using heartbeat_then_machines[OF empty_tables_ok r in_years_sample i] i
    by (auto simp: sample_heartbeat_def MachineConnectedWindow_def MachineStaleWindow_def minutes_def seconds_def nanos_per_second_def)
qed

subsection \<open>What a period counts\<close>

lemma div_less_mult: "0 < n \<Longrightarrow> t div n < m \<longleftrightarrow> t < m * (n :: int)"
proof
  assume n: "0 < n" and "t div n < m"
  then have "(t div n + 1) * n \<le> m * n" by (intro mult_right_mono) simp_all
  moreover have "(t div n + 1) * n = t div n * n + n" by (simp add: distrib_right)
  moreover have "t < t div n * n + n" using pos_mod_bound[OF n, of t] div_mult_mod_eq[of t n] by linarith
  ultimately show "t < m * n" by linarith
next
  assume n: "0 < n" and lt: "t < m * n"
  show "t div n < m"
  proof (rule ccontr)
    assume "\<not> t div n < m"
    then have "m * n \<le> t div n * n" using n by simp
    then show False using lt n pos_mod_sign[OF n, of t] div_mult_mod_eq[of t n] by linarith
  qed
qed

text \<open>A stored event against the window of a period: the window starts and ends a second late for
  events with a fraction of a second.\<close>

lemma in_window_stored:
  assumes "in_years t" "in_years start" "in_years until" "rw_timestamp r = rfc3339_nano t"
    "start mod nanos_per_second = 0" "until mod nanos_per_second = 0"
  shows "in_window start until r \<longleftrightarrow>
    (start = t \<or> start + nanos_per_second \<le> t) \<and> t < until + nanos_per_second \<and> t \<noteq> until"
proof -
  have u: "unix_seconds t < unix_seconds b \<or> (unix_seconds t = unix_seconds b \<and> t mod nanos_per_second \<noteq> 0)
      \<longleftrightarrow> t < b + nanos_per_second \<and> t \<noteq> b" if "b mod nanos_per_second = 0" for b
  proof -
    have n: "0 < nanos_per_second" by (simp add: nanos_per_second_def)
    define k where "k = unix_seconds b"
    have b: "b = k * nanos_per_second" using that div_mult_mod_eq[of b nanos_per_second] by (simp add: k_def unix_seconds_def)
    have "t < b + nanos_per_second \<longleftrightarrow> unix_seconds t < k + 1"
      unfolding unix_seconds_def b using div_less_mult[OF n, of t "k + 1"] by (simp add: distrib_right)
    moreover have "t = b \<longleftrightarrow> unix_seconds t = k \<and> t mod nanos_per_second = 0"
      unfolding unix_seconds_def b using n div_mult_mod_eq[of t nanos_per_second] by auto
    ultimately show ?thesis unfolding k_def[symmetric] by auto
  qed
  have "rfc3339 start \<le> rfc3339_nano t \<longleftrightarrow> \<not> (t < start + nanos_per_second \<and> t \<noteq> start)"
    using rfc3339_nano_boundary[OF assms(1,2)] u[OF assms(5)] by (simp add: not_less[symmetric])
  moreover have "rfc3339_nano t < rfc3339 until \<longleftrightarrow> t < until + nanos_per_second \<and> t \<noteq> until"
    using rfc3339_nano_boundary[OF assms(1,3)] u[OF assms(6)] by simp
  ultimately show ?thesis unfolding in_window_def assms(4) by auto
qed

subsection \<open>Groups add up\<close>

lemma sum_groups_over:
  "finite S \<Longrightarrow> key ` set t \<subseteq> S \<Longrightarrow> (\<Sum>k \<in> S. total_of f (filter (\<lambda>r. key r = k) t)) = total_of f t"
proof (induction t)
  case (Cons r t)
  have "(\<Sum>k \<in> S. total_of f (filter (\<lambda>x. key x = k) (r # t)))
      = (\<Sum>k \<in> S. (if key r = k then f r else 0) + total_of f (filter (\<lambda>x. key x = k) t))"
    by (rule sum.cong) simp_all
  also have "\<dots> = f r + total_of f t" using Cons by (simp add: sum.distrib)
  finally show ?case by simp
qed simp

lemma sum_list_groups: "(\<Sum>p \<leftarrow> groups key t. total_of f (snd p)) = total_of f t"
proof -
  have "(\<Sum>p \<leftarrow> groups key t. total_of f (snd p))
      = (\<Sum>k \<leftarrow> sorted_list_of_set (key ` set t). total_of f (filter (\<lambda>r. key r = k) t))"
    by (simp add: groups_def comp_def)
  also have "\<dots> = (\<Sum>k \<in> key ` set t. total_of f (filter (\<lambda>r. key r = k) t))"
    by (subst sum_list_distinct_conv_sum_set) simp_all
  finally show ?thesis using sum_groups_over[of "key ` set t" key t f] by simp
qed

lemma groups_mem: "(k, rows) \<in> set (groups key t) \<longleftrightarrow> k \<in> key ` set t \<and> rows = filter (\<lambda>r. key r = k) t"
  by (auto simp: groups_def)

lemma map_fst_groups: "map fst (groups key t) = sorted_list_of_set (key ` set t)"
  by (simp add: groups_def comp_def)

lemma sum_list_sort: "(\<Sum>x \<leftarrow> sort_key f xs. g x) = (\<Sum>x \<leftarrow> xs. (g x :: int))"
proof -
  have "mset (map g (sort_key f xs)) = mset (map g xs)" by simp
  then show ?thesis by (metis sum_mset_sum_list)
qed

subsection \<open>Folding aliases keeps the tokens\<close>

definition tokens_of :: "gostr \<Rightarrow> observed \<Rightarrow> i64" where
  "tokens_of i m = (case map_of m i of None \<Rightarrow> 0 | Some u \<Rightarrow> fst u)"

definition weight :: "(gostr \<Rightarrow> bool) \<Rightarrow> observed \<Rightarrow> int" where
  "weight P m = (\<Sum>p \<leftarrow> m. if P (fst p) then fst (snd p) else 0)"

lemma tokens_of_absent: "i \<notin> fst ` set m \<Longrightarrow> tokens_of i m = 0"
  by (simp add: tokens_of_def map_of_eq_None_iff[THEN iffD2])

lemma weight_upsert: "distinct (keys_of m) \<Longrightarrow> weight P (upsert k v m) = weight P m + (if P k then fst v - tokens_of k m else 0)"
  by (induction k v m rule: upsert.induct) (auto simp: weight_def tokens_of_def)

lemma weight_remove: "distinct (keys_of m) \<Longrightarrow> weight P (remove_key i m) = weight P m - (if P i then tokens_of i m else 0)"
proof (induction m)
  case (Cons p m)
  obtain k u where p: "p = (k, u)" by (cases p)
  show ?case
  proof (cases "k = i")
    case True
    then have "i \<notin> fst ` set m" using Cons.prems p by simp
    moreover from this have "remove_key i m = m" by (force simp: remove_key_def filter_id_conv)
    ultimately show ?thesis using p True by (auto simp: remove_key_def weight_def tokens_of_def)
  next
    case False
    then show ?thesis using Cons p by (auto simp: remove_key_def weight_def tokens_of_def)
  qed
qed (simp add: remove_key_def weight_def tokens_of_def)

definition catalogued :: "catalog \<Rightarrow> gostr \<Rightarrow> bool" where
  "catalogued c i \<longleftrightarrow> map_of (cat_Models c) i \<noteq> None \<or> Resolve (Some c) i \<noteq> None"

lemma wrap64_cong_add: "wrap64 (a + wrap64 b - d) = wrap64 (a + b - d)"
  using wrap64_add[of b "a - d"] by (simp add: algebra_simps)

lemma wrap64_eq: "wrap64 x = wrap64 y \<longleftrightarrow> 18446744073709551616 dvd x - y"
  by (simp add: wrap64_def mod_eq_dvd_iff)

lemma resolve_known: "Resolve (Some c) i = Some (j, md) \<Longrightarrow> map_of (cat_Models c) j = Some md"
  by (auto simp: Resolve_def split: option.splits)

lemma fold_alias_cases:
  obtains (keep) "fold_alias c i m = m" "map_of (cat_Models c) i \<noteq> None \<or> Resolve (Some c) i = None \<or> i \<notin> fst ` set m"
  | (fold) j u v where "fold_alias c i m = remove_key i (upsert j (add_context v u) m)" "i \<noteq> j"
      "map_of (cat_Models c) j \<noteq> None" "catalogued c i" "map_of m i = Some u" "fst v = tokens_of j m"
proof (cases "map_of (cat_Models c) i \<noteq> None \<or> Resolve (Some c) i = None \<or> i \<notin> fst ` set m")
  case True
  then have "fold_alias c i m = m"
    by (auto simp: fold_alias_def map_of_eq_None_iff[THEN iffD2] split: option.splits)
  then show thesis using True keep by blast
next
  case False
  then obtain j md u where r: "Resolve (Some c) i = Some (j, md)" "map_of m i = Some u"
    by (metis map_of_eq_None_iff option.exhaust surj_pair)
  have j: "map_of (cat_Models c) j = Some md" using resolve_known[OF r(1)] .
  then have "i \<noteq> j" "catalogued c i" using False by (auto simp: catalogued_def)
  moreover have "fold_alias c i m = remove_key i (upsert j (add_context (case map_of m j of None \<Rightarrow> (0, 0) | Some v \<Rightarrow> v) u) m)"
    using False r j by (simp add: fold_alias_def)
  moreover have "fst (case map_of m j of None \<Rightarrow> (0, 0) | Some v \<Rightarrow> v) = tokens_of j m"
    by (simp add: tokens_of_def split: option.split)
  ultimately show thesis using fold[of j] r(2) j by blast
qed

lemma fold_alias_weight:
  assumes "distinct (keys_of m)" "\<And>j. map_of (cat_Models c) j \<noteq> None \<Longrightarrow> P j" "\<And>j. catalogued c j \<Longrightarrow> P j"
  shows "wrap64 (weight P (fold_alias c i m)) = wrap64 (weight P m) \<and> distinct (keys_of (fold_alias c i m))"
proof (cases rule: fold_alias_cases[where c = c and i = i and m = m])
  case (fold j u v)
  have d: "distinct (keys_of (upsert j (add_context v u) m))" using assms(1) by simp
  have t: "tokens_of i (upsert j (add_context v u) m) = fst u" using fold(2,5) by (simp add: tokens_of_def)
  have "P i" "P j" using assms(2)[OF fold(3)] assms(3)[OF fold(4)] by blast+
  then have "weight P (fold_alias c i m) = weight P m + wrap64 (tokens_of j m + fst u) - (tokens_of j m + fst u)"
    unfolding fold(1) weight_remove[OF d] weight_upsert[OF assms(1)] t fold(6)[symmetric] by (simp add: add_context_def i64_add_def)
  then have "wrap64 (weight P (fold_alias c i m)) = wrap64 (weight P m)"
    by (simp only: wrap64_cong_add add_diff_cancel_right')
  then show ?thesis unfolding fold(1) using distinct_keys_remove_key[OF d] by simp
qed (use assms(1) in simp)

lemma fold_aliases:
  assumes "distinct (keys_of m)" "\<And>j. map_of (cat_Models c) j \<noteq> None \<Longrightarrow> P j" "\<And>j. catalogued c j \<Longrightarrow> P j"
  shows "wrap64 (weight P (fold (fold_alias c) order m)) = wrap64 (weight P m) \<and> distinct (keys_of (fold (fold_alias c) order m))"
  using assms(1)
proof (induction order arbitrary: m)
  case (Cons i order)
  then show ?case using fold_alias_weight[OF Cons.prems assms(2,3), where i = i] by simp
qed simp

text \<open>What is left after the loop is known or cannot be resolved.\<close>

lemma fold_alias_keys:
  assumes "k \<in> fst ` set (fold_alias c i m)"
  shows "map_of (cat_Models c) k \<noteq> None \<or> (k \<in> fst ` set m \<and> (k = i \<longrightarrow> \<not> catalogued c i))"
  using assms by (cases rule: fold_alias_cases[where c = c and i = i and m = m]) (auto simp: catalogued_def)

lemma fold_aliases_keys:
  assumes "k \<in> fst ` set (fold (fold_alias c) order m)" "map_of (cat_Models c) k = None"
  shows "k \<in> fst ` set m \<and> (k \<in> set order \<longrightarrow> \<not> catalogued c k)"
  using assms(1)
proof (induction order arbitrary: m)
  case (Cons i order)
  then have "k \<in> fst ` set (fold_alias c i m)" "k \<in> set order \<Longrightarrow> \<not> catalogued c k" by simp_all
  then show ?case using fold_alias_keys[of k c i m] assms(2) by auto
qed simp

lemma weight_observed: "weight P (observed_usage t) = total_of row_tokens (filter (\<lambda>r. P (shown_model r)) t)"
proof -
  have f: "total_of (\<lambda>r. if P (shown_model r) then row_tokens r else 0) rows = total_of row_tokens (filter (\<lambda>r. P (shown_model r)) rows)" for rows
    by (induction rows) simp_all
  have "(if P k then total_of row_tokens rows else 0) = total_of (\<lambda>r. if P (shown_model r) then row_tokens r else 0) rows"
    if "(k, rows) \<in> set (groups shown_model t)" for k rows
  proof -
    have "\<forall>r \<in> set rows. shown_model r = k" using that by (auto simp: groups_mem)
    then show ?thesis unfolding f by (cases "P k") (simp_all add: filter_id_conv filter_empty_conv)
  qed
  note g = this
  have "weight P (observed_usage t) = (\<Sum>p \<leftarrow> groups shown_model t. if P (fst p) then total_of row_tokens (snd p) else 0)"
    unfolding weight_def observed_usage_def map_map comp_def by (simp add: case_prod_unfold cong: if_cong)
  also have "\<dots> = (\<Sum>p \<leftarrow> groups shown_model t. total_of (\<lambda>r. if P (shown_model r) then row_tokens r else 0) (snd p))"
    by (intro arg_cong[of _ _ sum_list] map_cong refl) (use g in \<open>metis prod.collapse\<close>)
  also have "\<dots> = total_of (\<lambda>r. if P (shown_model r) then row_tokens r else 0) t" by (rule sum_list_groups)
  also have "\<dots> = total_of row_tokens (filter (\<lambda>r. P (shown_model r)) t)" by (rule f)
  finally show ?thesis .
qed

lemma fold_sum: "fold (\<lambda>(i, u) n. i64_add n (fst u)) m (wrap64 a) = wrap64 (a + weight (\<lambda>_. True) m)"
  by (induction m arbitrary: a) (auto simp: weight_def i64_add_def wrap64_add add.assoc)

lemma weight_filter: "weight (\<lambda>_. True) (filter (\<lambda>(i, u). P i) m) = weight P m"
  by (induction m) (auto simp: weight_def)

text \<open>C9: the catalog page neither loses nor counts twice a token, whatever the order in which the Go
  map of observed models is iterated while the loop inserts into it and deletes from it: the
  observed tokens are the sum over all events, the priced tokens the sum over the events whose
  model is in the catalog under its ID or an alias, and the uncataloged list holds the others
  (as 64-bit integers).\<close>

theorem CatalogSnapshot_conserves:
  assumes "CatalogSnapshot (Some c) order t = Inr s" and "shown_model ` set t \<subseteq> set order"
  shows "sn_ObservedTokens s = wrap64 (total_of row_tokens t)
    \<and> sn_PricedTokens s = wrap64 (total_of row_tokens (filter (\<lambda>r. catalogued c (shown_model r)) t))
    \<and> wrap64 (\<Sum>p \<leftarrow> sn_Uncataloged s. fst (snd p)) = wrap64 (total_of row_tokens (filter (\<lambda>r. \<not> catalogued c (shown_model r)) t))"
proof -
  define m where "m = fold (fold_alias c) order (observed_usage t)"
  let ?known = "\<lambda>i. map_of (cat_Models c) i \<noteq> None"
  have s: "sn_ObservedTokens s = fold (\<lambda>(i, u) n. i64_add n (fst u)) m 0"
    "sn_PricedTokens s = fold (\<lambda>(i, u) n. i64_add n (fst u)) (filter (\<lambda>(i, u). ?known i) m) 0"
    "sn_Uncataloged s = sort_key (\<lambda>(i, n, k). - n) (filter (\<lambda>(i, u). \<not> ?known i) m)"
    using assms(1) by (auto simp: CatalogSnapshot_def Let_def m_def split: if_splits)
  have ids: "map fst (observed_usage t) = map fst (groups shown_model t)" by (auto simp: observed_usage_def)
  have d0: "distinct (keys_of (observed_usage t))" unfolding ids by (simp add: map_fst_groups)
  have keys: "fst ` set (observed_usage t) = shown_model ` set t"
    using ids map_fst_groups[of shown_model t] by (metis finite_imageI finite_set list.set_map set_sorted_list_of_set)
  have all: "wrap64 (weight (\<lambda>_. True) m) = wrap64 (total_of row_tokens t)"
    using fold_aliases[OF d0, of c "\<lambda>_. True" order] weight_observed[of "\<lambda>_. True" t] by (simp add: m_def)
  have priced: "wrap64 (weight (catalogued c) m) = wrap64 (total_of row_tokens (filter (\<lambda>r. catalogued c (shown_model r)) t))"
    using fold_aliases[OF d0, of c "catalogued c" order] weight_observed[of "catalogued c" t] by (simp add: m_def catalogued_def)
  have rest: "?known k \<longleftrightarrow> catalogued c k" if "(k, u) \<in> set m" for k u
  proof (cases "?known k")
    case False
    have "k \<in> fst ` set m" using that by force
    then have "k \<in> shown_model ` set t" "k \<in> set order \<Longrightarrow> \<not> catalogued c k"
      using fold_aliases_keys[of k c order "observed_usage t"] False keys unfolding m_def by auto
    then show ?thesis using assms(2) False by blast
  qed (simp add: catalogued_def)
  have w: "weight ?known m = weight (catalogued c) m" "weight (\<lambda>i. \<not> ?known i) m = weight (\<lambda>i. \<not> catalogued c i) m"
    unfolding weight_def by (rule arg_cong[of _ _ sum_list], rule map_cong, simp, use rest in fastforce)+
  have split: "weight (\<lambda>i. \<not> catalogued c i) m = weight (\<lambda>_. True) m - weight (catalogued c) m" 
    by (induction m) (auto simp: weight_def)
  have sp: "total_of row_tokens (filter (\<lambda>r. \<not> catalogued c (shown_model r)) t)
      = total_of row_tokens t - total_of row_tokens (filter (\<lambda>r. catalogued c (shown_model r)) t)"
    by (induction t) auto
  have un: "(\<Sum>p \<leftarrow> sn_Uncataloged s. fst (snd p)) = weight (\<lambda>i. \<not> ?known i) m"
  proof -
    have "(\<Sum>p \<leftarrow> sn_Uncataloged s. fst (snd p)) = (\<Sum>p \<leftarrow> filter (\<lambda>(i, u). \<not> ?known i) m. fst (snd p))"
      unfolding s(3) by (rule sum_list_sort)
    then show ?thesis using weight_filter[of "\<lambda>i. \<not> ?known i" m] by (simp add: weight_def)
  qed
  have diff: "wrap64 (a - b) = wrap64 (a' - b')" if "wrap64 a = wrap64 a'" "wrap64 b = wrap64 b'" for a b a' b'
    using that dvd_diff[of 18446744073709551616 "a - a'" "b - b'"] unfolding wrap64_eq by (simp add: algebra_simps)
  have z: "wrap64 0 = 0" by (simp add: wrap64_def)
  have "sn_ObservedTokens s = wrap64 (total_of row_tokens t)"
    unfolding s(1) all[symmetric] using fold_sum[of m 0] by (simp only: z add_0)
  moreover have "sn_PricedTokens s = wrap64 (total_of row_tokens (filter (\<lambda>r. catalogued c (shown_model r)) t))"
    unfolding s(2) priced[symmetric] w(1)[symmetric] weight_filter[of ?known m, symmetric]
    using fold_sum[of "filter (\<lambda>(i, u). ?known i) m" 0] by (simp only: z add_0)
  moreover have "wrap64 (\<Sum>p \<leftarrow> sn_Uncataloged s. fst (snd p)) = wrap64 (total_of row_tokens (filter (\<lambda>r. \<not> catalogued c (shown_model r)) t))"
    unfolding un w(2) split sp by (rule diff[OF all priced])
  ultimately show ?thesis by blast
qed

text \<open>A catalog with one model, used under its ID, under an alias and beside an unknown model.\<close>

definition small_catalog :: catalog where
  "small_catalog = \<lparr>cat_Models = [(''a'', sample_model)], cat_Aliases = [(''a'', ''a''), (''b'', ''a'')]\<rparr>"

definition model_row :: "gostr \<Rightarrow> i64 \<Rightarrow> row" where
  "model_row i n = sample_row\<lparr>rw_canonical_model := [], rw_raw_model := i, rw_total := Some n\<rparr>"

lemma model_row_facts: "shown_model (model_row i n) = i" "row_tokens (model_row i n) = n"
  by (simp_all add: model_row_def shown_model_def row_tokens_def)

theorem CatalogSnapshot_conserves_witness:
  "\<exists>s. CatalogSnapshot (Some small_catalog) [''b'', ''x'', ''a''] [model_row ''a'' 3, model_row ''b'' 4, model_row ''x'' 5] = Inr s
    \<and> sn_ObservedTokens s = 12 \<and> sn_PricedTokens s = 7"
proof -
  let ?t = "[model_row ''a'' 3, model_row ''b'' 4, model_row ''x'' 5]"
  have "fits row_tokens rows" if "(k, rows) \<in> set (groups shown_model ?t)" for k rows
    using that by (auto simp: groups_mem model_row_facts fits_def is_i64_def min_i64_def max_i64_def)
  then have "list_all (\<lambda>(k, rows). fits row_tokens rows) (groups shown_model ?t)" by (auto simp: list_all_iff)
  then obtain s where s: "CatalogSnapshot (Some small_catalog) [''b'', ''x'', ''a''] ?t = Inr s"
    by (simp add: CatalogSnapshot_def Let_def)
  have "catalogued small_catalog ''a''" "catalogued small_catalog ''b''" "\<not> catalogued small_catalog ''x''"
    by (simp_all add: catalogued_def small_catalog_def Resolve_def)
  then show ?thesis
    using CatalogSnapshot_conserves[OF s] s by (simp add: model_row_facts is_i64_def min_i64_def max_i64_def)
qed

end
