(* ===== verification/Store_Overview.thy ===== *)
theory Store_Overview
  imports Store_Dashboard
begin

text \<open>
  \<open>Overview\<close>, \<open>TokenComposition\<close> and \<open>Evolution\<close> of \<open>internal/database/database.go\<close>. A sum of
  integers that leaves 64 bits fails its statement, also where SQLite would turn the overflowing
  addition of two counters of one row into a floating-point number that the scan then refuses.
\<close>

subsection \<open>Composition and evolution\<close>

record token_composition =
  tc_InputTokens :: i64
  tc_UncachedInputTokens :: i64
  tc_CachedInputTokens :: i64
  tc_OutputTokens :: i64
  tc_UnclassifiedTokens :: i64

definition input_tokens :: "row \<Rightarrow> i64" where "input_tokens r = or_zero (rw_input r)"
definition cache_tokens :: "row \<Rightarrow> i64" where "cache_tokens r = or_zero (rw_cache_read r) + or_zero (rw_cache_write r)"
definition output_tokens :: "row \<Rightarrow> i64" where "output_tokens r = or_zero (rw_output r)"
definition all_input_tokens :: "row \<Rightarrow> i64" where "all_input_tokens r = input_tokens r + cache_tokens r"
definition unclassified_tokens :: "row \<Rightarrow> i64" where
  "unclassified_tokens r = max 0 (row_tokens r - input_tokens r - cache_tokens r - output_tokens r)"

definition TokenComposition :: "row list \<Rightarrow> query_error + token_composition" where
  "TokenComposition t =
    (if list_all (\<lambda>f. fits f t) [all_input_tokens, input_tokens, cache_tokens, output_tokens, unclassified_tokens]
     then Inr \<lparr>tc_InputTokens = total_of all_input_tokens t, tc_UncachedInputTokens = total_of input_tokens t,
               tc_CachedInputTokens = total_of cache_tokens t, tc_OutputTokens = total_of output_tokens t,
               tc_UnclassifiedTokens = total_of unclassified_tokens t\<rparr>
     else Inl overflow)"

definition Evolution_of :: "row list \<Rightarrow> query_error + snapshot" where
  "Evolution_of t = (case LifetimeTokens t of Inl e \<Rightarrow> Inl (StoreFailed e) | Inr n \<Rightarrow> Inr (SnapshotFor n))"

subsection \<open>The overview\<close>

record model_total =
  mt_Model :: gostr
  mt_Sessions :: i64
  mt_Tokens :: i64
  mt_Cost :: f64

record project_total =
  pt_Project :: gostr
  pt_Tokens :: i64
  pt_Sessions :: i64
  pt_Machines :: i64

record cache_summary =
  ch_HitRate :: f64
  ch_CachedTokens :: i64
  ch_EligibleTokens :: i64

record overview =
  ov_LifetimeTokens :: i64
  ov_Timezone :: gostr
  ov_Today :: period_summary
  ov_Week :: period_summary
  ov_Evolution :: snapshot
  ov_Activity :: activity_heatmap
  ov_ByModel :: "model_total list"
  ov_ByTool :: "(gostr \<times> i64) list"
  ov_ByMachine :: "(gostr \<times> i64) list"
  ov_ByProject :: "project_total list"
  ov_EstimatedCost :: cost_summary
  ov_Cache :: cache_summary
  ov_Threads :: i64
  ov_Accuracy :: "(gostr \<times> i64) list"
  ov_NewestEvent :: "instant option"

text \<open>The key of a thread, \<open>NULL\<close> without a session.\<close>

definition thread_key :: "row \<Rightarrow> gostr option" where
  "thread_key r = (case rw_session_id r of None \<Rightarrow> None
    | Some s \<Rightarrow> if s = [] then None else Some (join_with [CHR 0x1F] [rw_machine_id r, rw_provider r, rw_tool r, s]))"

definition count_threads :: "row list \<Rightarrow> i64" where
  "count_threads t = int (length (remdups (filter (\<lambda>k. k \<noteq> None) (map thread_key t))))"

definition count_machines :: "row list \<Rightarrow> i64" where
  "count_machines t = int (length (remdups (map rw_machine_id t)))"

definition cache_known :: "row \<Rightarrow> bool" where "cache_known r \<longleftrightarrow> rw_input r \<noteq> None \<and> rw_cache_read r \<noteq> None"

definition cached_tokens :: "row \<Rightarrow> i64" where
  "cached_tokens r = (if cache_known r then or_zero (rw_cache_read r) else 0)"

definition eligible_tokens :: "row \<Rightarrow> i64" where
  "eligible_tokens r = (if cache_known r then input_tokens r + or_zero (rw_cache_read r) else 0)"

text \<open>\<open>SELECT key, SUM(total_tokens) ... GROUP BY key ORDER BY 2 DESC\<close>\<close>

definition token_groups :: "(row \<Rightarrow> gostr) \<Rightarrow> row list \<Rightarrow> (gostr \<times> row list) list" where
  "token_groups key t = sort_key (\<lambda>(k, rows). - total_of row_tokens rows) (groups key t)"

definition groups_fit :: "(row \<Rightarrow> gostr) \<Rightarrow> row list \<Rightarrow> bool" where
  "groups_fit key t \<longleftrightarrow> list_all (\<lambda>(k, rows). fits row_tokens rows) (groups key t)"

definition newest_event :: "row list \<Rightarrow> query_error + instant option" where
  "newest_event t =
    (case max_text (map rw_timestamp t) of
       None \<Rightarrow> Inr None
     | Some s \<Rightarrow> if s = [] then Inr None
         else (case parse_rfc3339 s of None \<Rightarrow> Inl (BadTimestamp s) | Some x \<Rightarrow> Inr (Some x)))"

text \<open>\<open>clock\<close> is the time when the calendar of the overview is computed, \<open>clock'\<close> when the heatmap is.\<close>

definition Overview ::
  "(f64 list \<Rightarrow> f64) \<Rightarrow> zone \<Rightarrow> gostr \<Rightarrow> instant \<Rightarrow> instant \<Rightarrow> row list \<Rightarrow> query_error + overview" where
  "Overview real_sum z timezone clock clock' t =
    (let loc = reportingLocation z; today = dateOnly z clock; tomorrow = add_days loc 1 today;
         weekStart = add_days loc (- weekday (local_day loc today)) today;
         cached = total_of cached_tokens t; eligible = total_of eligible_tokens t
     in if \<not> list_all (\<lambda>f. fits f t) [row_tokens, priced_tokens, unpriced_tokens, cached_tokens, eligible_tokens] then Inl overflow
     else case newest_event t of Inl e \<Rightarrow> Inl e
      | Inr newest \<Rightarrow>
     (case PeriodSummary real_sum z t today tomorrow of Inl e \<Rightarrow> Inl e
      | Inr day \<Rightarrow>
     (case PeriodSummary real_sum z t weekStart tomorrow of Inl e \<Rightarrow> Inl e
      | Inr week \<Rightarrow>
     (case Activity z t clock' of Inl e \<Rightarrow> Inl e
      | Inr activity \<Rightarrow>
     (if \<not> list_all (\<lambda>key. groups_fit key t) [shown_model, rw_tool, rw_machine_id, rw_project] then Inl overflow
      else Inr \<lparr>ov_LifetimeTokens = total_of row_tokens t, ov_Timezone = timezone, ov_Today = day, ov_Week = week,
        ov_Evolution = SnapshotFor (total_of row_tokens t), ov_Activity = activity,
        ov_ByModel = map (\<lambda>(k, rows). \<lparr>mt_Model = k, mt_Sessions = count_threads rows, mt_Tokens = total_of row_tokens rows,
            mt_Cost = cost_sum real_sum rows\<rparr>) (token_groups shown_model t),
        ov_ByTool = map (\<lambda>(k, rows). (k, total_of row_tokens rows)) (token_groups rw_tool t),
        ov_ByMachine = map (\<lambda>(k, rows). (k, total_of row_tokens rows)) (token_groups rw_machine_id t),
        ov_ByProject = map (\<lambda>(k, rows). \<lparr>pt_Project = k, pt_Tokens = total_of row_tokens rows, pt_Sessions = count_threads rows,
            pt_Machines = count_machines rows\<rparr>) (token_groups rw_project t),
        ov_EstimatedCost = \<lparr>cs_Amount = cost_sum real_sum t, cs_PricedTokens = total_of priced_tokens t,
            cs_UnpricedTokens = total_of unpriced_tokens t\<rparr>,
        ov_Cache = \<lparr>ch_HitRate = (if 0 < eligible then f64_div (f64_of_int cached) (f64_of_int eligible) else Fin 0),
            ch_CachedTokens = cached, ch_EligibleTokens = eligible\<rparr>,
        ov_Threads = count_threads t,
        ov_Accuracy = map (\<lambda>(k, rows). (k, int (length rows))) (groups rw_accuracy t),
        ov_NewestEvent = newest\<rparr>)))))"

subsection \<open>The overview adds up\<close>

lemma sum_token_groups: "(\<Sum>p \<leftarrow> token_groups key t. total_of f (snd p)) = total_of f t"
  by (simp add: token_groups_def sum_list_sort sum_list_groups)

lemma total_length: "(\<Sum>r \<leftarrow> t. 1) = int (length t)"
  by (induction t) simp_all

lemma priced_split: "total_of priced_tokens t + total_of unpriced_tokens t = total_of row_tokens t"
  by (induction t) (auto simp: priced_tokens_def unpriced_tokens_def)

text \<open>The overview adds up. Whenever it is returned, the tokens per model, per tool, per machine
  and per project each sum to the lifetime total, which is the exact sum over all events and what the
  evolution is computed from; the priced and the unpriced tokens split it; and the accuracy counts
  sum to the number of events.\<close>

theorem Overview_adds_up:
  assumes "Overview real_sum z timezone clock clock' t = Inr v"
  shows "ov_LifetimeTokens v = total_of row_tokens t
    \<and> (\<Sum>m \<leftarrow> ov_ByModel v. mt_Tokens m) = ov_LifetimeTokens v
    \<and> (\<Sum>p \<leftarrow> ov_ByTool v. snd p) = ov_LifetimeTokens v
    \<and> (\<Sum>p \<leftarrow> ov_ByMachine v. snd p) = ov_LifetimeTokens v
    \<and> (\<Sum>p \<leftarrow> ov_ByProject v. pt_Tokens p) = ov_LifetimeTokens v
    \<and> cs_PricedTokens (ov_EstimatedCost v) + cs_UnpricedTokens (ov_EstimatedCost v) = ov_LifetimeTokens v
    \<and> (\<Sum>p \<leftarrow> ov_Accuracy v. snd p) = int (length t)
    \<and> ov_Evolution v = SnapshotFor (ov_LifetimeTokens v)"
proof -
  note v = assms[unfolded Overview_def Let_def]
  have f: "ov_LifetimeTokens v = total_of row_tokens t" "ov_Evolution v = SnapshotFor (total_of row_tokens t)"
    "ov_ByModel v = map (\<lambda>(k, rows). \<lparr>mt_Model = k, mt_Sessions = count_threads rows, mt_Tokens = total_of row_tokens rows,
            mt_Cost = cost_sum real_sum rows\<rparr>) (token_groups shown_model t)"
    "ov_ByTool v = map (\<lambda>(k, rows). (k, total_of row_tokens rows)) (token_groups rw_tool t)"
    "ov_ByMachine v = map (\<lambda>(k, rows). (k, total_of row_tokens rows)) (token_groups rw_machine_id t)"
    "ov_ByProject v = map (\<lambda>(k, rows). \<lparr>pt_Project = k, pt_Tokens = total_of row_tokens rows, pt_Sessions = count_threads rows,
            pt_Machines = count_machines rows\<rparr>) (token_groups rw_project t)"
    "cs_PricedTokens (ov_EstimatedCost v) = total_of priced_tokens t" "cs_UnpricedTokens (ov_EstimatedCost v) = total_of unpriced_tokens t"
    "ov_Accuracy v = map (\<lambda>(k, rows). (k, int (length rows))) (groups rw_accuracy t)"
    using v by (auto split: if_splits sum.splits)
  show ?thesis
    unfolding f using sum_token_groups[of row_tokens] sum_list_groups[where f = "\<lambda>_. 1" and key = rw_accuracy and t = t]
    by (simp add: comp_def case_prod_unfold priced_split total_length)
qed

text \<open>Three small events.\<close>

definition overview_rows :: "row list" where
  "overview_rows = [model_row ''a'' 3, model_row ''b'' 4, model_row ''a'' 5]"

lemma fits_small:
  assumes "\<forall>r \<in> set t. 0 \<le> f r \<and> f r \<le> b" "int (length t) * b \<le> max_i64"
  shows "fits f t"
proof -
  have "total_of f t \<le> int (length t) * b" using assms(1) by (induction t) (auto simp: distrib_right)
  then have "sql_sum 0 (map f t) = Inr (0 + total_of f t)" using assms by (intro sql_sum_nonneg) auto
  then show ?thesis by (simp add: fits_def)
qed

lemma overview_rows_fit:
  assumes "set t \<subseteq> set overview_rows" "length t \<le> 3"
    "f \<in> {row_tokens, row_unknown, priced_tokens, unpriced_tokens, cached_tokens, eligible_tokens, \<lambda>r. or_zero (rw_input r), \<lambda>r. or_zero (rw_output r)}"
  shows "fits f t"
proof (rule fits_small[where b = 100])
  have "0 \<le> f r \<and> f r \<le> 100" if "r \<in> set overview_rows" for r
    using that assms(3) by (auto simp: overview_rows_def model_row_def sample_row_def usageEventArgs_def sample_event_def row_tokens_def
        row_unknown_def priced_tokens_def unpriced_tokens_def cached_tokens_def eligible_tokens_def cache_known_def input_tokens_def or_zero_def)
  then show "\<forall>r \<in> set t. 0 \<le> f r \<and> f r \<le> 100" using assms(1) by blast
  show "int (length t) * 100 \<le> max_i64" using assms(2) by (simp add: max_i64_def)
qed

definition exact_sum :: "f64 list \<Rightarrow> f64" where "exact_sum cs = foldr f64_add cs (Fin 0)"

lemma overview_returns: "\<exists>v. Overview real_sum None ''UTC'' clock clock' overview_rows = Inr v"
proof -
  have sub: "length (filter P overview_rows) \<le> 3" "set (filter P overview_rows) \<subseteq> set overview_rows" for P
    using length_filter_le[of P overview_rows] by (auto simp: overview_rows_def)
  note fit = overview_rows_fit[OF sub(2,1)]
  have stamp: "rw_timestamp r = rfc3339_nano 5" if "r \<in> set overview_rows" for r
    using that by (auto simp: overview_rows_def model_row_def sample_row_def usageEventArgs_def sample_event_def)
  have parse: "parse_rfc3339 (rfc3339_nano 5) = Some 5" by (rule parse_rfc3339_nano, rule in_years_1970) (simp_all add: nanos_per_second_def)
  have "map rw_timestamp overview_rows = replicate 3 (rfc3339_nano 5)"
    using stamp by (simp add: overview_rows_def numeral_eq_Suc)
  moreover have "rfc3339_nano 5 \<noteq> []" by (simp add: rfc3339_nano_def)
  ultimately have newest: "newest_event overview_rows = Inr (Some 5)"
    by (simp add: newest_event_def max_text_def numeral_eq_Suc parse)
  have period: "\<exists>p. PeriodSummary real_sum None overview_rows a b = Inr p" for a b
    by (auto simp: PeriodSummary_def Let_def intro!: fit)
  have "\<exists>days. DailyUsage None overview_rows a b = Inr days" for a b
    by (rule DailyUsage_total) (auto simp: stamp localDayBucket_agrees[OF parse])
  then have activity: "\<exists>h. Activity None overview_rows c = Inr h" for c
    unfolding Activity_def Let_def by (metis (no_types, lifting) old.sum.simps(6))
  have groups: "groups_fit key overview_rows" for key
    by (auto simp: groups_fit_def list_all_iff groups_mem intro!: fit)
  have all: "fits f overview_rows" if "f \<in> {row_tokens, priced_tokens, unpriced_tokens, cached_tokens, eligible_tokens}" for f
    using that by (intro overview_rows_fit) (auto simp: overview_rows_def)
  obtain p q h where "PeriodSummary real_sum None overview_rows (dateOnly None clock) (add_days (reportingLocation None) 1 (dateOnly None clock)) = Inr p"
    "PeriodSummary real_sum None overview_rows (add_days (reportingLocation None)
        (- weekday (local_day (reportingLocation None) (dateOnly None clock))) (dateOnly None clock))
      (add_days (reportingLocation None) 1 (dateOnly None clock)) = Inr q" "Activity None overview_rows clock' = Inr h"
    using period activity by metis
  then show ?thesis using all groups newest by (simp add: Overview_def Let_def)
qed

theorem Overview_adds_up_witness:
  "\<exists>v. Overview exact_sum None ''UTC'' 0 0 overview_rows = Inr v
    \<and> ov_LifetimeTokens v = 12 \<and> (\<Sum>m \<leftarrow> ov_ByModel v. mt_Tokens m) = 12"
proof -
  obtain v where v: "Overview exact_sum None ''UTC'' 0 0 overview_rows = Inr v" using overview_returns by blast
  then show ?thesis using Overview_adds_up[OF v] by (simp add: overview_rows_def model_row_facts)
qed

end
