(* ===== verification/Api_Hub.thy ===== *)
theory Api_Hub
  imports Agent_Client Api_Security Api_Cache Store_Heartbeat Store_Overview
begin

text \<open>
  The endpoints of the hub that the agents use, from \<open>internal/api/server.go\<close>: event batches,
  heartbeats and the health check, with the counters of \<open>internal/api/metrics.go\<close>, and the form that
  saves display aliases. A handler takes the hub and a request to the hub and the answer; log lines
  are left out. The caches of the hub are those of \<open>Api_Cache\<close>, whose log is the sequence of stores
  that ingestion has committed.
\<close>

subsection \<open>Metrics\<close>

type_synonym w64 = "64 word"

record metrics =
  mt_requestsTotal :: w64
  mt_requestFailures :: w64
  mt_ingestRequests :: w64
  mt_ingestAccepted :: w64
  mt_ingestDuplicates :: w64
  mt_ingestRejected :: w64
  mt_sourceErrors :: w64
  mt_dbOperations :: w64
  mt_dbLatencyNanos :: w64
  mt_dbLatencyMaxNanos :: w64

definition NewMetrics :: metrics where
  "NewMetrics = \<lparr>mt_requestsTotal = 0, mt_requestFailures = 0, mt_ingestRequests = 0, mt_ingestAccepted = 0,
     mt_ingestDuplicates = 0, mt_ingestRejected = 0, mt_sourceErrors = 0, mt_dbOperations = 0,
     mt_dbLatencyNanos = 0, mt_dbLatencyMaxNanos = 0\<rparr>"

record metrics_snapshot =
  mn_RequestsTotal :: w64
  mn_RequestFailures :: w64
  mn_IngestRequests :: w64
  mn_IngestAcceptedEvents :: w64
  mn_IngestDuplicates :: w64
  mn_IngestRejectedEvents :: w64
  mn_SourceErrors :: w64
  mn_StaleAgents :: nat
  mn_DBOperations :: w64
  mn_DBLatencyTotalMS :: w64
  mn_DBLatencyMaxMS :: w64

text \<open>\<open>time.Duration(nanos)\<close> is the signed reading of the counter; the quotient truncates.\<close>

definition latencyMilliseconds :: "w64 \<Rightarrow> w64" where
  "latencyMilliseconds nanos =
    (if nanos = 0 then 0
     else let milliseconds = word_of_int (go_div (sint nanos) 1000000) in if milliseconds = 0 then 1 else milliseconds)"

definition metrics_snapshot_of :: "metrics \<Rightarrow> metrics_snapshot" where
  "metrics_snapshot_of m =
    \<lparr>mn_RequestsTotal = mt_requestsTotal m, mn_RequestFailures = mt_requestFailures m,
     mn_IngestRequests = mt_ingestRequests m, mn_IngestAcceptedEvents = mt_ingestAccepted m,
     mn_IngestDuplicates = mt_ingestDuplicates m, mn_IngestRejectedEvents = mt_ingestRejected m,
     mn_SourceErrors = mt_sourceErrors m, mn_StaleAgents = 0, mn_DBOperations = mt_dbOperations m,
     mn_DBLatencyTotalMS = latencyMilliseconds (mt_dbLatencyNanos m),
     mn_DBLatencyMaxMS = latencyMilliseconds (mt_dbLatencyMaxNanos m)\<rparr>"

text \<open>\<open>observeDB\<close>: \<open>nanos\<close> is the time since the operation started. The loop of compare-and-swap leaves
  the larger value.\<close>

definition observeDB :: "w64 \<Rightarrow> metrics \<Rightarrow> metrics" where
  "observeDB nanos m = m\<lparr>mt_dbOperations := mt_dbOperations m + 1, mt_dbLatencyNanos := mt_dbLatencyNanos m + nanos,
     mt_dbLatencyMaxNanos := (if nanos \<le> mt_dbLatencyMaxNanos m then mt_dbLatencyMaxNanos m else nanos)\<rparr>"

subsection \<open>The hub\<close>

record ('p, 'q) hub =
  hu_store :: store
  hu_metrics :: metrics
  hu_evolution :: "(store, 'p) cache_server"
  hu_overview :: "(store, 'q) cache_server"

record hub_adapter =
  ha_ID :: gostr
  ha_Version :: gostr

record hub_source =
  hs_Adapter :: gostr
  hs_IdentityHash :: gostr
  hs_LastSuccessfulSync :: "instant option"
  hs_LastErrorClass :: gostr

record hub_heartbeat =
  hh_MachineID :: gostr
  hh_AgentVersion :: gostr
  hh_OperatingSystem :: gostr
  hh_Architecture :: gostr
  hh_Adapters :: "hub_adapter list"
  hh_SourceCount :: int
  hh_SourceErrorCount :: int
  hh_Sources :: "hub_source list option"

text \<open>
  What the handlers read besides the hub and the request: the configuration, the decoders and
  encoders, the price catalog, and the clocks (\<open>hv_validate i\<close> when event \<open>i\<close> is validated by the
  handler, \<open>hv_ingest i\<close> by the store; \<open>hv_elapsed\<close> how long the database took).
\<close>

record hub_env =
  hv_config :: config
  hv_ulow :: "nat \<Rightarrow> nat"
  hv_ufold :: "nat \<Rightarrow> nat"
  hv_batch :: "event list decoders"
  hv_heartbeat :: "hub_heartbeat decoders"
  hv_event :: "event \<Rightarrow> gostr option"
  hv_metadata :: "(gostr \<times> json) list \<Rightarrow> gostr option"
  hv_catalog :: "catalog option"
  hv_validate :: "nat \<Rightarrow> instant"
  hv_ingest :: "nat \<Rightarrow> instant"
  hv_now :: instant
  hv_elapsed :: w64

datatype answer_body = ErrorAnswer gostr | ResultAnswer ingest_result | StatusAnswer gostr | MetricsAnswer metrics_snapshot

type_synonym answer = "int \<times> answer_body"

definition maxBatchEvents :: nat where "maxBatchEvents = 1000"
definition maxBatchBodyBytes :: nat where "maxBatchBodyBytes = 4 * 2 ^ 20"
definition maxDecompressedBodyBytes :: nat where "maxDecompressedBodyBytes = 8 * 2 ^ 20"
definition maxHeartbeatBodyBytes :: nat where "maxHeartbeatBodyBytes = 2 ^ 20"

definition on_metrics :: "(metrics \<Rightarrow> metrics) \<Rightarrow> ('p, 'q) hub \<Rightarrow> ('p, 'q) hub" where
  "on_metrics f h = h\<lparr>hu_metrics := f (hu_metrics h)\<rparr>"

definition observed_db :: "hub_env \<Rightarrow> ('p, 'q) hub \<Rightarrow> ('p, 'q) hub" where
  "observed_db env = on_metrics (observeDB (hv_elapsed env))"

definition store_env :: "hub_env \<Rightarrow> ingest_env" where
  "store_env env = \<lparr>in_ulow = hv_ulow env, in_marshal = hv_metadata env, in_catalog = hv_catalog env, in_now = hv_ingest env\<rparr>"

subsection \<open>Event batches\<close>

definition rejectIngest :: "int \<Rightarrow> gostr \<Rightarrow> nat \<Rightarrow> ('p, 'q) hub \<Rightarrow> ('p, 'q) hub \<times> answer" where
  "rejectIngest status message n h =
    (on_metrics (\<lambda>m. m\<lparr>mt_ingestRejected := mt_ingestRejected m + of_nat (if n < 1 then 1 else n)\<rparr>) h,
     (status, ErrorAnswer message))"

definition body_status :: "body_error \<Rightarrow> int" where
  "body_status err = (if err = BodyTooLarge \<or> err = BodyRead then 413 else 400)"

text \<open>The index of the first event that the handler's own validation refuses.\<close>

fun first_invalid :: "hub_env \<Rightarrow> nat \<Rightarrow> event list \<Rightarrow> nat option" where
  "first_invalid env i [] = None"
| "first_invalid env i (e # es) =
    (if validateAt (hv_ulow env) (hv_metadata env) (hv_validate env i) e \<noteq> None then Some i
     else first_invalid env (Suc i) es)"

text \<open>The commit of the store, and the two invalidations that follow it.\<close>

definition committed :: "store \<Rightarrow> ('p, 'q) hub \<Rightarrow> ('p, 'q) hub" where
  "committed st h = h\<lparr>hu_store := st,
     hu_evolution := (hu_evolution h)\<lparr>sv_log := sv_log (hu_evolution h) @ [st], sv_unflushed := sv_unflushed (hu_evolution h) + 1\<rparr>,
     hu_overview := (hu_overview h)\<lparr>sv_log := sv_log (hu_overview h) @ [st], sv_unflushed := sv_unflushed (hu_overview h) + 1\<rparr>\<rparr>"

definition flushed :: "('b, 'p) cache_server \<Rightarrow> ('b, 'p) cache_server" where
  "flushed s = (cache_invalidate s)\<lparr>sv_unflushed := sv_unflushed s - 1\<rparr>"

definition invalidated :: "('p, 'q) hub \<Rightarrow> ('p, 'q) hub" where
  "invalidated h = h\<lparr>hu_evolution := flushed (hu_evolution h), hu_overview := flushed (hu_overview h)\<rparr>"

definition count_ingest :: "counters \<Rightarrow> metrics \<Rightarrow> metrics" where
  "count_ingest c m = m\<lparr>mt_ingestAccepted := mt_ingestAccepted m + of_nat (ct_Accepted c),
     mt_ingestDuplicates := mt_ingestDuplicates m + of_nat (ct_Duplicates c),
     mt_ingestRejected := mt_ingestRejected m + of_nat (ct_Rejected c)\<rparr>"

definition hub_ingest :: "hub_env \<Rightarrow> request \<Rightarrow> ('p, 'q) hub \<Rightarrow> ('p, 'q) hub \<times> answer" where
  "hub_ingest env r h0 =
    (let h = on_metrics (\<lambda>m. m\<lparr>mt_ingestRequests := mt_ingestRequests m + 1\<rparr>) h0 in
     if \<not> ingestAuthorized (hv_config env) r then rejectIngest 401 ''invalid ingest token'' 1 h
     else (case decodeJSONBody (hv_ufold env) (hv_batch env) r maxDecompressedBodyBytes of
       Inl err \<Rightarrow> rejectIngest (body_status err) ''invalid or oversized event batch'' 1 h
     | Inr events \<Rightarrow>
        if events = [] \<or> maxBatchEvents < length events
        then rejectIngest 400 ''event batch count is outside the permitted range'' (length events) h
        else if (case marshal_batch (hv_event env) events of None \<Rightarrow> True | Some w \<Rightarrow> maxBatchBodyBytes < length w)
        then rejectIngest 413 ''event batch is too large'' (length events) h
        else (case first_invalid env 0 events of
          Some i \<Rightarrow> rejectIngest 400 (''event '' @ int_str (int i + 1) @ '' is invalid'') (length events) h
        | None \<Rightarrow>
           (case Ingest (store_env env) (hu_store h) events of
              (st, Inl err) \<Rightarrow>
                (observed_db env (if st = hu_store h then h else committed st h),
                 (500, ErrorAnswer ''could not persist event batch''))
            | (st, Inr result) \<Rightarrow>
                (invalidated (on_metrics (count_ingest (ir_Counters result)) (observed_db env (committed st h))),
                 (200, ResultAnswer result))))))"

subsection \<open>Heartbeats\<close>

text \<open>The checks of the handler, in order; each failure is answered with status 400 and the text.\<close>

definition source_checks :: "instant \<Rightarrow> hub_source \<Rightarrow> gostr goerror list" where
  "source_checks now s =
    [fail_if (trim_space (hs_Adapter s) = [] \<or> 128 < rune_count (hs_Adapter s))
       ''source adapters must be non-empty and at most 128 characters'',
     fail_if (trim_space (hs_IdentityHash s) = [] \<or> 128 < rune_count (hs_IdentityHash s))
       ''source identity hashes must be non-empty and at most 128 characters'',
     fail_if (32 < length (hs_LastErrorClass s)) ''source error class is too long'',
     fail_if (case hs_LastSuccessfulSync s of None \<Rightarrow> False | Some t \<Rightarrow> minutes (24 * 60) < time_sub t now)
       ''source sync timestamp is too far in the future'']"

definition adapter_checks :: "hub_adapter \<Rightarrow> gostr goerror list" where
  "adapter_checks a =
    [fail_if (trim_space (ha_ID a) = [] \<or> 128 < rune_count (ha_ID a)) ''adapter IDs must be non-empty and at most 128 characters'',
     fail_if (64 < length (ha_Version a)) ''adapter version is too long'']"

definition heartbeat_checks :: "instant \<Rightarrow> hub_heartbeat \<Rightarrow> gostr goerror" where
  "heartbeat_checks now q = first_error (
    [fail_if (trim_space (hh_MachineID q) = []) ''machine_id is required'',
     fail_if (128 < length (hh_MachineID q)) ''machine_id is too long'',
     fail_if (64 < length (hh_AgentVersion q) \<or> 32 < length (hh_OperatingSystem q) \<or> 16 < length (hh_Architecture q))
       ''heartbeat metadata field is too long'',
     fail_if (hh_SourceCount q < 0 \<or> hh_SourceErrorCount q < 0) ''source counts cannot be negative'',
     fail_if (64 < length (hh_Adapters q)) ''too many adapters'',
     fail_if (case hh_Sources q of None \<Rightarrow> False | Some ss \<Rightarrow> 256 < length ss) ''too many sources'']
    @ concat (map (source_checks now) (case hh_Sources q of None \<Rightarrow> [] | Some ss \<Rightarrow> ss))
    @ concat (map adapter_checks (hh_Adapters q)))"

definition agent_heartbeat_of :: "hub_heartbeat \<Rightarrow> agent_heartbeat" where
  "agent_heartbeat_of q =
    \<lparr>hb_MachineID = hh_MachineID q, hb_AgentVersion = hh_AgentVersion q, hb_OperatingSystem = hh_OperatingSystem q,
     hb_Architecture = hh_Architecture q, hb_Adapters = map ha_ID (hh_Adapters q), hb_SourceCount = hh_SourceCount q,
     hb_SourceErrorCount = hh_SourceErrorCount q,
     hb_Sources = map_option (map (\<lambda>s. \<lparr>ah_Adapter = hs_Adapter s, ah_SourceHash = hs_IdentityHash s,
       ah_LastSuccessfulSync = hs_LastSuccessfulSync s, ah_LastErrorClass = hs_LastErrorClass s\<rparr>)) (hh_Sources q)\<rparr>"

definition hub_heartbeat_handler :: "hub_env \<Rightarrow> request \<Rightarrow> ('p, 'q) hub \<Rightarrow> ('p, 'q) hub \<times> answer" where
  "hub_heartbeat_handler env r h0 =
    (if \<not> ingestAuthorized (hv_config env) r then (h0, (401, ErrorAnswer ''invalid ingest token''))
     else (case decodeJSONBody (hv_ufold env) (hv_heartbeat env) r maxHeartbeatBodyBytes of
       Inl err \<Rightarrow> (h0, (body_status err, ErrorAnswer ''invalid or oversized heartbeat''))
     | Inr q \<Rightarrow>
        (case heartbeat_checks (hv_now env) q of
           Some message \<Rightarrow> (h0, (400, ErrorAnswer message))
         | None \<Rightarrow>
            (let h = on_metrics (\<lambda>m. m\<lparr>mt_sourceErrors := mt_sourceErrors m + word_of_int (hh_SourceErrorCount q)\<rparr>) h0 in
             case RecordHeartbeat (hv_now env) (hu_store h) (agent_heartbeat_of q) of
               (st, Some err) \<Rightarrow> (observed_db env (h\<lparr>hu_store := st\<rparr>), (500, ErrorAnswer ''could not persist heartbeat''))
             | (st, None) \<Rightarrow> (observed_db env (h\<lparr>hu_store := st\<rparr>), (200, StatusAnswer ''ok''))))))"

subsection \<open>Health and metrics\<close>

text \<open>\<open>ready\<close> is the answer of \<open>Store.Ready\<close>, a query of the constant 1.\<close>

definition hub_health :: "hub_env \<Rightarrow> bool \<Rightarrow> ('p, 'q) hub \<Rightarrow> ('p, 'q) hub \<times> answer" where
  "hub_health env ready h =
    (observed_db env h, if ready then (200, StatusAnswer ''ok'') else (503, StatusAnswer ''not_ready''))"

definition metricsHandler :: "hub_env \<Rightarrow> ('p, 'q) hub \<Rightarrow> ('p, 'q) hub \<times> answer" where
  "metricsHandler env h0 =
    (let stale = StaleAgents (hu_store h0) (hv_now env - cf_StaleAgentAfter (hv_config env));
         h = observed_db env h0
     in (h, (200, MetricsAnswer ((metrics_snapshot_of (hu_metrics h))\<lparr>mn_StaleAgents := stale\<rparr>))))"

text \<open>The logging wrapper counts every request, and the answers with a status of 500 or more.\<close>

definition requestLogging :: "(('p, 'q) hub \<Rightarrow> ('p, 'q) hub \<times> answer) \<Rightarrow> ('p, 'q) hub \<Rightarrow> ('p, 'q) hub \<times> answer" where
  "requestLogging handler h0 =
    (case handler (on_metrics (\<lambda>m. m\<lparr>mt_requestsTotal := mt_requestsTotal m + 1\<rparr>) h0) of
       (h, (status, body)) \<Rightarrow>
         (if 500 \<le> status then on_metrics (\<lambda>m. m\<lparr>mt_requestFailures := mt_requestFailures m + 1\<rparr>) h else h, (status, body)))"

subsection \<open>Saving aliases\<close>

fun save_aliases :: "instant \<Rightarrow> gostr \<Rightarrow> (gostr \<times> gostr) list \<Rightarrow> store \<Rightarrow> store \<times> alias_error goerror" where
  "save_aliases clock kind [] st = (st, None)"
| "save_aliases clock kind ((identity, name) # ps) st =
    (case SetDisplayAlias clock st kind identity name of
       (st', Some err) \<Rightarrow> (st', Some err)
     | (st', None) \<Rightarrow> save_aliases clock kind ps st')"

datatype form_error = LengthsDiffer gostr | AliasRefused alias_error

definition saveAliasGroup :: "instant \<Rightarrow> gostr \<Rightarrow> gostr list \<Rightarrow> gostr list \<Rightarrow> store \<Rightarrow> store \<times> form_error goerror" where
  "saveAliasGroup clock kind identities aliases st =
    (if length identities \<noteq> length aliases then (st, Some (LengthsDiffer kind))
     else map_prod id (map_option AliasRefused) (save_aliases clock kind (zip identities aliases) st))"

record settings_form =
  sf_csrf_token :: gostr
  sf_model_identity :: "gostr list"
  sf_model_alias :: "gostr list"
  sf_machine_identity :: "gostr list"
  sf_machine_alias :: "gostr list"

text \<open>
  \<open>saveSettings\<close>: \<open>form\<close> is the parsed body (\<open>None\<close> when parsing failed or it was over 1 MiB),
  \<open>secret\<close> the key of the CSRF tokens, \<open>url_parse\<close> the parser of \<open>Api_Security.sameOrigin\<close>.
\<close>

definition saveSettings ::
  "hub_env \<Rightarrow> (gostr \<Rightarrow> (gostr \<times> gostr) option) \<Rightarrow> gostr \<Rightarrow> request \<Rightarrow> settings_form option \<Rightarrow> ('p, 'q) hub
    \<Rightarrow> ('p, 'q) hub \<times> int" where
  "saveSettings env url_parse secret r form h =
    (case form of None \<Rightarrow> (h, 400)
     | Some f \<Rightarrow>
        if \<not> validSettingsOrigin (hv_ufold env) url_parse r \<or> \<not> validCSRFToken secret (sf_csrf_token f) then (h, 403)
        else (case saveAliasGroup (hv_now env) AliasKindModel (sf_model_identity f) (sf_model_alias f) (hu_store h) of
           (st, Some err) \<Rightarrow> (observed_db env (h\<lparr>hu_store := st\<rparr>), 400)
         | (st, None) \<Rightarrow>
            (case saveAliasGroup (hv_now env) AliasKindMachine (sf_machine_identity f) (sf_machine_alias f) st of
               (st', Some err) \<Rightarrow> (observed_db env (observed_db env (h\<lparr>hu_store := st'\<rparr>)), 400)
             | (st', None) \<Rightarrow> (observed_db env (observed_db env (h\<lparr>hu_store := st'\<rparr>)), 303))))"

subsection \<open>The store behind the handlers: lemmas\<close>

lemma ingest_event_tables:
  "ingest_event env (st, res) ie = Inr (st', res') \<Longrightarrow> st_health st' = st_health st \<and> st_aliases st' = st_aliases st"
  by (cases ie) (auto simp: ingest_event_def Let_def split: option.splits if_splits sum.splits prod.splits)

lemma ingest_loop_tables:
  "fold_err (ingest_event env) (st, res) ies = Inr (st', res') \<Longrightarrow> st_health st' = st_health st \<and> st_aliases st' = st_aliases st"
proof (induction ies arbitrary: st res)
  case (Cons ie ies)
  obtain st1 res1 where 1: "ingest_event env (st, res) ie = Inr (st1, res1)" "fold_err (ingest_event env) (st1, res1) ies = Inr (st', res')"
    using Cons.prems by (auto split: sum.splits)
  show ?case using Cons.IH[OF 1(2)] ingest_event_tables[OF 1(1)] by simp
qed simp

text \<open>\<open>Ingest\<close> on a valid store: the loop succeeds, and every event is counted once.\<close>

lemma Ingest_run:
  assumes "tables_ok st"
  shows "\<exists>st' res. tables_ok st' \<and> counted res = length events
    \<and> (Ingest env st events = (st, Inl IntegerOverflow) \<or> Ingest env st events = (st', Inl IntegerOverflow)
       \<or> (\<exists>r. Ingest env st events = (st', Inr r) \<and> ir_Counters r = res))"
proof -
  have s: "store_ok st" using assms by (simp add: tables_ok_def)
  have err: "err = IntegerOverflow" if "sql_sum acc vs = Inl err" for acc vs err
    using that by (induction acc vs rule: sql_sum.induct) (auto split: if_splits)
  obtain st' res where l: "fold_err (ingest_event env) (st, no_counts) (enumerate 0 events) = Inr (st', res)" "store_ok st'"
    "counted res = length events"
    using ingest_loop[OF s, of no_counts env "enumerate 0 events"] by (auto simp: no_counts_def counted_def)
  have "tables_ok st'" using assms l(2) ingest_loop_tables[OF l(1)] by (simp add: tables_ok_def)
  then show ?thesis
    using l err by (intro exI[of _ st'] exI[of _ res]) (auto simp: Ingest_def LifetimeTokens_def split: sum.splits)
qed

lemma RecordHeartbeat_tables_ok:
  assumes "tables_ok st"
  shows "tables_ok (fst (RecordHeartbeat clock st h))"
proof (cases "heartbeat_guards h")
  case None
  have ok: "store_ok st" "distinct (map mc_id (st_machines st))" "distinct (map health_key (st_health st))"
    using assms by (simp_all add: tables_ok_def store_ok_def)
  have "store_ok (st\<lparr>st_machines := heartbeat_machine n h (st_machines st), st_health := replace_health n h (st_health st)\<rparr>)" for n
    using ok(2) by (intro store_ok_machines ok(1) heartbeat_machine_ids) (auto simp: heartbeat_machine_ids)
  then show ?thesis
    using None assms replace_health_distinct[OF ok(3)] by (simp add: RecordHeartbeat_def Let_def tables_ok_def)
qed (use assms in \<open>simp add: RecordHeartbeat_def\<close>)

lemma source_checks_None:
  "(\<forall>c \<in> set (source_checks now s). c = None) \<Longrightarrow> trim_space (hs_Adapter s) \<noteq> [] \<and> trim_space (hs_IdentityHash s) \<noteq> []"
  by (simp add: source_checks_def ok_simps)

lemma heartbeat_checks_parts:
  assumes "heartbeat_checks now q = None"
  shows "trim_space (hh_MachineID q) \<noteq> []" "0 \<le> hh_SourceCount q" "0 \<le> hh_SourceErrorCount q"
    "\<And>ss s. hh_Sources q = Some ss \<Longrightarrow> s \<in> set ss \<Longrightarrow> \<forall>c \<in> set (source_checks now s). c = None"
    "\<And>ss. hh_Sources q = Some ss \<Longrightarrow> length ss \<le> 256"
  using assms unfolding heartbeat_checks_def first_error_None set_append ball_Un
  by (simp_all add: ok_simps)

lemma heartbeat_checks_guards:
  assumes "heartbeat_checks now q = None"
  shows "heartbeat_guards (agent_heartbeat_of q) = None"
proof (cases "hh_Sources q")
  case None
  then show ?thesis
    using heartbeat_checks_parts(1-3)[OF assms] by (simp add: heartbeat_guards_def agent_heartbeat_of_def ok_simps)
next
  case (Some ss)
  then have "\<not> list_ex source_incomplete (the (hb_Sources (agent_heartbeat_of q)))"
    using source_checks_None heartbeat_checks_parts(4)[OF assms Some]
    by (auto simp: list_ex_iff source_incomplete_def agent_heartbeat_of_def)
  then show ?thesis
    using Some heartbeat_checks_parts(1-3)[OF assms] by (simp add: heartbeat_guards_def agent_heartbeat_of_def ok_simps)
qed

lemma on_metrics_simps [simp]:
  "hu_store (on_metrics f h) = hu_store h" "hu_evolution (on_metrics f h) = hu_evolution h"
  "hu_overview (on_metrics f h) = hu_overview h" "hu_metrics (on_metrics f h) = f (hu_metrics h)"
  by (simp_all add: on_metrics_def)

lemma observed_db_simps [simp]:
  "hu_store (observed_db env h) = hu_store h" "hu_evolution (observed_db env h) = hu_evolution h"
  "hu_overview (observed_db env h) = hu_overview h"
  by (simp_all add: observed_db_def)

lemma committed_simps [simp]: "hu_store (committed st h) = st"
  by (simp add: committed_def)

lemma invalidated_simps [simp]:
  "hu_store (invalidated h) = hu_store h" "sv_cache (hu_evolution (invalidated h)) = None"
  "sv_cache (hu_overview (invalidated h)) = None"
  by (simp_all add: invalidated_def flushed_def cache_invalidate_def)

lemma first_invalid_None:
  "first_invalid env i es = None \<longleftrightarrow>
    (\<forall>(j, e) \<in> set (enumerate i es). validateAt (hv_ulow env) (hv_metadata env) (hv_validate env j) e = None)"
  by (induction env i es rule: first_invalid.induct) auto

text \<open>The caches see what the handler does to them as the steps of \<open>Api_Cache\<close>: a commit, then an invalidation.\<close>

lemma committed_invalidated_run:
  "cache_run qs (hu_evolution h) 2 (hu_evolution (invalidated (on_metrics f (observed_db env (committed st h)))))"
proof -
  let ?s = "hu_evolution h"
  let ?c = "?s\<lparr>sv_log := sv_log ?s @ [st], sv_unflushed := sv_unflushed ?s + 1\<rparr>"
  have 1: "cache_step qs ?s ?c" by (rule cache_step.commit)
  have 2: "cache_step qs ?c ((cache_invalidate ?c)\<lparr>sv_unflushed := sv_unflushed ?s\<rparr>)" by (rule cache_step.invalidate) simp
  have "hu_evolution (invalidated (on_metrics f (observed_db env (committed st h)))) = (cache_invalidate ?c)\<lparr>sv_unflushed := sv_unflushed ?s\<rparr>"
    by (simp add: invalidated_def flushed_def committed_def cache_invalidate_def)
  then show ?thesis
    using cache_run.more[OF cache_run.more[OF cache_run.none 1] 2] by (simp add: numeral_2_eq_2)
qed

subsection \<open>The contracts of the handlers\<close>

definition accepted_batch :: "hub_env \<Rightarrow> request \<Rightarrow> event list \<Rightarrow> bool" where
  "accepted_batch env r es \<longleftrightarrow> ingestAuthorized (hv_config env) r
    \<and> decodeJSONBody (hv_ufold env) (hv_batch env) r maxDecompressedBodyBytes = Inr es
    \<and> 1 \<le> length es \<and> length es \<le> 1000
    \<and> (case marshal_batch (hv_event env) es of None \<Rightarrow> False | Some w \<Rightarrow> length w \<le> 4 * 2 ^ 20)
    \<and> list_all (\<lambda>(i, e). validateAt (hv_ulow env) (hv_metadata env) (hv_validate env i) e = None) (enumerate 0 es)"

definition ingest_refusal :: "('p, 'q) hub \<Rightarrow> ('p, 'q) hub \<times> answer \<Rightarrow> bool" where
  "ingest_refusal h a \<longleftrightarrow> (\<exists>status message n. status \<in> {400, 401, 413} \<and> 1 \<le> n \<and> a =
    (h\<lparr>hu_metrics := (hu_metrics h)\<lparr>mt_ingestRequests := mt_ingestRequests (hu_metrics h) + 1,
        mt_ingestRejected := mt_ingestRejected (hu_metrics h) + of_nat n\<rparr>\<rparr>, (status, ErrorAnswer message)))"

lemma rejectIngest_refusal:
  "status \<in> {400, 401, 413} \<Longrightarrow>
    ingest_refusal h (rejectIngest status message k (on_metrics (\<lambda>m. m\<lparr>mt_ingestRequests := mt_ingestRequests m + 1\<rparr>) h))"
  unfolding ingest_refusal_def
  by (rule exI[of _ status], rule exI[of _ message], rule exI[of _ "if k < 1 then 1 else k"])
    (simp add: rejectIngest_def on_metrics_def)

lemma hub_ingest_refused:
  assumes "\<nexists>es. accepted_batch env r es"
  shows "ingest_refusal h (hub_ingest env r h)"
proof (cases "ingestAuthorized (hv_config env) r")
  case False
  then show ?thesis using rejectIngest_refusal[of 401 h] by (simp add: hub_ingest_def Let_def)
next
  case auth: True
  show ?thesis
  proof (cases "decodeJSONBody (hv_ufold env) (hv_batch env) r maxDecompressedBodyBytes")
    case (Inl err)
    then show ?thesis using auth rejectIngest_refusal[of "body_status err" h] by (simp add: hub_ingest_def Let_def body_status_def)
  next
    case (Inr es)
    let ?count = "es = [] \<or> maxBatchEvents < length es"
    let ?big = "case marshal_batch (hv_event env) es of None \<Rightarrow> True | Some w \<Rightarrow> maxBatchBodyBytes < length w"
    consider "?count" | "\<not> ?count" "?big" | i where "\<not> ?count" "\<not> ?big" "first_invalid env 0 es = Some i"
      | "\<not> ?count" "\<not> ?big" "first_invalid env 0 es = None"
      by (cases "first_invalid env 0 es") blast+
    then show ?thesis
    proof cases
      case 4
      then have "accepted_batch env r es"
        using auth Inr by (auto simp: accepted_batch_def maxBatchEvents_def maxBatchBodyBytes_def first_invalid_None
            list_all_iff Suc_le_eq split: option.splits)
      then show ?thesis using assms by blast
    qed (use auth Inr rejectIngest_refusal[of _ h] in \<open>simp_all add: hub_ingest_def Let_def cong: if_cong\<close>)
  qed
qed

lemma hub_ingest_accepted:
  assumes "accepted_batch env r es"
  shows "hub_ingest env r h =
    (let h1 = on_metrics (\<lambda>m. m\<lparr>mt_ingestRequests := mt_ingestRequests m + 1\<rparr>) h in
     case Ingest (store_env env) (hu_store h) es of
       (st, Inl err) \<Rightarrow> (observed_db env (if st = hu_store h then h1 else committed st h1), (500, ErrorAnswer ''could not persist event batch''))
     | (st, Inr result) \<Rightarrow> (invalidated (on_metrics (count_ingest (ir_Counters result)) (observed_db env (committed st h1))), (200, ResultAnswer result)))"
proof -
  have f: "first_invalid env 0 es = None" using assms by (simp add: accepted_batch_def first_invalid_None list_all_iff)
  have "\<not> (es = [] \<or> maxBatchEvents < length es)"
    "\<not> (case marshal_batch (hv_event env) es of None \<Rightarrow> True | Some w \<Rightarrow> maxBatchBodyBytes < length w)"
    using assms by (auto simp: accepted_batch_def maxBatchEvents_def maxBatchBodyBytes_def split: option.splits)
  then show ?thesis using assms f by (simp add: hub_ingest_def accepted_batch_def Let_def cong: if_cong)
qed

text \<open>C5: What a client can rely on when it posts a batch. The store stays valid. 200 means that the request
  was authorised, the body decoded to 1 to 1,000 events of at most 4 MiB all of which validate, the
  store now holds what \<open>Ingest\<close> makes of them, the answer counts every event once, and both response
  caches are empty; 500 only happens when the lifetime total of an accepted batch leaves 64 bits;
  any other answer is 400, 401 or 413, the batch was not acceptable, and the store and the caches are
  untouched.\<close>

theorem hub_ingest_contract:
  assumes "tables_ok (hu_store h)"
  shows "case hub_ingest env r h of (h', status, body) \<Rightarrow>
    tables_ok (hu_store h')
    \<and> (if status = 200 then
         (\<exists>es result. accepted_batch env r es \<and> body = ResultAnswer result
            \<and> Ingest (store_env env) (hu_store h) es = (hu_store h', Inr result)
            \<and> counted (ir_Counters result) = length es)
         \<and> sv_cache (hu_evolution h') = None \<and> sv_cache (hu_overview h') = None
       else if status = 500 then
         (\<exists>es. accepted_batch env r es \<and> snd (Ingest (store_env env) (hu_store h) es) = Inl IntegerOverflow)
       else status \<in> {400, 401, 413} \<and> (\<nexists>es. accepted_batch env r es)
         \<and> hu_store h' = hu_store h \<and> hu_evolution h' = hu_evolution h \<and> hu_overview h' = hu_overview h)"
proof (cases "\<exists>es. accepted_batch env r es")
  case True
  then obtain es where a: "accepted_batch env r es" by blast
  obtain st' res where i: "tables_ok st'" "counted res = length es"
    "Ingest (store_env env) (hu_store h) es = (hu_store h, Inl IntegerOverflow)
     \<or> Ingest (store_env env) (hu_store h) es = (st', Inl IntegerOverflow)
     \<or> (\<exists>r. Ingest (store_env env) (hu_store h) es = (st', Inr r) \<and> ir_Counters r = res)"
    using Ingest_run[OF assms, of es "store_env env"] by blast
  from i(3) consider (overflow) st where "Ingest (store_env env) (hu_store h) es = (st, Inl IntegerOverflow)" "tables_ok st"
    | (stored) result where "Ingest (store_env env) (hu_store h) es = (st', Inr result)" "ir_Counters result = res"
    using assms i(1) by blast
  then show ?thesis
  proof cases
    case overflow
    have "\<exists>es. accepted_batch env r es \<and> snd (Ingest (store_env env) (hu_store h) es) = Inl IntegerOverflow"
      using a overflow(1) by auto
    then show ?thesis using overflow assms by (auto simp: hub_ingest_accepted[OF a] Let_def)
  next
    case (stored result)
    then have "\<exists>es result'. accepted_batch env r es \<and> ResultAnswer result = ResultAnswer result'
        \<and> Ingest (store_env env) (hu_store h) es = (st', Inr result') \<and> counted (ir_Counters result') = length es"
      using a i(2) by blast
    then show ?thesis using stored i(1) by (simp add: hub_ingest_accepted[OF a] Let_def)
  qed
next
  case False
  from hub_ingest_refused[OF False, of h] show ?thesis
    using False assms unfolding ingest_refusal_def by auto
qed


subsection \<open>Examples\<close>

definition sample_hub_env :: hub_env where
  "sample_hub_env = \<lparr>hv_config = sample_config\<lparr>cf_IngestToken := ''t''\<rparr>, hv_ulow = (\<lambda>r. r), hv_ufold = (\<lambda>r. r),
     hv_batch = \<lparr>gz_open = (\<lambda>_. False), gz_read = (\<lambda>_ _ _. None), json_value = (\<lambda>b. Some ([sample_event], []))\<rparr>,
     hv_heartbeat = \<lparr>gz_open = (\<lambda>_. False), gz_read = (\<lambda>_ _ _. None), json_value = (\<lambda>b. Some
       (\<lparr>hh_MachineID = ''m'', hh_AgentVersion = [], hh_OperatingSystem = [], hh_Architecture = [], hh_Adapters = [],
         hh_SourceCount = 0, hh_SourceErrorCount = 0, hh_Sources = None\<rparr>, []))\<rparr>,
     hv_event = (\<lambda>e. Some (ev_EventID e)), hv_metadata = in_marshal sample_env, hv_catalog = None,
     hv_validate = in_now sample_env, hv_ingest = in_now sample_env, hv_now = 5, hv_elapsed = 1\<rparr>"

definition sample_post :: request where
  "sample_post = sample_request\<lparr>rq_Method := ''POST'', rq_Header := (\<lambda>_. [])(''Authorization'' := ''Bearer t''), rq_Body := ''{}''\<rparr>"

definition empty_hub :: "(unit, unit) hub" where
  "empty_hub = \<lparr>hu_store = empty_store, hu_metrics = NewMetrics, hu_evolution = cold, hu_overview = cold\<rparr>"

lemma sample_post_decoded:
  "1 < limit \<Longrightarrow> json_value d ''{}'' = Some (v, []) \<Longrightarrow> decodeJSONBody (\<lambda>r. r) d sample_post limit = Inr v"
  by (simp add: decodeJSONBody_def sample_post_def Let_def equal_fold_def raw_read_def maxCompressedBodyBytes_def str_eval
      del: runes.simps(2))

lemma sample_post_authorized: "ingestAuthorized (hv_config sample_hub_env) sample_post"
proof -
  have "bearerToken sample_post = Some ''t''"
    by (simp add: bearerToken_def sample_post_def Let_def has_prefix_def trim_prefix_def byte_def str_eval del: runes.simps(2))
  then show ?thesis
    by (simp add: ingestAuthorized_def validToken_def sample_hub_env_def sample_post_def constantTimeEqual_def Let_def)
qed

lemma empty_hub_ok: "tables_ok (hu_store empty_hub)"
  by (simp add: empty_hub_def empty_tables_ok)

lemma sample_batch_accepted: "accepted_batch sample_hub_env sample_post [sample_event]"
  using sample_post_authorized sample_validates sample_post_decoded[of maxDecompressedBodyBytes "hv_batch sample_hub_env" "[sample_event]"]
  by (simp add: accepted_batch_def sample_hub_env_def marshal_batch_def sample_env_def sample_event_def maxDecompressedBodyBytes_def)

lemma sample_store_env: "store_env sample_hub_env = sample_env"
  by (simp add: store_env_def sample_hub_env_def sample_env_def)

lemma sample_ingested: "\<exists>result. Ingest sample_env empty_store [sample_event] = (one_event_store, Inr result)"
proof -
  have "\<exists>res. ingest_event sample_env (empty_store, no_counts) (0, sample_event) = Inr (one_event_store, res)"
    by (simp add: ingest_event_cases[OF empty_store_ok] normalized_sample sample_validates sample_not_obsolete Let_def
        one_event_store_def)
  moreover have "rw_total (event_row sample_env sample_event) = Some 7"
    by (simp add: row_simps) (simp add: sample_event_def)
  moreover have "st_events empty_store = []" by (simp add: empty_store_def)
  ultimately show ?thesis
    using one_event_rows by (auto simp: Ingest_def LifetimeTokens_def row_totals_def is_i64_def min_i64_def max_i64_def)
qed

theorem hub_ingest_contract_witness:
  "fst (snd (hub_ingest sample_hub_env sample_post empty_hub)) = 200
    \<and> tables_ok (hu_store (fst (hub_ingest sample_hub_env sample_post empty_hub)))"
proof -
  obtain result where "Ingest (store_env sample_hub_env) (hu_store empty_hub) [sample_event] = (one_event_store, Inr result)"
    using sample_ingested unfolding sample_store_env by (auto simp: empty_hub_def)
  then have "fst (snd (hub_ingest sample_hub_env sample_post empty_hub)) = 200"
    by (simp add: hub_ingest_accepted[OF sample_batch_accepted] Let_def)
  then show ?thesis using hub_ingest_contract[OF empty_hub_ok, of sample_hub_env sample_post] by (auto split: prod.splits)
qed


end
