(* ===== verification/Agent_Hub.thy ===== *)
theory Agent_Hub
  imports Agent_Pass Api_Hub
begin

text \<open>
  Agents and the hub together: the network of \<open>Agent_Client\<close> is the model of the hub in \<open>Api_Hub\<close>.
  What the two sides rely on of \<open>encoding/json\<close> are the named hypotheses \<open>wired\<close> and \<open>carries\<close>.
\<close>

text \<open>
  How requests reach the hub: its address, what it sees of the connection, the environment of the
  request (which may depend on the hub, as clocks do), and the encoder of its answers.
\<close>

record ('p, 'q) link =
  lk_base :: gostr
  lk_remote :: gostr
  lk_host :: gostr
  lk_tls :: bool
  lk_env :: "('p, 'q) hub \<Rightarrow> hub_env"
  lk_ready :: "('p, 'q) hub \<Rightarrow> bool"
  lk_status :: "int \<Rightarrow> gostr"
  lk_encode :: "answer_body \<Rightarrow> gostr"

definition hub_request :: "('p, 'q) link \<Rightarrow> outgoing \<Rightarrow> request" where
  "hub_request lk og = \<lparr>rq_Method = og_Method og, rq_RemoteAddr = lk_remote lk, rq_Host = lk_host lk, rq_TLS = lk_tls lk,
     rq_Header = og_Header og, rq_Body = og_Body og\<rparr>"

definition reply_of :: "('p, 'q) link \<Rightarrow> ('p, 'q) hub \<times> answer \<Rightarrow> ('p, 'q) hub \<times> (go_err + reply)" where
  "reply_of lk ha = (case ha of (h, (status, body)) \<Rightarrow>
    (h, Inr \<lparr>re_StatusCode = status, re_Status = lk_status lk status, re_Body = lk_encode lk body\<rparr>))"

text \<open>The endpoints that the agent uses; a request to any other address is lost.\<close>

definition hub_Do :: "('p, 'q) link \<Rightarrow> outgoing \<Rightarrow> ('p, 'q) hub \<Rightarrow> ('p, 'q) hub \<times> (go_err + reply)" where
  "hub_Do lk og h =
    (let env = lk_env lk h; r = hub_request lk og in
     if og_Method og = ''POST'' \<and> og_URL og = lk_base lk @ ''/api/v1/events/batch''
     then reply_of lk (requestLogging (hub_ingest env r) h)
     else if og_Method og = ''POST'' \<and> og_URL og = lk_base lk @ ''/api/v1/agents/heartbeat''
     then reply_of lk (requestLogging (hub_heartbeat_handler env r) h)
     else if og_Method og = ''GET'' \<and> og_URL og = lk_base lk @ ''/healthz''
     then reply_of lk (requestLogging (hub_health env (lk_ready lk h)) h)
     else (h, Inl []))"

text \<open>The client talks to this hub, and what it reads as a result is what the hub wrote.\<close>

definition wired :: "('p, 'q) link \<Rightarrow> ('p, 'q) hub peer \<Rightarrow> client \<Rightarrow> bool" where
  "wired lk p c \<longleftrightarrow> pe_Do p = hub_Do lk \<and> trim_slashes (cl_ServerURL c) = lk_base lk
    \<and> (\<forall>result. pe_result p (lk_encode lk (ResultAnswer result)) \<in> {None, Some result})"

text \<open>A batch arrives as it was sent.\<close>

definition carries :: "('p, 'q) link \<Rightarrow> ('p, 'q) hub peer \<Rightarrow> event list \<Rightarrow> bool" where
  "carries lk p es \<longleftrightarrow> (\<forall>w h. marshal_batch (pe_event p) es = Some w \<longrightarrow> json_value (hv_batch (lk_env lk h)) w = Some (es, []))"

text \<open>The heartbeat as the hub decodes it: without the capabilities, and with a list of sources.\<close>

definition hub_heartbeat_of :: "heartbeat_request \<Rightarrow> hub_heartbeat" where
  "hub_heartbeat_of q =
    \<lparr>hh_MachineID = hq_MachineID q, hh_AgentVersion = hq_AgentVersion q, hh_OperatingSystem = hq_OperatingSystem q,
     hh_Architecture = hq_Architecture q,
     hh_Adapters = map (\<lambda>a. \<lparr>ha_ID = ab_ID a, ha_Version = ab_Version a\<rparr>) (hq_Adapters q),
     hh_SourceCount = hq_SourceCount q, hh_SourceErrorCount = hq_SourceErrorCount q,
     hh_Sources = Some (map (\<lambda>s. \<lparr>hs_Adapter = sh_Adapter s, hs_IdentityHash = sh_IdentityHash s,
       hs_LastSuccessfulSync = sh_LastSuccessfulSync s, hs_LastErrorClass = sh_LastErrorClass s\<rparr>) (hq_Sources q))\<rparr>"

definition carries_heartbeat :: "('p, 'q) link \<Rightarrow> ('p, 'q) hub peer \<Rightarrow> heartbeat_request \<Rightarrow> bool" where
  "carries_heartbeat lk p q \<longleftrightarrow> (\<forall>w h. pe_heartbeat p q = Some w \<longrightarrow> json_value (hv_heartbeat (lk_env lk h)) w = Some (hub_heartbeat_of q, []))"

subsection \<open>Requests to the hub: lemmas\<close>

lemma requestLogging_frame [simp]:
  "hu_store (fst (requestLogging f h)) = hu_store (fst (f (on_metrics (\<lambda>m. m\<lparr>mt_requestsTotal := mt_requestsTotal m + 1\<rparr>) h)))"
  "snd (requestLogging f h) = snd (f (on_metrics (\<lambda>m. m\<lparr>mt_requestsTotal := mt_requestsTotal m + 1\<rparr>) h))"
  by (simp_all add: requestLogging_def split: prod.split)

lemma decode_plain:
  assumes "decodeJSONBody ufold d r limit = Inr v" "json_value d (rq_Body r) = Some (v', [])" "rq_Header r ''Content-Encoding'' = []"
  shows "v = v'"
proof -
  have g: "\<not> equal_fold ufold [] ''gzip''" by (simp add: equal_fold_def str_eval del: runes.simps(2))
  have "raw_read (take maxCompressedBodyBytes (rq_Body r)) (maxCompressedBodyBytes < length (rq_Body r)) (limit + 1) = Some b
    \<Longrightarrow> length b \<le> limit \<Longrightarrow> b = rq_Body r" for b
    by (auto simp: raw_read_def min_def split: if_splits)
  then show ?thesis using assms g by (auto simp: decodeJSONBody_def Let_def not_less split: if_splits option.splits)
qed

lemma decode_short:
  assumes "rq_Header r ''Content-Encoding'' = []" "length (rq_Body r) \<le> limit" "limit < maxCompressedBodyBytes"
    "json_value d (rq_Body r) = Some (v, [])"
  shows "decodeJSONBody ufold d r limit = Inr v"
proof -
  have "\<not> equal_fold ufold [] ''gzip''" by (simp add: equal_fold_def str_eval del: runes.simps(2))
  then show ?thesis using assms by (simp add: decodeJSONBody_def Let_def raw_read_def)
qed

lemma post_request_fields [simp]:
  "og_Method (post_request c path w) = ''POST''" "og_Body (post_request c path w) = w"
  "og_URL (post_request c path w) = trim_slashes (cl_ServerURL c) @ path"
  "og_Header (post_request c path w) ''Content-Encoding'' = []"
  by (simp_all add: post_request_def bearer_def)

lemma hub_Do_batch:
  "trim_slashes (cl_ServerURL c) = lk_base lk \<Longrightarrow>
    hub_Do lk (post_request c ''/api/v1/events/batch'' w) h =
      reply_of lk (requestLogging (hub_ingest (lk_env lk h) (hub_request lk (post_request c ''/api/v1/events/batch'' w))) h)"
  by (simp add: hub_Do_def Let_def)

lemma hub_Do_heartbeat:
  "trim_slashes (cl_ServerURL c) = lk_base lk \<Longrightarrow>
    hub_Do lk (post_request c ''/api/v1/agents/heartbeat'' w) h =
      reply_of lk (requestLogging (hub_heartbeat_handler (lk_env lk h) (hub_request lk (post_request c ''/api/v1/agents/heartbeat'' w))) h)"
  by (simp add: hub_Do_def Let_def)

lemma Ingest_totals:
  "Ingest env st es = (st', Inr r) \<Longrightarrow> ir_PreviousTotal r = sum_list (row_totals (st_events st))
    \<and> ir_CurrentTotal r = sum_list (row_totals (st_events st'))"
  by (auto simp: Ingest_def LifetimeTokens_def dest!: sql_sum_exact split: sum.splits)

text \<open>A batch that is answered with a result was accepted by the hub, as it was sent.\<close>

lemma ingestBatch_accepted:
  fixes lk :: "('p, 'q) link"
  assumes "wired lk p c" "carries lk p b" "ingestBatch p c b h = (h', Inr result)"
  obtains r and h1 :: "('p, 'q) hub" and status body where "accepted_batch (lk_env lk h) r b" "hu_store h1 = hu_store h"
    "snd (hub_ingest (lk_env lk h) r h1) = (status, body)" "status < 300"
    "hu_store h' = hu_store (fst (hub_ingest (lk_env lk h) r h1))" "pe_result p (lk_encode lk body) = Some result"
proof -
  let ?path = "''/api/v1/events/batch''"
  obtain w where w: "marshal_batch (pe_event p) b = Some w"
    using assms(3) by (cases "marshal_batch (pe_event p) b") (simp_all add: ingestBatch_def postJSON_def split: if_splits)
  let ?r = "hub_request lk (post_request c ?path w)"
  let ?env = "lk_env lk h"
  let ?h1 = "on_metrics (\<lambda>m. m\<lparr>mt_requestsTotal := mt_requestsTotal m + 1\<rparr>) h"
  obtain h2 status body where d: "requestLogging (hub_ingest ?env ?r) h = (h2, (status, body))" by (metis prod.collapse)
  have do: "pe_Do p (post_request c ?path w) h = (h2, Inr \<lparr>re_StatusCode = status, re_Status = lk_status lk status, re_Body = lk_encode lk body\<rparr>)"
    using assms(1) hub_Do_batch[of c lk w h] by (simp add: wired_def d reply_of_def)
  have ok: "200 \<le> status" "status < 300" "h' = h2" "pe_result p (lk_encode lk body) = Some result"
    using assms(3) do by (auto simp: ingestBatch_def postJSON_def w exchange_def split: if_splits option.splits)
  have answer: "snd (hub_ingest ?env ?r ?h1) = (status, body)" "hu_store h2 = hu_store (fst (hub_ingest ?env ?r ?h1))"
    using requestLogging_frame[of "hub_ingest ?env ?r" h] by (simp_all add: d)
  have "\<exists>es. accepted_batch ?env ?r es"
  proof (rule ccontr)
    assume "\<nexists>es. accepted_batch ?env ?r es"
    from hub_ingest_refused[OF this, of ?h1] show False using answer(1) ok(2) by (auto simp: ingest_refusal_def)
  qed
  then obtain es where a: "accepted_batch ?env ?r es" by blast
  have "es = b"
    using a assms(2) w by (intro decode_plain[of "hv_ufold ?env" "hv_batch ?env" ?r maxDecompressedBodyBytes])
      (auto simp: accepted_batch_def carries_def hub_request_def)
  then show ?thesis using that[of ?r ?h1 status body] a answer ok by simp
qed

text \<open>It was ingested, too.\<close>

lemma ingestBatch_hub:
  fixes lk :: "('p, 'q) link"
  assumes "wired lk p c" "carries lk p b" "tables_ok (hu_store h)" "ingestBatch p c b h = (h', Inr result)"
  shows "\<exists>env. Ingest env (hu_store h) b = (hu_store h', Inr result)"
    "tables_ok (hu_store h')" "counted (ir_Counters result) = length b"
proof -
  let ?env = "lk_env lk h"
  obtain r and h1 :: "('p, 'q) hub" and status body where a: "accepted_batch ?env r b" and s1: "hu_store h1 = hu_store h"
    and ans: "snd (hub_ingest ?env r h1) = (status, body)" "status < 300"
    "hu_store h' = hu_store (fst (hub_ingest ?env r h1))" "pe_result p (lk_encode lk body) = Some result"
    by (rule ingestBatch_accepted[OF assms(1,2,4)])
  obtain st' res where i: "tables_ok st'" "counted res = length b"
    "Ingest (store_env ?env) (hu_store h) b = (hu_store h, Inl IntegerOverflow)
     \<or> Ingest (store_env ?env) (hu_store h) b = (st', Inl IntegerOverflow)
     \<or> (\<exists>r. Ingest (store_env ?env) (hu_store h) b = (st', Inr r) \<and> ir_Counters r = res)"
    using Ingest_run[OF assms(3), of b "store_env ?env"] by blast
  from i(3) obtain v where v: "Ingest (store_env ?env) (hu_store h) b = (st', Inr v)" "ir_Counters v = res"
    using ans(1,2) by (auto simp: hub_ingest_accepted[OF a] Let_def s1)
  then have "body = ResultAnswer v" "hu_store h' = st'" using ans by (auto simp: hub_ingest_accepted[OF a] Let_def s1)
  moreover from this have "v = result" using ans(4) assms(1) by (auto simp: wired_def) (metis empty_iff insert_iff option.distinct(1) option.inject)
  ultimately show "\<exists>env. Ingest env (hu_store h) b = (hu_store h', Inr result)" "tables_ok (hu_store h')"
    "counted (ir_Counters result) = length b"
    using v i(1,2) by auto
qed

definition hub_total :: "('p, 'q) hub \<Rightarrow> i64" where
  "hub_total h = sum_list (row_totals (st_events (hu_store h)))"

lemma counted_combine: "counted (ir_Counters (combine k a r)) = counted (ir_Counters a) + counted (ir_Counters r)"
  by (simp add: combine_def add_counts_def counted_def)

lemma ingest_batches_hub:
  assumes "wired lk p c" "list_all (carries lk p) bs" "tables_ok (hu_store h)"
    "ingest_batches p c k combined bs h = (h', Inr result)"
  shows "tables_ok (hu_store h') \<and> counted (ir_Counters result) = counted (ir_Counters combined) + length (concat bs)
    \<and> (bs = [] \<longrightarrow> h' = h \<and> result = combined)
    \<and> (bs \<noteq> [] \<longrightarrow> ir_CurrentTotal result = hub_total h'
        \<and> ir_PreviousTotal result = (if k = 0 then hub_total h else ir_PreviousTotal combined))"
  using assms(2-4)
proof (induction bs arbitrary: k combined h)
  case (Cons b bs)
  obtain h1 r where b: "ingestBatch p c b h = (h1, Inr r)" "ingest_batches p c (Suc k) (combine k combined r) bs h1 = (h', Inr result)"
    using Cons.prems(3) by (auto split: prod.splits sum.splits)
  have cb: "carries lk p b" using Cons.prems(1) by simp
  note i = ingestBatch_hub[OF assms(1) cb Cons.prems(2) b(1)]
  from i(1) have t: "ir_PreviousTotal r = hub_total h" "ir_CurrentTotal r = hub_total h1"
    using Ingest_totals unfolding hub_total_def by blast+
  have "ir_PreviousTotal (combine k combined r) = (if k = 0 then hub_total h else ir_PreviousTotal combined)"
    "ir_CurrentTotal (combine k combined r) = hub_total h1"
    using t by (simp_all add: combine_def)
  then show ?case using Cons.IH[OF _ i(2) b(2)] Cons.prems(1) i(3) by (cases bs) (auto simp: counted_combine)
qed simp

subsection \<open>The hub stays valid whatever its agents do\<close>

lemma hub_ingest_tables_ok:
  assumes "tables_ok (hu_store h)"
  shows "tables_ok (hu_store (fst (hub_ingest env r h)))"
proof (cases "\<exists>es. accepted_batch env r es")
  case True
  then obtain es where a: "accepted_batch env r es" by blast
  show ?thesis
    using Ingest_run[OF assms, of es "store_env env"] assms by (auto simp: hub_ingest_accepted[OF a] Let_def)
next
  case False
  from hub_ingest_refused[OF this, of h] show ?thesis using assms by (auto simp: ingest_refusal_def)
qed

lemma hub_heartbeat_tables_ok:
  assumes "tables_ok (hu_store h)"
  shows "tables_ok (hu_store (fst (hub_heartbeat_handler env r h)))"
  using RecordHeartbeat_tables_ok[OF assms, of "hv_now env"] assms
  by (auto simp: hub_heartbeat_handler_def Let_def split: sum.split option.split prod.split) (metis fst_conv)+

definition hub_peer :: "('p, 'q) link \<Rightarrow> ('p, 'q) hub peer \<Rightarrow> ('p, 'q) hub peer" where
  "hub_peer lk p = p\<lparr>pe_Do := hub_Do lk\<rparr>"

lemma wired_peer: "wired lk p c \<Longrightarrow> hub_peer lk p = p"
  by (simp add: hub_peer_def wired_def)

lemma reply_of_hub [simp]: "fst (reply_of lk ha) = fst ha"
  by (simp add: reply_of_def split: prod.split)

lemma reply_of_snd: "snd (reply_of lk ha) = Inr \<lparr>re_StatusCode = fst (snd ha), re_Status = lk_status lk (fst (snd ha)),
    re_Body = lk_encode lk (snd (snd ha))\<rparr>"
  by (simp add: reply_of_def split: prod.split)

interpretation hub_tables: peer_invariant "hub_peer lk p" "\<lambda>h. tables_ok (hu_store h)"
  for lk :: "('a, 'b) link" and p
proof unfold_locales
  fix h :: "('a, 'b) hub" and og assume "tables_ok (hu_store h)"
  then show "tables_ok (hu_store (fst (pe_Do (hub_peer lk p) og h)))"
    by (simp add: hub_peer_def hub_Do_def Let_def hub_ingest_tables_ok hub_heartbeat_tables_ok hub_health_def)
qed

text \<open>C1: Agents and hub together. Whatever a pass of an agent does, the hub's store stays valid; and a
  client that is told its events were ingested is told the truth: the result, summed over its
  batches, counts every event exactly once as accepted, duplicate or rejected, its previous total is
  the lifetime total of the hub before the first batch and its current total the one after the last.\<close>

theorem agent_hub_accounting:
  assumes "wired lk p c" "tables_ok (hu_store h)"
    and "case splitIngestBatches (pe_event p) (sanitizeOutboundEvents events) of Inl err \<Rightarrow> True | Inr bs \<Rightarrow> list_all (carries lk p) bs"
  shows "tables_ok (hu_store (snd (fst (pass p c env (s, h)))))
    \<and> (case client_Ingest p c events h of
         (h', Inl err) \<Rightarrow> tables_ok (hu_store h')
       | (h', Inr result) \<Rightarrow> tables_ok (hu_store h') \<and> counted (ir_Counters result) = length events
           \<and> ir_PreviousTotal result = hub_total h \<and> ir_CurrentTotal result = hub_total h')"
proof -
  let ?es = "sanitizeOutboundEvents events"
  have keeps: "tables_ok (hu_store (snd (fst (pass p c env (s, h)))))" "tables_ok (hu_store (fst (client_Ingest p c events h)))"
    using hub_tables.pass_keeps[OF assms(2), of lk p c env s] hub_tables.client_Ingest[OF assms(2), of lk p c events]
    by (simp_all add: wired_peer[OF assms(1)])
  have "counted (ir_Counters result) = length events \<and> ir_PreviousTotal result = hub_total h \<and> ir_CurrentTotal result = hub_total h'"
    if r: "client_Ingest p c events h = (h', Inr result)" for h' result
  proof -
    obtain bs where bs: "splitIngestBatches (pe_event p) ?es = Inr bs" "ingest_batches p c 0 no_result bs h = (h', Inr result)"
      "events \<noteq> []"
      using r by (auto simp: client_Ingest_def Let_def split: if_splits option.splits sum.splits)
    have con: "concat bs = ?es" by (rule splitIngestBatches_concat[OF bs(1)])
    have "list_all (carries lk p) bs" using assms(3) bs(1) by simp
    from ingest_batches_hub[OF assms(1) this assms(2) bs(2)]
    have "counted (ir_Counters result) = length ?es"
      "bs \<noteq> [] \<longrightarrow> ir_CurrentTotal result = hub_total h' \<and> ir_PreviousTotal result = hub_total h"
      by (simp_all add: con no_result_def no_counts_def counted_def)
    moreover have "bs \<noteq> []" using con bs(3) by (auto simp: sanitizeOutboundEvents_def)
    ultimately show ?thesis by (simp add: sanitizeOutboundEvents_def)
  qed
  then show ?thesis using keeps by (auto split: prod.splits sum.splits)
qed

subsection \<open>Example\<close>

definition sample_result :: ingest_result where
  "sample_result = (case snd (Ingest sample_env empty_store [sample_event]) of Inr r \<Rightarrow> r | Inl _ \<Rightarrow> no_result)"

definition sample_link :: "(unit, unit) link" where
  "sample_link = \<lparr>lk_base = ''http://hub'', lk_remote = ''r'', lk_host = ''hub'', lk_tls = False, lk_env = (\<lambda>_. sample_hub_env),
     lk_ready = (\<lambda>_. True), lk_status = (\<lambda>_. []), lk_encode = (\<lambda>a. if a = ResultAnswer sample_result then ''r'' else [])\<rparr>"

definition sample_peer :: "(unit, unit) hub peer" where
  "sample_peer = \<lparr>pe_ulow = (\<lambda>r. r), pe_event = (\<lambda>e. Some (ev_EventID e)), pe_heartbeat = (\<lambda>q. Some (hq_MachineID q)),
     pe_result = (\<lambda>b. if b = ''r'' then Some sample_result else None), pe_url_ok = (\<lambda>_. True), pe_Do = hub_Do sample_link\<rparr>"

definition token_client :: client where
  "token_client = \<lparr>cl_ServerURL = ''http://hub/'', cl_Token = ''t'', cl_RequestTimeout = 0\<rparr>"

lemma sample_wired: "wired sample_link sample_peer token_client"
  by (simp add: wired_def sample_link_def sample_peer_def token_client_def trim_slashes_def)

lemma sample_carries: "carries sample_link sample_peer [sample_event]"
  by (simp add: carries_def sample_link_def sample_hub_env_def)

lemma sample_sanitized: "sanitizeOutboundEvents [sample_event] = [sample_event]"
  by (simp add: sanitizeOutboundEvents_def SanitizeOutbound_def validateTokenTotals_def token_components_def sample_event_def
      max_i64_def i64_sub_def i64_add_def wrap64_def fail_if_def)

lemma sample_split: "splitIngestBatches (pe_event sample_peer) [sample_event] = Inr [[sample_event]]"
  by (simp add: splitIngestBatches_def split_step_def sample_peer_def sample_event_def maxIngestBatchBytes_def envelopeBytes_eq)

lemma sample_outbound: "ValidateOutboundBatch (pe_ulow sample_peer) [sample_event] = None"
  by (simp add: sample_peer_def ValidateOutboundBatch_def ValidateOutbound_def validateApprovedMetadata_def FilterApprovedMetadata_def
      sample_event_def fail_if_def contains_any_def outbound_identifiers_def
      identifierContainsSensitiveValue_def looks_secret_def has_prefix_def path_chars_def)

theorem agent_hub_accounting_witness:
  "case client_Ingest sample_peer token_client [sample_event] empty_hub of
     (h', Inl err) \<Rightarrow> False
   | (h', Inr result) \<Rightarrow> tables_ok (hu_store h') \<and> counted (ir_Counters result) = 1
       \<and> ir_PreviousTotal result = hub_total empty_hub \<and> ir_CurrentTotal result = hub_total h'"
proof -
  obtain w where w: "marshal_batch (pe_event sample_peer) [sample_event] = Some w" "length w = 15"
    by (simp add: marshal_batch_def sample_peer_def sample_event_def)
  let ?og = "post_request token_client ''/api/v1/events/batch'' w"
  let ?r = "hub_request sample_link ?og"
  let ?h = "on_metrics (\<lambda>m. m\<lparr>mt_requestsTotal := mt_requestsTotal m + 1\<rparr>) empty_hub"
  have "bearerToken ?r = Some ''t''"
    by (simp add: bearerToken_def hub_request_def post_request_def bearer_def token_client_def Let_def has_prefix_def
        trim_prefix_def byte_def str_eval del: runes.simps(2))
  moreover have "rq_Header ?r ''X-Tokemon-Ingest-Token'' = []"
    by (simp add: hub_request_def post_request_def bearer_def)
  ultimately have auth: "ingestAuthorized (hv_config sample_hub_env) ?r"
    by (simp add: ingestAuthorized_def validToken_def sample_hub_env_def constantTimeEqual_def Let_def)
  have "decodeJSONBody (hv_ufold sample_hub_env) (hv_batch sample_hub_env) ?r maxDecompressedBodyBytes = Inr [sample_event]"
    by (rule decode_short) (simp_all add: hub_request_def w(2) maxDecompressedBodyBytes_def maxCompressedBodyBytes_def sample_hub_env_def)
  then have a: "accepted_batch sample_hub_env ?r [sample_event]"
    using auth sample_batch_accepted by (simp add: accepted_batch_def)
  have i: "Ingest (store_env sample_hub_env) (hu_store ?h) [sample_event] = (one_event_store, Inr sample_result)"
    using sample_ingested by (auto simp: sample_store_env sample_result_def empty_hub_def)
  have "snd (hub_ingest sample_hub_env ?r ?h) = (200, ResultAnswer sample_result)"
    using i by (simp add: hub_ingest_accepted[OF a] Let_def)
  moreover have "lk_env sample_link empty_hub = sample_hub_env" by (simp add: sample_link_def)
  ultimately have "snd (hub_Do sample_link ?og empty_hub) = Inr \<lparr>re_StatusCode = 200, re_Status = [], re_Body = ''r''\<rparr>"
    using requestLogging_frame(2)[of "hub_ingest sample_hub_env ?r" empty_hub]
    using sample_wired
    by (simp add: hub_Do_batch wired_def reply_of_snd) (simp add: sample_link_def)
  then obtain h' where "hub_Do sample_link ?og empty_hub = (h', Inr \<lparr>re_StatusCode = 200, re_Status = [], re_Body = ''r''\<rparr>)"
    by (metis prod.collapse)
  then have "exchange sample_peer ?og empty_hub = (h', Inr \<lparr>re_StatusCode = 200, re_Status = [], re_Body = ''r''\<rparr>)"
    by (simp add: exchange_def sample_peer_def)
  then have "ingestBatch sample_peer token_client [sample_event] empty_hub = (h', Inr sample_result)"
    by (simp add: ingestBatch_def postJSON_def w(1)) (simp add: sample_peer_def token_client_def str_eval del: runes.simps(2))
  then have "\<exists>h' result. client_Ingest sample_peer token_client [sample_event] empty_hub = (h', Inr result)"
    by (auto simp: client_Ingest_def Let_def sample_sanitized sample_outbound sample_split token_client_def str_eval
        simp del: runes.simps(2))
  then show ?thesis
    using agent_hub_accounting[OF sample_wired empty_hub_ok, of "[sample_event]" sample_pass empty_agent_state]
    by (auto simp: sample_sanitized sample_split sample_carries)
qed

subsection \<open>Agents with many sources\<close>

lemma Ingest_store:
  "fst (Ingest env st es) = st \<or> (\<exists>res. fold_err (ingest_event env) (st, no_counts) (enumerate 0 es) = Inr (fst (Ingest env st es), res))"
  by (simp add: Ingest_def split: sum.split prod.split)

lemma Ingest_health: "st_health (fst (Ingest env st es)) = st_health st"
  using Ingest_store[of env st es] ingest_loop_tables[of env st no_counts "enumerate 0 es"] by metis

lemma hub_ingest_health: "st_health (hu_store (fst (hub_ingest env r h))) = st_health (hu_store h)"
proof (cases "\<exists>es. accepted_batch env r es")
  case True
  then obtain es where a: "accepted_batch env r es" by blast
  obtain st v where i: "Ingest (store_env env) (hu_store h) es = (st, v)" by fastforce
  then have "st_health st = st_health (hu_store h)" using Ingest_health[of "store_env env" "hu_store h" es] by simp
  then show ?thesis by (cases v) (simp_all add: hub_ingest_accepted[OF a] Let_def i)
next
  case False
  from hub_ingest_refused[OF this, of h] show ?thesis by (auto simp: ingest_refusal_def)
qed

lemma exchange_ok:
  "pe_url_ok p (og_URL og) \<Longrightarrow> pe_Do p og h = (h', Inr r) \<Longrightarrow> 200 \<le> re_StatusCode r \<Longrightarrow> re_StatusCode r < 300 \<Longrightarrow>
    exchange p og h = (h', Inr r)"
  by (simp add: exchange_def)

lemma exchange_store: "fst (exchange p og h) = (if pe_url_ok p (og_URL og) then fst (pe_Do p og h) else h)"
  by (simp add: exchange_def split: prod.split sum.split)

lemma postJSON_store:
  "fst (postJSON p c path encoded decode h) =
    (if trim_space (cl_ServerURL c) = [] then h
     else case encoded of None \<Rightarrow> h | Some w \<Rightarrow> fst (exchange p (post_request c path w) h))"
  by (auto simp: postJSON_def split: option.split prod.split sum.split)

lemma upload_health:
  assumes "wired lk p c"
  shows "st_health (hu_store (fst (upload p c pending h))) = st_health (hu_store h)"
proof -
  have b: "st_health (hu_store (fst (ingestBatch p c b h))) = st_health (hu_store h)" for b h
    using assms by (simp add: ingestBatch_def postJSON_store exchange_store wired_def hub_Do_batch hub_ingest_health split: option.split)
  have "st_health (hu_store (fst (ingest_batches p c k r bs h))) = st_health (hu_store h)" for k r bs
    by (induction bs arbitrary: k r h) (use b in \<open>auto split: prod.splits sum.splits\<close>, (metis fst_conv)+)
  then have "st_health (hu_store (fst (client_Ingest p c pending h))) = st_health (hu_store h)"
    by (simp add: client_Ingest_def Let_def split: option.split sum.split)
  then show ?thesis by (auto simp: upload_def split: prod.splits sum.splits)
qed

lemma fst_reply: "fst (case x of (h, Inl e) \<Rightarrow> (h, Inl e) | (h, Inr v) \<Rightarrow> (h, Inr w)) = fst x"
  by (simp split: prod.split sum.split)

lemma client_Health_store:
  assumes "wired lk p c"
  shows "hu_store (fst (client_Health p c h)) = hu_store h"
proof -
  have "hu_store (fst (pe_Do p og h)) = hu_store h" if "og_Method og = ''GET''" for og
    using assms that by (simp add: wired_def hub_Do_def Let_def hub_health_def)
  then show ?thesis
    by (simp add: client_Health_def Let_def fst_reply exchange_store)
qed

lemma hh_Sources_of: "\<exists>ss. hh_Sources (hub_heartbeat_of q) = Some ss \<and> length ss = length (hq_Sources q)"
  by (simp add: hub_heartbeat_of_def)

lemma heartbeat_refused:
  assumes "wired lk p c" "carries_heartbeat lk p q" "256 < length (hq_Sources q)"
  shows "hu_store (fst (client_Heartbeat p c q h)) = hu_store h"
proof -
  let ?h1 = "on_metrics (\<lambda>m. m\<lparr>mt_requestsTotal := mt_requestsTotal m + 1\<rparr>) h"
  have "hu_store (fst (hub_heartbeat_handler (lk_env lk h) (hub_request lk (post_request c ''/api/v1/agents/heartbeat'' w)) ?h1)) = hu_store ?h1"
    if w: "pe_heartbeat p q = Some w" for w
  proof (cases "decodeJSONBody (hv_ufold (lk_env lk h)) (hv_heartbeat (lk_env lk h))
      (hub_request lk (post_request c ''/api/v1/agents/heartbeat'' w)) maxHeartbeatBodyBytes")
    case (Inr v)
    have "v = hub_heartbeat_of q"
      using Inr by (rule decode_plain) (use assms(2) w in \<open>auto simp: carries_heartbeat_def hub_request_def\<close>)
    then have "heartbeat_checks (hv_now (lk_env lk h)) v \<noteq> None"
      using heartbeat_checks_parts(5)[of "hv_now (lk_env lk h)" "hub_heartbeat_of q"] hh_Sources_of[of q] assms(3)
      by (metis length_map not_less)
    then show ?thesis using Inr by (auto simp: hub_heartbeat_handler_def)
  qed (simp add: hub_heartbeat_handler_def)
  then show ?thesis
    using assms(1) by (auto simp: client_Heartbeat_def postJSON_store exchange_store wired_def hub_Do_heartbeat split: option.split)
qed


text \<open>257 idle sources.\<close>

definition idle_source :: adapter where
  "idle_source = \<lparr>ad_ID = ''codex'', ad_Discover = Inr [\<lparr>so_Path = ''/a'', so_Identity = []\<rparr>],
     ad_Parse = (\<lambda>_ _ _. Inr \<lparr>ps_Events = [], ps_Cursor = no_cursor\<rparr>)\<rparr>"

definition crowded_pass :: pass_env where
  "crowded_pass = sample_pass\<lparr>pv_adapters := replicate 257 idle_source\<rparr>"

definition idle_report :: source_report where
  "idle_report = \<lparr>rp_Adapter = ''codex'', rp_Path = ''/a'', rp_Source = \<lparr>so_Path = ''/a'', so_Identity = []\<rparr>, rp_Events = 0,
     rp_Cursor = no_cursor, rp_Err = None\<rparr>"

definition crowded_link :: "(unit, unit) link" where
  "crowded_link = sample_link\<lparr>lk_env := (\<lambda>_. sample_hub_env\<lparr>hv_heartbeat :=
     \<lparr>gz_open = (\<lambda>_. False), gz_read = (\<lambda>_ _ _. None), json_value = (\<lambda>_.
       Some (hub_heartbeat_of (pass_heartbeat crowded_pass empty_agent_state (replicate 257 idle_report)), []))\<rparr>\<rparr>)\<rparr>"

definition crowded_peer :: "(unit, unit) hub peer" where
  "crowded_peer = sample_peer\<lparr>pe_Do := hub_Do crowded_link\<rparr>"

lemma crowded_collects:
  "CollectWithCursors (pv_adapters crowded_pass) m (state_Snapshot empty_agent_state m) = ([], replicate 257 idle_report)"
proof -
  have a: "adapter_pass m cs idle_source = ([], [idle_report])" for cs
    by (simp add: adapter_pass_def idle_source_def collect_source_def idle_report_def Let_def)
  have "concat (replicate n [idle_report]) = replicate n idle_report" for n by (induction n) simp_all
  then show ?thesis by (simp add: CollectWithCursors_def collect_adapters_append crowded_pass_def a)
qed


end
