(* ===== verification/Record_Lines.thy ===== *)
theory Record_Lines
  imports Adapters_Core
begin

text \<open>
  Reading a log line by line with \<open>ReadRecordLimit\<close>, as every adapter of a line-based log does: a
  loop that takes one record at a time, what it does on a log that has grown, and the list of
  records that it sees. The adapters instantiate the step.
\<close>

subsection \<open>Lines\<close>

lemma ReadRecordLimit_parts:
  assumes "ReadRecordLimit n limit s = (Record line eof, rest)"
  shows "line_of s = (line, rest, eof)" "length line \<le> limit"
proof -
  obtain l r e where l: "line_of s = (l, r, e)" by (cases "line_of s")
  have "if length l \<le> limit then read_record_from n limit [] s = (Record l e, r)
      else fst (read_record_from n limit [] s) = RecordTooLong"
    using read_record_from_spec[where acc = "[]" and n = n and limit = limit and s = s] l by simp
  then show "line_of s = (line, rest, eof)" "length line \<le> limit"
    using assms l unfolding ReadRecordLimit_def by (auto split: if_splits)
qed

lemma line_of_shorter: "line_of s = (line, rest, eof) \<Longrightarrow> \<not> (line = [] \<and> eof) \<Longrightarrow> length rest < length s"
  by (auto simp: line_of_def Let_def split: if_splits)

lemma ReadRecordLimit_shorter:
  "(Record line eof, rest) = ReadRecordLimit n limit s \<Longrightarrow> (line = [] \<longrightarrow> \<not> eof) \<Longrightarrow> length rest < length s"
  using line_of_shorter[OF ReadRecordLimit_parts(1)] by metis

lemma line_of_append:
  assumes "s \<noteq> []" "last s = newline"
  shows "case line_of s of (line, rest, eof) \<Rightarrow> line_of (s @ t) = (line, rest @ t, False) \<and> \<not> eof \<and> line @ rest = s
    \<and> (rest = [] \<or> last rest = newline)"
proof -
  let ?P = "\<lambda>c. c \<noteq> newline"
  have n: "newline \<in> set s" using assms last_in_set by metis
  have tw: "takeWhile ?P (s @ t) = takeWhile ?P s" using n by (induction s) auto
  have lt: "length (takeWhile ?P s) < length s"
    using n length_takeWhile_le[of ?P s] takeWhile_eq_all_conv[of ?P s] by (metis le_neq_implies_less takeWhile_eq_take take_all_iff order_refl)
  have c: "takeWhile ?P s @ newline # drop (Suc (length (takeWhile ?P s))) s = s"
    using n by (induction s) auto
  have "drop (Suc (length (takeWhile ?P s))) s = [] \<or> last (drop (Suc (length (takeWhile ?P s))) s) = newline"
    using assms(2) by (cases "Suc (length (takeWhile ?P s)) < length s") simp_all
  then show ?thesis using tw lt c by (simp add: line_of_def Let_def)
qed

lemma ReadRecordLimit_of_line:
  "line_of s = (line, rest, eof) \<Longrightarrow>
    (length line \<le> limit \<longrightarrow> ReadRecordLimit n limit s = (Record line eof, rest))
    \<and> (limit < length line \<longrightarrow> fst (ReadRecordLimit n limit s) = RecordTooLong)"
  using read_record_from_spec[where acc = "[]" and n = n and limit = limit and s = s] unfolding ReadRecordLimit_def by auto

lemma line_of_Nil [simp]: "line_of [] = ([], [], True)"
  by (simp add: line_of_def)

lemma line_of_line: "line_of s = (line, rest, False) \<Longrightarrow> line \<noteq> [] \<and> last line = newline \<and> newline \<notin> set (butlast line)"
  by (auto simp: line_of_def Let_def butlast_append dest: set_takeWhileD split: if_splits)

subsection \<open>The loop of a parser\<close>

text \<open>
  \<open>record_loop\<close>: one step per record, with the number of the line and the position it starts at;
  \<open>keep\<close> says of a last record that has no newline whether it is left for the next pass. A step
  may fail, and so does an oversized record.
\<close>

function record_loop ::
  "nat \<Rightarrow> (gostr \<Rightarrow> bool) \<Rightarrow> (i64 \<Rightarrow> i64 \<Rightarrow> gostr \<Rightarrow> 's \<Rightarrow> 'e + 's) \<Rightarrow> 'e \<Rightarrow> 's \<Rightarrow> i64 \<Rightarrow> i64 \<Rightarrow> gostr \<Rightarrow> 'e + 's \<times> i64 \<times> i64" where
  "record_loop limit keep step tooLong st position lineNumber s =
    (case ReadRecordLimit 65535 limit s of
       (RecordTooLong, rest) \<Rightarrow> Inl tooLong
     | (Record line eof, rest) \<Rightarrow>
         if line = [] \<and> eof then Inr (st, position, lineNumber)
         else if eof \<and> keep line then Inr (st, position, lineNumber)
         else (case step (lineNumber + 1) position line st of
             Inl e \<Rightarrow> Inl e
           | Inr st' \<Rightarrow> record_loop limit keep step tooLong st' (position + int (length line)) (lineNumber + 1) rest))"
  by pat_completeness auto

termination
  by (relation "measure (\<lambda>(limit, keep, step, tooLong, st, position, lineNumber, s). length s)") (auto dest!: ReadRecordLimit_shorter)

declare record_loop.simps [simp del]

text \<open>The records that the loop sees; none when one of them is oversized.\<close>

function records :: "nat \<Rightarrow> (gostr \<Rightarrow> bool) \<Rightarrow> gostr \<Rightarrow> gostr list option" where
  "records limit keep s =
    (case line_of s of (line, rest, eof) \<Rightarrow>
      if limit < length line then None
      else if line = [] \<and> eof then Some []
      else if eof \<and> keep line then Some []
      else map_option (Cons line) (records limit keep rest))"
  by pat_completeness auto

termination
  by (relation "measure (\<lambda>(limit, keep, s). length s)") (auto dest: line_of_shorter[OF sym])

declare records.simps [simp del]

fun step_records :: "(i64 \<Rightarrow> i64 \<Rightarrow> gostr \<Rightarrow> 's \<Rightarrow> 'e + 's) \<Rightarrow> 's \<Rightarrow> i64 \<Rightarrow> i64 \<Rightarrow> gostr list \<Rightarrow> 'e + 's" where
  "step_records step st position n [] = Inr st"
| "step_records step st position n (l # ls) =
    (case step (n + 1) position l st of Inl e \<Rightarrow> Inl e
     | Inr st' \<Rightarrow> step_records step st' (position + int (length l)) (n + 1) ls)"

lemma records_Nil [simp]: "records limit keep [] = Some []"
  by (simp add: records.simps)

lemma record_loop_records:
  "records limit keep s = Some ls \<Longrightarrow>
    record_loop limit keep step tooLong st p n s = map_sum id (\<lambda>st'. (st', p + int (length (concat ls)), n + int (length ls)))
      (step_records step st p n ls)"
proof (induction limit keep s arbitrary: st p n ls rule: records.induct)
  case (1 limit keep s)
  obtain line rest eof where l: "line_of s = (line, rest, eof)" by (cases "line_of s")
  then have short: "length line \<le> limit" using "1.prems" by (subst (asm) records.simps) (auto split: if_splits)
  have r: "ReadRecordLimit 65535 limit s = (Record line eof, rest)" using ReadRecordLimit_of_line[OF l] short by blast
  show ?case
  proof (cases "eof \<and> (line = [] \<or> keep line)")
    case True
    then have "ls = []" using "1.prems" l short by (subst (asm) records.simps) (auto split: if_splits)
    then show ?thesis using True r by (auto simp: record_loop.simps[of limit keep step tooLong st p n s])
  next
    case False
    obtain ls' where ls: "ls = line # ls'" "records limit keep rest = Some ls'"
      using "1.prems" l short False by (subst (asm) records.simps) auto
    show ?thesis
    proof (cases "step (n + 1) p line st")
      case (Inl e)
      then show ?thesis using False r ls(1) by (auto simp: record_loop.simps[of limit keep step tooLong st p n s])
    next
      case (Inr st')
      have "record_loop limit keep step tooLong st' (p + int (length line)) (n + 1) rest
        = map_sum id (\<lambda>st'. (st', p + int (length line) + int (length (concat ls')), n + 1 + int (length ls')))
            (step_records step st' (p + int (length line)) (n + 1) ls')"
        by (rule "1.IH"[OF l[symmetric] refl _ _ _ ls(2)]) (use short False in auto)
      then show ?thesis using False r Inr ls(1)
        by (cases "step_records step st' (p + int (length line)) (n + 1) ls'")
          (auto simp: record_loop.simps[of limit keep step tooLong st p n s])
    qed
  qed
qed

lemma records_append:
  assumes "s = [] \<or> last s = newline"
  shows "records limit keep (s @ t) =
    (case records limit keep s of None \<Rightarrow> None | Some ls \<Rightarrow> map_option (\<lambda>ls'. ls @ ls') (records limit keep t))"
  using assms
proof (induction limit keep s rule: records.induct)
  case (1 limit keep s)
  show ?case
  proof (cases "s = []")
    case True
    then show ?thesis by (cases "records limit keep t") simp_all
  next
    case False
    then have nl: "last s = newline" using "1.prems" by simp
    obtain line rest eof where l: "line_of s = (line, rest, eof)" by (cases "line_of s")
    then have a: "line_of (s @ t) = (line, rest @ t, False)" "\<not> eof" "rest = [] \<or> last rest = newline"
      using line_of_append[OF False nl, of t] by simp_all
    have ih: "records limit keep (rest @ t) = (case records limit keep rest of None \<Rightarrow> None
      | Some ls \<Rightarrow> map_option (\<lambda>ls'. ls @ ls') (records limit keep t))" if "length line \<le> limit"
      by (rule "1.IH"[OF l[symmetric] refl]) (use that a in auto)
    show ?thesis
      using ih by (cases "records limit keep t") (simp_all add: records.simps[of limit keep s] records.simps[of limit keep "s @ t"] l a option.map_comp comp_def split: option.split)
  qed
qed

text \<open>Complete lines: the records are the lines, and put together they are the log.\<close>

definition is_line :: "gostr \<Rightarrow> bool" where
  "is_line l \<longleftrightarrow> l \<noteq> [] \<and> last l = newline \<and> newline \<notin> set (butlast l)"

lemma records_complete:
  assumes "s = [] \<or> last s = newline" "records limit keep s = Some ls"
  shows "concat ls = s \<and> list_all is_line ls"
  using assms
proof (induction limit keep s arbitrary: ls rule: records.induct)
  case (1 limit keep s)
  show ?case
  proof (cases "s = []")
    case False
    then have nl: "last s = newline" using "1.prems" by simp
    obtain line rest eof where l: "line_of s = (line, rest, eof)" by (cases "line_of s")
    then have a: "line @ rest = s" "\<not> eof" "rest = [] \<or> last rest = newline"
      using line_of_append[OF False nl, of "[]"] by simp_all
    have short: "length line \<le> limit" using "1.prems"(2) l by (subst (asm) records.simps) (auto split: if_splits)
    obtain ls' where ls: "ls = line # ls'" "records limit keep rest = Some ls'"
      using "1.prems"(2) l short a(2) by (subst (asm) records.simps) auto
    have "concat ls' = rest \<and> list_all is_line ls'"
      by (rule "1.IH"[OF l[symmetric] refl]) (use short a ls in auto)
    moreover have "is_line line" using line_of_line[of s line rest] l a(2) by (simp add: is_line_def)
    ultimately show ?thesis using ls(1) a(1) by simp
  qed (use "1.prems" in simp)
qed

lemma step_records_append:
  "step_records step st p n (xs @ ys) =
    (case step_records step st p n xs of Inl e \<Rightarrow> Inl e
     | Inr st' \<Rightarrow> step_records step st' (p + int (length (concat xs))) (n + int (length xs)) ys)"
  by (induction xs arbitrary: st p n) (auto simp: algebra_simps split: sum.split)

lemma records_limit: "records limit keep s = Some ls \<Longrightarrow> list_all (\<lambda>l. length l \<le> limit) ls"
proof (induction limit keep s arbitrary: ls rule: records.induct)
  case (1 limit keep s)
  obtain line rest eof where l: "line_of s = (line, rest, eof)" by (cases "line_of s")
  have short: "length line \<le> limit" using "1.prems" l by (subst (asm) records.simps) (auto split: if_splits)
  consider (stop) "ls = []" | (more) ls' where "ls = line # ls'" "records limit keep rest = Some ls'"
      "\<not> (line = [] \<and> eof)" "\<not> (eof \<and> keep line)"
    using "1.prems" l short by (auto simp: records.simps[of limit keep s] split: if_splits)
  then show ?case
  proof cases
    case more
    have "list_all (\<lambda>l. length l \<le> limit) ls'" by (rule "1.IH"[OF l[symmetric] refl]) (use short more in auto)
    then show ?thesis using short more(1) by simp
  qed simp
qed

lemma records_line: "is_line l \<Longrightarrow> length l \<le> limit \<Longrightarrow> records limit keep l = Some [l]"
proof -
  assume l: "is_line l" "length l \<le> limit"
  have "newline \<in> set l" using l(1) last_in_set by (fastforce simp: is_line_def)
  moreover have "takeWhile (\<lambda>c. c \<noteq> newline) l = butlast l"
  proof -
    have "l = butlast l @ [newline]" using l(1) by (metis append_butlast_last_id is_line_def)
    moreover have "takeWhile (\<lambda>c. c \<noteq> newline) (butlast l @ [newline]) = butlast l"
      using l(1) by (subst takeWhile_append2) (auto simp: is_line_def)
    ultimately show ?thesis by metis
  qed
  moreover have "butlast l @ [newline] = l" "0 < length l" using l(1) by (auto simp: is_line_def) (metis append_butlast_last_id)
  ultimately have "line_of l = (l, [], False)" by (simp add: line_of_def Let_def)
  then show ?thesis using l by (simp add: records.simps[of limit keep l] is_line_def)
qed

text \<open>On complete lines followed by more input the loop is the loop on the lines, then on the rest.\<close>

lemma record_loop_append:
  assumes "s = [] \<or> last s = newline"
  shows "record_loop limit keep step tooLong st p n (s @ t) =
    (case record_loop limit keep step tooLong st p n s of Inl e \<Rightarrow> Inl e
     | Inr (st', p', n') \<Rightarrow> record_loop limit keep step tooLong st' p' n' t)"
  using assms
proof (induction limit keep step tooLong st p n s rule: record_loop.induct)
  case (1 limit keep step tooLong st p n s)
  show ?case
  proof (cases "s = []")
    case True
    have "ReadRecordLimit 65535 limit [] = (Record [] True, [])"
      using ReadRecordLimit_of_line[of "[]" "[]" "[]" True limit 65535] by simp
    then show ?thesis using True by (simp add: record_loop.simps[of limit keep step tooLong st p n "[]"])
  next
    case False
    then have nl: "last s = newline" using "1.prems" by simp
    obtain line rest eof where l: "line_of s = (line, rest, eof)" by (cases "line_of s")
    then have a: "line_of (s @ t) = (line, rest @ t, False)" "\<not> eof" "rest = [] \<or> last rest = newline"
      using line_of_append[OF False nl, of t] by simp_all
    show ?thesis
    proof (cases "length line \<le> limit")
      case True
      have r: "ReadRecordLimit 65535 limit s = (Record line False, rest)"
        "ReadRecordLimit 65535 limit (s @ t) = (Record line False, rest @ t)"
        using ReadRecordLimit_of_line[OF l] ReadRecordLimit_of_line[OF a(1)] True a(2) by simp_all
      show ?thesis
      proof (cases "step (n + 1) p line st")
        case (Inl e)
        then show ?thesis using r
          by (simp add: record_loop.simps[of limit keep step tooLong st p n s] record_loop.simps[of limit keep step tooLong st p n "s @ t"])
      next
        case (Inr st1)
        have "record_loop limit keep step tooLong st1 (p + int (length line)) (n + 1) (rest @ t)
          = (case record_loop limit keep step tooLong st1 (p + int (length line)) (n + 1) rest of
               Inl e \<Rightarrow> Inl e | Inr (st', p', n') \<Rightarrow> record_loop limit keep step tooLong st' p' n' t)"
          by (rule "1.IH"[OF r(1)[symmetric] refl _ _ Inr]) (use a(3) in simp_all)
        then show ?thesis using r Inr
          by (simp add: record_loop.simps[of limit keep step tooLong st p n s] record_loop.simps[of limit keep step tooLong st p n "s @ t"])
      qed
    next
      case False
      then have "fst (ReadRecordLimit 65535 limit s) = RecordTooLong" "fst (ReadRecordLimit 65535 limit (s @ t)) = RecordTooLong"
        using ReadRecordLimit_of_line[OF l] ReadRecordLimit_of_line[OF a(1)] by simp_all
      then show ?thesis
        by (subst record_loop.simps, subst (2) record_loop.simps) (auto split: prod.splits read_result.splits)
    qed
  qed
qed

lemma record_loop_invariant:
  "(\<And>n p line st st'. P st \<Longrightarrow> step n p line st = Inr st' \<Longrightarrow> P st') \<Longrightarrow> P st \<Longrightarrow>
    record_loop limit keep step tooLong st p n s = Inr (st', p', n') \<Longrightarrow> P st'"
proof (induction limit keep step tooLong st p n s rule: record_loop.induct)
  case (1 limit keep step tooLong st p n s)
  obtain line eof rest where r: "ReadRecordLimit 65535 limit s = (Record line eof, rest)"
    using "1.prems"(3) by (subst (asm) record_loop.simps) (auto split: prod.splits read_result.splits)
  consider (stop) "st' = st" | (more) st1 where "\<not> (line = [] \<and> eof)" "\<not> (eof \<and> keep line)" "step (n + 1) p line st = Inr st1"
      "record_loop limit keep step tooLong st1 (p + int (length line)) (n + 1) rest = Inr (st', p', n')"
    using "1.prems"(3) r by (auto simp: record_loop.simps[of limit keep step tooLong st p n s] split: if_splits sum.splits)
  then show ?case
  proof cases
    case more
    show ?thesis
      by (rule "1.IH"[OF r[symmetric] refl more(1,2,3) _ _ more(4)]) (use "1.prems"(1,2) more(3) in blast)+
  qed (use "1.prems"(2) in simp)
qed

lemma record_loop_position:
  assumes "s = [] \<or> last s = newline"
  shows "record_loop limit keep step tooLong st p n s = Inr (st', p', n') \<Longrightarrow> p' = p + int (length s)"
  using assms
proof (induction limit keep step tooLong st p n s rule: record_loop.induct)
  case (1 limit keep step tooLong st p n s)
  show ?case
  proof (cases "s = []")
    case True
    have "ReadRecordLimit 65535 limit [] = (Record [] True, [])"
      using ReadRecordLimit_of_line[of "[]" "[]" "[]" True limit 65535] by simp
    then show ?thesis using True "1.prems" by (simp add: record_loop.simps[of limit keep step tooLong st p n "[]"])
  next
    case False
    then have nl: "last s = newline" using "1.prems" by simp
    obtain line rest eof where l: "line_of s = (line, rest, eof)" by (cases "line_of s")
    then have a: "\<not> eof" "line @ rest = s" "rest = [] \<or> last rest = newline"
      using line_of_append[OF False nl, of "[]"] by simp_all
    have short: "length line \<le> limit"
    proof (rule ccontr)
      assume "\<not> length line \<le> limit"
      then have "fst (ReadRecordLimit 65535 limit s) = RecordTooLong" using ReadRecordLimit_of_line[OF l] by simp
      then show False using "1.prems"(1) by (subst (asm) record_loop.simps) (auto split: prod.splits)
    qed
    then have r: "ReadRecordLimit 65535 limit s = (Record line False, rest)" using ReadRecordLimit_of_line[OF l] a(1) by simp
    obtain st1 where s1: "step (n + 1) p line st = Inr st1"
      "record_loop limit keep step tooLong st1 (p + int (length line)) (n + 1) rest = Inr (st', p', n')"
      using "1.prems"(1) r by (auto simp: record_loop.simps[of limit keep step tooLong st p n s] split: sum.splits)
    have "p' = p + int (length line) + int (length rest)"
      by (rule "1.IH"[OF r[symmetric] refl _ _ s1(1) s1(2) a(3)]) simp_all
    moreover have "length s = length line + length rest" using a(2) by (metis length_append)
    ultimately show ?thesis by simp
  qed
qed

end
