(* ===== verification/Go_Path.thy ===== *)
theory Go_Path
  imports Adapters_Core
begin

text \<open>
  Package \<open>path/filepath\<close> on Unix: \<open>Clean\<close>, \<open>Dir\<close>, \<open>Base\<close>, \<open>Join\<close> and \<open>Rel\<close>.
\<close>

definition slash :: char where "slash = CHR ''/''"

text \<open>The elements of a path after \<open>Clean\<close>, the last one first.\<close>

fun clean_parts :: "bool \<Rightarrow> gostr list \<Rightarrow> gostr list \<Rightarrow> gostr list" where
  "clean_parts rooted acc [] = acc"
| "clean_parts rooted acc (p # ps) =
    (if p = [] \<or> p = ''.'' then clean_parts rooted acc ps
     else if p = ''..'' then
       (case acc of
          [] \<Rightarrow> clean_parts rooted (if rooted then [] else [''..'']) ps
        | q # qs \<Rightarrow> clean_parts rooted (if q = ''..'' then ''..'' # acc else qs) ps)
     else clean_parts rooted (p # acc) ps)"

definition rooted_path :: "gostr \<Rightarrow> bool" where
  "rooted_path p \<longleftrightarrow> has_prefix p [slash]"

definition path_parts :: "gostr \<Rightarrow> gostr list" where
  "path_parts p = rev (clean_parts (rooted_path p) [] (split_on slash p))"

definition filepath_Clean :: "gostr \<Rightarrow> gostr" where
  "filepath_Clean p =
    (let body = join_with [slash] (path_parts p)
     in if rooted_path p then slash # body else if body = [] then ''.'' else body)"

text \<open>What follows the last slash, and what comes before, the slash included.\<close>

definition after_slash :: "gostr \<Rightarrow> gostr" where
  "after_slash p = last (split_on slash p)"

definition filepath_Dir :: "gostr \<Rightarrow> gostr" where
  "filepath_Dir p = filepath_Clean (take (length p - length (after_slash p)) p)"

definition filepath_Base :: "gostr \<Rightarrow> gostr" where
  "filepath_Base p =
    (if p = [] then ''.''
     else (let b = after_slash (trim_right_char slash p) in if b = [] then [slash] else b))"

definition filepath_Join :: "gostr list \<Rightarrow> gostr" where
  "filepath_Join ps = (let qs = dropWhile (\<lambda>p. p = []) ps in if qs = [] then [] else filepath_Clean (join_with [slash] qs))"

fun drop_common :: "'a list \<Rightarrow> 'a list \<Rightarrow> 'a list \<times> 'a list" where
  "drop_common (x # xs) (y # ys) = (if x = y then drop_common xs ys else (x # xs, y # ys))"
| "drop_common xs ys = (xs, ys)"

text \<open>\<open>None\<close> when the target cannot be made relative to the base.\<close>

definition filepath_Rel :: "gostr \<Rightarrow> gostr \<Rightarrow> gostr option" where
  "filepath_Rel base target =
    (if filepath_Clean base = filepath_Clean target then Some ''.''
     else if rooted_path base \<noteq> rooted_path target then None
     else (case drop_common (path_parts base) (path_parts target) of (bs, ts) \<Rightarrow>
       if bs \<noteq> [] \<and> hd bs = ''..'' then None
       else Some (join_with [slash] (replicate (length bs) ''..'' @ ts))))"

lemma paths_examples:
  "filepath_Clean ''/a//b/../c/.'' = ''/a/c''" "filepath_Clean ''../../x'' = ''../../x''" "filepath_Clean [] = ''.''"
  "filepath_Dir ''/p/q/s.jsonl'' = ''/p/q''" "filepath_Base ''/p/q/'' = ''q''" "filepath_Dir ''s'' = ''.''"
  "filepath_Rel ''/h/.claude/projects'' ''/h/.claude/projects/d/s.jsonl'' = Some ''d/s.jsonl''"
  "filepath_Rel ''/a/b'' ''/a/c/d'' = Some ''../c/d''" "filepath_Join [''/h'', '''', ''x''] = ''/h/x''"
  by code_simp+

end
