(* ===== verification/Claude_Adapter.thy ===== *)
theory Claude_Adapter
  imports Record_Lines Go_Path
begin

text \<open>
  Package \<open>internal/adapters/claude\<close>: the transcripts of Claude Code, read incrementally. Records
  are numbered by line; the duration of a turn is a record of its own that follows the response it
  belongs to, so a pass that starts at one goes back a line. The file system and the JSON decoder
  are parameters; contexts are not cancelled and reads do not fail once the file is open.
\<close>

definition claude_adapterID :: gostr where "claude_adapterID = ''claude-code''"
definition claude_adapterVersion :: gostr where "claude_adapterVersion = ''0.2.0''"
definition claude_maxRecordBytes :: nat where "claude_maxRecordBytes = 4194304"

subsection \<open>Records\<close>

record cache_creation =
  cc_Ephemeral5mInputTokens :: "i64 option"
  cc_Ephemeral1hInputTokens :: "i64 option"

record claude_usage =
  cl_InputTokens :: "i64 option"
  cl_OutputTokens :: "i64 option"
  cl_CacheReadTokens :: "i64 option"
  cl_CacheWriteTokens :: "i64 option"
  cl_TotalTokens :: "i64 option"
  cl_CacheCreation :: "cache_creation option"

record message_record =
  mr_Model :: gostr
  mr_Usage :: "claude_usage option"

record transcript_record =
  tr_Type :: gostr
  tr_Subtype :: gostr
  tr_Timestamp :: gostr
  tr_SessionID :: gostr
  tr_SessionIDAlt :: gostr
  tr_CWD :: gostr
  tr_DurationMS :: "i64 option"
  tr_Message :: "message_record option"
  tr_Usage :: "claude_usage option"

definition HasTokens :: "claude_usage \<Rightarrow> bool" where
  "HasTokens u \<longleftrightarrow> cl_InputTokens u \<noteq> None \<or> cl_OutputTokens u \<noteq> None \<or> cl_CacheReadTokens u \<noteq> None
    \<or> cl_CacheWriteTokens u \<noteq> None \<or> cl_TotalTokens u \<noteq> None \<or> cl_CacheCreation u \<noteq> None"

text \<open>\<open>cw_inode\<close> is the device and inode of a file, \<open>cw_abs\<close> is \<open>filepath.Abs\<close>.\<close>

record claude_world =
  cw_ulow :: "nat \<Rightarrow> nat"
  cw_file :: "gostr \<Rightarrow> go_err + gostr"
  cw_inode :: "gostr \<Rightarrow> (i64 \<times> i64) option"
  cw_abs :: "gostr \<Rightarrow> gostr"
  cw_transcript :: "gostr \<Rightarrow> transcript_record option"

subsection \<open>Events\<close>

fun sumPointers :: "i64 option list \<Rightarrow> i64 \<Rightarrow> i64 option" where
  "sumPointers [] n = Some n"
| "sumPointers (None # vs) n = None"
| "sumPointers (Some v # vs) n = sumPointers vs (i64_add n v)"

definition claude_cacheWrite :: "claude_usage \<Rightarrow> i64 option" where
  "claude_cacheWrite u = (case (cl_CacheWriteTokens u, cl_CacheCreation u) of
     (None, Some c) \<Rightarrow> sumPointers [cc_Ephemeral5mInputTokens c, cc_Ephemeral1hInputTokens c] 0
   | (v, _) \<Rightarrow> v)"

definition claude_total :: "claude_usage \<Rightarrow> i64 option \<times> gostr" where
  "claude_total u = (case cl_TotalTokens u of Some n \<Rightarrow> (Some n, AccuracyReported)
   | None \<Rightarrow> (case sumPointers [cl_InputTokens u, cl_OutputTokens u, cl_CacheReadTokens u, claude_cacheWrite u] 0 of
       Some n \<Rightarrow> (Some n, AccuracyDerived) | None \<Rightarrow> (None, AccuracyUnknown)))"

definition claude_normalize ::
  "gostr \<Rightarrow> claude_usage \<Rightarrow> gostr \<Rightarrow> gostr \<Rightarrow> i64 \<Rightarrow> gostr \<Rightarrow> instant \<Rightarrow> event" where
  "claude_normalize messageModel raw machineID identity lineNumber sessionID t =
    \<lparr>ev_SchemaVersion = event_schema_version,
     ev_EventID = DeterministicID machineID claude_adapterID identity lineNumber (rfc3339_nano t) sessionID,
     ev_Timestamp = t, ev_MachineID = machineID, ev_SessionID = sessionID, ev_Project = [],
     ev_Provider = ''anthropic'', ev_Model = (if messageModel = [] then ''unknown'' else messageModel), ev_CanonicalModel = [],
     ev_Tool = ''claude-code'',
     ev_InputTokens = cl_InputTokens raw, ev_OutputTokens = cl_OutputTokens raw,
     ev_CacheReadTokens = cl_CacheReadTokens raw, ev_CacheWriteTokens = claude_cacheWrite raw,
     ev_ReasoningTokens = None, ev_TotalTokens = fst (claude_total raw), ev_DurationMS = None,
     ev_Cost = None, ev_CostEstimated = False, ev_Currency = ''USD'', ev_TokenAccuracy = snd (claude_total raw),
     ev_Source = \<lparr>src_Adapter = claude_adapterID, src_AdapterVersion = claude_adapterVersion, src_Identity = identity,
                  src_Offset = lineNumber\<rparr>,
     ev_Metadata = None\<rparr>"

definition claude_parseTimestamp :: "gostr \<Rightarrow> instant option" where
  "claude_parseTimestamp value = (if trim_space value = [] then None else parse_rfc3339 value)"

definition claudeProjectLabel :: "(nat \<Rightarrow> nat) \<Rightarrow> gostr \<Rightarrow> gostr \<Rightarrow> gostr" where
  "claudeProjectLabel ulow cwd sourcePath =
    (let label = NormalizeProject ulow cwd in
     if label \<noteq> [] then label
     else (let folder = dropWhile (\<lambda>c. c = CHR ''-'') (filepath_Base (filepath_Dir sourcePath))
           in NormalizeProject ulow (last (split_on (CHR ''-'') folder))))"

definition claude_sourceIdentity :: "gostr \<Rightarrow> gostr \<Rightarrow> gostr" where
  "claude_sourceIdentity base path =
    (let relative = (case filepath_Rel base path of None \<Rightarrow> filepath_Base path | Some r \<Rightarrow> r)
     in HashIdentity (claude_adapterID @ '':'' @ relative))"

definition claude_cursorIdentity :: "claude_world \<Rightarrow> gostr \<Rightarrow> gostr" where
  "claude_cursorIdentity w path =
    (case cw_inode w path of
       Some (dev, ino) \<Rightarrow> HashIdentity (claude_adapterID @ '':'' @ cw_abs w path @ '':'' @ int_str dev @ '':'' @ int_str ino)
     | None \<Rightarrow> HashIdentity (claude_adapterID @ '':'' @ cw_abs w path))"

subsection \<open>One record\<close>

definition is_duration :: "transcript_record \<Rightarrow> bool" where
  "is_duration r \<longleftrightarrow> tr_Type r = ''system'' \<and> tr_Subtype r = ''turn_duration'' \<and> tr_DurationMS r \<noteq> None"

text \<open>The response of a record that counts: its message, its usage and its time.\<close>

definition claude_response :: "transcript_record \<Rightarrow> (message_record \<times> claude_usage \<times> instant) option" where
  "claude_response r =
    (if tr_Type r \<noteq> ''assistant'' then None
     else (case tr_Message r of None \<Rightarrow> None
      | Some m \<Rightarrow>
         (case (case mr_Usage m of None \<Rightarrow> tr_Usage r | u \<Rightarrow> u) of None \<Rightarrow> None
          | Some u \<Rightarrow> if \<not> HasTokens u then None
              else (case claude_parseTimestamp (tr_Timestamp r) of None \<Rightarrow> None | Some t \<Rightarrow> Some (m, u, t)))))"

definition claude_session :: "(nat \<Rightarrow> nat) \<Rightarrow> gostr \<Rightarrow> transcript_record \<Rightarrow> gostr" where
  "claude_session ulow path r =
    (let s = (if tr_SessionID r = [] then tr_SessionIDAlt r else tr_SessionID r)
     in if s = [] then HashSessionID path else NormalizeSessionID ulow s)"

text \<open>The events so far and the last working directory.\<close>

definition claude_record ::
  "claude_world \<Rightarrow> gostr \<Rightarrow> gostr \<Rightarrow> gostr \<Rightarrow> i64 \<Rightarrow> transcript_record \<Rightarrow> event list \<times> gostr \<Rightarrow> event list \<times> gostr" where
  "claude_record w path machineID identity n r st = (case st of (events, lastCWD) \<Rightarrow>
    if is_duration r then
      (if events \<noteq> [] \<and> (tr_SessionID r = [] \<or> ev_SessionID (last events) = tr_SessionID r)
       then (butlast events @ [(last events)\<lparr>ev_DurationMS := tr_DurationMS r\<rparr>], lastCWD) else (events, lastCWD))
    else (case claude_response r of None \<Rightarrow> (events, lastCWD)
      | Some (m, u, t) \<Rightarrow>
          (let cwd = (if tr_CWD r \<noteq> [] then tr_CWD r else lastCWD);
               event = claude_normalize (mr_Model m) u machineID identity n (claude_session (cw_ulow w) path r) t
           in (events @ [event\<lparr>ev_Project := claudeProjectLabel (cw_ulow w) cwd path\<rparr>], cwd))))"

definition claude_line ::
  "claude_world \<Rightarrow> gostr \<Rightarrow> gostr \<Rightarrow> gostr \<Rightarrow> i64 \<Rightarrow> i64 \<Rightarrow> gostr \<Rightarrow> event list \<times> gostr \<Rightarrow> go_err + event list \<times> gostr" where
  "claude_line w path machineID identity n position line st =
    Inr (case cw_transcript w line of None \<Rightarrow> st | Some r \<Rightarrow> claude_record w path machineID identity n r st)"

text \<open>A last record that does not decode is left for the next pass when it has no newline yet.\<close>

definition claude_partial :: "claude_world \<Rightarrow> gostr \<Rightarrow> bool" where
  "claude_partial w line \<longleftrightarrow> cw_transcript w line = None \<and> \<not> has_suffix line [newline]"

subsection \<open>Going back a line\<close>

text \<open>\<open>nextLineIsDuration\<close> reads 64 KiB from the offset.\<close>

definition nextLineIsDuration :: "claude_world \<Rightarrow> gostr \<Rightarrow> nat \<Rightarrow> bool" where
  "nextLineIsDuration w content offset =
    (let buffer = take 65536 (drop offset content) in
     buffer \<noteq> [] \<and> (case cw_transcript w (takeWhile (\<lambda>c. c \<noteq> newline) buffer) of None \<Rightarrow> False | Some r \<Rightarrow> is_duration r))"

text \<open>
  The scan of one chunk from its end: the number of newlines seen, and the index of the second
  one when it is in the chunk.
\<close>

fun scan_back :: "gostr \<Rightarrow> nat \<Rightarrow> nat \<Rightarrow> nat \<times> nat option" where
  "scan_back buffer 0 newlines = (newlines, None)"
| "scan_back buffer (Suc i) newlines =
    (if buffer ! i \<noteq> newline then scan_back buffer i newlines
     else if newlines + 1 = 2 then (2, Some i)
     else scan_back buffer i (newlines + 1))"

function chunks_back :: "gostr \<Rightarrow> nat \<Rightarrow> nat \<Rightarrow> nat" where
  "chunks_back content position newlines =
    (if position = 0 then 0
     else (let readSize = min 65536 position; start = position - readSize; buffer = take readSize (drop start content)
           in if buffer = [] then 0
              else (case scan_back buffer (length buffer) newlines of
                (k, Some i) \<Rightarrow> start + i + 1
              | (k, None) \<Rightarrow> chunks_back content start k)))"
  by pat_completeness auto

termination
  by (relation "measure (\<lambda>(content, position, newlines). position)") auto

declare chunks_back.simps [simp del]

definition previousLineStart :: "gostr \<Rightarrow> nat \<Rightarrow> nat" where
  "previousLineStart content offset =
    (if offset = 0 then 0
     else if content ! (offset - 1) \<noteq> newline then offset
     else chunks_back content offset 0)"

subsection \<open>A pass\<close>

definition claude_start :: "claude_world \<Rightarrow> gostr \<Rightarrow> cursor \<Rightarrow> gostr \<Rightarrow> i64 \<times> i64" where
  "claude_start w content c cursorID =
    (let (offset, n) = (if (cu_Identity c \<noteq> [] \<and> cu_Identity c \<noteq> cursorID) \<or> cu_Offset c < 0 \<or> int (length content) < cu_Offset c
        then (0, 0) else (cu_Offset c, cu_Line c))
     in if 0 < offset \<and> 0 < n \<and> nextLineIsDuration w content (nat offset)
        then (let start = int (previousLineStart content (nat offset))
              in if start < offset then (start, n - 1) else (offset, n))
        else (offset, n))"

definition claude_Parse ::
  "claude_world \<Rightarrow> gostr \<Rightarrow> source_info \<Rightarrow> gostr \<Rightarrow> cursor \<Rightarrow> go_err + parse_result" where
  "claude_Parse w base src machineID c =
    (if trim_space machineID = [] then Inl []
     else (case cw_file w (so_Path src) of Inl e \<Rightarrow> Inl e
     | Inr content \<Rightarrow>
        (let path = so_Path src; cursorID = claude_cursorIdentity w path
         in case claude_start w content c cursorID of (offset, n) \<Rightarrow>
           (case record_loop claude_maxRecordBytes (claude_partial w)
               (claude_line w path machineID (claude_sourceIdentity base path)) [] ([], []) offset n (drop (nat offset) content) of
              Inl e \<Rightarrow> Inl e
            | Inr ((events, cwd), position, n') \<Rightarrow>
                Inr \<lparr>ps_Events = events,
                     ps_Cursor = \<lparr>cu_Identity = cursorID, cu_Offset = position, cu_Line = n', cu_State = []\<rparr>\<rparr>))))"

definition claude_Discover :: "(gostr \<Rightarrow> go_err + gostr list) \<Rightarrow> gostr \<Rightarrow> go_err + source_info list" where
  "claude_Discover paths base =
    (case paths base of
       Inl e \<Rightarrow> if NotExist \<in> set e then Inr [] else Inl e
     | Inr ps \<Rightarrow> Inr (map (\<lambda>p. \<lparr>so_Path = p, so_Identity = []\<rparr>) ps))"

subsection \<open>The start of the previous line\<close>

text \<open>A line at \<open>q\<close> of length \<open>n\<close>: it ends in its only newline, and a newline or nothing comes before.\<close>

definition line_at :: "gostr \<Rightarrow> nat \<Rightarrow> nat \<Rightarrow> bool" where
  "line_at content q n \<longleftrightarrow> 0 < n \<and> q + n \<le> length content \<and> content ! (q + n - 1) = newline
    \<and> (\<forall>i. q \<le> i \<longrightarrow> i < q + n - 1 \<longrightarrow> content ! i \<noteq> newline) \<and> (0 < q \<longrightarrow> content ! (q - 1) = newline)"

lemma scan_back_line:
  assumes "line_at content q n" "\<forall>i < len. buffer ! i = content ! (start + i)" "j \<le> len" "q \<le> start + j" "start + j \<le> q + n - 1"
  shows "scan_back buffer j 1 = (if start < q then (2, Some (q - 1 - start)) else (1, None))"
  using assms(3-5)
proof (induction j)
  case 0
  then show ?case by simp
next
  case (Suc j)
  have b: "buffer ! j = content ! (start + j)" using assms(2) Suc.prems by simp
  show ?case
  proof (cases "start + j < q")
    case True
    then have "start + j = q - 1" "0 < q" using Suc.prems(2) by simp_all
    then have "buffer ! j = newline" using b assms(1) by (simp add: line_at_def)
    then show ?thesis using True \<open>start + j = q - 1\<close> by auto
  next
    case False
    then have "buffer ! j \<noteq> newline" using b assms(1) Suc.prems(3) by (simp add: line_at_def)
    then show ?thesis using False Suc by simp
  qed
qed

lemma chunk_nth: "start + len \<le> length content \<Longrightarrow> i < len \<Longrightarrow> take len (drop start content) ! i = content ! (start + i)"
  by simp

lemma chunks_back_step:
  assumes "0 < position" "position \<le> length content" "k = min 65536 position" "start = position - k"
  shows "chunks_back content position m = (case scan_back (take k (drop start content)) k m of
    (j, Some i) \<Rightarrow> start + i + 1 | (j, None) \<Rightarrow> chunks_back content start j)"
proof -
  have len: "length (take k (drop start content)) = k" using assms by auto
  then have ne: "take k (drop start content) \<noteq> []" using assms by auto
  show ?thesis
    using ne len assms(1) by (subst chunks_back.simps) (simp only: Let_def assms(3)[symmetric] assms(4)[symmetric], simp)
qed

lemma chunk_at:
  assumes "0 < position" "position \<le> length content" "k = min 65536 position" "start = position - k"
  shows "start + k = position" "0 < k" "\<forall>i < k. take k (drop start content) ! i = content ! (start + i)"
  using assms by auto

lemma chunks_back_line:
  assumes "line_at content q n"
  shows "q \<le> position \<Longrightarrow> position \<le> q + n - 1 \<Longrightarrow> chunks_back content position 1 = q"
proof (induction position rule: less_induct)
  case (less position)
  show ?case
  proof (cases "position = 0")
    case True
    then show ?thesis using less.prems by (simp add: chunks_back.simps)
  next
    case False
    define k where "k = min 65536 position"
    define start where "start = position - k"
    have p: "0 < position" "position \<le> length content" using False less.prems assms by (auto simp: line_at_def)
    note at = chunk_at[OF p k_def start_def] and stp = chunks_back_step[OF p k_def start_def]
    have s: "scan_back (take k (drop start content)) k 1 = (if start < q then (2, Some (q - 1 - start)) else (1, None))"
      by (rule scan_back_line[OF assms at(3)]) (use at(1) less.prems in auto)
    show ?thesis
    proof (cases "start < q")
      case True
      then show ?thesis unfolding stp s by simp
    next
      case start: False
      have "chunks_back content start 1 = q" by (rule less.IH) (use start at less.prems in auto)
      then show ?thesis unfolding stp s using start by simp
    qed
  qed
qed

lemma previousLineStart_line:
  assumes "line_at content q n"
  shows "previousLineStart content (q + n) = q"
proof -
  define k where "k = min 65536 (q + n)"
  define start where "start = q + n - k"
  have n: "0 < n" "0 < q + n" "q + n \<le> length content" "content ! (q + n - 1) = newline" using assms by (auto simp: line_at_def)
  note at = chunk_at[OF n(2,3) k_def start_def] and stp = chunks_back_step[OF n(2,3) k_def start_def]
  obtain j where j: "k = Suc j" using at(2) by (cases k) auto
  have end_at: "start + j = q + n - 1" using j at(1) by linarith
  then have "take k (drop start content) ! j = newline" using at(3) j n(4) by simp
  then have "scan_back (take k (drop start content)) k 0 = scan_back (take k (drop start content)) j 1" by (simp add: j)
  also have "\<dots> = (if start < q then (2, Some (q - 1 - start)) else (1, None))"
    by (rule scan_back_line[OF assms at(3)]) (use j end_at n(1) in auto)
  finally have s: "scan_back (take k (drop start content)) k 0 = (if start < q then (2, Some (q - 1 - start)) else (1, None))" .
  have "chunks_back content (q + n) 0 = q"
  proof (cases "start < q")
    case True
    then show ?thesis unfolding stp s by simp
  next
    case False
    have "chunks_back content start 1 = q" by (rule chunks_back_line[OF assms]) (use False at j n(1) in auto)
    then show ?thesis unfolding stp s using False by simp
  qed
  then show ?thesis using n by (simp add: previousLineStart_def)
qed

lemma line_at_append:
  assumes "is_line l" "pre = [] \<or> last pre = newline"
  shows "line_at (pre @ l @ post) (length pre) (length l)"
proof -
  have l: "l \<noteq> []" "last l = newline" "newline \<notin> set (butlast l)" using assms(1) by (auto simp: is_line_def)
  have "(pre @ l @ post) ! i \<noteq> newline" if "length pre \<le> i" "i < length pre + length l - 1" for i
  proof -
    have "i - length pre < length l - 1" "i - length pre < length l" using that by linarith+
    then have "(pre @ l @ post) ! i = butlast l ! (i - length pre)" using that(1) by (simp add: nth_append nth_butlast)
    moreover have "butlast l ! (i - length pre) \<in> set (butlast l)" using \<open>i - length pre < length l - 1\<close> by (intro nth_mem) simp
    ultimately show ?thesis using l(3) by metis
  qed
  moreover have "(pre @ l @ post) ! (length pre + length l - 1) = newline"
    using l(1,2) by (cases l rule: rev_cases) (simp_all add: nth_append)
  moreover have "(pre @ l @ post) ! (length pre - 1) = newline" if "0 < length pre"
    using that assms(2) by (simp add: nth_append last_conv_nth)
  ultimately show ?thesis using l(1) by (simp add: line_at_def)
qed

subsection \<open>Reading a transcript in pieces\<close>

text \<open>The fold over the records.\<close>

abbreviation claude_step :: "claude_world \<Rightarrow> gostr \<Rightarrow> gostr \<Rightarrow> gostr \<Rightarrow> i64 \<Rightarrow> gostr \<Rightarrow> event list \<times> gostr \<Rightarrow> event list \<times> gostr" where
  "claude_step w path m identity n l st \<equiv> (case cw_transcript w l of None \<Rightarrow> st | Some r \<Rightarrow> claude_record w path m identity n r st)"

fun claude_run :: "claude_world \<Rightarrow> gostr \<Rightarrow> gostr \<Rightarrow> gostr \<Rightarrow> event list \<times> gostr \<Rightarrow> i64 \<Rightarrow> gostr list \<Rightarrow> event list \<times> gostr" where
  "claude_run w path m identity st n [] = st"
| "claude_run w path m identity st n (l # ls) = claude_run w path m identity (claude_step w path m identity (n + 1) l st) (n + 1) ls"

lemma step_records_claude: "step_records (claude_line w path m identity) st p n ls = Inr (claude_run w path m identity st n ls)"
  by (induction ls arbitrary: st p n) (simp_all add: claude_line_def)

lemma claude_run_append:
  "claude_run w path m identity st n (xs @ ys) = claude_run w path m identity (claude_run w path m identity st n xs) (n + int (length xs)) ys"
  by (induction xs arbitrary: st n) (simp_all add: add.assoc)

lemma record_loop_claude:
  "record_loop limit keep (claude_line w path m identity) [] st p n s =
    (case records limit keep s of None \<Rightarrow> Inl [] | Some ls \<Rightarrow>
      Inr (claude_run w path m identity st n ls, p + int (length (concat ls)), n + int (length ls)))"
proof (cases "records limit keep s")
  case (Some ls)
  then show ?thesis by (simp add: record_loop_records step_records_claude)
next
  case None
  have "record_loop limit keep (claude_line w path m identity) [] st p n s = Inl []"
    using None
  proof (induction limit keep s arbitrary: st p n rule: records.induct)
    case (1 limit keep s)
    obtain line rest eof where l: "line_of s = (line, rest, eof)" by (cases "line_of s")
    show ?case
    proof (cases "length line \<le> limit")
      case True
      have r: "ReadRecordLimit 65535 limit s = (Record line eof, rest)" using ReadRecordLimit_of_line[OF l] True by blast
      have c: "\<not> (line = [] \<and> eof)" "\<not> (eof \<and> keep line)" "records limit keep rest = None"
        using "1.prems" l True by (auto simp: records.simps[of limit keep s] split: if_splits)
      have "record_loop limit keep (claude_line w path m identity) [] st' p' n' rest = Inl []" for st' p' n'
        by (rule "1.IH"[OF l[symmetric] refl]) (use True c in auto)
      moreover obtain st' where "claude_line w path m identity (n + 1) p line st = Inr st'" by (simp add: claude_line_def)
      ultimately show ?thesis using r c(1,2) by (auto simp: record_loop.simps[of limit keep _ _ st p n s])
    next
      case False
      then have "fst (ReadRecordLimit 65535 limit s) = RecordTooLong" using ReadRecordLimit_of_line[OF l] by simp
      then show ?thesis by (subst record_loop.simps) (auto split: prod.splits read_result.splits)
    qed
  qed
  then show ?thesis using None by simp
qed

text \<open>
  A transcript as Claude Code writes it: the duration of a turn directly follows the response, in
  a record of at most 64 KiB, and every response names its working directory. \<open>prev\<close> says whether
  the record before is a response.
\<close>

fun orderly :: "claude_world \<Rightarrow> bool \<Rightarrow> gostr list \<Rightarrow> bool" where
  "orderly w prev [] = True"
| "orderly w prev (l # ls) =
    (case cw_transcript w l of None \<Rightarrow> orderly w False ls
     | Some r \<Rightarrow> (is_duration r \<longrightarrow> prev \<and> length l \<le> 65536) \<and> (claude_response r \<noteq> None \<longrightarrow> tr_CWD r \<noteq> [])
         \<and> orderly w (claude_response r \<noteq> None) ls)"

lemma response_not_duration: "claude_response r \<noteq> None \<Longrightarrow> \<not> is_duration r"
  by (auto simp: claude_response_def is_duration_def split: if_splits)

definition responds :: "claude_world \<Rightarrow> gostr \<Rightarrow> bool" where
  "responds w l \<longleftrightarrow> (case cw_transcript w l of None \<Rightarrow> False | Some r \<Rightarrow> claude_response r \<noteq> None)"

lemma orderly_append: "orderly w prev (xs @ l # ys) \<Longrightarrow> orderly w (responds w l) ys"
  by (induction w prev xs rule: orderly.induct) (auto simp: responds_def split: option.splits)

lemma orderly_weaken:
  "orderly w prev ls \<Longrightarrow> (case ls of [] \<Rightarrow> True | l # _ \<Rightarrow> (case cw_transcript w l of None \<Rightarrow> True | Some r \<Rightarrow> \<not> is_duration r)) \<Longrightarrow> orderly w b ls"
  by (cases ls) (auto split: option.splits)

text \<open>Events before those of a pass do not matter to an orderly transcript.\<close>

lemma claude_record_sim:
  assumes "fst s = E @ fst t" "is_duration r \<longrightarrow> fst t \<noteq> []" "claude_response r \<noteq> None \<longrightarrow> tr_CWD r \<noteq> []"
  shows "fst (claude_record w path m identity n r s) = E @ fst (claude_record w path m identity n r t)
    \<and> (claude_response r \<noteq> None \<longrightarrow> fst (claude_record w path m identity n r t) \<noteq> [])"
proof (cases "is_duration r")
  case True
  then have "fst t \<noteq> []" "claude_response r = None" using assms(2) response_not_duration[of r] by fast+
  then show ?thesis using assms(1) True
    by (cases s; cases t) (simp add: claude_record_def butlast_append)
next
  case False
  then show ?thesis using assms
    by (cases s; cases t) (auto simp: claude_record_def Let_def split: option.split)
qed

lemma claude_run_sim:
  assumes "orderly w prev ls" "fst s = E @ fst t" "prev \<longrightarrow> fst t \<noteq> []"
  shows "fst (claude_run w path m identity s n ls) = E @ fst (claude_run w path m identity t n ls)"
  using assms
proof (induction w prev ls arbitrary: s t n rule: orderly.induct)
  case (2 w prev l ls)
  show ?case
  proof (cases "cw_transcript w l")
    case None
    then show ?thesis using "2.IH"(1)[OF None] "2.prems" by simp
  next
    case (Some r)
    have o: "is_duration r \<longrightarrow> prev" "claude_response r \<noteq> None \<longrightarrow> tr_CWD r \<noteq> []" "orderly w (claude_response r \<noteq> None) ls"
      using "2.prems"(1) Some by auto
    have "fst (claude_record w path m identity (n + 1) r s) = E @ fst (claude_record w path m identity (n + 1) r t)
      \<and> (claude_response r \<noteq> None \<longrightarrow> fst (claude_record w path m identity (n + 1) r t) \<noteq> [])"
      by (rule claude_record_sim) (use o "2.prems" in auto)
    then show ?thesis using "2.IH"(2)[OF Some o(3)] Some by simp
  qed
qed simp

text \<open>Where an event comes from: its line and its ID; a pass keeps them, and adds those of later lines.\<close>

definition origin :: "event \<Rightarrow> i64 \<times> gostr" where
  "origin e = (src_Offset (ev_Source e), ev_EventID e)"

lemma claude_step_origin:
  "\<exists>zs. map origin (fst (claude_step w path m identity n l st)) = map origin (fst st) @ zs \<and> (\<forall>z \<in> set zs. fst z = n)"
proof (cases "cw_transcript w l")
  case (Some r)
  obtain events cwd where st: "st = (events, cwd)" by (cases st)
  show ?thesis
  proof (cases "is_duration r")
    case True
    then show ?thesis
      by (cases events rule: rev_cases) (simp_all add: Some st claude_record_def origin_def)
  next
    case False
    show ?thesis
    proof (cases "claude_response r")
      case (Some a)
      then show ?thesis using \<open>cw_transcript w l = Some r\<close> False
        by (cases a) (simp add: st claude_record_def Let_def origin_def claude_normalize_def)
    qed (simp add: Some st claude_record_def False)
  qed
qed simp

lemma claude_run_origin:
  "\<exists>zs. map origin (fst (claude_run w path m identity st n ls)) = map origin (fst st) @ zs
    \<and> (\<forall>z \<in> set zs. n < fst z \<and> fst z \<le> n + int (length ls))"
proof (induction ls arbitrary: st n)
  case (Cons l ls)
  obtain zs where z: "map origin (fst (claude_step w path m identity (n + 1) l st)) = map origin (fst st) @ zs" "\<forall>z \<in> set zs. fst z = n + 1"
    using claude_step_origin by blast
  obtain zs' where z': "map origin (fst (claude_run w path m identity (claude_step w path m identity (n + 1) l st) (n + 1) ls))
      = map origin (fst (claude_step w path m identity (n + 1) l st)) @ zs'"
    "\<forall>z \<in> set zs'. n + 1 < fst z \<and> fst z \<le> n + 1 + int (length ls)"
    using Cons.IH by blast
  show ?case using z z' by (intro exI[of _ "zs @ zs'"]) auto
qed simp

text \<open>An event that is reported again replaces the earlier report of its line.\<close>

definition claude_merge :: "event list \<Rightarrow> event list \<Rightarrow> event list" where
  "claude_merge E F = filter (\<lambda>e. fst (origin e) \<notin> set (map (fst \<circ> origin) F)) E @ F"

lemma claude_merge_after:
  assumes "\<forall>e \<in> set E. fst (origin e) \<le> n" "\<forall>f \<in> set F. n < fst (origin f)"
  shows "claude_merge E F = E @ F" "\<forall>e \<in> set E. \<forall>f \<in> set F. fst (origin e) = fst (origin f) \<longrightarrow> origin e = origin f"
  using assms by (force simp: claude_merge_def filter_id_conv)+

lemma claude_merge_again:
  assumes "\<forall>e \<in> set E. fst (origin e) < n" "map origin F = (n, i) # zs" "\<forall>z \<in> set zs. n < fst z" "origin e = (n, i)"
  shows "claude_merge (E @ [e]) F = E @ F" "\<forall>e' \<in> set (E @ [e]). \<forall>f \<in> set F. fst (origin e') = fst (origin f) \<longrightarrow> origin e' = origin f"
proof -
  have o: "origin ` set F = insert (n, i) (set zs)" using assms(2) by (metis list.set(2) set_map)
  have f: "origin f = (n, i) \<or> n < fst (origin f)" if "f \<in> set F" for f
  proof -
    have "origin f \<in> insert (n, i) (set zs)" using that o by (metis imageI)
    then show ?thesis using assms(3) by auto
  qed
  have "(n, i) \<in> origin ` set F" using o by simp
  then obtain g where g: "g \<in> set F" "origin g = (n, i)" by auto
  then have n: "n \<in> set (map (fst \<circ> origin) F)" by (metis comp_apply fst_conv image_eqI set_map)
  have less: "fst (origin e') \<notin> set (map (fst \<circ> origin) F)" if "e' \<in> set E" for e'
  proof
    assume "fst (origin e') \<in> set (map (fst \<circ> origin) F)"
    then obtain f' where f': "f' \<in> set F" "fst (origin e') = fst (origin f')" by auto
    then show False using f[OF f'(1)] assms(1) that by auto
  qed
  then show "claude_merge (E @ [e]) F = E @ F" using n assms(4) by (simp add: claude_merge_def filter_id_conv)
  show "\<forall>e' \<in> set (E @ [e]). \<forall>f \<in> set F. fst (origin e') = fst (origin f) \<longrightarrow> origin e' = origin f"
  proof (intro ballI impI)
    fix e' f' assume e': "e' \<in> set (E @ [e])" and f': "f' \<in> set F" and eq: "fst (origin e') = fst (origin f')"
    have "e' \<notin> set E" using less[of e'] f' eq by auto
    then have "e' = e" using e' by simp
    then show "origin e' = origin f'" using f[OF f'] eq assms(4) by auto
  qed
qed

subsection \<open>Two passes\<close>

definition claude_with :: "gostr \<Rightarrow> gostr \<Rightarrow> claude_world \<Rightarrow> claude_world" where
  "claude_with path content w = w\<lparr>cw_file := (cw_file w)(path := Inr content)\<rparr>"

lemma claude_with_simps [simp]:
  "cw_transcript (claude_with path c w) = cw_transcript w" "cw_ulow (claude_with path c w) = cw_ulow w"
  "cw_file (claude_with path c w) path = Inr c"
  by (simp_all add: claude_with_def)

lemma claude_record_with [simp]: "claude_record (claude_with path c w) = claude_record w"
  by (intro ext) (simp only: claude_record_def claude_with_simps)

lemma claude_partial_with [simp]: "claude_partial (claude_with path c w) = claude_partial w"
  by (intro ext) (simp add: claude_partial_def)

lemma claude_start_with [simp]: "claude_start (claude_with path c w) = claude_start w"
  by (intro ext) (simp add: claude_start_def nextLineIsDuration_def)

lemma claude_cursorIdentity_with [simp]: "claude_cursorIdentity (claude_with path c w) = claude_cursorIdentity w"
  by (intro ext) (simp add: claude_cursorIdentity_def claude_with_def split: option.split prod.split)

lemma claude_run_with [simp]: "claude_run (claude_with path c w) p m identity st n ls = claude_run w p m identity st n ls"
  by (induction ls arbitrary: st n) (simp_all cong: option.case_cong)

lemma claude_Parse_content:
  "claude_Parse (claude_with (so_Path src) content w) base src m c =
    (if trim_space m = [] then Inl []
     else (case claude_start w content c (claude_cursorIdentity w (so_Path src)) of (offset, n) \<Rightarrow>
       (case records claude_maxRecordBytes (claude_partial w) (drop (nat offset) content) of
          None \<Rightarrow> Inl []
        | Some ls \<Rightarrow> Inr \<lparr>ps_Events = fst (claude_run w (so_Path src) m (claude_sourceIdentity base (so_Path src)) ([], []) n ls),
            ps_Cursor = \<lparr>cu_Identity = claude_cursorIdentity w (so_Path src), cu_Offset = offset + int (length (concat ls)),
              cu_Line = n + int (length ls), cu_State = []\<rparr>\<rparr>)))"
  by (simp add: claude_Parse_def Let_def record_loop_claude split: prod.split option.split)

text \<open>Where a pass starts that has a cursor at the end of a line.\<close>

lemma claude_start_line:
  assumes "is_line l" "pre = [] \<or> last pre = newline" "0 < n"
  shows "claude_start w (pre @ l @ ys) \<lparr>cu_Identity = i, cu_Offset = int (length (pre @ l)), cu_Line = n, cu_State = []\<rparr> i
    = (if nextLineIsDuration w (pre @ l @ ys) (length (pre @ l)) then (int (length pre), n - 1) else (int (length (pre @ l)), n))"
proof -
  let ?p = "length pre + length l"
  have "previousLineStart (pre @ l @ ys) ?p = length pre"
    by (rule previousLineStart_line[OF line_at_append[OF assms(1,2)]])
  moreover have "nat (int (length pre) + int (length l)) = ?p" by simp
  moreover have "0 < length l" using assms(1) by (simp add: is_line_def)
  moreover from this have "0 < int (length pre) + int (length l)" by linarith
  ultimately show ?thesis using assms(3) by (simp add: claude_start_def Let_def)
qed

lemma next_line_duration:
  assumes json: "\<And>l. cw_transcript w (l @ [newline]) = cw_transcript w l"
    and ys: "records K P ys = Some (d # ds)" "cw_transcript w d = Some r" "is_duration r" "length d \<le> 65536"
  shows "nextLineIsDuration w (pre @ ys) (length pre)"
proof -
  let ?P = "\<lambda>c. c \<noteq> newline"
  obtain rest eof where l1: "line_of ys = (d, rest, eof)"
    using ys(1) by (cases "line_of ys") (auto simp: records.simps[of K P ys] split: if_splits)
  have tw: "d = takeWhile ?P ys @ (if length (takeWhile ?P ys) < length ys then [newline] else [])"
    using l1 by (auto simp: line_of_def Let_def takeWhile_eq_all_conv split: if_splits) (metis length_takeWhile_le le_neq_implies_less takeWhile_eq_take take_all order_refl)
  then have "cw_transcript w (takeWhile ?P ys) = Some r" using ys(2) json by (auto split: if_splits)
  moreover have "takeWhile ?P (take 65536 ys) = takeWhile ?P ys"
    by (rule takeWhile_append_len) (use tw ys(4) in \<open>auto split: if_splits\<close>)
  moreover have "take 65536 ys \<noteq> []" using ys(1) by (auto simp: records_Nil)
  ultimately show ?thesis using ys(3) by (simp add: nextLineIsDuration_def)
qed

lemma orderly_cwd:
  "orderly w prev (xs @ l # ys) \<Longrightarrow> cw_transcript w l = Some r \<Longrightarrow> claude_response r \<noteq> None \<Longrightarrow> tr_CWD r \<noteq> []"
  by (induction w prev xs rule: orderly.induct) (auto split: option.splits)

lemma claude_step_response:
  assumes "cw_transcript w l = Some r" "claude_response r \<noteq> None" "tr_CWD r \<noteq> []"
  shows "\<exists>e i. origin e = (n, i) \<and> ev_DurationMS e = None
    \<and> ev_Project e = claudeProjectLabel (cw_ulow w) (tr_CWD r) path \<and> (\<forall>s. claude_step w path m identity n l s = (fst s @ [e], tr_CWD r))"
proof -
  obtain a u t where a: "claude_response r = Some (a, u, t)" using assms(2) by auto
  define e where "e = (claude_normalize (mr_Model a) u m identity n (claude_session (cw_ulow w) path r) t)
    \<lparr>ev_Project := claudeProjectLabel (cw_ulow w) (tr_CWD r) path\<rparr>"
  have "claude_step w path m identity n l s = (fst s @ [e], tr_CWD r)" for s
    using assms a response_not_duration[OF assms(2)] by (cases s) (simp add: claude_record_def Let_def e_def)
  moreover have "fst (origin e) = n" "ev_DurationMS e = None" "ev_Project e = claudeProjectLabel (cw_ulow w) (tr_CWD r) path"
    by (simp_all add: e_def origin_def claude_normalize_def)
  ultimately show ?thesis by (metis prod.collapse)
qed

lemma claude_step_quiet: "\<not> responds w l \<Longrightarrow> claude_step w path m identity n l ([], []) = ([], [])"
  by (auto simp: responds_def claude_record_def split: option.splits)

lemma claude_later:
  assumes "orderly w False ls" "\<forall>e \<in> set (fst s). fst (origin e) \<le> n"
  shows "fst (claude_run w path m identity s n ls) = claude_merge (fst s) (fst (claude_run w path m identity ([], []) n ls))"
    "\<forall>e \<in> set (fst s). \<forall>f \<in> set (fst (claude_run w path m identity ([], []) n ls)). fst (origin e) = fst (origin f) \<longrightarrow> origin e = origin f"
proof -
  let ?F = "fst (claude_run w path m identity ([], []) n ls)"
  obtain zs where "map origin ?F = zs" "\<forall>z \<in> set zs. n < fst z"
    using claude_run_origin[of w path m identity "([], [])" n ls] by auto
  then have F: "\<forall>f \<in> set ?F. n < fst (origin f)" by auto
  have "fst (claude_run w path m identity s n ls) = fst s @ ?F"
    by (rule claude_run_sim[OF assms(1)]) simp_all
  then show "fst (claude_run w path m identity s n ls) = claude_merge (fst s) ?F"
    "\<forall>e \<in> set (fst s). \<forall>f \<in> set ?F. fst (origin e) = fst (origin f) \<longrightarrow> origin e = origin f"
    using claude_merge_after[OF assms(2) F] by simp_all
qed

text \<open>What a pass over the rest reports, when it starts at the rest or at the line before.\<close>

lemma claude_second_pass:
  fixes path m identity w
  defines "run \<equiv> claude_run w path m identity"
  assumes orderly: "orderly w False (ls0 @ l # ls2)"
    and start: "lsx = ls2 \<and> n' = n \<and> (case ls2 of [] \<Rightarrow> True | d # _ \<Rightarrow> (case cw_transcript w d of None \<Rightarrow> True | Some r \<Rightarrow> \<not> is_duration r))
      \<or> lsx = l # ls2 \<and> n' = n - 1"
    and n: "n = int (length (ls0 @ [l]))"
  shows "fst (run ([], []) 0 (ls0 @ l # ls2)) = claude_merge (fst (run ([], []) 0 (ls0 @ [l]))) (fst (run ([], []) n' lsx))
    \<and> (\<forall>e \<in> set (fst (run ([], []) 0 (ls0 @ [l]))). \<forall>f \<in> set (fst (run ([], []) n' lsx)).
      fst (origin e) = fst (origin f) \<longrightarrow> origin e = origin f)" (is "?Q (run ([], []) n' lsx)")
proof -
  define s0 where "s0 = run ([], []) 0 ls0"
  define step where "step = claude_step w path m identity n l"
  have n1: "n = int (length ls0) + 1" using n by simp
  have r1: "run ([], []) 0 (ls0 @ [l]) = step s0" "run ([], []) 0 (ls0 @ l # ls2) = run (step s0) n ls2"
    unfolding run_def s0_def step_def n1 by (simp_all add: claude_run_append add.commute)
  obtain zs where z: "map origin (fst s0) = zs" "\<forall>z \<in> set zs. fst z < n"
    using claude_run_origin[of w path m identity "([], [])" 0 ls0] n1 unfolding s0_def run_def by auto
  then have E: "\<forall>e \<in> set (fst s0). fst (origin e) < n" by auto
  obtain zs' where z': "map origin (fst (step s0)) = zs @ zs'" "\<forall>z \<in> set zs'. fst z = n"
    using claude_step_origin[where w = w and path = path and m = m and identity = identity and n = n and l = l and st = s0] z(1) unfolding step_def by auto
  have E1: "\<forall>e \<in> set (fst (step s0)). fst (origin e) \<le> n"
  proof
    fix e assume "e \<in> set (fst (step s0))"
    then have "origin e \<in> set (zs @ zs')" using z'(1) by (metis image_eqI list.set_map)
    then show "fst (origin e) \<le> n" using z(2) z'(2) by auto
  qed
  have later: "?Q (run ([], []) n ls2)" if "orderly w False ls2"
    unfolding r1 using claude_later[OF that E1] unfolding run_def by blast
  have rest: "orderly w (responds w l) ls2" by (rule orderly_append[OF orderly])
  consider (ahead) "lsx = ls2" "n' = n" "orderly w False ls2"
    | (quiet) "lsx = l # ls2" "n' = n - 1" "\<not> responds w l" | (again) "lsx = l # ls2" "n' = n - 1" "responds w l"
    using start orderly_weaken[OF rest, of False] by auto
  then show ?thesis
  proof cases
    case ahead
    then show ?thesis using later by simp
  next
    case quiet
    have "run ([], []) n' lsx = run ([], []) n ls2"
      unfolding run_def quiet(1,2) claude_run.simps diff_add_cancel claude_step_quiet[OF quiet(3)] by (rule refl)
    moreover have "orderly w False ls2" using rest quiet(3) by simp
    ultimately show ?thesis using later by simp
  next
    case again
    then obtain r where r: "cw_transcript w l = Some r" "claude_response r \<noteq> None" by (auto simp: responds_def split: option.splits)
    obtain e i where e: "origin e = (n, i)" "\<And>s. step s = (fst s @ [e], tr_CWD r)"
      using claude_step_response[OF r orderly_cwd[OF orderly r]] unfolding step_def by metis
    have second: "run ([], []) n' lsx = run ([e], tr_CWD r) n ls2"
      using e(2)[of "([], [])"] unfolding run_def step_def again(1,2) claude_run.simps diff_add_cancel fst_conv append_Nil by (simp only:)
    obtain ws where ws: "map origin (fst (run ([e], tr_CWD r) n ls2)) = (n, i) # ws" "\<forall>z \<in> set ws. n < fst z"
      using claude_run_origin[of w path m identity "([e], tr_CWD r)" n ls2] e(1) unfolding run_def by auto
    have "fst (run (step s0) n ls2) = fst s0 @ fst (run ([e], tr_CWD r) n ls2)"
      unfolding run_def e(2) by (rule claude_run_sim[OF rest]) simp_all
    then show ?thesis
      unfolding r1 second e(2) fst_conv using claude_merge_again[OF E ws e(1)] by (simp only: simp_thms)
  qed
qed

lemma last_concat_lines: "list_all is_line ls \<Longrightarrow> concat ls = [] \<or> last (concat ls) = newline"
  by (cases ls rule: rev_cases) (auto simp: is_line_def)


text \<open>A world of three lines: a response, its duration, and a response that names no directory.\<close>

definition response_of :: "gostr \<Rightarrow> gostr \<Rightarrow> transcript_record" where
  "response_of t cwd = \<lparr>tr_Type = ''assistant'', tr_Subtype = [], tr_Timestamp = t, tr_SessionID = ''s1'', tr_SessionIDAlt = [],
     tr_CWD = cwd, tr_DurationMS = None,
     tr_Message = Some \<lparr>mr_Model = ''opus'', mr_Usage = Some \<lparr>cl_InputTokens = Some 1, cl_OutputTokens = Some 2, cl_CacheReadTokens = None,
       cl_CacheWriteTokens = None, cl_TotalTokens = Some 3, cl_CacheCreation = None\<rparr>\<rparr>, tr_Usage = None\<rparr>"

definition duration_of :: "i64 \<Rightarrow> transcript_record" where
  "duration_of n = \<lparr>tr_Type = ''system'', tr_Subtype = ''turn_duration'', tr_Timestamp = [], tr_SessionID = [], tr_SessionIDAlt = [],
     tr_CWD = [], tr_DurationMS = Some n, tr_Message = None, tr_Usage = None\<rparr>"

definition claude_sample :: claude_world where
  "claude_sample = \<lparr>cw_ulow = (\<lambda>r. r), cw_file = (\<lambda>_. Inl [NotExist]), cw_inode = (\<lambda>_. None), cw_abs = (\<lambda>p. p),
     cw_transcript = (\<lambda>l. case rev (dropWhile (\<lambda>c. c = newline) (rev l)) of
       [c] \<Rightarrow> if c = CHR ''A'' then Some (response_of ''2026-07-12T12:00:01Z'' ''/w/repo'')
              else if c = CHR ''B'' then Some (response_of ''2026-07-12T12:00:02Z'' [])
              else if c = CHR ''D'' then Some (duration_of 5) else None
     | _ \<Rightarrow> None)\<rparr>"

definition claude_source :: source_info where
  "claude_source = \<lparr>so_Path = ''/h/p/-w-other/s1.jsonl'', so_Identity = []\<rparr>"

lemma sample_transcript:
  "cw_transcript claude_sample (l @ [newline]) = cw_transcript claude_sample l"
  "cw_transcript claude_sample [CHR ''A'', newline] = Some (response_of ''2026-07-12T12:00:01Z'' ''/w/repo'')"
  "cw_transcript claude_sample [CHR ''B'', newline] = Some (response_of ''2026-07-12T12:00:02Z'' [])"
  "cw_transcript claude_sample [CHR ''D'', newline] = Some (duration_of 5)"
  by (simp_all add: claude_sample_def newline_def)

lemma sample_responses:
  "\<exists>a. claude_response (response_of ''2026-07-12T12:00:01Z'' cwd) = Some a" "\<exists>a. claude_response (response_of ''2026-07-12T12:00:02Z'' cwd) = Some a"
  "claude_response (duration_of n) = None" "is_duration (duration_of n)" "\<not> is_duration (response_of t cwd)"
proof -
  have p: "claude_parseTimestamp ''2026-07-12T12:00:01Z'' \<noteq> None" "claude_parseTimestamp ''2026-07-12T12:00:02Z'' \<noteq> None"
  proof -
    have "parse_rfc3339 ''2026-07-12T12:00:01Z'' \<noteq> None" "parse_rfc3339 ''2026-07-12T12:00:02Z'' \<noteq> None" by code_simp+
    then show "claude_parseTimestamp ''2026-07-12T12:00:01Z'' \<noteq> None" "claude_parseTimestamp ''2026-07-12T12:00:02Z'' \<noteq> None"
      by (simp_all add: claude_parseTimestamp_def str_eval del: runes.simps(2))
  qed
  then show "\<exists>a. claude_response (response_of ''2026-07-12T12:00:01Z'' cwd) = Some a" "\<exists>a. claude_response (response_of ''2026-07-12T12:00:02Z'' cwd) = Some a"
    by (auto simp: claude_response_def response_of_def HasTokens_def)
qed (simp_all add: claude_response_def duration_of_def is_duration_def response_of_def)

lemma records_two:
  "is_line a \<Longrightarrow> is_line b \<Longrightarrow> length a \<le> limit \<Longrightarrow> length b \<le> limit \<Longrightarrow> records limit keep (a @ b) = Some [a, b]"
  using records_append[of a limit keep b] by (simp add: records_line is_line_def[of a])

lemma sample_lines: "is_line [CHR ''A'', newline]" "is_line [CHR ''B'', newline]" "is_line [CHR ''D'', newline]"
  by (simp_all add: is_line_def newline_def)


text \<open>C22: What a second pass forgets: the working directory. A response that names none takes the last
  one of its transcript in a full read; when the pass starts between the two, the last directory
  is not in the cursor, and the event is labelled from the folder of the transcript instead. The
  project an event is counted for depends on the moment of the poll.\<close>

theorem claude_cwd_forgotten:
  assumes json: "\<And>l. cw_transcript w (l @ [newline]) = cw_transcript w l"
    and lines: "is_line a" "is_line b" "length a \<le> 65536" "length b \<le> 65536" and m: "trim_space m \<noteq> []"
    and a: "cw_transcript w a = Some ra" "claude_response ra \<noteq> None" "tr_CWD ra \<noteq> []"
    and b: "cw_transcript w b = Some rb" "claude_response rb \<noteq> None" "tr_CWD rb = []"
  shows "\<exists>r r1 r2. claude_Parse (claude_with (so_Path src) (a @ b) w) base src m no_cursor = Inr r
    \<and> claude_Parse (claude_with (so_Path src) a w) base src m no_cursor = Inr r1
    \<and> claude_Parse (claude_with (so_Path src) (a @ b) w) base src m (ps_Cursor r1) = Inr r2
    \<and> map ev_Project (ps_Events r) = [claudeProjectLabel (cw_ulow w) (tr_CWD ra) (so_Path src), claudeProjectLabel (cw_ulow w) (tr_CWD ra) (so_Path src)]
    \<and> map ev_Project (ps_Events r1) = [claudeProjectLabel (cw_ulow w) (tr_CWD ra) (so_Path src)]
    \<and> map ev_Project (ps_Events r2) = [claudeProjectLabel (cw_ulow w) [] (so_Path src)]"
proof -
  let ?path = "so_Path src" and ?K = claude_maxRecordBytes and ?id = "claude_sourceIdentity base (so_Path src)"
  let ?i = "claude_cursorIdentity w (so_Path src)"
  have at0: "claude_start w c no_cursor i = (0, 0)" for c i by (simp add: claude_start_def no_cursor_def)
  have K: "length a \<le> ?K" "length b \<le> ?K" using lines by (simp_all add: claude_maxRecordBytes_def)
  note recs = records_line[OF lines(1) K(1)] records_line[OF lines(2) K(2)] records_two[OF lines(1,2) K]
  obtain ea where ea: "ev_Project ea = claudeProjectLabel (cw_ulow w) (tr_CWD ra) ?path" "claude_step w ?path m ?id 1 a ([], []) = ([ea], tr_CWD ra)"
    using claude_step_response[OF a, of 1 ?path m ?id] by auto
  have eb: "map ev_Project (fst (claude_step w ?path m ?id 2 b s)) = map ev_Project (fst s) @ [claudeProjectLabel (cw_ulow w) (snd s) ?path]" for s
    using b response_not_duration[OF b(2)] by (cases s) (auto simp: claude_record_def Let_def)
  have nd: "\<not> nextLineIsDuration w (a @ b) (length a)"
  proof -
    have "b = butlast b @ [newline]" using lines(2) by (metis append_butlast_last_id is_line_def)
    then have bl: "cw_transcript w (butlast b) = Some rb" using json[of "butlast b"] b(1) by simp
    have "takeWhile (\<lambda>c. c \<noteq> newline) (take 65536 b) = butlast b"
    proof -
      have "takeWhile (\<lambda>c. c \<noteq> newline) (butlast b @ [newline]) = butlast b"
        using lines(2) by (subst takeWhile_append2) (auto simp: is_line_def)
      then show ?thesis using lines(4) \<open>b = butlast b @ [newline]\<close> by simp
    qed
    then show ?thesis using bl response_not_duration[OF b(2)] by (simp add: nextLineIsDuration_def)
  qed
  have "claude_start w (a @ b) \<lparr>cu_Identity = ?i, cu_Offset = int (length a), cu_Line = 1, cu_State = []\<rparr> ?i = (int (length a), 1)"
    using claude_start_line[OF lines(1), of "[]" 1 w b ?i] nd by simp
  moreover have "claude_run w ?path m ?id ([], []) 0 [a] = ([ea], tr_CWD ra)"
    by (simp only: claude_run.simps add_0 ea(2))
  moreover have "claude_run w ?path m ?id ([], []) 0 [a, b] = claude_step w ?path m ?id 2 b ([ea], tr_CWD ra)"
    by (simp only: claude_run.simps add_0 ea(2) one_add_one)
  moreover have "claude_run w ?path m ?id ([], []) 1 [b] = claude_step w ?path m ?id 2 b ([], [])"
    by (simp only: claude_run.simps one_add_one)
  ultimately show ?thesis
    using m ea(1) eb[of "([ea], tr_CWD ra)"] eb[of "([], [])"] recs by (simp add: claude_Parse_content at0 del: claude_run.simps)
qed

theorem claude_cwd_forgotten_witness:
  "claudeProjectLabel (\<lambda>r. r) ''/w/repo'' ''/h/p/-w-other/s1.jsonl'' = ''repo''
    \<and> claudeProjectLabel (\<lambda>r. r) [] ''/h/p/-w-other/s1.jsonl'' = ''other''
    \<and> (\<exists>r2 c. claude_Parse (claude_with (so_Path claude_source) ([CHR ''A'', newline] @ [CHR ''B'', newline]) claude_sample) ''/h/p'' claude_source ''m'' c = Inr r2
        \<and> ''other'' \<in> set (map ev_Project (ps_Events r2)))"
proof (intro conjI)
  have folder: "filepath_Base (filepath_Dir ''/h/p/-w-other/s1.jsonl'') = ''-w-other''" by code_simp
  show l: "claudeProjectLabel (\<lambda>r. r) ''/w/repo'' ''/h/p/-w-other/s1.jsonl'' = ''repo''"
    "claudeProjectLabel (\<lambda>r. r) [] ''/h/p/-w-other/s1.jsonl'' = ''other''"
    unfolding claudeProjectLabel_def folder
    by (simp_all add: NormalizeProject_def trim_right_char_def replace_char_def contains_def Let_def str_eval char_of_def bit_0 del: runes.simps(2))
  obtain u v where u: "claude_response (response_of ''2026-07-12T12:00:01Z'' ''/w/repo'') = Some u"
    "claude_response (response_of ''2026-07-12T12:00:02Z'' []) = Some v" using sample_responses(1,2) by blast
  have m: "trim_space ''m'' \<noteq> []" by (simp add: str_eval del: runes.simps(2))
  have "claudeProjectLabel (cw_ulow claude_sample) [] (so_Path claude_source) = ''other''"
    unfolding claude_sample_def claude_source_def claude_world.select_convs source_info.select_convs by (rule l(2))
  moreover have q: "claude_response (response_of ''2026-07-12T12:00:01Z'' ''/w/repo'') \<noteq> None" "tr_CWD (response_of ''2026-07-12T12:00:01Z'' ''/w/repo'') \<noteq> []"
    "claude_response (response_of ''2026-07-12T12:00:02Z'' []) \<noteq> None" "tr_CWD (response_of ''2026-07-12T12:00:02Z'' []) = []"
    using u by (simp_all add: response_of_def)
  moreover have n: "length [CHR ''A'', newline] \<le> 65536" "length [CHR ''B'', newline] \<le> 65536" by simp_all
  obtain r1 r2 :: parse_result where "claude_Parse (claude_with (so_Path claude_source) ([CHR ''A'', newline] @ [CHR ''B'', newline]) claude_sample) ''/h/p'' claude_source ''m'' (ps_Cursor r1) = Inr r2"
    "map ev_Project (ps_Events r2) = [claudeProjectLabel (cw_ulow claude_sample) [] (so_Path claude_source)]"
    using claude_cwd_forgotten[OF sample_transcript(1) sample_lines(1,2) n m sample_transcript(2) q(1,2) sample_transcript(3) q(3,4), of claude_source "''/h/p''"]
    apply (elim exE conjE)
    apply (rule that)
    apply assumption
    apply assumption
    done
  ultimately show "\<exists>r2 c. claude_Parse (claude_with (so_Path claude_source) ([CHR ''A'', newline] @ [CHR ''B'', newline]) claude_sample) ''/h/p'' claude_source ''m'' c = Inr r2
        \<and> ''other'' \<in> set (map ev_Project (ps_Events r2))" by (metis list.set_intros(1))
qed

end
