(* ===== verification/Agent_Stuck.thy ===== *)
theory Agent_Stuck
  imports Agent_Hub Claude_Adapter
begin

text \<open>
  An agent and an event that the hub does not accept: the hub refuses a batch as a whole, the agent
  keeps its state on every failed upload, and collects the same event again.
\<close>

definition refused_for_good :: "('p, 'q) link \<Rightarrow> event \<Rightarrow> bool" where
  "refused_for_good lk e \<longleftrightarrow> (\<forall>h j. validateAt (hv_ulow (lk_env lk h)) (hv_metadata (lk_env lk h)) (hv_validate (lk_env lk h) j)
      (SanitizeOutbound e) \<noteq> None)"

text \<open>The batches of these events arrive as they are sent.\<close>

definition batches_carried :: "('p, 'q) link \<Rightarrow> ('p, 'q) hub peer \<Rightarrow> event list \<Rightarrow> bool" where
  "batches_carried lk p es \<longleftrightarrow> (case splitIngestBatches (pe_event p) (sanitizeOutboundEvents es) of
    Inl err \<Rightarrow> True | Inr bs \<Rightarrow> list_all (carries lk p) bs)"

text \<open>Passes, one after the other: the loop of the agent.\<close>

fun passes :: "'h peer \<Rightarrow> client \<Rightarrow> pass_env list \<Rightarrow> agent_state \<times> 'h \<Rightarrow> (agent_state \<times> 'h) \<times> pass_error goerror list" where
  "passes p c [] sh = (sh, [])"
| "passes p c (env # envs) sh =
    (case pass p c env sh of (sh', err) \<Rightarrow> (case passes p c envs sh' of (sh'', errs) \<Rightarrow> (sh'', err # errs)))"

subsection \<open>Refused batches: lemmas\<close>

lemma ingestBatch_refused:
  fixes lk :: "('p, 'q) link"
  assumes "wired lk p c" "carries lk p b" "refused_for_good lk e" "SanitizeOutbound e \<in> set b"
  shows "\<exists>h' err. ingestBatch p c b h = (h', Inl err)"
proof (cases "ingestBatch p c b h")
  case (Pair h' v)
  show ?thesis
  proof (cases v)
    case (Inr result)
    obtain r and h1 :: "('p, 'q) hub" and status body where a: "accepted_batch (lk_env lk h) r b"
      by (rule ingestBatch_accepted[OF assms(1,2) Pair[unfolded Inr]])
    obtain j where j: "j < length b" "b ! j = SanitizeOutbound e" using assms(4) by (metis in_set_conv_nth)
    then have "(j, SanitizeOutbound e) \<in> set (enumerate 0 b)" by (auto simp: in_set_enumerate_eq)
    then have "validateAt (hv_ulow (lk_env lk h)) (hv_metadata (lk_env lk h)) (hv_validate (lk_env lk h) j) (SanitizeOutbound e) = None"
      using a by (auto simp: accepted_batch_def list_all_iff)
    then show ?thesis using assms(3) unfolding refused_for_good_def by metis
  qed (simp add: Pair)
qed

lemma ingest_batches_refused:
  assumes "wired lk p c" "refused_for_good lk e"
  shows "list_all (carries lk p) bs \<Longrightarrow> SanitizeOutbound e \<in> set (concat bs) \<Longrightarrow>
    \<exists>h' err. ingest_batches p c k combined bs h = (h', Inl err)"
proof (induction bs arbitrary: k combined h)
  case (Cons b bs)
  show ?case
  proof (cases "SanitizeOutbound e \<in> set b")
    case True
    then show ?thesis using ingestBatch_refused[OF assms(1) _ assms(2), of b h] Cons.prems by auto
  next
    case False
    then show ?thesis using Cons.IH Cons.prems by (auto split: prod.split sum.split)
  qed
qed simp

lemma client_Ingest_refused:
  assumes "wired lk p c" "refused_for_good lk e" "batches_carried lk p es" "e \<in> set es"
  shows "\<exists>h' err. client_Ingest p c es h = (h', Inl err)"
proof (cases "splitIngestBatches (pe_event p) (sanitizeOutboundEvents es)")
  case (Inr bs)
  have "SanitizeOutbound e \<in> set (concat bs)"
    using splitIngestBatches_concat[OF Inr] assms(4) by (simp add: sanitizeOutboundEvents_def)
  then show ?thesis
    using ingest_batches_refused[OF assms(1,2), of bs 0 no_result h] assms(3)
    by (auto simp: client_Ingest_def batches_carried_def Let_def Inr split: option.split)
qed (auto simp: client_Ingest_def Let_def split: option.split)

lemma upload_refused:
  assumes "wired lk p c" "refused_for_good lk e" "batches_carried lk p pending" "e \<in> set pending"
  shows "\<exists>h' err. upload p c pending h = (h', Some (UploadFailed err))"
  using client_Ingest_refused[OF assms, of h] assms(4) by (auto simp: upload_def)

lemma pass_refused:
  assumes "wired lk p c" "refused_for_good lk e"
    and "state_Pending (pe_event p) s (pv_machineID env) (collected env s) = Inr pending"
    and "batches_carried lk p pending" "e \<in> set pending"
  shows "\<exists>h' err. pass p c env (s, h) = ((s, h'), Some err) \<and> \<not> delivered (Some err)"
proof -
  let ?m = "pv_machineID env"
  obtain es reports where cw: "CollectWithCursors (pv_adapters env) ?m (state_Snapshot s ?m) = (es, reports)" by fastforce
  have col: "strip_projects env es = collected env s" by (simp add: collected_def cw)
  obtain h1 r1 where h1: "client_Health p c h = (h1, r1)" by fastforce
  obtain h3 err where up: "upload p c pending (fst (client_Heartbeat p c (pass_heartbeat env s reports) h1)) = (h3, Some (UploadFailed err))"
    using upload_refused[OF assms(1,2,4,5)] by blast
  show ?thesis
    by (cases r1) (simp_all add: pass_def h1 cw col Let_def assms(3) up delivered_def)
qed

subsection \<open>The agent is stuck\<close>

text \<open>C26: One event that the hub does not accept stops an agent for good. The hub answers 400 to the whole
  batch, the agent commits nothing unless everything pending was uploaded, and so every later pass
  meets the same event again: as long as the event is pending, each pass fails, and whatever number of
  passes was run the local state, all cursors and fingerprints included, is still the one before the
  first of them, whatever else was collected.\<close>

theorem refused_event_blocks_agent:
  assumes "wired lk p c" "refused_for_good lk e"
    and "\<forall>env \<in> set envs. \<exists>pending. state_Pending (pe_event p) s (pv_machineID env) (collected env s) = Inr pending
      \<and> batches_carried lk p pending \<and> e \<in> set pending"
  shows "case passes p c envs (s, h) of ((s', h'), errs) \<Rightarrow>
    s' = s \<and> length errs = length envs \<and> list_all (\<lambda>err. \<not> delivered err) errs"
  using assms(3)
proof (induction envs arbitrary: h)
  case (Cons env envs)
  obtain pending where "state_Pending (pe_event p) s (pv_machineID env) (collected env s) = Inr pending"
    "batches_carried lk p pending" "e \<in> set pending"
    using Cons.prems by auto
  from pass_refused[OF assms(1,2) this, of h] obtain h' err
    where "pass p c env (s, h) = ((s, h'), Some err)" "\<not> delivered (Some err)" by blast
  then show ?case using Cons.IH[of h'] Cons.prems by (auto split: prod.splits)
qed simp

text \<open>A pass over one source with such an event.\<close>

definition bad_event :: event where "bad_event = sample_event\<lparr>ev_DurationMS := Some (- 1)\<rparr>"

definition bad_link :: "(unit, unit) link" where
  "bad_link = sample_link\<lparr>lk_env := (\<lambda>_. sample_hub_env\<lparr>hv_batch :=
     \<lparr>gz_open = (\<lambda>_. False), gz_read = (\<lambda>_ _ _. None), json_value = (\<lambda>_. Some ([bad_event], []))\<rparr>\<rparr>)\<rparr>"

definition bad_peer :: "(unit, unit) hub peer" where "bad_peer = sample_peer\<lparr>pe_Do := hub_Do bad_link\<rparr>"

definition bad_pass :: pass_env where
  "bad_pass = sample_pass\<lparr>pv_adapters := [one_source\<lparr>ad_Parse := (\<lambda>_ _ _. Inr \<lparr>ps_Events = [bad_event], ps_Cursor = no_cursor\<rparr>)\<rparr>]\<rparr>"

lemma bad_event_refused: "refused_for_good lk bad_event"
proof -
  have "negative_field (SanitizeOutbound bad_event)"
    by (simp add: negative_field_def SanitizeOutbound_def bad_event_def)
  then show ?thesis using validateAt_totals(2) unfolding refused_for_good_def by metis
qed

theorem refused_event_blocks_agent_witness:
  "case passes bad_peer token_client [bad_pass, bad_pass, bad_pass] (empty_agent_state, empty_hub) of ((s', h'), errs) \<Rightarrow>
    s' = empty_agent_state \<and> length errs = 3 \<and> list_all (\<lambda>err. \<not> delivered err) errs"
proof -
  have w: "wired bad_link bad_peer token_client"
    using sample_wired by (simp add: wired_def bad_link_def bad_peer_def sample_peer_def)
  have ok: "agent_state_ok empty_agent_state" by (simp add: agent_state_ok_def empty_agent_state_def)
  have col: "collected bad_pass empty_agent_state = [bad_event]"
    by (simp add: collected_def CollectWithCursors_def collect_adapters_append adapter_pass_def collect_source_def
        bad_pass_def sample_pass_def one_source_def strip_projects_def)
  have pend: "state_Pending (pe_event bad_peer) empty_agent_state (pv_machineID bad_pass) [bad_event] = Inr [bad_event]"
    unfolding state_Pending_unsent[OF ok] by (simp add: unsent_def recorded_def empty_agent_state_def find_by_def)
  have san: "sanitizeOutboundEvents [bad_event] = [bad_event]"
    by (simp add: sanitizeOutboundEvents_def SanitizeOutbound_def validateTokenTotals_def token_components_def bad_event_def
        sample_event_def max_i64_def i64_sub_def i64_add_def wrap64_def fail_if_def)
  have "splitIngestBatches (pe_event bad_peer) [bad_event] = Inr [[bad_event]]"
    by (simp add: splitIngestBatches_def split_step_def bad_peer_def sample_peer_def bad_event_def sample_event_def
        maxIngestBatchBytes_def envelopeBytes_eq)
  then have "batches_carried bad_link bad_peer [bad_event]"
    by (simp add: batches_carried_def san carries_def bad_link_def)
  then show ?thesis
    using refused_event_blocks_agent[OF w bad_event_refused, of "[bad_pass, bad_pass, bad_pass]" empty_agent_state empty_hub]
    by (simp add: col pend numeral_3_eq_3 del: passes.simps)
qed

text \<open>C27: Where such an event comes from: the Claude adapter copies the duration of a turn without
  looking at it. A clock that was set back during a turn leaves a negative \<open>durationMs\<close> in the transcript,
  and the response it belongs to becomes an event that no hub accepts, neither now nor later.\<close>

theorem claude_duration_poisons:
  assumes "is_duration r" "events \<noteq> []" "tr_SessionID r = []" "tr_DurationMS r = Some d" "d < 0"
  shows "case claude_record w path machineID identity n r (events, cwd) of (events', cwd') \<Rightarrow>
    length events' = length events \<and> ev_EventID (last events') = ev_EventID (last events)
    \<and> refused_for_good lk (last events')"
proof -
  have "negative_field (SanitizeOutbound (ev\<lparr>ev_DurationMS := Some d\<rparr>))" for ev
    using assms(5) by (simp add: negative_field_def SanitizeOutbound_def)
  then have "refused_for_good lk (ev\<lparr>ev_DurationMS := Some d\<rparr>)" for ev
    using validateAt_totals(2) unfolding refused_for_good_def by metis
  then show ?thesis using assms(1-4) by (simp add: claude_record_def)
qed

definition backwards_turn :: transcript_record where
  "backwards_turn = \<lparr>tr_Type = ''system'', tr_Subtype = ''turn_duration'', tr_Timestamp = [], tr_SessionID = [],
     tr_SessionIDAlt = [], tr_CWD = [], tr_DurationMS = Some (- 3600000), tr_Message = None, tr_Usage = None\<rparr>"

theorem claude_duration_poisons_witness:
  "\<forall>w. case claude_record w ''/t'' ''m'' [] 2 backwards_turn ([sample_event], []) of (events', cwd') \<Rightarrow>
    length events' = 1 \<and> ev_EventID (last events') = ev_EventID sample_event \<and> refused_for_good sample_link (last events')"
proof
  fix w
  have "is_duration backwards_turn" "[sample_event] \<noteq> []" "tr_SessionID backwards_turn = []"
    "tr_DurationMS backwards_turn = Some (- 3600000)" "- 3600000 < (0 :: int)"
    by (simp_all add: is_duration_def backwards_turn_def)
  from claude_duration_poisons[OF this, where w = w and path = "''/t''" and machineID = "''m''" and identity = "[]" and n = 2
      and cwd = "[]" and lk = sample_link]
  show "case claude_record w ''/t'' ''m'' [] 2 backwards_turn ([sample_event], []) of (events', cwd') \<Rightarrow>
    length events' = 1 \<and> ev_EventID (last events') = ev_EventID sample_event \<and> refused_for_good sample_link (last events')"
    by simp
qed

end
