(* ===== verification/Go_Url.thy ===== *)
theory Go_Url
  imports Go_Time
begin

text \<open>
  What the server uses of package \<open>net/url\<close>: escaping of query components, \<open>url.Values\<close> with
  \<open>Get\<close>, \<open>Set\<close> and \<open>Encode\<close>, and \<open>ParseQuery\<close> as \<open>URL.Query\<close> uses it, which drops the pairs that
  do not decode. A map of values is an association list with unique keys.
\<close>

subsection \<open>Escaping\<close>

definition url_unreserved :: "char \<Rightarrow> bool" where
  "url_unreserved c \<longleftrightarrow> (97 \<le> byte c \<and> byte c \<le> 122) \<or> (65 \<le> byte c \<and> byte c \<le> 90) \<or> (48 \<le> byte c \<and> byte c \<le> 57)
    \<or> c \<in> set ''-_.~''"

definition upper_hex :: "nat \<Rightarrow> char" where
  "upper_hex d = (if d < 10 then char_of (48 + d) else char_of (55 + d))"

definition unhex :: "char \<Rightarrow> nat" where
  "unhex c = (if byte c \<le> 57 then byte c - 48 else if byte c \<le> 70 then byte c - 55 else byte c - 87)"

definition escape_byte :: "char \<Rightarrow> gostr" where
  "escape_byte c = (if url_unreserved c then [c] else if c = CHR '' '' then ''+''
    else [CHR ''%'', upper_hex (byte c div 16), upper_hex (byte c mod 16)])"

definition QueryEscape :: "gostr \<Rightarrow> gostr" where
  "QueryEscape s = concat (map escape_byte s)"

fun QueryUnescape :: "gostr \<Rightarrow> gostr option" where
  "QueryUnescape [] = Some []"
| "QueryUnescape (c # s) =
    (if c = CHR ''%''
     then (case s of a # b # r \<Rightarrow>
             if is_hex_char a \<and> is_hex_char b then map_option ((#) (char_of (16 * unhex a + unhex b))) (QueryUnescape r) else None
           | _ \<Rightarrow> None)
     else map_option ((#) (if c = CHR ''+'' then CHR '' '' else c)) (QueryUnescape s))"

subsection \<open>Values\<close>

type_synonym url_values = "(gostr \<times> gostr list) list"

definition values_get :: "url_values \<Rightarrow> gostr \<Rightarrow> gostr" where
  "values_get vs k = (case map_of vs k of Some (v # _) \<Rightarrow> v | _ \<Rightarrow> [])"

definition values_set :: "gostr \<Rightarrow> gostr \<Rightarrow> url_values \<Rightarrow> url_values" where
  "values_set k v vs = upsert k [v] vs"

definition values_add :: "gostr \<Rightarrow> gostr \<Rightarrow> url_values \<Rightarrow> url_values" where
  "values_add k v vs = upsert k ((case map_of vs k of None \<Rightarrow> [] | Some xs \<Rightarrow> xs) @ [v]) vs"

definition encode_pair :: "gostr \<times> gostr \<Rightarrow> gostr" where
  "encode_pair kv = QueryEscape (fst kv) @ ''='' @ QueryEscape (snd kv)"

definition value_pairs :: "url_values \<Rightarrow> (gostr \<times> gostr) list" where
  "value_pairs vs = concat (map (\<lambda>(k, xs). map (Pair k) xs) vs)"

definition values_Encode :: "url_values \<Rightarrow> gostr" where
  "values_Encode vs = join_with ''&'' (map encode_pair (value_pairs (sort_key fst vs)))"

definition parse_pair :: "gostr \<Rightarrow> url_values \<Rightarrow> url_values" where
  "parse_pair part vs =
    (if CHR '';'' \<in> set part \<or> part = [] then vs
     else (case cut_on (CHR ''='') part of (k, v, _) \<Rightarrow>
       (case (QueryUnescape k, QueryUnescape v) of (Some k', Some v') \<Rightarrow> values_add k' v' vs | _ \<Rightarrow> vs)))"

definition ParseQuery :: "gostr \<Rightarrow> url_values" where
  "ParseQuery query = (if query = [] then [] else fold parse_pair (split_on (CHR ''&'') query) [])"

subsection \<open>Escaping: lemmas\<close>

lemma byte_less_256: "byte c < 256"
  by (simp add: byte_def)

lemma upper_hex_byte: "n < 16 \<Longrightarrow> byte (upper_hex n) = (if n < 10 then 48 + n else 55 + n)"
  by (simp add: upper_hex_def byte_def)

lemma unhex_upper_hex: "n < 16 \<Longrightarrow> unhex (upper_hex n) = n" "n < 16 \<Longrightarrow> is_hex_char (upper_hex n)"
  by (auto simp: unhex_def is_hex_char_def upper_hex_byte)

lemma QueryUnescape_escape: "QueryUnescape (QueryEscape s @ t) = map_option ((@) s) (QueryUnescape t)"
proof (induction s)
  case Nil
  then show ?case by (cases "QueryUnescape t") (simp_all add: QueryEscape_def)
next
  case (Cons c s)
  have d: "byte c div 16 < 16" "byte c mod 16 < 16" "16 * (byte c div 16) + byte c mod 16 = byte c"
    using byte_less_256[of c] by simp_all
  have p: "\<not> url_unreserved (CHR ''%'')" "\<not> url_unreserved (CHR ''+'')" by (simp_all add: url_unreserved_def byte_def)
  have e: "QueryEscape (c # s) @ t = escape_byte c @ QueryEscape s @ t" by (simp add: QueryEscape_def)
  have one: "QueryUnescape (escape_byte c @ u) = map_option ((#) c) (QueryUnescape u)" for u
  proof (cases "url_unreserved c \<or> c = CHR '' ''")
    case True
    then show ?thesis using p by (auto simp: escape_byte_def)
  next
    case False
    then have "escape_byte c = [CHR ''%'', upper_hex (byte c div 16), upper_hex (byte c mod 16)]" by (simp add: escape_byte_def)
    moreover have "char_of (byte c) = c" by (simp add: byte_def)
    ultimately show ?thesis using unhex_upper_hex(1)[OF d(1)] unhex_upper_hex(1)[OF d(2)]
        unhex_upper_hex(2)[OF d(1)] unhex_upper_hex(2)[OF d(2)] d(3) by (simp del: mult_div_mod_eq)
  qed
  show ?case using Cons.IH by (simp add: e one option.map_comp comp_def)
qed

lemma QueryUnescape_QueryEscape [simp]: "QueryUnescape (QueryEscape s) = Some s"
  using QueryUnescape_escape[of s "[]"] by simp

lemma escape_byte_safe: "x \<in> set (escape_byte c) \<Longrightarrow> x \<notin> set ''&=;''"
proof -
  assume x: "x \<in> set (escape_byte c)"
  have d: "byte c div 16 < 16" "byte c mod 16 < 16" using byte_less_256[of c] by simp_all
  have h: "n < 16 \<Longrightarrow> (48 \<le> byte (upper_hex n) \<and> byte (upper_hex n) \<le> 57) \<or> (65 \<le> byte (upper_hex n) \<and> byte (upper_hex n) \<le> 70)" for n
    by (simp add: upper_hex_byte)
  have "x = CHR ''%'' \<or> x = CHR ''+'' \<or> url_unreserved x \<or> (48 \<le> byte x \<and> byte x \<le> 57) \<or> (65 \<le> byte x \<and> byte x \<le> 70)"
    using x h[OF d(1)] h[OF d(2)] by (auto simp: escape_byte_def split: if_splits)
  then show ?thesis by (auto simp: url_unreserved_def byte_def)
qed

lemma QueryEscape_safe: "x \<in> set (QueryEscape s) \<Longrightarrow> x \<notin> set ''&=;''"
  by (auto simp: QueryEscape_def dest: escape_byte_safe)

lemma encode_pair_safe: "CHR ''&'' \<notin> set (encode_pair kv)" "CHR '';'' \<notin> set (encode_pair kv)" "encode_pair kv \<noteq> []"
  using QueryEscape_safe[of _ "fst kv"] QueryEscape_safe[of _ "snd kv"] by (auto simp: encode_pair_def)

lemma cut_on_append: "d \<notin> set x \<Longrightarrow> cut_on d (x @ d # y) = (x, y, True)"
  by (induction x) auto

lemma parse_encode_pair: "parse_pair (encode_pair (k, v)) vs = values_add k v vs"
proof -
  have "CHR ''='' \<notin> set (QueryEscape k)" using QueryEscape_safe[of "CHR ''=''" k] by auto
  then have "cut_on (CHR ''='') (encode_pair (k, v)) = (QueryEscape k, QueryEscape v, True)"
    by (simp add: encode_pair_def cut_on_append)
  then show ?thesis by (simp add: parse_pair_def encode_pair_safe)
qed

text \<open>What is parsed back is the multimap that was encoded.\<close>

definition values_ok :: "url_values \<Rightarrow> bool" where
  "values_ok vs \<longleftrightarrow> distinct (keys_of vs) \<and> (\<forall>(k, xs) \<in> set vs. xs \<noteq> [])"

lemma values_ok_set: "values_ok vs \<Longrightarrow> values_ok (values_set k v vs)"
proof -
  assume a: "values_ok vs"
  have "set (upsert k [v] vs) \<subseteq> insert (k, [v]) (set vs)" by (induction k "[v]" vs rule: upsert.induct) auto
  then show ?thesis using a by (auto simp: values_ok_def values_set_def)
qed

lemma values_ok_add: "values_ok vs \<Longrightarrow> values_ok (values_add k v vs)"
proof -
  assume a: "values_ok vs"
  have "set (upsert k x vs) \<subseteq> insert (k, x) (set vs)" for x by (induction k x vs rule: upsert.induct) auto
  then show ?thesis using a by (fastforce simp: values_ok_def values_add_def)
qed

lemma values_ok_parse: "values_ok (ParseQuery q)"
proof -
  have "values_ok vs \<Longrightarrow> values_ok (fold parse_pair ps vs)" for ps vs
    by (induction ps arbitrary: vs) (auto simp: parse_pair_def values_ok_add split: prod.split option.split)
  from this[of "[]"] show ?thesis by (simp add: ParseQuery_def) (simp add: values_ok_def)
qed

lemma fold_parse_pairs: "fold parse_pair (map encode_pair ps) vs = fold (\<lambda>(k, v). values_add k v) ps vs"
  by (induction ps arbitrary: vs) (auto simp: parse_encode_pair)

lemma fold_add_values:
  "k \<notin> fst ` set vs \<Longrightarrow> xs \<noteq> [] \<Longrightarrow> fold (\<lambda>(k, v). values_add k v) (map (Pair k) xs) vs = vs @ [(k, xs)]"
proof -
  have snoc: "fold (\<lambda>(k, v). values_add k v) (map (Pair k) ys) (vs @ [(k, xs)]) = vs @ [(k, xs @ ys)]"
    if "k \<notin> fst ` set vs" for xs ys
  proof (induction ys arbitrary: xs)
    case (Cons y ys)
    have "map_of (vs @ [(k, xs)]) k = Some xs" using that by (simp add: map_of_eq_None_iff[THEN iffD2] map_add_def)
    moreover have "upsert k z (vs @ [(k, xs)]) = vs @ [(k, z)]" for z using that by (induction vs) auto
    ultimately have "values_add k y (vs @ [(k, xs)]) = vs @ [(k, xs @ [y])]" by (simp add: values_add_def)
    then show ?case using Cons.IH[of "xs @ [y]"] by simp
  qed simp
  assume a: "k \<notin> fst ` set vs" "xs \<noteq> []"
  then obtain y ys where xs: "xs = y # ys" by (cases xs) auto
  have "values_add k y vs = vs @ [(k, [y])]"
    using a(1) by (simp add: values_add_def upsert_new map_of_eq_None_iff[THEN iffD2])
  then show ?thesis using snoc[OF a(1), of ys "[y]"] by (simp add: xs)
qed

lemma fold_add_pairs:
  "values_ok (us @ vs) \<Longrightarrow> fold (\<lambda>(k, v). values_add k v) (value_pairs vs) us = us @ vs"
proof (induction vs arbitrary: us)
  case (Cons p vs)
  obtain k xs where p: "p = (k, xs)" by (cases p)
  have "k \<notin> fst ` set us" "xs \<noteq> []" using Cons.prems by (auto simp: p values_ok_def)
  then show ?case using Cons.IH[of "us @ [p]"] Cons.prems fold_add_values[of k us xs] by (simp add: p value_pairs_def)
qed (simp add: value_pairs_def)

lemma ParseQuery_Encode:
  assumes "values_ok vs"
  shows "ParseQuery (values_Encode vs) = sort_key fst vs"
proof -
  let ?vs = "sort_key fst vs"
  have ok: "values_ok ?vs" using assms by (simp add: values_ok_def distinct_map distinct_sort)
  show ?thesis
  proof (cases "value_pairs ?vs")
    case Nil
    then have "?vs = []" using ok by (cases ?vs) (auto simp: value_pairs_def values_ok_def)
    then show ?thesis by (simp add: values_Encode_def value_pairs_def ParseQuery_def)
  next
    case (Cons q qs)
    have "split_on (CHR ''&'') (values_Encode vs) = map encode_pair (value_pairs ?vs)"
      unfolding values_Encode_def Cons by (rule split_join_with) (auto simp: encode_pair_safe list_all_iff)
    moreover have "values_Encode vs \<noteq> []"
      using encode_pair_safe(3) by (cases qs) (auto simp: values_Encode_def Cons)
    ultimately show ?thesis
      using fold_add_pairs[of "[]" ?vs] ok by (simp add: ParseQuery_def fold_parse_pairs)
  qed
qed

lemma map_of_sort: "distinct (keys_of vs) \<Longrightarrow> map_of (sort_key fst vs) = map_of vs"
  by (rule map_of_eqI) (auto simp: distinct_map map_of_eq_Some_iff fun_eq_iff)

lemma values_get_Encode: "values_ok vs \<Longrightarrow> values_get (ParseQuery (values_Encode vs)) k = values_get vs k"
  by (simp add: ParseQuery_Encode values_get_def map_of_sort values_ok_def)

lemma values_get_set [simp]: "values_get (values_set k v vs) k' = (if k' = k then v else values_get vs k')"
  by (simp add: values_get_def values_set_def)

end
