(* ===== verification/Go_Csv.thy ===== *)
theory Go_Csv
  imports Go_Runtime
begin

text \<open>
  What the server uses of package \<open>encoding/csv\<close>: \<open>Writer.Write\<close> with a comma and line feeds. The
  reader is a reference: the state machine of RFC 4180, one byte at a time.
\<close>

subsection \<open>Writer\<close>

definition fieldNeedsQuotes :: "gostr \<Rightarrow> bool" where
  "fieldNeedsQuotes field \<longleftrightarrow> field \<noteq> [] \<and>
    (field = [CHR 0x5C, CHR ''.''] \<or> contains_any field [CHR 0x0A, CHR 0x0D, CHR 0x22, CHR '',''] \<or> is_space (fst (hd (runes field))))"

definition csv_quote :: "gostr \<Rightarrow> gostr" where
  "csv_quote field = CHR 0x22 # concat (map (\<lambda>c. if c = CHR 0x22 then [c, c] else [c]) field) @ [CHR 0x22]"

definition csv_field :: "gostr \<Rightarrow> gostr" where
  "csv_field field = (if fieldNeedsQuotes field then csv_quote field else field)"

definition csv_Write :: "gostr list \<Rightarrow> gostr" where
  "csv_Write cells = join_with '','' (map csv_field cells) @ [CHR 0x0A]"

subsection \<open>Reader\<close>

datatype csv_mode = FieldStart | Plain | Quoted | Closing

record csv_state =
  cv_rows :: "gostr list list"
  cv_fields :: "gostr list"
  cv_field :: gostr
  cv_mode :: csv_mode

definition csv_next_field :: "csv_state \<Rightarrow> csv_state" where
  "csv_next_field s = s\<lparr>cv_fields := cv_fields s @ [cv_field s], cv_field := [], cv_mode := FieldStart\<rparr>"

definition csv_next_row :: "csv_state \<Rightarrow> csv_state" where
  "csv_next_row s = \<lparr>cv_rows = cv_rows s @ [cv_fields s @ [cv_field s]], cv_fields = [], cv_field = [], cv_mode = FieldStart\<rparr>"

definition csv_step :: "char \<Rightarrow> csv_state \<Rightarrow> csv_state" where
  "csv_step c s =
    (if cv_mode s = Quoted
     then (if c = CHR 0x22 then s\<lparr>cv_mode := Closing\<rparr> else s\<lparr>cv_field := cv_field s @ [c]\<rparr>)
     else if c = CHR '','' then csv_next_field s
     else if c = (CHR 0x0A) then csv_next_row s
     else if c = CHR 0x22 \<and> cv_mode s = FieldStart then s\<lparr>cv_mode := Quoted\<rparr>
     else if c = CHR 0x22 \<and> cv_mode s = Closing then s\<lparr>cv_field := cv_field s @ [c], cv_mode := Quoted\<rparr>
     else s\<lparr>cv_field := cv_field s @ [c], cv_mode := Plain\<rparr>)"

definition csv_empty :: csv_state where
  "csv_empty = \<lparr>cv_rows = [], cv_fields = [], cv_field = [], cv_mode = FieldStart\<rparr>"

definition csv_read :: "gostr \<Rightarrow> gostr list list" where
  "csv_read text = cv_rows (fold csv_step text csv_empty)"

subsection \<open>Reading back what was written\<close>

text \<open>At the end of a field that was read in full, a comma or a line feed closes it.\<close>

definition field_read :: "csv_state \<Rightarrow> gostr \<Rightarrow> csv_state \<Rightarrow> bool" where
  "field_read s field s' \<longleftrightarrow> cv_rows s' = cv_rows s \<and> cv_fields s' = cv_fields s \<and> cv_field s' = field \<and> cv_mode s' \<noteq> Quoted"

lemma read_quoted:
  "cv_mode s = Quoted \<Longrightarrow>
    fold csv_step (concat (map (\<lambda>c. if c = CHR 0x22 then [c, c] else [c]) field)) s = s\<lparr>cv_field := cv_field s @ field\<rparr>"
proof (induction field arbitrary: s)
  case (Cons c field)
  have "fold csv_step (if c = CHR 0x22 then [c, c] else [c]) s = s\<lparr>cv_field := cv_field s @ [c]\<rparr>"
    using Cons.prems by (simp add: csv_step_def)
  then show ?case using Cons.IH[of "s\<lparr>cv_field := cv_field s @ [c]\<rparr>"] Cons.prems by simp
qed simp

lemma read_plain:
  "list_all (\<lambda>c. c \<notin> {CHR 0x0A, CHR 0x22, CHR '',''}) field \<Longrightarrow> cv_mode s = Plain \<Longrightarrow>
    fold csv_step field s = s\<lparr>cv_field := cv_field s @ field\<rparr>"
  by (induction field arbitrary: s) (simp_all add: csv_step_def)

lemma plain_field:
  "\<not> fieldNeedsQuotes field \<Longrightarrow> list_all (\<lambda>c. c \<notin> {CHR 0x0A, CHR 0x22, CHR '',''}) field"
  by (cases field) (auto simp: fieldNeedsQuotes_def contains_any_def list_all_iff list_ex_iff)

lemma read_field:
  assumes "cv_mode s = FieldStart" "cv_field s = []"
  shows "field_read s field (fold csv_step (csv_field field) s)"
proof (cases "fieldNeedsQuotes field")
  case True
  let ?q = "s\<lparr>cv_mode := Quoted\<rparr>"
  have "csv_step (CHR 0x22) s = ?q" using assms by (simp add: csv_step_def)
  then have "fold csv_step (csv_quote field) s = csv_step (CHR 0x22) (?q\<lparr>cv_field := field\<rparr>)"
    using assms(2) by (simp add: csv_quote_def read_quoted)
  then show ?thesis using True by (simp add: csv_field_def field_read_def csv_step_def)
next
  case False
  note p = plain_field[OF False]
  show ?thesis
  proof (cases field)
    case Nil
    then show ?thesis using False assms by (simp add: csv_field_def field_read_def)
  next
    case (Cons c cs)
    have "csv_step c s = s\<lparr>cv_field := [c], cv_mode := Plain\<rparr>"
      using p assms by (simp add: Cons csv_step_def)
    then show ?thesis using False p by (simp add: csv_field_def Cons field_read_def read_plain)
  qed
qed

lemma read_record:
  assumes "cells \<noteq> []" "cv_mode s = FieldStart" "cv_field s = []"
  shows "fold csv_step (csv_Write cells) s
    = s\<lparr>cv_rows := cv_rows s @ [cv_fields s @ cells], cv_fields := []\<rparr>"
  using assms
proof (induction cells arbitrary: s)
  case (Cons field cells)
  let ?s1 = "fold csv_step (csv_field field) s"
  have f: "field_read s field ?s1" by (rule read_field[OF Cons.prems(2,3)])
  show ?case
  proof (cases cells)
    case Nil
    have "csv_step (CHR 0x0A) ?s1 = csv_next_row ?s1" using f by (simp add: csv_step_def field_read_def)
    then show ?thesis using f Cons.prems by (simp add: csv_Write_def Nil csv_next_row_def field_read_def)
  next
    case (Cons field' cells')
    have "csv_step (CHR '','') ?s1 = csv_next_field ?s1" using f by (simp add: csv_step_def field_read_def)
    moreover have "csv_next_field ?s1 = s\<lparr>cv_fields := cv_fields s @ [field]\<rparr>"
      using f Cons.prems by (simp add: csv_next_field_def field_read_def)
    moreover have "csv_Write (field # cells) = csv_field field @ CHR '','' # csv_Write cells"
      by (simp add: csv_Write_def Cons)
    ultimately have "fold csv_step (csv_Write (field # cells)) s = fold csv_step (csv_Write cells) (s\<lparr>cv_fields := cv_fields s @ [field]\<rparr>)"
      by simp
    then show ?thesis using Cons.IH[of "s\<lparr>cv_fields := cv_fields s @ [field]\<rparr>"] Cons.prems Cons by simp
  qed
qed simp

lemma csv_read_write:
  assumes "list_all (\<lambda>r. r \<noteq> []) rows"
  shows "csv_read (concat (map csv_Write rows)) = rows"
proof -
  have "fold csv_step (concat (map csv_Write rows)) s = s\<lparr>cv_rows := cv_rows s @ rows\<rparr>"
    if "cv_mode s = FieldStart" "cv_field s = []" "cv_fields s = []" for s
    using assms that
  proof (induction rows arbitrary: s)
    case (Cons r rows)
    then show ?case using read_record[of r s] Cons.IH[of "s\<lparr>cv_rows := cv_rows s @ [r]\<rparr>"] by simp
  qed simp
  from this[of csv_empty] show ?thesis by (simp add: csv_read_def) (simp add: csv_empty_def)
qed

end
