(* ===== verification/Store_Analytics.thy ===== *)
theory Store_Analytics
  imports Store_Overview
begin

text \<open>
  The analytics view of \<open>internal/database/database.go\<close>: summary, timeline, breakdown and share
  timeline of the rows that a query selects. The loops of Go add with wrap-around, the sums of SQLite
  fail when they leave 64 bits. Rows are scanned in table order; texts of dates are for years of
  four digits.
\<close>

subsection \<open>Buckets and labels\<close>

definition hour_start :: "location \<Rightarrow> instant \<Rightarrow> instant" where
  "hour_start loc t = date_at loc (local_day loc t) (local_clock loc t div 3600 * 3600) 0"

definition month_text :: "location \<Rightarrow> instant \<Rightarrow> gostr" where
  "month_text loc t = take 7 (day_text loc t) @ ''-01''"

definition analyticsBucketKey :: "location \<Rightarrow> gostr \<Rightarrow> instant \<Rightarrow> gostr" where
  "analyticsBucketKey loc period t =
    (if period = ''24h'' then rfc3339 (hour_start loc t)
     else if period = ''all'' then month_text loc t
     else day_text loc t)"

text \<open>\<open>time.Parse("2006-01-02", date)\<close>\<close>

definition parse_date :: "gostr \<Rightarrow> instant option" where
  "parse_date date = (if length date = 10 then parse_rfc3339 (date @ ''T00:00:00Z'') else None)"

definition analyticsPointLabel :: "location \<Rightarrow> gostr \<Rightarrow> gostr \<Rightarrow> gostr" where
  "analyticsPointLabel loc period date =
    (if period = ''24h'' then
       (case parse_rfc3339 date of None \<Rightarrow> date
        | Some t \<Rightarrow> (let d = local_day loc t in month_short d @ '' '' @ nat_str (nat (day_of_month d)) @ '' ''
            @ fixed 2 (nat (local_clock loc t div 3600)) @ '':00''))
     else (case parse_date date of None \<Rightarrow> date
        | Some t \<Rightarrow> (let d = local_day UTC t in
            if period = ''all'' then month_short d @ '' '' @ fixed 4 (nat (fst (civil d)))
            else month_short d @ '' '' @ nat_str (nat (day_of_month d)))))"

subsection \<open>The summary\<close>

record analytics_summary =
  ay_Tokens :: i64
  ay_Events :: i64
  ay_ActiveDays :: i64
  ay_AverageActiveDay :: f64
  ay_UnknownEvents :: i64
  ay_EstimatedCost :: cost_summary
  ay_Cache :: cache_summary
  ay_SessionTokens :: i64
  ay_Threads :: i64

definition no_summary :: analytics_summary where
  "no_summary = \<lparr>ay_Tokens = 0, ay_Events = 0, ay_ActiveDays = 0, ay_AverageActiveDay = Fin 0, ay_UnknownEvents = 0,
     ay_EstimatedCost = \<lparr>cs_Amount = Fin 0, cs_PricedTokens = 0, cs_UnpricedTokens = 0\<rparr>,
     ay_Cache = \<lparr>ch_HitRate = Fin 0, ch_CachedTokens = 0, ch_EligibleTokens = 0\<rparr>, ay_SessionTokens = 0, ay_Threads = 0\<rparr>"

definition cost_step :: "row \<Rightarrow> cost_summary \<Rightarrow> cost_summary" where
  "cost_step r c =
    (let c = (case rw_total r of None \<Rightarrow> c
       | Some n \<Rightarrow> if rw_cost r \<noteq> None then c\<lparr>cs_PricedTokens := i64_add (cs_PricedTokens c) n\<rparr>
                   else c\<lparr>cs_UnpricedTokens := i64_add (cs_UnpricedTokens c) n\<rparr>)
     in case rw_cost r of None \<Rightarrow> c | Some x \<Rightarrow> c\<lparr>cs_Amount := f64_add (cs_Amount c) x\<rparr>)"

definition cache_step_of :: "row \<Rightarrow> cache_summary \<Rightarrow> cache_summary" where
  "cache_step_of r c =
    (case (rw_input r, rw_cache_read r) of
       (Some input, Some cached) \<Rightarrow>
         c\<lparr>ch_CachedTokens := i64_add (ch_CachedTokens c) cached,
           ch_EligibleTokens := i64_add (ch_EligibleTokens c) (i64_add input cached)\<rparr>
     | _ \<Rightarrow> c)"

text \<open>The session of a row, when it is not blank.\<close>

definition row_session :: "row \<Rightarrow> gostr option" where
  "row_session r = (case rw_session_id r of None \<Rightarrow> None | Some s \<Rightarrow> if trim_space s = [] then None else Some s)"

definition summary_thread :: "row \<Rightarrow> gostr option" where
  "summary_thread r = map_option (\<lambda>s. join_with [CHR 0x1F] [rw_machine_id r, rw_provider r, rw_tool r, s]) (row_session r)"

text \<open>One row: the summary, the days and the threads seen so far.\<close>

definition summary_step ::
  "zone \<Rightarrow> analytics_summary \<times> gostr list \<times> gostr list \<Rightarrow> row \<Rightarrow> query_error + analytics_summary \<times> gostr list \<times> gostr list" where
  "summary_step z acc r = (case acc of (s, days, threads) \<Rightarrow>
    (case timeParse (rw_timestamp r) of
       None \<Rightarrow> Inl (BadTimestamp (rw_timestamp r))
     | Some t \<Rightarrow> Inr
        (s\<lparr>ay_Events := i64_add (ay_Events s) 1,
           ay_UnknownEvents := (if rw_total r = None then i64_add (ay_UnknownEvents s) 1 else ay_UnknownEvents s),
           ay_Tokens := i64_add (ay_Tokens s) (row_tokens r),
           ay_EstimatedCost := cost_step r (ay_EstimatedCost s),
           ay_Cache := cache_step_of r (ay_Cache s),
           ay_SessionTokens := (if row_session r \<noteq> None then i64_add (ay_SessionTokens s) (row_tokens r) else ay_SessionTokens s)\<rparr>,
         List.insert (day_text (reportingLocation z) t) days,
         (case summary_thread r of None \<Rightarrow> threads | Some k \<Rightarrow> List.insert k threads))))"

definition analyticsSummary :: "zone \<Rightarrow> row list \<Rightarrow> query_error + analytics_summary" where
  "analyticsSummary z rows =
    (case fold_err (summary_step z) (no_summary, [], []) rows of
       Inl e \<Rightarrow> Inl e
     | Inr (s, days, threads) \<Rightarrow>
        (let n = int (length days); c = ay_Cache s in
         Inr (s\<lparr>ay_ActiveDays := n, ay_Threads := int (length threads),
                ay_AverageActiveDay := (if 0 < n then f64_div (f64_of_int (ay_Tokens s)) (f64_of_int n) else Fin 0),
                ay_Cache := (if 0 < ch_EligibleTokens c
                  then c\<lparr>ch_HitRate := f64_div (f64_of_int (ch_CachedTokens c)) (f64_of_int (ch_EligibleTokens c))\<rparr> else c)\<rparr>)))"

subsection \<open>The timeline\<close>

record analytics_point =
  ap_Date :: gostr
  ap_Label :: gostr
  ap_Tokens :: i64
  ap_Events :: i64
  ap_UnknownEvents :: i64
  ap_InputTokens :: i64
  ap_CachedTokens :: i64
  ap_OutputTokens :: i64

definition empty_point :: "gostr \<Rightarrow> analytics_point" where
  "empty_point date = \<lparr>ap_Date = date, ap_Label = [], ap_Tokens = 0, ap_Events = 0, ap_UnknownEvents = 0,
     ap_InputTokens = 0, ap_CachedTokens = 0, ap_OutputTokens = 0\<rparr>"

definition add_to_point :: "gostr \<Rightarrow> row \<Rightarrow> analytics_point option \<Rightarrow> analytics_point" where
  "add_to_point bucket r old =
    (let p = (case old of None \<Rightarrow> empty_point bucket | Some p \<Rightarrow> p) in
     p\<lparr>ap_Date := bucket, ap_Events := i64_add (ap_Events p) 1, ap_Tokens := i64_add (ap_Tokens p) (row_tokens r),
       ap_UnknownEvents := i64_add (ap_UnknownEvents p) (row_unknown r),
       ap_InputTokens := i64_add (ap_InputTokens p) (or_zero (rw_input r)),
       ap_CachedTokens := i64_add (i64_add (ap_CachedTokens p) (or_zero (rw_cache_read r))) (or_zero (rw_cache_write r)),
       ap_OutputTokens := i64_add (ap_OutputTokens p) (or_zero (rw_output r))\<rparr>)"

definition point_step ::
  "zone \<Rightarrow> gostr \<Rightarrow> (gostr \<times> analytics_point) list \<Rightarrow> row \<Rightarrow> query_error + (gostr \<times> analytics_point) list" where
  "point_step z period m r =
    (case timeParse (rw_timestamp r) of
       None \<Rightarrow> Inl (BadTimestamp (rw_timestamp r))
     | Some t \<Rightarrow> (let bucket = analyticsBucketKey (reportingLocation z) period t in
         Inr (upsert bucket (add_to_point bucket r (map_of m bucket)) m)))"

definition labelled :: "zone \<Rightarrow> gostr \<Rightarrow> analytics_point \<Rightarrow> analytics_point" where
  "labelled z period p = p\<lparr>ap_Label := analyticsPointLabel (reportingLocation z) period (ap_Date p)\<rparr>"

definition analyticsPoints :: "zone \<Rightarrow> gostr \<Rightarrow> row list \<Rightarrow> query_error + analytics_point list" where
  "analyticsPoints z period rows =
    (case fold_err (point_step z period) [] rows of
       Inl e \<Rightarrow> Inl e | Inr m \<Rightarrow> Inr (sort_key ap_Date (map (\<lambda>(k, p). labelled z period p) m)))"

text \<open>
  The loop that fills the gaps: \<open>for cursor := first; cursor.Before(last); cursor = step(cursor)\<close>,
  which is not obviously finite.
\<close>

partial_function (option) cursors :: "(instant \<Rightarrow> instant) \<Rightarrow> instant \<Rightarrow> instant \<Rightarrow> instant list option" where
  "cursors step limit cursor =
    (if cursor < limit then Option.bind (cursors step limit (step cursor)) (\<lambda>rest. Some (cursor # rest)) else Some [])"

definition month_first :: "location \<Rightarrow> instant \<Rightarrow> int" where
  "month_first loc t = (case civil (local_day loc t) of (y, m, d) \<Rightarrow> day_of y m 1)"

text \<open>\<open>AddDate(0, 1, 0)\<close>\<close>

definition add_month :: "location \<Rightarrow> instant \<Rightarrow> instant" where
  "add_month loc t = (case civil (local_day loc t) of (y, m, d) \<Rightarrow>
    date_at loc (if m = 12 then day_of (y + 1) 1 d else day_of y (m + 1) d) (local_clock loc t) (t mod nanos_per_second))"

text \<open>Where the loop starts and ends, and its step; \<open>None\<close> when the first date does not parse.\<close>

definition fill_range ::
  "zone \<Rightarrow> gostr \<Rightarrow> gostr \<Rightarrow> instant option \<Rightarrow> instant \<Rightarrow> (instant \<times> instant \<times> (instant \<Rightarrow> instant)) option" where
  "fill_range z period firstDate start until =
    (let loc = reportingLocation z; from = (case start of None \<Rightarrow> zero_time | Some s \<Rightarrow> s) in
     if period = ''24h''
     then Some (hour_start loc from, hour_start loc until + 3600 * nanos_per_second, \<lambda>t. t + 3600 * nanos_per_second)
     else if period = ''all''
     then map_option (\<lambda>t. (date_at loc (month_first UTC t) 0 0,
            add_month loc (date_at loc (month_first loc (until - 1)) 0 0), add_month loc)) (parse_date firstDate)
     else Some (dateOnly z from, dateOnly z until, add_days loc 1))"

definition cursor_key :: "location \<Rightarrow> gostr \<Rightarrow> instant \<Rightarrow> gostr" where
  "cursor_key loc period t = (if period = ''24h'' then rfc3339 t else day_text loc t)"

text \<open>The result is \<open>None\<close> only if the loop does not end.\<close>

definition fillAnalyticsPoints ::
  "zone \<Rightarrow> analytics_point list \<Rightarrow> gostr \<Rightarrow> instant option \<Rightarrow> instant \<Rightarrow> analytics_point list option" where
  "fillAnalyticsPoints z points period start until =
    (if points = [] then Some points
     else (case fill_range z period (ap_Date (hd points)) start until of
       None \<Rightarrow> Some points
     | Some (from, limit, step) \<Rightarrow>
        map_option (map (\<lambda>t. let key = cursor_key (reportingLocation z) period t in
            labelled z period (case map_of (rev (map (\<lambda>p. (ap_Date p, p)) points)) key of None \<Rightarrow> empty_point key | Some p \<Rightarrow> p)))
          (cursors step limit from)))"

subsection \<open>The breakdown\<close>

record analytics_breakdown =
  ab_Name :: gostr
  ab_Tokens :: i64
  ab_Events :: i64
  ab_Sessions :: i64
  ab_Share :: f64

definition analyticsBreakdownExpression :: "gostr \<Rightarrow> row \<Rightarrow> gostr" where
  "analyticsBreakdownExpression dimension r =
    (if dimension = ''harnesses'' then rw_tool r
     else if dimension = ''providers'' then rw_provider r
     else if dimension = ''models'' then shown_model r
     else if dimension = ''machines'' then rw_machine_id r
     else rw_project r)"

text \<open>\<open>COALESCE(NULLIF(expression, ''), 'Unknown')\<close>\<close>

definition breakdown_name :: "gostr \<Rightarrow> row \<Rightarrow> gostr" where
  "breakdown_name dimension r = (let v = analyticsBreakdownExpression dimension r in if v = [] then ''Unknown'' else v)"

definition share_of :: "i64 \<Rightarrow> i64 \<Rightarrow> f64" where
  "share_of tokens whole = (if 0 < whole then f64_div (f64_of_int tokens) (f64_of_int whole) else Fin 0)"

definition analyticsBreakdown :: "gostr \<Rightarrow> i64 \<Rightarrow> row list \<Rightarrow> query_error + analytics_breakdown list" where
  "analyticsBreakdown dimension whole rows =
    (let gs = groups (breakdown_name dimension) rows in
     if \<not> list_all (\<lambda>(k, g). fits row_tokens g) gs then Inl overflow
     else Inr (sort_desc ab_Tokens ab_Name (map (\<lambda>(k, g).
       \<lparr>ab_Name = k, ab_Tokens = total_of row_tokens g, ab_Events = int (length g), ab_Sessions = count_threads g,
        ab_Share = share_of (total_of row_tokens g) whole\<rparr>) gs)))"

subsection \<open>The share timeline\<close>

record share_series =
  sr_Name :: gostr
  sr_Tokens :: i64
  sr_Share :: f64

record share_point =
  sp_Date :: gostr
  sp_Label :: gostr
  sp_Tokens :: i64
  sp_UnknownEvents :: i64
  sp_Values :: "share_series list"

definition visibleSeries :: nat where "visibleSeries = 5"

text \<open>The first five names of the breakdown, and the rest together as Other.\<close>

definition share_series_of :: "analytics_breakdown list \<Rightarrow> i64 \<Rightarrow> share_series list" where
  "share_series_of bs whole =
    map (\<lambda>b. \<lparr>sr_Name = ab_Name b, sr_Tokens = ab_Tokens b, sr_Share = share_of (ab_Tokens b) whole\<rparr>) (take visibleSeries bs)
    @ (if visibleSeries < length bs
       then (let n = fold (\<lambda>b n. i64_add n (ab_Tokens b)) (drop visibleSeries bs) 0
             in [\<lparr>sr_Name = ''Other'', sr_Tokens = n, sr_Share = share_of n whole\<rparr>]) else [])"

text \<open>The index of a name among the selected ones; the map keeps the last of equal names.\<close>

definition selected_index :: "analytics_breakdown list \<Rightarrow> gostr \<Rightarrow> nat option" where
  "selected_index bs name = map_of (rev (zip (map ab_Name (take visibleSeries bs)) [0..<visibleSeries])) name"

definition zero_values :: "share_series list \<Rightarrow> share_series list" where
  "zero_values series = map (\<lambda>s. s\<lparr>sr_Tokens := 0, sr_Share := Fin 0\<rparr>) series"

definition empty_share_point :: "gostr \<Rightarrow> share_series list \<Rightarrow> share_point" where
  "empty_share_point date series = \<lparr>sp_Date = date, sp_Label = [], sp_Tokens = 0, sp_UnknownEvents = 0, sp_Values = zero_values series\<rparr>"

definition add_to_share :: "analytics_breakdown list \<Rightarrow> share_series list \<Rightarrow> gostr \<Rightarrow> gostr \<Rightarrow> row \<Rightarrow> share_point option \<Rightarrow> share_point" where
  "add_to_share bs series bucket name r old =
    (let p = (case old of None \<Rightarrow> empty_share_point bucket series | Some p \<Rightarrow> p) in
     case rw_total r of
       None \<Rightarrow> p\<lparr>sp_UnknownEvents := i64_add (sp_UnknownEvents p) 1\<rparr>
     | Some n \<Rightarrow>
        (let index = (case selected_index bs name of Some i \<Rightarrow> Some i
                      | None \<Rightarrow> if visibleSeries < length series then Some (length series - 1) else None)
         in p\<lparr>sp_Tokens := i64_add (sp_Tokens p) n,
              sp_Values := (case index of None \<Rightarrow> sp_Values p
                | Some i \<Rightarrow> (sp_Values p)[i := (sp_Values p ! i)\<lparr>sr_Tokens := i64_add (sr_Tokens (sp_Values p ! i)) n\<rparr>])\<rparr>))"

definition share_step ::
  "zone \<Rightarrow> gostr \<Rightarrow> gostr \<Rightarrow> analytics_breakdown list \<Rightarrow> share_series list \<Rightarrow> (gostr \<times> share_point) list \<Rightarrow> row
    \<Rightarrow> query_error + (gostr \<times> share_point) list" where
  "share_step z period dimension bs series m r =
    (case timeParse (rw_timestamp r) of
       None \<Rightarrow> Inl (BadTimestamp (rw_timestamp r))
     | Some t \<Rightarrow> (let bucket = analyticsBucketKey (reportingLocation z) period t in
         Inr (upsert bucket (add_to_share bs series bucket (breakdown_name dimension r) r (map_of m bucket)) m)))"

definition with_shares :: "share_point \<Rightarrow> share_point" where
  "with_shares p = (if 0 < sp_Tokens p
    then p\<lparr>sp_Values := map (\<lambda>v. v\<lparr>sr_Share := f64_div (f64_of_int (sr_Tokens v)) (f64_of_int (sp_Tokens p))\<rparr>) (sp_Values p)\<rparr> else p)"

definition fillAnalyticsSharePoints ::
  "zone \<Rightarrow> (gostr \<times> share_point) list \<Rightarrow> share_series list \<Rightarrow> gostr \<Rightarrow> instant option \<Rightarrow> instant \<Rightarrow> share_point list option" where
  "fillAnalyticsSharePoints z byDate series period start until =
    (if byDate = [] then Some []
     else map_option (map (\<lambda>base.
         let p = (case map_of byDate (ap_Date base) of None \<Rightarrow> empty_share_point (ap_Date base) series | Some p \<Rightarrow> p)
         in with_shares (p\<lparr>sp_Label := analyticsPointLabel (reportingLocation z) period (sp_Date p)\<rparr>)))
       (fillAnalyticsPoints z (sort_key ap_Date (map (\<lambda>(k, p). empty_point (sp_Date p)) byDate)) period start until))"

definition analyticsShareTimeline ::
  "zone \<Rightarrow> gostr \<Rightarrow> gostr \<Rightarrow> row list \<Rightarrow> instant option \<Rightarrow> instant \<Rightarrow> analytics_breakdown list \<Rightarrow> i64
    \<Rightarrow> (query_error + share_series list \<times> share_point list) option" where
  "analyticsShareTimeline z period dimension rows start until bs whole =
    (let series = share_series_of bs whole in
     if series = [] then Some (Inr ([], []))
     else (case fold_err (share_step z period dimension bs series) [] rows of
       Inl e \<Rightarrow> Some (Inl e)
     | Inr byDate \<Rightarrow> map_option (\<lambda>ps. Inr (series, ps)) (fillAnalyticsSharePoints z byDate series period start until)))"

subsection \<open>Recent sessions and facets\<close>

record analytics_session =
  an_SessionID :: gostr
  an_Timestamp :: gostr
  an_Machine :: gostr
  an_Provider :: gostr
  an_Model :: gostr
  an_Tool :: gostr
  an_Project :: gostr
  an_Tokens :: i64
  an_Events :: i64
  an_UnknownEvents :: i64

definition analytics_session_of :: "row list \<Rightarrow> analytics_session" where
  "analytics_session_of t =
    (let r = hd t; canonical = filter (\<lambda>m. m \<noteq> []) (map rw_canonical_model t)
     in \<lparr>an_SessionID = (case rw_session_id r of None \<Rightarrow> [] | Some s \<Rightarrow> s), an_Timestamp = the_max rw_timestamp t,
         an_Machine = rw_machine_id r, an_Provider = rw_provider r,
         an_Model = (case max_text canonical of None \<Rightarrow> the_max rw_raw_model t | Some m \<Rightarrow> m),
         an_Tool = rw_tool r, an_Project = the_max rw_project t, an_Tokens = total_of row_tokens t,
         an_Events = int (length t), an_UnknownEvents = total_of row_unknown t\<rparr>)"

definition analyticsSessions :: "row list \<Rightarrow> query_error + analytics_session list" where
  "analyticsSessions rows =
    (let gs = map snd (groups (\<lambda>r. [the (rw_session_id r), rw_machine_id r, rw_provider r, rw_tool r])
          (filter (\<lambda>r. rw_session_id r \<noteq> None \<and> rw_session_id r \<noteq> Some []) rows))
     in if list_all (fits row_tokens) gs
        then Inr (take 12 (sort_down an_Timestamp (map analytics_session_of gs))) else Inl overflow)"

record analytics_facets =
  fc_Machines :: "gostr list"
  fc_Providers :: "gostr list"
  fc_Models :: "gostr list"
  fc_Tools :: "gostr list"

definition facet :: "(row \<Rightarrow> gostr) \<Rightarrow> row list \<Rightarrow> gostr list" where
  "facet f t = sort (remdups (filter (\<lambda>v. v \<noteq> []) (map f t)))"

definition analyticsFacets :: "row list \<Rightarrow> analytics_facets" where
  "analyticsFacets t = \<lparr>fc_Machines = facet rw_machine_id t, fc_Providers = facet rw_provider t,
     fc_Models = facet shown_model t, fc_Tools = facet rw_tool t\<rparr>"

subsection \<open>The view\<close>

record analytics_comparison =
  cm_PreviousTokens :: i64
  cm_PreviousEvents :: i64
  cm_TokenChangePercent :: "f64 option"

record analytics =
  an_LifetimeTokens :: i64
  an_Timezone :: gostr
  an_Filter :: analytics_query
  an_StartDate :: gostr
  an_EndDate :: gostr
  an_Bucket :: gostr
  an_Summary :: analytics_summary
  an_Comparison :: "analytics_comparison option"
  an_Points :: "analytics_point list"
  an_MaxTokens :: i64
  an_Breakdown :: "analytics_breakdown list"
  an_ShareSeries :: "share_series list"
  an_SharePoints :: "share_point list"
  an_RecentSessions :: "analytics_session list"
  an_Facets :: analytics_facets

text \<open>The comparison with the window of equal length before; none for the whole history.\<close>

definition compare_windows :: "zone \<Rightarrow> row list \<Rightarrow> analytics_query \<Rightarrow> instant option \<Rightarrow> instant \<Rightarrow> i64 \<Rightarrow> query_error + analytics_comparison option" where
  "compare_windows z t q start until tokens =
    (case start of None \<Rightarrow> Inr None
     | Some from \<Rightarrow>
        (case analyticsSummary z (filter (analyticsWhere q (Some (from - time_sub until from)) (Some from)) t) of
           Inl e \<Rightarrow> Inl e
         | Inr previous \<Rightarrow> Inr (Some \<lparr>cm_PreviousTokens = ay_Tokens previous, cm_PreviousEvents = ay_Events previous,
             cm_TokenChangePercent = (if 0 < ay_Tokens previous
               then Some (f64_div (f64_mul (f64_of_int (i64_sub tokens (ay_Tokens previous))) (Fin 100)) (f64_of_int (ay_Tokens previous)))
               else None)\<rparr>)))"

text \<open>\<open>None\<close> if a loop does not end; \<open>timezone\<close> is the name of the zone.\<close>

definition Analytics :: "zone \<Rightarrow> gostr \<Rightarrow> instant \<Rightarrow> row list \<Rightarrow> analytics_query \<Rightarrow> (query_error + analytics) option" where
  "Analytics z timezone clock t q0 =
    (case normalizeAnalyticsQuery z clock q0 of (q, start, until0) \<Rightarrow>
     (let loc = reportingLocation z; until = (case until0 of None \<Rightarrow> zero_time | Some e \<Rightarrow> e); period = aq_Period q;
          rows = filter (analyticsWhere q start until0) t;
          endDate = day_text loc (dateOnly z (until - 1))
      in case analyticsSummary z rows of Inl e \<Rightarrow> Some (Inl e) | Inr summary \<Rightarrow>
      (case compare_windows z t q start until (ay_Tokens summary) of Inl e \<Rightarrow> Some (Inl e) | Inr comparison \<Rightarrow>
      (case analyticsPoints z period rows of Inl e \<Rightarrow> Some (Inl e) | Inr points0 \<Rightarrow>
      Option.bind (fillAnalyticsPoints z points0 period start until) (\<lambda>points.
      (case analyticsBreakdown (aq_Dimension q) (ay_Tokens summary) rows of Inl e \<Rightarrow> Some (Inl e) | Inr bs \<Rightarrow>
      Option.bind (analyticsShareTimeline z period (aq_Dimension q) rows start until bs (ay_Tokens summary)) (\<lambda>shares.
      (case shares of Inl e \<Rightarrow> Some (Inl e) | Inr (series, sharePoints) \<Rightarrow>
      (case analyticsSessions rows of Inl e \<Rightarrow> Some (Inl e) | Inr sessions \<Rightarrow>
       Some (Inr \<lparr>an_LifetimeTokens = (case LifetimeTokens t of Inl e \<Rightarrow> 0 | Inr n \<Rightarrow> n), an_Timezone = timezone, an_Filter = q,
         an_StartDate = (if period = ''all'' \<and> points \<noteq> [] then ap_Date (hd points)
            else case start of None \<Rightarrow> endDate | Some s \<Rightarrow> day_text loc s),
         an_EndDate = endDate,
         an_Bucket = (if period = ''24h'' then ''hour'' else if period = ''all'' then ''month'' else ''day''),
         an_Summary = summary, an_Comparison = comparison, an_Points = points,
         an_MaxTokens = fold (\<lambda>p n. max n (ap_Tokens p)) points 0, an_Breakdown = bs, an_ShareSeries = series,
         an_SharePoints = sharePoints, an_RecentSessions = sessions, an_Facets = analyticsFacets t\<rparr>))))))))))"

subsection \<open>The loop over the dates ends\<close>

text \<open>A step that always advances by at least a second ends; the zone data is such that it does.\<close>

lemma cursors_end:
  assumes "\<And>t. t + nanos_per_second \<le> step t"
  shows "\<exists>cs. cursors step limit cursor = Some cs"
proof (induction "nat (limit - cursor)" arbitrary: cursor rule: less_induct)
  case less
  show ?case
  proof (cases "cursor < limit")
    case True
    then have "nat (limit - step cursor) < nat (limit - cursor)"
      using assms[of cursor] by (simp add: nanos_per_second_def)
    then obtain cs where "cursors step limit (step cursor) = Some cs" using less by blast
    then show ?thesis by (simp add: cursors.simps[of step limit cursor])
  qed (simp add: cursors.simps[of step limit cursor])
qed

definition sane_zone :: "location \<Rightarrow> bool" where
  "sane_zone loc \<longleftrightarrow> (\<forall>a b. \<bar>loc a - loc b\<bar> < 86400)"

lemma local_parts: "(local_day loc t - epoch_day) * 86400 + local_clock loc t = local_seconds loc t"
  by (simp add: local_day_def local_clock_def)

lemma date_at_later:
  assumes "sane_zone loc" "(day - epoch_day) * 86400 + clock \<ge> local_seconds loc t + 86400"
    and "nanos = t mod nanos_per_second"
  shows "t + nanos_per_second \<le> date_at loc day clock nanos"
proof -
  let ?s = "(day - epoch_day) * 86400 + clock"
  obtain o2 where o2: "date_at loc day clock nanos = (?s - o2) * nanos_per_second + nanos" "o2 = 0 \<and> loc ?s = 0 \<or> (\<exists>u. o2 = loc u)"
    by (cases "loc ?s = 0") (auto simp: date_at_def Let_def)
  then obtain u where "o2 = loc u" by metis
  then have "o2 - loc (unix_seconds t) < 86400" using assms(1) by (auto simp: sane_zone_def) (metis abs_less_iff)
  then have "unix_seconds t + 1 \<le> ?s - o2" using assms(2) by (simp add: local_seconds_def)
  then have "(unix_seconds t + 1) * nanos_per_second \<le> (?s - o2) * nanos_per_second"
    by (rule mult_right_mono) (simp add: nanos_per_second_def)
  moreover have "t = unix_seconds t * nanos_per_second + t mod nanos_per_second" by (simp add: unix_seconds_def)
  ultimately show ?thesis using o2(1) assms(3) by (simp add: algebra_simps)
qed

lemma add_days_later: "sane_zone loc \<Longrightarrow> t + nanos_per_second \<le> add_days loc 1 t"
  using local_parts[of loc t] unfolding add_days_def by (intro date_at_later) (simp_all add: algebra_simps)

lemma month_lengths_ge: "l \<in> set (month_lengths leap) \<Longrightarrow> 28 \<le> l"
  by (auto simp: month_lengths_def split: if_splits)

lemma next_month_day:
  assumes "civil d = (y, m, k)"
  shows "d + 28 \<le> (if m = 12 then day_of (y + 1) 1 k else day_of y (m + 1) k)"
proof -
  let ?ls = "month_lengths (is_leap y)"
  have m: "1 \<le> m" "m \<le> 12" and d: "day_of y m k = d" using civil_range[OF assms] civil_inverse(1)[OF assms] by simp_all
  show ?thesis
  proof (cases "m = 12")
    case True
    have "sum_list (take 11 ?ls) + 31 = (if is_leap y then 366 else 365)" by (simp add: month_lengths_def)
    then show ?thesis using d True days_before_year_step[of y] by (simp add: day_of_def split: if_splits)
  next
    case False
    then have i: "nat m = Suc (nat (m - 1))" "nat (m - 1) < length ?ls" using m by (simp_all add: month_lengths_facts)
    then have "sum_list (take (nat m) ?ls) = sum_list (take (nat (m - 1)) ?ls) + ?ls ! nat (m - 1)"
      by (simp only: take_Suc_conv_app_nth) simp
    then have "day_of y (m + 1) k = day_of y m k + ?ls ! nat (m - 1)" by (simp add: day_of_def)
    then show ?thesis using month_lengths_ge[OF nth_mem[OF i(2)]] d False by simp
  qed
qed

lemma add_month_later: "sane_zone loc \<Longrightarrow> t + nanos_per_second \<le> add_month loc t"
proof -
  assume z: "sane_zone loc"
  obtain y m k where c: "civil (local_day loc t) = (y, m, k)" by (metis prod_cases3)
  let ?d = "if m = 12 then day_of (y + 1) 1 k else day_of y (m + 1) k"
  have "(?d - epoch_day) * 86400 + local_clock loc t \<ge> local_seconds loc t + 86400"
    using next_month_day[OF c] local_parts[of loc t] by (simp add: algebra_simps)
  from date_at_later[OF z this refl] show ?thesis by (simp add: add_month_def c)
qed

lemma fill_range_advances:
  assumes "sane_zone (reportingLocation z)" "fill_range z period date start until = Some (from, limit, step)"
  shows "t + nanos_per_second \<le> step t"
  using assms add_days_later[OF assms(1)] add_month_later[OF assms(1)]
  by (auto simp: fill_range_def Let_def nanos_per_second_def split: if_splits)

lemma fillAnalyticsPoints_total:
  assumes "sane_zone (reportingLocation z)"
  shows "\<exists>ps. fillAnalyticsPoints z points period start until = Some ps"
proof -
  have "\<exists>cs. cursors step limit a = Some cs"
    if "fill_range z period date start until = Some (a, limit, step)" for date a limit step
    by (rule cursors_end) (rule fill_range_advances[OF assms that])
  then show ?thesis by (fastforce simp: fillAnalyticsPoints_def split: option.split)
qed

lemma analyticsShareTimeline_total:
  assumes "sane_zone (reportingLocation z)"
  shows "\<exists>r. analyticsShareTimeline z period dimension rows start until bs whole = Some r"
proof -
  have "\<exists>ps. fillAnalyticsSharePoints z m series period start until = Some ps" for m series
    using fillAnalyticsPoints_total[OF assms] by (auto simp: fillAnalyticsSharePoints_def)
  then show ?thesis by (auto simp: analyticsShareTimeline_def Let_def split: sum.split)
qed

lemma not_None_intros:
  "x \<noteq> None \<Longrightarrow> (\<And>v. f v \<noteq> None) \<Longrightarrow> Option.bind x f \<noteq> None"
  "(\<And>e. g e \<noteq> None) \<Longrightarrow> (\<And>v. h v \<noteq> None) \<Longrightarrow> (case y of Inl e \<Rightarrow> g e | Inr v \<Rightarrow> h v) \<noteq> None"
  "(\<And>a b. k a b \<noteq> None) \<Longrightarrow> (case p of (a, b) \<Rightarrow> k a b) \<noteq> None"
  by (cases x; cases y; cases p; simp)+

text \<open>The analytics view always comes back: the loops that fill the gaps of the timelines end for
  every query, every table and every reporting zone whose offsets differ by less than a day,
  whatever its transitions are, since each step moves the cursor forward by at least a second.\<close>

theorem Analytics_returns:
  assumes "sane_zone (reportingLocation z)"
  shows "Analytics z timezone clock t q \<noteq> None"
proof -
  obtain q' start until0 where n: "normalizeAnalyticsQuery z clock q = (q', start, until0)" by (metis prod_cases3)
  let ?until = "case until0 of None \<Rightarrow> zero_time | Some e \<Rightarrow> e"
  have f: "fillAnalyticsPoints z points (aq_Period q') start ?until \<noteq> None" for points
    using fillAnalyticsPoints_total[OF assms] by fastforce
  have s: "analyticsShareTimeline z (aq_Period q') (aq_Dimension q') rows start ?until bs whole \<noteq> None" for rows bs whole
    using analyticsShareTimeline_total[OF assms] by fastforce
  show ?thesis
    unfolding Analytics_def n Let_def prod.case by (intro not_None_intros f s option.distinct(2))
qed

text \<open>A zone that moves its clocks forward by an hour at local midnight, as the Azores do on 31 March 2024.\<close>

definition azores :: location where "azores u = (if u < 1711846800 then - 3600 else 0)"

definition week_query :: analytics_query where
  "week_query = \<lparr>aq_Period = ''7d'', aq_Dimension = ''models'', aq_Machine = [], aq_Provider = [], aq_Model = [], aq_Tool = [],
     aq_Now = None\<rparr>"

theorem Analytics_returns_witness: "Analytics (Some azores) ''Atlantic/Azores'' 1712059200000000000 [] week_query \<noteq> None"
  by (rule Analytics_returns) (simp add: reportingLocation_def sane_zone_def azores_def)

subsection \<open>Midnights that do not exist\<close>

lemma local_of_unix [simp]:
  "local_seconds loc (u * nanos_per_second) = u + loc u" "(u * nanos_per_second) mod nanos_per_second = 0"
  by (simp_all add: local_seconds_def unix_seconds_def nanos_per_second_def)

lemma local_at:
  assumes "u + l = (d - epoch_day) * 86400 + c" "loc u = l" "0 \<le> c" "c < 86400"
  shows "local_day loc (u * nanos_per_second) = d" "local_clock loc (u * nanos_per_second) = c"
proof -
  define k where "k = d - epoch_day"
  have "local_seconds loc (u * nanos_per_second) = k * 86400 + c" using assms(1,2) by (simp add: k_def)
  then show "local_day loc (u * nanos_per_second) = d" "local_clock loc (u * nanos_per_second) = c"
    using assms(3,4) by (simp_all add: local_day_def local_clock_def) (simp add: k_def)
qed

lemma date_at_gap:
  assumes "loc = (\<lambda>u. if u < T then a else a + 3600)" "T + a = (d - epoch_day) * 86400" "a < 0"
  shows "date_at loc d 0 0 = (T - 3600) * nanos_per_second" "local_day loc ((T - 3600) * nanos_per_second) = d - 1"
    "local_clock loc ((T - 3600) * nanos_per_second) = 82800"
proof -
  show "date_at loc d 0 0 = (T - 3600) * nanos_per_second" using assms by (simp add: date_at_def Let_def)
  have u: "T - 3600 + a = (d - 1 - epoch_day) * 86400 + 82800" "loc (T - 3600) = a" using assms by (simp_all add: algebra_simps)
  show "local_day loc ((T - 3600) * nanos_per_second) = d - 1" by (rule local_at(1)[where loc = loc, OF u]) simp_all
  show "local_clock loc ((T - 3600) * nanos_per_second) = 82800" by (rule local_at(2)[where loc = loc, OF u]) simp_all
qed

lemma date_at_past_gap:
  assumes "loc = (\<lambda>u. if u < T then a else b)" "(d - epoch_day) * 86400 + c = s" "T \<le> s" "T \<le> s - b" "0 \<le> c" "c < 86400"
  shows "local_day loc (date_at loc d c 0) = d" "local_clock loc (date_at loc d c 0) = c"
proof -
  have e: "date_at loc d c 0 = (s - b) * nanos_per_second" using assms by (simp add: date_at_def Let_def)
  have u: "s - b + b = (d - epoch_day) * 86400 + c" "loc (s - b) = b" using assms by simp_all
  show "local_day loc (date_at loc d c 0) = d" "local_clock loc (date_at loc d c 0) = c"
    unfolding e by (rule local_at[where loc = loc, OF u assms(5,6)])+
qed

text \<open>C20: Where clocks skip midnight (an hour is left out at the start of a local day \<open>d\<close>, west of or on the
  meridian: the Azores, Chile, Cuba), the start of that day is computed as 23:00 of the day before.
  So what the dashboard calls today begins an hour early and, the next day being found by adding one
  day to 23:00, ends an hour early; and a timeline that steps over that midnight shows the day
  before twice, while a week of the heatmap that starts on day \<open>d\<close> shows the seven days from
  \<open>d - 1\<close> on.\<close>

theorem skipped_midnight:
  assumes "loc = (\<lambda>u. if u < T then a else a + 3600)" "T + a = (d - epoch_day) * 86400" "- 72000 \<le> a" "a < 0"
    and "local_day loc t = d" "0 < i"
  shows "local_day loc (dateOnly (Some loc) t) = d - 1 \<and> local_clock loc (dateOnly (Some loc) t) = 82800
    \<and> local_day loc (add_days loc 1 (dateOnly (Some loc) t)) = d \<and> local_clock loc (add_days loc 1 (dateOnly (Some loc) t)) = 82800
    \<and> cursor_key loc ''7d'' (add_days loc 1 (date_at loc (d - 1) 0 0)) = cursor_key loc ''7d'' (date_at loc (d - 1) 0 0)
    \<and> ad_Date (activity_cell loc daily m today (add_days loc (int i) (date_at loc d 0 0))) = date_text (civil (d - 1 + int i))"
proof -
  note gap = date_at_gap[OF assms(1,2,4)]
  have only: "dateOnly (Some loc) t = (T - 3600) * nanos_per_second"
    using assms(5) gap(1) by (simp add: dateOnly_def reportingLocation_def Let_def)
  have past: "local_day loc (add_days loc (int k) ((T - 3600) * nanos_per_second)) = d - 1 + int k"
    "local_clock loc (add_days loc (int k) ((T - 3600) * nanos_per_second)) = 82800" if "0 < k" for k
  proof -
    have e: "add_days loc (int k) ((T - 3600) * nanos_per_second) = date_at loc (d - 1 + int k) 82800 0"
      by (simp add: add_days_def gap)
    have k: "86400 \<le> int k * 86400" using that by simp
    show "local_day loc (add_days loc (int k) ((T - 3600) * nanos_per_second)) = d - 1 + int k"
      "local_clock loc (add_days loc (int k) ((T - 3600) * nanos_per_second)) = 82800"
      unfolding e using assms(2-4) k by (intro date_at_past_gap[OF assms(1) refl]; simp add: algebra_simps)+
  qed
  have before: "date_at loc (d - 1) 0 0 = (T - 86400) * nanos_per_second"
  proof -
    have "(d - 1 - epoch_day) * 86400 = T + a - 86400" using assms(2) by (simp add: algebra_simps)
    then show ?thesis using assms(1,4) by (simp add: date_at_def Let_def)
  qed
  have u: "T - 86400 + a = (d - 1 - epoch_day) * 86400 + 0" "loc (T - 86400) = a" using assms(1,2) by (simp_all add: algebra_simps)
  from local_at[where loc = loc, OF u] have day: "local_day loc (date_at loc (d - 1) 0 0) = d - 1" "local_clock loc (date_at loc (d - 1) 0 0) = 0"
    by (simp_all add: before)
  then have stp: "add_days loc 1 (date_at loc (d - 1) 0 0) = (T - 3600) * nanos_per_second"
    by (simp add: add_days_def gap(1)) (simp add: before gap(1))
  show ?thesis
    using past[of 1] past[OF assms(6)] by (simp add: only gap cursor_key_def day_text_def stp day activity_cell_def Let_def)
qed

theorem skipped_midnight_witness:
  "local_day azores (dateOnly (Some azores) 1711886400000000000) = day_of 2024 3 30
    \<and> cursor_key azores ''7d'' (add_days azores 1 (date_at azores (day_of 2024 3 30) 0 0)) = ''2024-03-30''"
proof -
  have z: "azores = (\<lambda>u. if u < 1711846800 then - 3600 else - 3600 + 3600)" by (rule ext) (simp add: azores_def)
  have d: "day_of 2024 3 30 = 738974" "date_text (civil 738974) = ''2024-03-30''" by code_simp+
  have l: "local_day azores 1711886400000000000 = 738975"
    by (simp add: local_day_def local_seconds_def unix_seconds_def nanos_per_second_def azores_def epoch_day_def)
  have day: "local_day azores (date_at azores 738974 0 0) = 738974"
    by (simp add: local_day_def local_seconds_def unix_seconds_def nanos_per_second_def azores_def epoch_day_def date_at_def Let_def)
  show ?thesis
    using skipped_midnight[OF z _ _ _ l, of 1 "[]" 0 0] by (simp add: d epoch_day_def cursor_key_def day_text_def day)
qed

subsection \<open>The view adds up\<close>

lemma wrap64_sum: "wrap64 (\<Sum>x \<leftarrow> xs. wrap64 (f x)) = wrap64 (\<Sum>x \<leftarrow> xs. f x)"
proof (induction xs)
  case (Cons x xs)
  have "wrap64 (wrap64 (f x) + (\<Sum>x \<leftarrow> xs. wrap64 (f x))) = wrap64 (f x + wrap64 (\<Sum>x \<leftarrow> xs. wrap64 (f x)))"
    by (simp add: wrap64_def mod_simps algebra_simps)
  also have "\<dots> = wrap64 (f x + (\<Sum>x \<leftarrow> xs. f x))"
    unfolding Cons by (simp add: wrap64_def mod_simps algebra_simps)
  finally show ?case by simp
qed simp

lemma wrap64_zero [simp]: "wrap64 0 = 0"
  by (simp add: wrap64_def)

text \<open>The loop of the summary keeps the wrapped sums.\<close>

definition summed :: "analytics_summary \<Rightarrow> row list \<Rightarrow> bool" where
  "summed s rows \<longleftrightarrow> ay_Tokens s = wrap64 (total_of row_tokens rows) \<and> ay_Events s = wrap64 (int (length rows))
    \<and> ay_UnknownEvents s = wrap64 (total_of row_unknown rows)
    \<and> cs_PricedTokens (ay_EstimatedCost s) = wrap64 (total_of priced_tokens rows)
    \<and> cs_UnpricedTokens (ay_EstimatedCost s) = wrap64 (total_of unpriced_tokens rows)"

lemma summary_step_summed:
  assumes "summary_step z (s, days, ths) r = Inr (s', days', ths')" "summed s rows"
  shows "summed s' (rows @ [r])"
proof -
  have t: "i64_add (wrap64 x) (row_tokens r) = wrap64 (x + row_tokens r)" for x by (rule i64_add_wrap(1))
  have u: "(if rw_total r = None then i64_add (wrap64 x) 1 else wrap64 x) = wrap64 (x + row_unknown r)" for x
    by (simp add: row_unknown_def i64_add_wrap(1))
  have c: "cs_PricedTokens (cost_step r c) = (if rw_cost r \<noteq> None \<and> rw_total r \<noteq> None then i64_add (cs_PricedTokens c) (row_tokens r) else cs_PricedTokens c)"
    "cs_UnpricedTokens (cost_step r c) = (if rw_cost r = None \<and> rw_total r \<noteq> None then i64_add (cs_UnpricedTokens c) (row_tokens r) else cs_UnpricedTokens c)" for c
    by (simp_all add: cost_step_def Let_def row_tokens_def split: option.split)
  have p: "priced_tokens r = (if rw_cost r \<noteq> None \<and> rw_total r \<noteq> None then row_tokens r else 0)"
    "unpriced_tokens r = (if rw_cost r = None \<and> rw_total r \<noteq> None then row_tokens r else 0)"
    by (simp_all add: priced_tokens_def unpriced_tokens_def row_tokens_def split: option.split)
  have e: "ay_Tokens s' = i64_add (ay_Tokens s) (row_tokens r)" "ay_Events s' = i64_add (ay_Events s) 1"
    "ay_UnknownEvents s' = (if rw_total r = None then i64_add (ay_UnknownEvents s) 1 else ay_UnknownEvents s)"
    "ay_EstimatedCost s' = cost_step r (ay_EstimatedCost s)"
    using assms(1) by (auto simp: summary_step_def split: option.splits)
  have h: "ay_Tokens s = wrap64 (total_of row_tokens rows)" "ay_Events s = wrap64 (int (length rows))"
    "ay_UnknownEvents s = wrap64 (total_of row_unknown rows)"
    "cs_PricedTokens (ay_EstimatedCost s) = wrap64 (total_of priced_tokens rows)"
    "cs_UnpricedTokens (ay_EstimatedCost s) = wrap64 (total_of unpriced_tokens rows)"
    using assms(2) by (simp_all add: summed_def)
  show ?thesis
    unfolding summed_def e h c u t using i64_add_wrap(3)[of "int (length rows)"] by (simp add: p t add.commute)
qed

lemma summary_loop_summed:
  "fold_err (summary_step z) (s, days, ths) rs = Inr (s', days', ths') \<Longrightarrow> summed s rows \<Longrightarrow> summed s' (rows @ rs)"
proof (induction rs arbitrary: s days ths rows)
  case (Cons r rs)
  obtain s1 d1 t1 where 1: "summary_step z (s, days, ths) r = Inr (s1, d1, t1)" "fold_err (summary_step z) (s1, d1, t1) rs = Inr (s', days', ths')"
    using Cons.prems(1) by (auto split: sum.splits)
  show ?case using Cons.IH[OF 1(2) summary_step_summed[OF 1(1) Cons.prems(2)]] by simp
qed simp

lemma analyticsSummary_summed: "analyticsSummary z rows = Inr s \<Longrightarrow> summed s rows"
proof -
  assume "analyticsSummary z rows = Inr s"
  then obtain s0 days ths where f: "fold_err (summary_step z) (no_summary, [], []) rows = Inr (s0, days, ths)"
    "ay_Tokens s = ay_Tokens s0" "ay_Events s = ay_Events s0" "ay_UnknownEvents s = ay_UnknownEvents s0" "ay_EstimatedCost s = ay_EstimatedCost s0"
    by (auto simp: analyticsSummary_def Let_def split: sum.splits)
  have "summed no_summary []" by (simp add: summed_def no_summary_def)
  from summary_loop_summed[OF f(1) this] show ?thesis using f(2-) by (simp add: summed_def)
qed

text \<open>Grouping by bucket, for the timeline and for the shares.\<close>

definition bucket_key :: "zone \<Rightarrow> gostr \<Rightarrow> row \<Rightarrow> gostr" where
  "bucket_key z period r = analyticsBucketKey (reportingLocation z) period (the (timeParse (rw_timestamp r)))"

lemma fold_point_step:
  "fold_err (point_step z period) m rows = Inr m' \<Longrightarrow>
    m' = fold (group_step (bucket_key z period) (\<lambda>r. add_to_point (bucket_key z period r) r)) rows m"
proof (induction rows arbitrary: m)
  case (Cons r rows)
  then show ?case
    by (cases "timeParse (rw_timestamp r)") (simp_all add: point_step_def Let_def group_step_def bucket_key_def)
qed simp

lemma fold_share_step:
  "fold_err (share_step z period dimension bs series) m rows = Inr m' \<Longrightarrow>
    m' = fold (group_step (bucket_key z period) (\<lambda>r. add_to_share bs series (bucket_key z period r) (breakdown_name dimension r) r)) rows m"
proof (induction rows arbitrary: m)
  case (Cons r rows)
  then show ?case
    by (cases "timeParse (rw_timestamp r)") (simp_all add: share_step_def Let_def group_step_def bucket_key_def)
qed simp

lemma sum_group_values:
  fixes key :: "row \<Rightarrow> gostr"
  assumes "\<And>rs. rs \<noteq> [] \<Longrightarrow> g (the (one_group upd rs)) = wrap64 (total_of f rs)"
  shows "wrap64 (\<Sum>p \<leftarrow> group_by key upd rows. g (snd p)) = wrap64 (total_of f rows)"
proof -
  let ?ks = "sorted_list_of_set (key ` set rows)"
  have g: "g (the (one_group upd (filter (\<lambda>r. key r = k) rows))) = wrap64 (total_of f (filter (\<lambda>r. key r = k) rows))"
    if "k \<in> set ?ks" for k
    using that by (intro assms) (auto simp: filter_empty_conv)
  have "(\<Sum>p \<leftarrow> group_by key upd rows. g (snd p)) = (\<Sum>p \<leftarrow> sort_key fst (group_by key upd rows). g (snd p))"
    by (simp add: sum_list_sort)
  also have "\<dots> = (\<Sum>k \<leftarrow> ?ks. wrap64 (total_of f (filter (\<lambda>r. key r = k) rows)))"
    unfolding sort_groups_eq map_map by (intro arg_cong[of _ _ sum_list] map_cong) (use g in \<open>simp_all add: comp_def\<close>)
  finally have "wrap64 (\<Sum>p \<leftarrow> group_by key upd rows. g (snd p)) = wrap64 (\<Sum>k \<leftarrow> ?ks. total_of f (filter (\<lambda>r. key r = k) rows))"
    by (simp add: wrap64_sum)
  also have "(\<Sum>k \<leftarrow> ?ks. total_of f (filter (\<lambda>r. key r = k) rows)) = (\<Sum>p \<leftarrow> groups key rows. total_of f (snd p))"
    by (simp add: groups_def comp_def)
  finally show ?thesis by (simp add: sum_list_groups)
qed

lemma add_to_point_tokens:
  "ap_Tokens (add_to_point b r old) = i64_add (case old of None \<Rightarrow> 0 | Some p \<Rightarrow> ap_Tokens p) (row_tokens r)"
  by (simp add: add_to_point_def Let_def empty_point_def split: option.split)

lemma add_to_share_tokens:
  "sp_Tokens (add_to_share bs series b name r old) =
    (case rw_total r of None \<Rightarrow> (case old of None \<Rightarrow> 0 | Some p \<Rightarrow> sp_Tokens p)
     | Some n \<Rightarrow> i64_add (case old of None \<Rightarrow> 0 | Some p \<Rightarrow> sp_Tokens p) n)"
  by (simp add: add_to_share_def Let_def empty_share_point_def split: option.split)

lemma one_group_point:
  "rs \<noteq> [] \<Longrightarrow> ap_Tokens (the (one_group (\<lambda>r. add_to_point (k r) r) rs)) = wrap64 (total_of row_tokens rs)"
proof (induction rs rule: rev_induct)
  case (snoc r rs)
  show ?case
  proof (cases "rs = []")
    case False
    then obtain v where "one_group (\<lambda>r. add_to_point (k r) r) rs = Some v"
      by (metis one_group_None not_Some_eq)
    then show ?thesis using snoc.IH[OF False] by (simp add: add_to_point_tokens i64_add_wrap(1))
  qed (simp add: add_to_point_tokens i64_add_wrap(2))
qed simp

lemma one_group_share:
  "rs \<noteq> [] \<Longrightarrow> sp_Tokens (the (one_group (\<lambda>r. add_to_share bs series (k r) (nm r) r) rs)) = wrap64 (total_of row_tokens rs)"
proof (induction rs rule: rev_induct)
  case (snoc r rs)
  show ?case
  proof (cases "rs = []")
    case False
    then obtain v where "one_group (\<lambda>r. add_to_share bs series (k r) (nm r) r) rs = Some v"
      by (metis one_group_None not_Some_eq)
    then show ?thesis using snoc.IH[OF False] by (simp add: add_to_share_tokens row_tokens_def i64_add_wrap(1) split: option.split)
  qed (simp add: add_to_share_tokens row_tokens_def i64_add_wrap(2) split: option.split)
qed simp

lemma wrap64_add_right: "wrap64 (x + wrap64 y) = wrap64 (x + y)"
  by (simp add: wrap64_def mod_simps algebra_simps)

lemma wrap64_replace: "wrap64 (s - x + i64_add x n) = wrap64 (s + n)"
proof -
  have "s - x + i64_add x n = (s - x) + wrap64 (x + n)" by (simp add: i64_add_def)
  then show ?thesis by (simp only: wrap64_add_right) simp
qed

lemma i64_add_left: "wrap64 s = t \<Longrightarrow> i64_add t n = wrap64 (s + n)"
  by (metis i64_add_wrap(1))

lemma sum_list_replace: "i < length xs \<Longrightarrow> sum_list (xs[i := y]) = sum_list xs - xs ! i + (y :: int)"
  by (induction xs arbitrary: i) (auto split: nat.splits)

text \<open>Every name of the breakdown has an index among the series.\<close>

lemma length_share_series: "length (share_series_of bs whole) = (if visibleSeries < length bs then Suc visibleSeries else length bs)"
  by (simp add: share_series_of_def Let_def visibleSeries_def)

definition value_index :: "analytics_breakdown list \<Rightarrow> share_series list \<Rightarrow> gostr \<Rightarrow> nat option" where
  "value_index bs series name = (case selected_index bs name of Some i \<Rightarrow> Some i
     | None \<Rightarrow> if visibleSeries < length series then Some (length series - 1) else None)"

lemma value_index_ok:
  assumes "name \<in> ab_Name ` set bs" "series = share_series_of bs whole"
  shows "\<exists>i < length series. value_index bs series name = Some i"
proof (cases "selected_index bs name")
  case None
  have "visibleSeries < length bs"
  proof (rule ccontr)
    assume "\<not> visibleSeries < length bs"
    then have "take visibleSeries bs = bs" "length bs \<le> visibleSeries" by simp_all
    then have "set (map fst (zip (map ab_Name (take visibleSeries bs)) [0..<visibleSeries])) = ab_Name ` set bs"
      by (simp add: map_fst_zip_take)
    then show False using None assms(1) by (force simp: selected_index_def map_of_eq_None_iff)
  qed
  then show ?thesis using None assms(2) by (simp add: value_index_def length_share_series)
next
  case (Some i)
  then have "(name, i) \<in> set (zip (map ab_Name (take visibleSeries bs)) [0..<visibleSeries])"
    unfolding selected_index_def by (metis map_of_SomeD set_rev)
  then have "i < visibleSeries" "i < length bs" by (auto simp: in_set_zip)
  then show ?thesis using Some assms(2) by (simp add: value_index_def length_share_series)
qed

definition balanced :: "share_series list \<Rightarrow> share_point \<Rightarrow> bool" where
  "balanced series p \<longleftrightarrow> length (sp_Values p) = length series \<and> wrap64 (\<Sum>v \<leftarrow> sp_Values p. sr_Tokens v) = sp_Tokens p"

lemma add_to_share_Some:
  "rw_total r = Some n \<Longrightarrow> value_index bs series name = Some i \<Longrightarrow>
    p = (case old of None \<Rightarrow> empty_share_point bucket series | Some p \<Rightarrow> p) \<Longrightarrow>
    add_to_share bs series bucket name r old = p\<lparr>sp_Tokens := i64_add (sp_Tokens p) n,
      sp_Values := (sp_Values p)[i := (sp_Values p ! i)\<lparr>sr_Tokens := i64_add (sr_Tokens (sp_Values p ! i)) n\<rparr>]\<rparr>"
  by (simp add: add_to_share_def value_index_def Let_def)

lemma add_to_share_balanced:
  assumes "case old of None \<Rightarrow> True | Some p \<Rightarrow> balanced series p" "value_index bs series name = Some i" "i < length series"
  shows "balanced series (add_to_share bs series bucket name r old)"
proof -
  define p where "p = (case old of None \<Rightarrow> empty_share_point bucket series | Some p \<Rightarrow> p)"
  have "(\<Sum>v \<leftarrow> zero_values series. sr_Tokens v) = 0" by (induction series) (simp_all add: zero_values_def)
  then have p: "balanced series p"
    using assms(1) by (cases old) (simp_all add: p_def balanced_def empty_share_point_def zero_values_def)
  show ?thesis
  proof (cases "rw_total r")
    case None
    then show ?thesis using p by (simp add: add_to_share_def p_def[symmetric] balanced_def)
  next
    case (Some n)
    let ?x = "sr_Tokens (sp_Values p ! i)"
    let ?vs = "(sp_Values p)[i := (sp_Values p ! i)\<lparr>sr_Tokens := i64_add ?x n\<rparr>]"
    have "map sr_Tokens ?vs = (map sr_Tokens (sp_Values p))[i := i64_add ?x n]" by (simp add: map_update)
    then have "(\<Sum>v \<leftarrow> ?vs. sr_Tokens v) = (\<Sum>v \<leftarrow> sp_Values p. sr_Tokens v) - ?x + i64_add ?x n"
      using p assms(3) by (simp add: sum_list_replace balanced_def)
    then have "wrap64 (\<Sum>v \<leftarrow> ?vs. sr_Tokens v) = wrap64 ((\<Sum>v \<leftarrow> sp_Values p. sr_Tokens v) + n)"
      by (simp only: wrap64_replace)
    also have "\<dots> = i64_add (sp_Tokens p) n"
      using p by (intro i64_add_left[symmetric]) (simp add: balanced_def)
    finally have "wrap64 (\<Sum>v \<leftarrow> ?vs. sr_Tokens v) = i64_add (sp_Tokens p) n" .
    moreover have "length ?vs = length series" using p by (simp add: balanced_def)
    ultimately show ?thesis
      unfolding add_to_share_Some[OF Some assms(2) p_def] balanced_def by simp
  qed
qed

lemma one_group_balanced:
  assumes "series = share_series_of bs whole" "\<forall>r \<in> set rs. nm r \<in> ab_Name ` set bs" "one_group (\<lambda>r. add_to_share bs series (k r) (nm r) r) rs = Some v"
  shows "balanced series v"
  using assms(2,3)
proof (induction rs arbitrary: v rule: rev_induct)
  case (snoc r rs)
  obtain i where i: "i < length series" "value_index bs series (nm r) = Some i"
    using value_index_ok[OF _ assms(1), of "nm r"] snoc.prems(1) by auto
  have "case one_group (\<lambda>r. add_to_share bs series (k r) (nm r) r) rs of None \<Rightarrow> True | Some p \<Rightarrow> balanced series p"
    using snoc.IH snoc.prems(1) by (simp split: option.split)
  then show ?case using snoc.prems(2) add_to_share_balanced[OF _ i(2,1)] by auto
qed simp

lemma share_groups_balanced:
  assumes "series = share_series_of bs whole" "\<forall>r \<in> set rows. nm r \<in> ab_Name ` set bs"
    and "p \<in> set (group_by k (\<lambda>r. add_to_share bs series (k r) (nm r) r) rows)"
  shows "balanced series (snd p)"
proof -
  have "map_of (group_by k (\<lambda>r. add_to_share bs series (k r) (nm r) r) rows) (fst p) = Some (snd p)"
    using assms(3) by simp
  then show ?thesis
    unfolding map_of_group_by by (rule one_group_balanced[OF assms(1), rotated]) (use assms(2) in simp)
qed

lemma sum_share_series: "wrap64 (\<Sum>s \<leftarrow> share_series_of bs whole. sr_Tokens s) = wrap64 (\<Sum>b \<leftarrow> bs. ab_Tokens b)"
proof -
  have f: "fold (\<lambda>b n. i64_add n (ab_Tokens b)) xs (wrap64 x) = wrap64 (x + (\<Sum>b \<leftarrow> xs. ab_Tokens b))" for xs x
    by (induction xs arbitrary: x) (simp_all add: i64_add_wrap(1) add.assoc)
  have s: "(\<Sum>b \<leftarrow> bs. ab_Tokens b) = (\<Sum>b \<leftarrow> take visibleSeries bs. ab_Tokens b) + (\<Sum>b \<leftarrow> drop visibleSeries bs. ab_Tokens b)"
    by (metis append_take_drop_id map_append sum_list.append)
  have t: "(\<Sum>s \<leftarrow> map (\<lambda>b. \<lparr>sr_Name = ab_Name b, sr_Tokens = ab_Tokens b, sr_Share = share_of (ab_Tokens b) whole\<rparr>) xs. sr_Tokens s)
      = (\<Sum>b \<leftarrow> xs. ab_Tokens b)" for xs
    by (simp add: comp_def)
  show ?thesis
  proof (cases "visibleSeries < length bs")
    case True
    then show ?thesis
      using f[of "drop visibleSeries bs" 0] wrap64_add_right unfolding share_series_of_def s map_append sum_list.append t by (simp add: Let_def)
  next
    case False
    then show ?thesis unfolding share_series_of_def map_append sum_list.append t by simp
  qed
qed


lemma fold_err_returns: "(\<And>s x. x \<in> set xs \<Longrightarrow> \<exists>s'. f s x = Inr s') \<Longrightarrow> \<exists>s'. fold_err f s xs = Inr s'"
proof (induction xs arbitrary: s)
  case (Cons x xs)
  obtain s1 where "f s x = Inr s1" using Cons.prems[of x s] by auto
  then show ?case using Cons.IH[of s1] Cons.prems by simp
qed simp

lemma overview_rows_parse: "r \<in> set overview_rows \<Longrightarrow> timeParse (rw_timestamp r) = Some 5"
proof -
  assume "r \<in> set overview_rows"
  then have "rw_timestamp r = rfc3339_nano 5"
    by (auto simp: overview_rows_def model_row_def sample_row_def usageEventArgs_def sample_event_def)
  moreover have "parse_rfc3339 (rfc3339_nano 5) = Some 5" by (rule parse_rfc3339_nano, rule in_years_1970) (simp_all add: nanos_per_second_def)
  ultimately show ?thesis by (simp add: timeParse_def rfc3339_nano_def)
qed


end
