(* ===== verification/Store_Types.thy ===== *)
theory Store_Types
  imports Store_Overview Store_Analytics
begin

text \<open>
  The types of the stored rows: SQLite does not enforce what a column holds beyond its storage
  class, so that the columns of \<open>usage_events\<close> are what the readers expect is an invariant of the
  writers. A well-typed table is one on which no query of the dashboard fails to read a row.
\<close>

definition stored_time :: "gostr \<Rightarrow> bool" where
  "stored_time s \<longleftrightarrow> (\<exists>t. 0 \<le> t \<and> in_years t \<and> s = rfc3339_nano t)"

text \<open>A name column: what the filters of the dashboard get back when a name is trimmed.\<close>

definition name_ok :: "gostr \<Rightarrow> bool" where
  "name_ok s \<longleftrightarrow> s \<noteq> [] \<and> trim_space s = s \<and> list_all (\<lambda>r. \<not> is_control r) (rune_list s)"

definition row_typed :: "row \<Rightarrow> bool" where
  "row_typed r \<longleftrightarrow>
    list_all nonneg_i64 [rw_input r, rw_output r, rw_cache_read r, rw_cache_write r, rw_reasoning r, rw_total r, rw_duration r]
    \<and> stored_time (rw_timestamp r) \<and> Accuracy_Valid (rw_accuracy r)
    \<and> list_all name_ok [rw_event_id r, rw_machine_id r, rw_provider r, rw_raw_model r, rw_tool r, rw_adapter r]"

subsection \<open>Ingest writes well-typed rows\<close>

lemma name_okI: "validateText name v n ws = None \<Longrightarrow>
    name \<notin> {''session_id'', ''project'', ''canonical_model'', ''source.identity''} \<Longrightarrow> name_ok v"
  using validateText_required[of name v n ws] validateText_None[of name v n ws] by (simp add: name_ok_def)

lemma event_row_accuracy: "rw_accuracy (event_row env e) = ev_TokenAccuracy e"
  "rw_duration (event_row env e) = ev_DurationMS e" "rw_provider (event_row env e) = ev_Provider e"
  "rw_raw_model (event_row env e) = ev_Model e" "rw_tool (event_row env e) = ev_Tool e"
  by (simp_all add: event_row_def usageEventArgs_def split: prod.splits)

lemma event_row_typed:
  assumes "validateAt ulow marshal now e = None" "event_i64 e" "in_years (now + nanos_per_day)"
  shows "row_typed (event_row env e)"
proof -
  have c: "list_all nonneg_i64 [ev_InputTokens e, ev_OutputTokens e, ev_CacheReadTokens e, ev_CacheWriteTokens e,
      ev_ReasoningTokens e, ev_TotalTokens e, ev_DurationMS e]"
    using validateAt_totals(2)[OF assms(1)] assms(2)
    by (auto simp: negative_field_def event_i64_def nonneg_i64_def is_i64_def split: option.splits)
  have v: "validateText ''event_id'' (ev_EventID e) 256 False = None"
    "validateText ''machine_id'' (ev_MachineID e) 256 False = None" "validateText ''provider'' (ev_Provider e) 128 True = None"
    "validateText ''model'' (ev_Model e) 256 True = None" "validateText ''tool'' (ev_Tool e) 128 True = None"
    "validateText ''source.adapter'' (src_Adapter (ev_Source e)) 128 False = None"
    and t: "0 \<le> ev_Timestamp e" "ev_Timestamp e \<le> now + nanos_per_day" "Accuracy_Valid (ev_TokenAccuracy e)"
    using assms(1) by (simp_all add: validateAt_def validateIdentifier_def ok_simps)
  have "in_years 0" by code_simp
  then have "in_years (ev_Timestamp e)" using in_years_mono t(1,2) assms(3) by blast
  then have "stored_time (rfc3339_nano (ev_Timestamp e))" using t(1) unfolding stored_time_def by blast
  moreover have "list_all name_ok [ev_EventID e, ev_MachineID e, ev_Provider e, ev_Model e, ev_Tool e, src_Adapter (ev_Source e)]"
    using v by (simp add: name_okI)
  ultimately show ?thesis using c t(3) by (simp add: row_typed_def row_simps event_row_accuracy)
qed

lemma event_i64_normalized: "event_i64 (normalized env e) = event_i64 e"
  by (simp add: event_i64_def normalized_def)

definition sane_clock :: "ingest_env \<Rightarrow> bool" where
  "sane_clock env \<longleftrightarrow> (\<forall>i. in_years (in_now env i + nanos_per_day))"

lemma ingest_event_typed:
  assumes "store_ok st" "list_all row_typed (st_events st)" "event_i64 e" "sane_clock env"
    and "ingest_event env (st, res) (i, e) = Inr (st', res')"
  shows "store_ok st' \<and> list_all row_typed (st_events st')"
proof (cases "validateAt (in_ulow env) (in_marshal env) (in_now env i) (normalized env e)")
  case None
  have t: "table_ok (st_events st)" using assms(1) by (simp add: store_ok_def)
  have "row_typed (event_row env (normalized env e))"
    using event_row_typed[OF None] assms(3,4) by (simp add: event_i64_normalized sane_clock_def)
  then have "list_all row_typed (after_event env (normalized env e) (st_events st))"
    by (rule after_event_all[OF t assms(2)])
  then show ?thesis
    using None assms write_event_ok[OF assms(1) None]
    by (auto simp: ingest_event_cases[OF assms(1)] Let_def write_event_def split: if_splits)
next
  case (Some err)
  then show ?thesis using assms by (auto simp: ingest_event_cases[OF assms(1)])
qed

lemma ingest_loop_typed:
  "store_ok st \<Longrightarrow> list_all row_typed (st_events st) \<Longrightarrow> list_all (event_i64 \<circ> snd) ies \<Longrightarrow> sane_clock env \<Longrightarrow>
    fold_err (ingest_event env) (st, res) ies = Inr (st', res') \<Longrightarrow> list_all row_typed (st_events st')"
proof (induction ies arbitrary: st res)
  case (Cons ie ies)
  obtain i e where ie: "ie = (i, e)" by (cases ie)
  obtain st1 res1 where 1: "ingest_event env (st, res) (i, e) = Inr (st1, res1)"
    "fold_err (ingest_event env) (st1, res1) ies = Inr (st', res')"
    using Cons.prems(5) by (auto simp: ie split: sum.splits)
  have "event_i64 e" using Cons.prems(3) by (simp add: ie)
  from ingest_event_typed[OF Cons.prems(1,2) this Cons.prems(4) 1(1)]
  show ?case using Cons.IH[OF _ _ _ Cons.prems(4) 1(2)] Cons.prems(3) by simp
qed simp

text \<open>C24: Well-typed rows. Every row that \<open>Ingest\<close> leaves in the table has the types its readers
  rely on: each counter is NULL or a 64-bit integer that is not negative, the timestamp is the text
  of an instant between the epoch and the year 9999, the accuracy is one of the known classes, and
  the event ID, machine, provider, model, tool and adapter are non-empty, trimmed and free of
  control characters. It holds for whatever events are posted, valid or not.\<close>

theorem Ingest_keeps_types:
  assumes "store_ok st" "list_all row_typed (st_events st)" "list_all event_i64 events" "sane_clock env"
  shows "list_all row_typed (st_events (fst (Ingest env st events)))"
proof -
  have e: "list_all (event_i64 \<circ> snd) (enumerate 0 events)"
    using assms(3) by (auto simp: list_all_iff in_set_enumerate_eq) 
  have "\<And>st' res. fold_err (ingest_event env) (st, no_counts) (enumerate 0 events) = Inr (st', res) \<Longrightarrow>
      list_all row_typed (st_events st')"
    using ingest_loop_typed[OF assms(1,2) e assms(4)] by blast
  then show ?thesis using assms(2) by (auto simp: Ingest_def split: sum.splits)
qed

lemma sample_clock: "sane_clock sample_env"
proof -
  have "in_years (in_now sample_env i + nanos_per_day)" for i by (simp add: sample_env_def) code_simp
  then show ?thesis by (simp add: sane_clock_def)
qed

theorem Ingest_keeps_types_witness:
  "list_all row_typed (st_events (fst (Ingest sample_env empty_store [sample_event])))"
proof -
  have "list_all row_typed (st_events empty_store)" by (simp add: empty_store_def)
  moreover have "list_all event_i64 [sample_event]" by (simp add: sample_event_i64)
  ultimately show ?thesis using Ingest_keeps_types[OF empty_store_ok _ _ sample_clock] by blast
qed

subsection \<open>Queries on well-typed rows\<close>

lemma stored_time_parses: "stored_time s \<Longrightarrow> \<exists>t. parse_rfc3339 s = Some t"
  by (auto simp: stored_time_def parse_rfc3339_nano)

lemma typed_time: "row_typed r \<Longrightarrow> \<exists>t. timeParse (rw_timestamp r) = Some t"
  using stored_time_parses by (auto simp: row_typed_def timeParse_def)

lemma typed_bucket: "row_typed r \<Longrightarrow> \<exists>d. localDayBucket z (rw_timestamp r) = Inr d"
  using stored_time_parses[of "rw_timestamp r"] by (auto simp: row_typed_def localDayBucket_def)

lemma typed_filter: "list_all row_typed t \<Longrightarrow> list_all row_typed (filter P t)"
  by (auto simp: list_all_iff)

lemma typed_DailyUsage: "list_all row_typed t \<Longrightarrow> \<exists>days. DailyUsage z t a b = Inr days"
  using typed_bucket by (intro DailyUsage_total) (auto simp: list_all_iff)

lemma case_Inr: "\<exists>v. x = Inr v \<Longrightarrow> \<exists>h. (case x of Inl e \<Rightarrow> Inl e | Inr v \<Rightarrow> Inr (f v)) = Inr h"
  by auto

lemma typed_Activity: "list_all row_typed t \<Longrightarrow> \<exists>h. Activity z t now = Inr h"
  unfolding Activity_def Let_def by (intro case_Inr typed_DailyUsage)

lemma typed_steps:
  assumes "list_all row_typed rows"
  shows "\<exists>s. fold_err (summary_step z) a rows = Inr s" "\<exists>s. fold_err (point_step z period) m rows = Inr s"
    "\<exists>s. fold_err (share_step z period dimension bs series) m' rows = Inr s"
  using assms typed_time
  by (intro fold_err_returns; force simp: list_all_iff summary_step_def point_step_def share_step_def Let_def split: prod.split)+

lemma typed_summary: "list_all row_typed rows \<Longrightarrow> \<exists>s. analyticsSummary z rows = Inr s"
  using typed_steps(1)[of rows z "(no_summary, [], [])"] by (auto simp: analyticsSummary_def Let_def)

lemma typed_points: "list_all row_typed rows \<Longrightarrow> \<exists>ps. analyticsPoints z period rows = Inr ps"
  using typed_steps(2)[of rows z period "[]"] by (auto simp: analyticsPoints_def)

lemma typed_compare: "list_all row_typed t \<Longrightarrow> \<exists>c. compare_windows z t q start until n = Inr c"
  by (cases start) (simp_all add: compare_windows_def, intro case_Inr typed_summary typed_filter)

lemma typed_shares:
  "list_all row_typed rows \<Longrightarrow> analyticsShareTimeline z period dimension rows start until bs whole \<noteq> Some (Inl e)"
  using typed_steps(3)[of rows z period dimension bs "share_series_of bs whole" "[]"]
  by (auto simp: analyticsShareTimeline_def Let_def)

lemma max_text_mem: "max_text xs = Some s \<Longrightarrow> s \<in> set xs"
proof -
  have "fold max ys y \<in> insert y (set ys)" for ys and y :: gostr
  proof (induction ys arbitrary: y)
    case (Cons a ys)
    have "max a y \<in> {a, y}" by (simp add: max_def)
    then show ?case using Cons.IH[of "max a y"] by auto
  qed simp
  then show "max_text xs = Some s \<Longrightarrow> s \<in> set xs" by (auto simp: max_text_def split: list.splits)
qed

lemma typed_newest: "list_all row_typed t \<Longrightarrow> \<exists>n. newest_event t = Inr n"
proof -
  assume t: "list_all row_typed t"
  have "\<exists>x. parse_rfc3339 s = Some x" if "max_text (map rw_timestamp t) = Some s" for s
    using max_text_mem[OF that] t stored_time_parses by (auto simp: list_all_iff row_typed_def)
  then show ?thesis by (fastforce simp: newest_event_def split: option.split)
qed

text \<open>The only error of a chain of queries.\<close>

lemma only_overflow:
  "(\<And>v. case f v of Some (Inl e) \<Rightarrow> e = overflow | _ \<Rightarrow> True) \<Longrightarrow> case Option.bind x f of Some (Inl e) \<Rightarrow> e = overflow | _ \<Rightarrow> True"
  "(\<And>e. y = Inl e \<Longrightarrow> case g e of Some (Inl e) \<Rightarrow> e = overflow | _ \<Rightarrow> True) \<Longrightarrow>
    (\<And>v. case h v of Some (Inl e) \<Rightarrow> e = overflow | _ \<Rightarrow> True) \<Longrightarrow>
    case (case y of Inl e \<Rightarrow> g e | Inr v \<Rightarrow> h v) of Some (Inl e) \<Rightarrow> e = overflow | _ \<Rightarrow> True"
  "(\<And>a b. case k a b of Some (Inl e) \<Rightarrow> e = overflow | _ \<Rightarrow> True) \<Longrightarrow>
    case (case p of (a, b) \<Rightarrow> k a b) of Some (Inl e) \<Rightarrow> e = overflow | _ \<Rightarrow> True"
  "(\<And>e. s \<noteq> Some (Inl e)) \<Longrightarrow> (\<And>v. case l v of Some (Inl e) \<Rightarrow> e = overflow | _ \<Rightarrow> True) \<Longrightarrow>
    case Option.bind s (\<lambda>r. case r of Inl e \<Rightarrow> Some (Inl e) | Inr v \<Rightarrow> l v) of Some (Inl e) \<Rightarrow> e = overflow | _ \<Rightarrow> True"
  by (cases x; cases y; cases p; simp)+ (cases s; auto split: sum.split)

text \<open>C25: Well-typed rows do not go wrong. On a table of well-typed rows no read of the dashboard meets a
  row it cannot read, whatever the reporting zone, the query and the clock: the daily usage and the
  heatmap are always returned, and the only error left for the overview and the analytics view is a
  sum that leaves 64 bits.\<close>

theorem typed_rows_read:
  assumes "list_all row_typed t"
  shows "(\<exists>days. DailyUsage z t a b = Inr days) \<and> (\<exists>heatmap. Activity z t clock = Inr heatmap)
    \<and> (case Overview real_sum z timezone clock clock' t of Inl err \<Rightarrow> err = StoreFailed IntegerOverflow | Inr v \<Rightarrow> True)
    \<and> (case Analytics z timezone clock t q of Some (Inl err) \<Rightarrow> err = StoreFailed IntegerOverflow | _ \<Rightarrow> True)"
proof (intro conjI)
  obtain n where n: "newest_event t = Inr n" using typed_newest[OF assms] by blast
  obtain h where h: "Activity z t clock' = Inr h" using typed_Activity[OF assms] by blast
  have p: "PeriodSummary real_sum z t x y = Inl e \<Longrightarrow> e = overflow" for x y e
    using typed_DailyUsage[OF assms, of z x y] by (auto simp: PeriodSummary_def Let_def split: sum.splits if_splits)
  show "case Overview real_sum z timezone clock clock' t of Inl err \<Rightarrow> err = StoreFailed IntegerOverflow | Inr v \<Rightarrow> True"
    unfolding Overview_def Let_def n h using p by (auto simp: overflow_def split: sum.split)
next
  obtain q' start until0 where nq: "normalizeAnalyticsQuery z clock q = (q', start, until0)" by (metis prod_cases3)
  let ?until = "case until0 of None \<Rightarrow> zero_time | Some e \<Rightarrow> e"
  let ?rows = "filter (analyticsWhere q' start until0) t"
  have rows: "list_all row_typed ?rows" by (rule typed_filter[OF assms])
  obtain s where s: "analyticsSummary z ?rows = Inr s" using typed_summary[OF rows] by blast
  obtain c where c: "compare_windows z t q' start ?until (ay_Tokens s) = Inr c" using typed_compare[OF assms] by blast
  obtain ps where ps: "analyticsPoints z (aq_Period q') ?rows = Inr ps" using typed_points[OF rows] by blast
  have br: "analyticsBreakdown d n rs = Inl e \<Longrightarrow> e = overflow" for d n rs e
    by (auto simp: analyticsBreakdown_def Let_def split: if_splits)
  have se: "analyticsSessions rs = Inl e \<Longrightarrow> e = overflow" for rs e
    by (auto simp: analyticsSessions_def Let_def split: if_splits)
  show "case Analytics z timezone clock t q of Some (Inl err) \<Rightarrow> err = StoreFailed IntegerOverflow | _ \<Rightarrow> True"
    unfolding Analytics_def nq Let_def prod.case s c ps sum.case overflow_def[symmetric]
    by (rule only_overflow(1), rule only_overflow(2), simp add: br, rule only_overflow(4)[OF typed_shares[OF rows]],
        rule only_overflow(3), rule only_overflow(2)) (simp_all add: se)
qed (use typed_DailyUsage[OF assms] typed_Activity[OF assms] in auto)

theorem typed_rows_read_witness:
  "(\<exists>heatmap. Activity (Some azores) [event_row sample_env sample_event] 7 = Inr heatmap)
    \<and> (case Overview exact_sum (Some azores) ''Atlantic/Azores'' 7 7 [event_row sample_env sample_event] of
         Inl err \<Rightarrow> err = StoreFailed IntegerOverflow | Inr v \<Rightarrow> True)"
proof -
  have "row_typed (event_row sample_env sample_event)"
    using event_row_typed[OF sample_validates[of 0] sample_event_i64] sample_clock by (simp add: sane_clock_def)
  then have "list_all row_typed [event_row sample_env sample_event]" by simp
  from typed_rows_read[OF this, where z = "Some azores" and clock = 7 and clock' = 7 and real_sum = exact_sum
      and timezone = "''Atlantic/Azores''"]
  show ?thesis by simp
qed

end
