(* ===== verification/Api_Exports.thy ===== *)
theory Api_Exports
  imports Go_Url Go_Csv Store_Types Api_Hub
begin

text \<open>
  The read endpoints of \<open>internal/api/server.go\<close> that take a filter from the URL, the links that
  carry one, and the exports of the session table and of the analytics breakdown.
\<close>

subsection \<open>Filters in URLs\<close>

definition analyticsQueryFromRequest :: "instant \<Rightarrow> url_values \<Rightarrow> analytics_query" where
  "analyticsQueryFromRequest now values =
    (let period = values_get values ''period''; dimension = values_get values ''dimension'' in
     \<lparr>aq_Period = (if period \<in> {''24h'', ''7d'', ''30d'', ''90d'', ''all''} then period else ''30d''),
      aq_Dimension = (if dimension \<in> {''projects'', ''harnesses'', ''providers'', ''models'', ''machines''} then dimension else ''projects''),
      aq_Machine = trim_space (values_get values ''machine''), aq_Provider = trim_space (values_get values ''provider''),
      aq_Model = trim_space (values_get values ''model''), aq_Tool = trim_space (values_get values ''tool''),
      aq_Now = Some now\<rparr>)"

definition set_nonempty :: "gostr \<Rightarrow> gostr \<Rightarrow> url_values \<Rightarrow> url_values" where
  "set_nonempty k v values = (if v = [] then values else values_set k v values)"

definition name_values :: "analytics_query \<Rightarrow> url_values \<Rightarrow> url_values" where
  "name_values q values = set_nonempty ''tool'' (aq_Tool q) (set_nonempty ''model'' (aq_Model q)
    (set_nonempty ''provider'' (aq_Provider q) (set_nonempty ''machine'' (aq_Machine q) values)))"

definition analyticsQueryValues :: "analytics_query \<Rightarrow> url_values" where
  "analyticsQueryValues q = name_values q (values_set ''dimension'' (aq_Dimension q) (values_set ''period'' (aq_Period q) []))"

definition analyticsExportURL :: "analytics_query \<Rightarrow> gostr \<Rightarrow> gostr" where
  "analyticsExportURL q format = ''/api/v1/analytics/export?'' @ values_Encode (set_nonempty ''format'' format (analyticsQueryValues q))"

definition sessionsExportURL :: "analytics_query \<Rightarrow> gostr \<Rightarrow> gostr" where
  "sessionsExportURL q format =
    ''/api/v1/sessions/export?'' @ values_Encode (set_nonempty ''format'' format (name_values q (values_set ''period'' (aq_Period q) [])))"

definition analyticsViewURL :: "analytics_query \<Rightarrow> gostr \<Rightarrow> gostr" where
  "analyticsViewURL q dimension = ''/analytics?'' @ values_Encode (analyticsQueryValues (q\<lparr>aq_Dimension := dimension\<rparr>))"

definition analyticsPeriodURL :: "analytics_query \<Rightarrow> gostr \<Rightarrow> gostr" where
  "analyticsPeriodURL q period = analyticsViewURL (q\<lparr>aq_Period := period\<rparr>) (aq_Dimension q)"

definition insightsViewURL :: "analytics_query \<Rightarrow> gostr \<Rightarrow> gostr" where
  "insightsViewURL q dimension = ''/insights?'' @ values_Encode (analyticsQueryValues (q\<lparr>aq_Dimension := dimension\<rparr>))"

definition insightsPeriodURL :: "analytics_query \<Rightarrow> gostr \<Rightarrow> gostr" where
  "insightsPeriodURL q period = insightsViewURL (q\<lparr>aq_Period := period\<rparr>) (aq_Dimension q)"

text \<open>The sortable headers of the session table.\<close>

record sessionSortState =
  sst_URL :: gostr
  sst_Active :: bool
  sst_AriaSort :: gostr
  sst_Indicator :: gostr

definition toggled :: "gostr \<Rightarrow> gostr" where
  "toggled dir = (if dir = ''desc'' then ''asc'' else if dir = ''asc'' then ''desc'' else [])"

definition sort_link :: "url_values \<Rightarrow> gostr \<Rightarrow> gostr \<Rightarrow> gostr" where
  "sort_link values key dir = ''?'' @ values_Encode (values_set ''dir'' dir (values_set ''sort'' key values))"

definition sessionSortStates :: "gostr \<Rightarrow> gostr \<Rightarrow> gostr \<Rightarrow> (gostr \<times> sessionSortState) list" where
  "sessionSortStates rawQuery activeSort activeDir = map (\<lambda>key.
    (key,
     if key = activeSort
     then \<lparr>sst_URL = sort_link (ParseQuery rawQuery) key (toggled activeDir), sst_Active = True,
           sst_AriaSort = (if activeDir = ''desc'' then ''descending'' else ''ascending''),
           sst_Indicator = (if activeDir = ''desc'' then encode_rune 0x25BC else encode_rune 0x25B2)\<rparr>
     else \<lparr>sst_URL = sort_link (ParseQuery rawQuery) key ''desc'', sst_Active = False, sst_AriaSort = [], sst_Indicator = []\<rparr>))
    [''when'', ''tokens'', ''cost'', ''duration'']"

subsection \<open>CSV\<close>

definition csvFormulaSafe :: "gostr \<Rightarrow> gostr" where
  "csvFormulaSafe value = (if value = [] then []
    else if hd value \<in> set ''=+-@'' \<union> {CHR 0x09, CHR 0x0D} then CHR 0x27 # value else value)"

definition nullInt64Cell :: "i64 option \<Rightarrow> gostr" where
  "nullInt64Cell v = (case v of None \<Rightarrow> [] | Some n \<Rightarrow> int_str n)"

text \<open>\<open>shortest\<close> is \<open>strconv.FormatFloat(x, 'f', -1, 64)\<close>.\<close>

definition nullCostCell :: "(f64 \<Rightarrow> gostr) \<Rightarrow> f64 option \<Rightarrow> gostr" where
  "nullCostCell shortest v = (case v of None \<Rightarrow> [] | Some x \<Rightarrow> shortest x)"

definition sessions_header :: "gostr list" where
  "sessions_header = [''session_id'', ''timestamp'', ''machine'', ''provider'', ''model'', ''tool'', ''project'', ''input_tokens'',
    ''output_tokens'', ''total_tokens'', ''cost'', ''cost_estimated'', ''duration_ms'', ''accuracy'', ''events'']"

definition session_cells :: "(f64 \<Rightarrow> gostr) \<Rightarrow> session_record \<Rightarrow> gostr list" where
  "session_cells shortest s =
    [csvFormulaSafe (se_SessionID s), se_Timestamp s, csvFormulaSafe (se_Machine s), csvFormulaSafe (se_Provider s),
     csvFormulaSafe (se_Model s), csvFormulaSafe (se_Tool s), csvFormulaSafe (se_Project s),
     nullInt64Cell (se_InputTokens s), nullInt64Cell (se_OutputTokens s), nullInt64Cell (se_TotalTokens s),
     nullCostCell shortest (se_Cost s), (if se_CostEstimated s then ''true'' else ''false''), nullInt64Cell (se_DurationMS s),
     se_Accuracy s, int_str (se_Events s)]"

definition writeSessionsCSV :: "(f64 \<Rightarrow> gostr) \<Rightarrow> session_record list \<Rightarrow> gostr" where
  "writeSessionsCSV shortest records = csv_Write sessions_header @ concat (map (\<lambda>s. csv_Write (session_cells shortest s)) records)"

definition analyticsUnknownLabel :: "gostr \<Rightarrow> gostr" where
  "analyticsUnknownLabel dimension =
    (if dimension = ''harnesses'' then ''Unknown harness'' else if dimension = ''providers'' then ''Unknown provider''
     else if dimension = ''models'' then ''Unknown model'' else if dimension = ''machines'' then ''Unknown machine''
     else ''Unknown project'')"

definition isUnknownBucketName :: "(nat \<Rightarrow> nat) \<Rightarrow> gostr \<Rightarrow> bool" where
  "isUnknownBucketName ufold name \<longleftrightarrow> equal_fold ufold (trim_space name) ''unknown''"

text \<open>\<open>FormatFloat(x, 'f', d, 64)\<close>: the exact value rounded to \<open>d\<close> decimals, ties to even.\<close>

definition format_fixed :: "nat \<Rightarrow> f64 \<Rightarrow> gostr" where
  "format_fixed d x = (case x of NaN \<Rightarrow> ''NaN'' | PInf \<Rightarrow> ''+Inf'' | NInf \<Rightarrow> ''-Inf''
    | Fin r \<Rightarrow> (let n = nat (round_even (\<bar>r\<bar> * 10 ^ d)) in
        (if r < 0 then ''-'' else []) @ nat_str (n div 10 ^ d) @ (if d = 0 then [] else ''.'' @ pad_str d (n mod 10 ^ d))))"

definition analytics_header :: "gostr list" where
  "analytics_header = [''dimension'', ''period'', ''name'', ''tokens'', ''events'', ''sessions'', ''share_percent'']"

definition breakdown_cells :: "(nat \<Rightarrow> nat) \<Rightarrow> analytics_query \<Rightarrow> analytics_breakdown \<Rightarrow> gostr list" where
  "breakdown_cells ufold q b =
    [csvFormulaSafe (aq_Dimension q), csvFormulaSafe (aq_Period q),
     csvFormulaSafe (if isUnknownBucketName ufold (ab_Name b) then analyticsUnknownLabel (aq_Dimension q) else ab_Name b),
     int_str (ab_Tokens b), int_str (ab_Events b), int_str (ab_Sessions b), format_fixed 1 (f64_mul (ab_Share b) (Fin 100))]"

definition writeAnalyticsCSV :: "(nat \<Rightarrow> nat) \<Rightarrow> analytics \<Rightarrow> gostr" where
  "writeAnalyticsCSV ufold a =
    csv_Write analytics_header @ concat (map (\<lambda>b. csv_Write (breakdown_cells ufold (an_Filter a) b)) (an_Breakdown a))"

subsection \<open>Handlers\<close>

text \<open>
  What the read endpoints depend on besides the hub: the reporting zone, the clock of the request, the
  sum of floats, the number formatter and the JSON encoder (\<open>None\<close> when it fails), and the order in
  which the map of observed models is iterated.
\<close>

record read_env =
  xv_zone :: zone
  xv_timezone :: gostr
  xv_real_sum :: "f64 list \<Rightarrow> f64"
  xv_now :: instant
  xv_shortest :: "f64 \<Rightarrow> gostr"
  xv_sessions_json :: "session_record list \<Rightarrow> gostr option"
  xv_analytics_json :: "analytics \<Rightarrow> gostr option"
  xv_order :: "gostr list"

datatype read_answer =
    QueryFailed query_error
  | NotEncoded
  | MachinesAnswer "machine_info list"
  | CatalogAnswer catalog_snapshot
  | ModelsAnswer "catalog_entry list"
  | SessionsAnswer "session_record list"
  | AnalyticsAnswer analytics
  | TimelineAnswer analytics_query gostr gostr gostr "analytics_point list"
  | FileAnswer gostr gostr gostr

definition answer_with :: "('a \<Rightarrow> int \<times> read_answer) \<Rightarrow> query_error + 'a \<Rightarrow> int \<times> read_answer" where
  "answer_with f r = (case r of Inl e \<Rightarrow> (500, QueryFailed e) | Inr v \<Rightarrow> f v)"

definition json_file :: "gostr \<Rightarrow> gostr option \<Rightarrow> int \<times> read_answer" where
  "json_file name payload = (case payload of None \<Rightarrow> (500, NotEncoded)
    | Some text \<Rightarrow> (200, FileAnswer ''application/json; charset=utf-8'' name (text @ [newline])))"

definition csv_file :: "gostr \<Rightarrow> gostr \<Rightarrow> int \<times> read_answer" where
  "csv_file name text = (200, FileAnswer ''text/csv; charset=utf-8'' name text)"

definition machines_handler :: "hub_env \<Rightarrow> read_env \<Rightarrow> ('p, 'q) hub \<Rightarrow> ('p, 'q) hub \<times> int \<times> read_answer" where
  "machines_handler env xv h =
    (observed_db env h, answer_with (\<lambda>ms. (200, MachinesAnswer ms)) (MachinesAt (xv_zone xv) (hu_store h) (hv_now env)))"

definition catalogAPI :: "hub_env \<Rightarrow> read_env \<Rightarrow> ('p, 'q) hub \<Rightarrow> ('p, 'q) hub \<times> int \<times> read_answer" where
  "catalogAPI env xv h = (observed_db env h,
    answer_with (\<lambda>c. (200, CatalogAnswer c)) (CatalogSnapshot (hv_catalog env) (xv_order xv) (st_events (hu_store h))))"

definition modelsAPI :: "hub_env \<Rightarrow> read_env \<Rightarrow> ('p, 'q) hub \<Rightarrow> ('p, 'q) hub \<times> int \<times> read_answer" where
  "modelsAPI env xv h = (observed_db env h,
    answer_with (\<lambda>c. (200, ModelsAnswer (sn_Models c))) (CatalogSnapshot (hv_catalog env) (xv_order xv) (st_events (hu_store h))))"

definition request_query :: "read_env \<Rightarrow> gostr \<Rightarrow> analytics_query" where
  "request_query xv rawQuery = analyticsQueryFromRequest (xv_now xv) (ParseQuery rawQuery)"

definition request_sessions :: "hub_env \<Rightarrow> read_env \<Rightarrow> gostr \<Rightarrow> ('p, 'q) hub \<Rightarrow> query_error + session_record list" where
  "request_sessions env xv rawQuery h =
    Sessions (xv_real_sum xv) (xv_zone xv) (hv_now env) (st_events (hu_store h)) (request_query xv rawQuery)"

definition request_analytics :: "hub_env \<Rightarrow> read_env \<Rightarrow> gostr \<Rightarrow> ('p, 'q) hub \<Rightarrow> (query_error + analytics) option" where
  "request_analytics env xv rawQuery h =
    Analytics (xv_zone xv) (xv_timezone xv) (hv_now env) (st_events (hu_store h)) (request_query xv rawQuery)"

definition sessionsAPI :: "hub_env \<Rightarrow> read_env \<Rightarrow> gostr \<Rightarrow> ('p, 'q) hub \<Rightarrow> ('p, 'q) hub \<times> int \<times> read_answer" where
  "sessionsAPI env xv rawQuery h =
    (observed_db env h, answer_with (\<lambda>ss. (200, SessionsAnswer ss)) (request_sessions env xv rawQuery h))"

definition sessionsExport :: "hub_env \<Rightarrow> read_env \<Rightarrow> gostr \<Rightarrow> ('p, 'q) hub \<Rightarrow> ('p, 'q) hub \<times> int \<times> read_answer" where
  "sessionsExport env xv rawQuery h =
    (let name = ''tokemon-sessions-'' @ aq_Period (request_query xv rawQuery) in
     (observed_db env h, answer_with (\<lambda>result.
        if values_get (ParseQuery rawQuery) ''format'' = ''csv''
        then csv_file (name @ ''.csv'') (writeSessionsCSV (xv_shortest xv) result)
        else json_file (name @ ''.json'') (xv_sessions_json xv result)) (request_sessions env xv rawQuery h)))"

text \<open>The handlers over \<open>Analytics\<close> return \<open>None\<close> if it does not.\<close>

definition analyticsAPI :: "hub_env \<Rightarrow> read_env \<Rightarrow> gostr \<Rightarrow> ('p, 'q) hub \<Rightarrow> (('p, 'q) hub \<times> int \<times> read_answer) option" where
  "analyticsAPI env xv rawQuery h = map_option (\<lambda>r. (observed_db env h, answer_with (\<lambda>a. (200, AnalyticsAnswer a)) r))
    (request_analytics env xv rawQuery h)"

definition timelineAPI :: "hub_env \<Rightarrow> read_env \<Rightarrow> gostr \<Rightarrow> ('p, 'q) hub \<Rightarrow> (('p, 'q) hub \<times> int \<times> read_answer) option" where
  "timelineAPI env xv rawQuery h = map_option (\<lambda>r. (h, answer_with (\<lambda>a.
      (200, TimelineAnswer (an_Filter a) (an_StartDate a) (an_EndDate a) (an_Bucket a) (an_Points a))) r))
    (request_analytics env xv rawQuery h)"

definition analyticsExport :: "hub_env \<Rightarrow> read_env \<Rightarrow> gostr \<Rightarrow> ('p, 'q) hub \<Rightarrow> (('p, 'q) hub \<times> int \<times> read_answer) option" where
  "analyticsExport env xv rawQuery h = map_option (\<lambda>r. (observed_db env h, answer_with (\<lambda>a.
      if values_get (ParseQuery rawQuery) ''format'' = ''csv''
      then csv_file (''tokemon-analytics-'' @ aq_Dimension (an_Filter a) @ ''-'' @ aq_Period (an_Filter a) @ ''.csv'')
             (writeAnalyticsCSV (hv_ufold env) a)
      else json_file (''tokemon-analytics-'' @ aq_Period (an_Filter a) @ ''.json'') (xv_analytics_json xv a)) r))
    (request_analytics env xv rawQuery h)"

subsection \<open>Links keep the filter\<close>

text \<open>The query of a link, as the server reads it when the link is followed.\<close>

definition link_query :: "gostr \<Rightarrow> gostr" where "link_query url = fst (snd (cut_on (CHR ''?'') url))"

definition valid_filter :: "analytics_query \<Rightarrow> bool" where
  "valid_filter q \<longleftrightarrow> aq_Period q \<in> {''24h'', ''7d'', ''30d'', ''90d'', ''all''}
    \<and> aq_Dimension q \<in> {''projects'', ''harnesses'', ''providers'', ''models'', ''machines''}
    \<and> list_all (\<lambda>v. trim_space v = v) [aq_Machine q, aq_Provider q, aq_Model q, aq_Tool q]"

lemma request_filter_valid: "valid_filter (analyticsQueryFromRequest now values)"
  by (simp add: valid_filter_def analyticsQueryFromRequest_def Let_def)

lemma values_get_nonempty [simp]:
  "values_get (set_nonempty k v vs) k' = (if k' = k \<and> v \<noteq> [] then v else values_get vs k')"
  by (simp add: set_nonempty_def)

lemma values_get_empty [simp]: "values_get [] k = []"
  by (simp add: values_get_def)

lemma values_ok_nonempty: "values_ok vs \<Longrightarrow> values_ok (set_nonempty k v vs)"
  by (simp add: set_nonempty_def values_ok_set)

lemma values_ok_Nil: "values_ok []"
  by (simp add: values_ok_def)

lemmas values_ok_intros = values_ok_nonempty values_ok_set values_ok_Nil values_ok_parse

lemma link_query_append: "CHR ''?'' \<notin> set path \<Longrightarrow> link_query (path @ CHR ''?'' # rest) = rest"
  by (simp add: link_query_def cut_on_append)

lemma followed:
  assumes "url = path @ CHR ''?'' # values_Encode vs" "CHR ''?'' \<notin> set path" "values_ok vs"
  shows "values_get (ParseQuery (link_query url)) k = values_get vs k"
  using assms by (simp add: link_query_append values_get_Encode)

lemma query_values_get:
  "values_get (analyticsQueryValues q) ''period'' = aq_Period q" "values_get (analyticsQueryValues q) ''dimension'' = aq_Dimension q"
  "values_get (analyticsQueryValues q) ''machine'' = aq_Machine q" "values_get (analyticsQueryValues q) ''provider'' = aq_Provider q"
  "values_get (analyticsQueryValues q) ''model'' = aq_Model q" "values_get (analyticsQueryValues q) ''tool'' = aq_Tool q"
  "values_get (analyticsQueryValues q) ''format'' = []"
  by (simp_all add: analyticsQueryValues_def name_values_def)

lemma values_ok_query: "values_ok (analyticsQueryValues q)"
  unfolding analyticsQueryValues_def name_values_def by (intro values_ok_intros)

lemma from_query_values:
  assumes "valid_filter q" "\<And>k. k \<noteq> ''format'' \<Longrightarrow> values_get vs k = values_get (analyticsQueryValues q) k"
  shows "analyticsQueryFromRequest now vs = q\<lparr>aq_Now := Some now\<rparr>"
  using assms(1) by (auto simp: analyticsQueryFromRequest_def assms(2) query_values_get valid_filter_def Let_def)

lemma view_link:
  assumes "valid_filter q" "url = path @ CHR ''?'' # values_Encode (analyticsQueryValues q)" "CHR ''?'' \<notin> set path"
  shows "analyticsQueryFromRequest now (ParseQuery (link_query url)) = q\<lparr>aq_Now := Some now\<rparr>"
  by (rule from_query_values[OF assms(1)]) (rule followed[OF assms(2,3) values_ok_query])

text \<open>C28: Links keep the filter. A filter as the server reads one from a request (and every request gives
  one: a known period and dimension, trimmed names) survives each link of the pages, whatever bytes
  the names contain: following the export link, the link of another dimension or of another period
  gives a request for the same filter with just that change, and the format that was asked for; the
  export of the sessions keeps everything but the dimension, which it does not have.\<close>

theorem links_keep_filter:
  assumes "valid_filter q" "valid_filter (q\<lparr>aq_Dimension := dimension\<rparr>)" "valid_filter (q\<lparr>aq_Period := period\<rparr>)"
  shows "(\<forall>values. valid_filter (analyticsQueryFromRequest now values))
    \<and> (let values = ParseQuery (link_query (analyticsExportURL q format))
       in analyticsQueryFromRequest now values = q\<lparr>aq_Now := Some now\<rparr> \<and> values_get values ''format'' = format)
    \<and> (let values = ParseQuery (link_query (sessionsExportURL q format))
       in analyticsQueryFromRequest now values = q\<lparr>aq_Dimension := ''projects'', aq_Now := Some now\<rparr> \<and> values_get values ''format'' = format)
    \<and> (\<forall>view \<in> {analyticsViewURL, insightsViewURL}.
        analyticsQueryFromRequest now (ParseQuery (link_query (view q dimension))) = q\<lparr>aq_Dimension := dimension, aq_Now := Some now\<rparr>)
    \<and> (\<forall>view \<in> {analyticsPeriodURL, insightsPeriodURL}.
        analyticsQueryFromRequest now (ParseQuery (link_query (view q period))) = q\<lparr>aq_Period := period, aq_Now := Some now\<rparr>)"
proof -
  have e: "values_get (ParseQuery (link_query (analyticsExportURL q format))) k = values_get (set_nonempty ''format'' format (analyticsQueryValues q)) k" for k
    by (rule followed[of _ "''/api/v1/analytics/export''"]) (simp_all add: analyticsExportURL_def values_ok_nonempty values_ok_query)
  have s: "values_get (ParseQuery (link_query (sessionsExportURL q format))) k
      = values_get (set_nonempty ''format'' format (name_values q (values_set ''period'' (aq_Period q) []))) k" for k
    unfolding name_values_def
    by (rule followed[of _ "''/api/v1/sessions/export''"])
      (simp_all add: sessionsExportURL_def name_values_def values_ok_nonempty values_ok_set values_ok_Nil)
  have v: "analyticsQueryFromRequest now (ParseQuery (link_query (analyticsViewURL q' d))) = q'\<lparr>aq_Dimension := d, aq_Now := Some now\<rparr>"
    "analyticsQueryFromRequest now (ParseQuery (link_query (insightsViewURL q' d))) = q'\<lparr>aq_Dimension := d, aq_Now := Some now\<rparr>"
    if "valid_filter (q'\<lparr>aq_Dimension := d\<rparr>)" for q' d
    using view_link[OF that, of _ "''/analytics''"] view_link[OF that, of _ "''/insights''"]
    by (simp_all add: analyticsViewURL_def insightsViewURL_def)
  have "analyticsQueryFromRequest now (ParseQuery (link_query (analyticsExportURL q format))) = q\<lparr>aq_Now := Some now\<rparr>"
    by (rule from_query_values[OF assms(1)]) (simp add: e)
  moreover have "analyticsQueryFromRequest now (ParseQuery (link_query (sessionsExportURL q format)))
      = q\<lparr>aq_Dimension := ''projects'', aq_Now := Some now\<rparr>"
    using assms(1) by (auto simp: analyticsQueryFromRequest_def s name_values_def valid_filter_def Let_def)
  moreover have "values_get (ParseQuery (link_query (analyticsExportURL q format))) ''format'' = format"
    "values_get (ParseQuery (link_query (sessionsExportURL q format))) ''format'' = format"
    by (simp_all add: e s query_values_get name_values_def)
  ultimately show ?thesis
    using v[of dimension q] v[of "aq_Dimension q" "q\<lparr>aq_Period := period\<rparr>"] assms
    by (simp add: request_filter_valid analyticsPeriodURL_def insightsPeriodURL_def Let_def)
qed

text \<open>A filter with reserved and non-ASCII bytes.\<close>

definition odd_filter :: analytics_query where
  "odd_filter = \<lparr>aq_Period = ''7d'', aq_Dimension = ''models'', aq_Machine = ''a&b=c;d'', aq_Provider = [], aq_Model = ''50% + ?'',
     aq_Tool = [], aq_Now = None\<rparr>"

theorem links_keep_filter_witness:
  "analyticsQueryFromRequest 0 (ParseQuery (link_query (analyticsExportURL odd_filter ''csv''))) = odd_filter\<lparr>aq_Now := Some 0\<rparr>
    \<and> analyticsQueryFromRequest 0 (ParseQuery (link_query (analyticsViewURL odd_filter ''machines'')))
        = odd_filter\<lparr>aq_Dimension := ''machines'', aq_Now := Some 0\<rparr>"
proof -
  have "valid_filter odd_filter" "valid_filter (odd_filter\<lparr>aq_Dimension := ''machines''\<rparr>)" "valid_filter (odd_filter\<lparr>aq_Period := ''all''\<rparr>)"
    by (simp_all add: valid_filter_def odd_filter_def str_eval del: runes.simps(2))
  from links_keep_filter[OF this, of 0 "''csv''"] show ?thesis by (simp add: Let_def)
qed

text \<open>The sortable headers. The link of a header asks for its column, and for the other direction exactly
  when the table is already sorted by it (otherwise for the descending one), and it leaves the filter
  and every other parameter of the request as they are; so following the link of a column twice gives
  the direction back.\<close>

theorem sort_links_toggle:
  assumes "dir \<in> {''asc'', ''desc''}" "(key, st) \<in> set (sessionSortStates rawQuery srt dir)"
  shows "let values = ParseQuery (link_query (sst_URL st)) in
    NormalizeSessionSort (values_get values ''sort'') (values_get values ''dir'')
      = (key, if key = srt then (if dir = ''desc'' then ''asc'' else ''desc'') else ''desc'')
    \<and> sst_Active st = (key = srt)
    \<and> analyticsQueryFromRequest now values = analyticsQueryFromRequest now (ParseQuery rawQuery)
    \<and> (\<forall>k. k \<noteq> ''sort'' \<and> k \<noteq> ''dir'' \<longrightarrow> values_get values k = values_get (ParseQuery rawQuery) k)"
proof -
  obtain d where st: "sst_URL st = sort_link (ParseQuery rawQuery) key d" "sst_Active st = (key = srt)"
    "d = (if key = srt then toggled dir else ''desc'')" and k: "key \<in> {''when'', ''tokens'', ''cost'', ''duration''}"
    using assms(2) by (auto simp: sessionSortStates_def)
  have g: "values_get (ParseQuery (link_query (sst_URL st))) k
      = values_get (values_set ''dir'' d (values_set ''sort'' key (ParseQuery rawQuery))) k" for k
    by (rule followed[of _ "[]"]) (simp_all add: st(1) sort_link_def values_ok_set values_ok_parse)
  have "d \<in> {''asc'', ''desc''}" using assms(1) st(3) by (auto simp: toggled_def)
  then show ?thesis
    using k assms(1) st(2,3) by (auto simp: g NormalizeSessionSort_def Let_def analyticsQueryFromRequest_def toggled_def)
qed

theorem sort_links_toggle_witness:
  "let st = the (map_of (sessionSortStates ''machine=m'' ''cost'' ''desc'') ''cost''); values = ParseQuery (link_query (sst_URL st)) in
    NormalizeSessionSort (values_get values ''sort'') (values_get values ''dir'') = (''cost'', ''asc'')"
proof -
  let ?s = "sessionSortStates ''machine=m'' ''cost'' ''desc''"
  have "(''cost'', the (map_of ?s ''cost'')) \<in> set ?s" by (simp add: sessionSortStates_def)
  from sort_links_toggle[OF _ this, of 0] show ?thesis by (simp add: Let_def)
qed

subsection \<open>Exports read back\<close>

definition on_result :: "('a \<Rightarrow> bool) \<Rightarrow> ('e + 'a) option \<Rightarrow> bool" where
  "on_result P x \<longleftrightarrow> (case x of Some (Inr a) \<Rightarrow> P a | _ \<Rightarrow> True)"

lemma on_result_intros:
  "(\<And>v. on_result P (f v)) \<Longrightarrow> on_result P (Option.bind x f)"
  "(\<And>v. on_result P (k v)) \<Longrightarrow> on_result P (case y of Inl e \<Rightarrow> Some (Inl e) | Inr v \<Rightarrow> k v)"
  "(\<And>a b. on_result P (l a b)) \<Longrightarrow> on_result P (case p of (a, b) \<Rightarrow> l a b)"
  "P a \<Longrightarrow> on_result P (Some (Inr a))"
  by (cases x; cases y; cases p; simp add: on_result_def)+

lemma Analytics_filter:
  assumes "Analytics z timezone clock t q = Some (Inr a)"
  shows "an_Filter a = fst (normalizeAnalyticsQuery z clock q)"
proof -
  obtain q' start until0 where n: "normalizeAnalyticsQuery z clock q = (q', start, until0)" by (metis prod_cases3)
  have "on_result (\<lambda>a. an_Filter a = q') (Analytics z timezone clock t q)"
    unfolding Analytics_def n prod.case Let_def by (intro on_result_intros) simp
  then show ?thesis using assms by (simp add: on_result_def n)
qed

lemma normalize_valid: "valid_filter q \<Longrightarrow> fst (normalizeAnalyticsQuery z clock q) = q\<lparr>aq_Now := None\<rparr>"
  by (simp add: normalizeAnalyticsQuery_def valid_filter_def Let_def)

lemma sessions_csv_rows:
  "csv_read (writeSessionsCSV shortest records) = sessions_header # map (session_cells shortest) records"
proof -
  have "writeSessionsCSV shortest records = concat (map csv_Write (sessions_header # map (session_cells shortest) records))"
    by (simp add: writeSessionsCSV_def comp_def)
  also have "csv_read \<dots> = sessions_header # map (session_cells shortest) records"
    by (rule csv_read_write) (simp add: sessions_header_def session_cells_def list_all_iff)
  finally show ?thesis .
qed

lemma analytics_csv_rows:
  "csv_read (writeAnalyticsCSV ufold a) = analytics_header # map (breakdown_cells ufold (an_Filter a)) (an_Breakdown a)"
proof -
  have "writeAnalyticsCSV ufold a = concat (map csv_Write (analytics_header # map (breakdown_cells ufold (an_Filter a)) (an_Breakdown a)))"
    by (simp add: writeAnalyticsCSV_def comp_def)
  also have "csv_read \<dots> = analytics_header # map (breakdown_cells ufold (an_Filter a)) (an_Breakdown a)"
    by (rule csv_read_write) (simp add: analytics_header_def breakdown_cells_def list_all_iff)
  finally show ?thesis .
qed


subsection \<open>No formulas\<close>

definition formula_free :: "gostr \<Rightarrow> bool" where
  "formula_free cell \<longleftrightarrow> cell = [] \<or> hd cell \<notin> set ''=+-@'' \<union> {CHR 0x09, CHR 0x0D}"

lemma csvFormulaSafe_free: "formula_free (csvFormulaSafe v)"
  by (auto simp: csvFormulaSafe_def formula_free_def)

lemma digit_first_free: "s \<noteq> [] \<Longrightarrow> 48 \<le> byte (hd s) \<Longrightarrow> byte (hd s) \<le> 57 \<Longrightarrow> formula_free s"
  by (auto simp: formula_free_def byte_def)

lemma nat_str_not_Nil: "nat_str n \<noteq> []"
  by (subst nat_str.simps) simp

lemma int_str_free: "0 \<le> n \<Longrightarrow> formula_free (int_str n)"
  using nat_str_bytes[of "hd (nat_str (nat n))" "nat n"] nat_str_not_Nil[of "nat n"]
  by (simp add: int_str_def digit_first_free)

lemma stored_time_free: "stored_time s \<Longrightarrow> formula_free s"
proof -
  assume "stored_time s"
  then obtain t where t: "0 \<le> t" "in_years t" "s = rfc3339_nano t" by (auto simp: stored_time_def)
  obtain y m d where c: "civil (instant_day t) = (y, m, d)" by (metis prod_cases3)
  have "list_all is_digit (fixed 4 (nat y))" "length (fixed 4 (nat y)) = 4" by (rule fixed_digits) simp
  then obtain a b where f: "fixed 4 (nat y) = a # b" "is_digit a" by (cases "fixed 4 (nat y)") auto
  have "s = fixed 4 (nat y) @ drop 4 s" 
    by (simp add: t(3) rfc3339_nano_def second_text_def c date_text_def del: fixed.simps)
  then show ?thesis using f by (metis (no_types) append_Cons digit_first_free is_digit_def list.distinct(1) list.sel(1))
qed

lemma complete_sum_free:
  "list_all (\<lambda>r. nonneg_i64 (f r)) g \<Longrightarrow> formula_free (nullInt64Cell (complete_sum f g))"
proof -
  assume g: "list_all (\<lambda>r. nonneg_i64 (f r)) g"
  have "0 \<le> total_of (\<lambda>r. or_zero (f r)) g"
    by (rule sum_list_nonneg) (use g in \<open>auto simp: list_all_iff or_zero_def nonneg_i64_def split: option.splits\<close>)
  then show ?thesis by (simp add: nullInt64Cell_def complete_sum_def int_str_free) (simp add: formula_free_def)
qed

lemma the_max_mem: "g \<noteq> [] \<Longrightarrow> the_max f g \<in> f ` set g"
  using max_text_mem[of "map f g"] by (cases g) (auto simp: the_max_def max_text_def)

lemma accuracy_free: "Accuracy_Valid a \<Longrightarrow> formula_free a"
  by (auto simp: Accuracy_Valid_def formula_free_def AccuracyReported_def AccuracyDerived_def AccuracyEstimated_def AccuracyUnknown_def)

lemma session_cells_free:
  assumes "list_all row_typed g" "g \<noteq> []"
  shows "list_all formula_free (take 10 (session_cells shortest (session_of rs g)) @ drop 11 (session_cells shortest (session_of rs g)))"
proof -
  have c: "list_all (\<lambda>r. nonneg_i64 (f r)) g" if "f \<in> {rw_input, rw_output, rw_total, rw_duration}" for f
    using assms(1) that by (auto simp: list_all_iff row_typed_def)
  have "the_max rw_timestamp g \<in> rw_timestamp ` set g" by (rule the_max_mem[OF assms(2)])
  then have t: "formula_free (the_max rw_timestamp g)"
    using assms(1) stored_time_free by (auto simp: list_all_iff row_typed_def)
  have "row_typed (hd g)" using assms by (cases g) auto
  then have a: "formula_free (rw_accuracy (hd g))" by (simp add: row_typed_def accuracy_free)
  have u: "formula_free ''unknown''" "formula_free ''true''" "formula_free ''false''" by (simp_all add: formula_free_def)
  show ?thesis
    using t a u complete_sum_free[OF c] by (simp add: session_cells_def session_of_def Let_def csvFormulaSafe_free int_str_free)
qed

lemma set_sessionOrderBy [simp]: "set (sessionOrderBy srt dir xs) = set xs"
  by (simp add: sessionOrderBy_def sort_dir_def Let_def)

lemma Sessions_of_rows:
  assumes "Sessions rs z clock t q = Inr records" "s \<in> set records"
  shows "\<exists>g. g \<noteq> [] \<and> set g \<subseteq> set t \<and> s = session_of rs g"
proof -
  obtain q' start until where n: "normalizeAnalyticsQuery z clock q = (q', start, until)" by (metis prod_cases3)
  let ?rows = "filter (\<lambda>r. analyticsWhere q' start until r \<and> rw_session_id r \<noteq> None \<and> rw_session_id r \<noteq> Some []) t"
  let ?key = "\<lambda>r. [the (rw_session_id r), rw_machine_id r, rw_provider r, rw_tool r]"
  have "records = take 100 (sessionOrderBy ''when'' ''desc'' (map (session_of rs) (map snd (groups ?key ?rows))))"
    using assms(1) unfolding Sessions_def SessionsWithSort_def n by (simp add: NormalizeSessionSort_def Let_def split: if_splits)
  from in_set_takeD[OF assms(2)[unfolded this]]
  have "s \<in> set (sessionOrderBy ''when'' ''desc'' (map (session_of rs) (map snd (groups ?key ?rows))))" .
  then obtain p where "p \<in> set (groups ?key ?rows)" "s = session_of rs (snd p)"
    unfolding set_sessionOrderBy set_map by blast
  then have g: "(fst p, snd p) \<in> set (groups ?key ?rows)" "s = session_of rs (snd p)" by simp_all
  note k = conjunct1[OF iffD1[OF groups_mem g(1)]] conjunct2[OF iffD1[OF groups_mem g(1)]]
  from k(1) obtain r where "fst p = ?key r" "r \<in> set ?rows" by (rule imageE)
  then have "r \<in> set (snd p)" unfolding k(2) set_filter by simp
  moreover have "set (snd p) \<subseteq> set t" unfolding k(2) set_filter by blast
  moreover have "x \<in> set l \<Longrightarrow> l \<noteq> []" for x :: row and l by auto
  ultimately show ?thesis using g(2) by blast
qed


subsection \<open>Examples\<close>

definition sample_read :: read_env where
  "sample_read = \<lparr>xv_zone = None, xv_timezone = ''UTC'', xv_real_sum = exact_sum, xv_now = 7, xv_shortest = (\<lambda>_. ''0''),
     xv_sessions_json = (\<lambda>_. Some ''[]''), xv_analytics_json = (\<lambda>_. Some ''{}''), xv_order = []\<rparr>"

lemma read_zone: "xv_zone sample_read = None"
  by (simp add: sample_read_def)

lemma empty_view: "\<exists>a. Analytics None tz clock [] q = Some (Inr a) \<and> an_Breakdown a = []"
proof -
  obtain q' start until0 where n: "normalizeAnalyticsQuery None clock q = (q', start, until0)" by (metis prod_cases3)
  obtain s where s: "analyticsSummary None [] = Inr s" using typed_summary[of "[]" None] by auto
  obtain c where c: "\<And>x y. compare_windows None [] q' start x y = Inr (c x y)"
    using typed_compare[of "[]" None q' start] by (auto) metis
  show ?thesis
    unfolding Analytics_def n Let_def prod.case
    by (simp add: s c analyticsPoints_def fillAnalyticsPoints_def analyticsBreakdown_def analyticsShareTimeline_def
        share_series_of_def analyticsSessions_def groups_def Let_def sort_desc_def)
qed


lemma sample_row_stored: "row_typed (event_row sample_env sample_event)"
  using event_row_typed[OF sample_validates[of 0] sample_event_i64] sample_clock by (simp add: sane_clock_def)


end
