(* ===== verification/Api_Labels.thy ===== *)
theory Api_Labels
  imports Store_Types Api_Exports
begin

text \<open>
  The display helpers of \<open>internal/api/server.go\<close> that the page templates call: names, numbers,
  durations, the axis of the timeline, aliases. The templates themselves are not modelled. Text that
  is not ASCII is written by its code points.
\<close>

subsection \<open>Splitting and trimming by runes\<close>

text \<open>\<open>strings.FieldsFunc\<close> on the decoded text; \<open>cur\<close> is the field being read.\<close>

fun fields_from :: "(nat \<Rightarrow> bool) \<Rightarrow> gostr \<Rightarrow> (nat \<times> gostr) list \<Rightarrow> gostr list" where
  "fields_from sep cur [] = (if cur = [] then [] else [cur])"
| "fields_from sep cur ((r, b) # rs) =
    (if sep r then (if cur = [] then fields_from sep [] rs else cur # fields_from sep [] rs)
     else fields_from sep (cur @ b) rs)"

definition fields_func :: "(nat \<Rightarrow> bool) \<Rightarrow> gostr \<Rightarrow> gostr list" where
  "fields_func sep s = fields_from sep [] (runes s)"

text \<open>\<open>strings.Fields\<close>\<close>

definition go_fields :: "gostr \<Rightarrow> gostr list" where "go_fields s = fields_func is_space s"

definition trim_func :: "(nat \<Rightarrow> bool) \<Rightarrow> gostr \<Rightarrow> gostr" where
  "trim_func P s = concat (map snd (rev (dropWhile (P \<circ> fst) (rev (dropWhile (P \<circ> fst) (runes s))))))"

subsection \<open>Names\<close>

definition isDigits :: "gostr \<Rightarrow> bool" where "isDigits s \<longleftrightarrow> list_all is_digit s"

text \<open>\<open>strings.ToUpper(value[:1]) + value[1:]\<close>: a first byte that is not ASCII is no rune of its own and
  becomes the replacement character.\<close>

definition titleWord :: "gostr \<Rightarrow> gostr" where
  "titleWord value = (case value of [] \<Rightarrow> []
    | c # rest \<Rightarrow> (if byte c < 128 then upper_ascii [c] else encode_rune rune_error) @ rest)"

definition titleWords :: "gostr list \<Rightarrow> gostr list" where "titleWords values = map titleWord values"

text \<open>Adjacent numeric parts are one version.\<close>

fun model_words :: "gostr option \<Rightarrow> gostr list \<Rightarrow> gostr list \<Rightarrow> gostr list" where
  "model_words prev words [] = words"
| "model_words prev words (part # parts) =
    model_words (Some part)
      (if (case prev of None \<Rightarrow> False | Some p \<Rightarrow> isDigits part \<and> isDigits p)
       then butlast words @ [last words @ ''.'' @ part] else words @ [titleWord part]) parts"

definition compactModelName :: "(nat \<Rightarrow> nat) \<Rightarrow> gostr \<Rightarrow> gostr" where
  "compactModelName ufold raw =
    (let trimmed = trim_space raw in
     if trimmed = [] then raw
     else (let parts = fields_func (\<lambda>r. r \<in> {45, 95, 47}) trimmed in
       if length parts < 2 then trimmed
       else if equal_fold ufold (hd parts) ''claude''
       then (let parts = tl parts;
                 parts = (if 1 < length parts \<and> length (last parts) = 8 \<and> isDigits (last parts) then butlast parts else parts)
             in if parts = [] then trimmed else join_with '' '' (model_words None [] parts))
       else if equal_fold ufold (hd parts) ''gpt''
       then (if length parts = 2 then ''GPT-'' @ parts ! 1
             else ''GPT-'' @ parts ! 1 @ '' '' @ join_with '' '' (titleWords (drop 2 parts)))
       else trimmed))"

definition compactMachineName :: "(nat \<Rightarrow> nat) \<Rightarrow> gostr \<Rightarrow> gostr" where
  "compactMachineName ufold raw =
    (let trimmed = trim_space raw in
     if trimmed = [] then raw
     else (let parts = fields_func (\<lambda>r. r \<in> {45, 95, 32}) trimmed in
       case dropWhile (\<lambda>p. \<not> equal_fold ufold p ''macbook'') parts of
         p # rest \<Rightarrow> join_with '' '' (''MacBook'' # titleWords rest)
       | [] \<Rightarrow> if length parts = 2 \<and> length (parts ! 0) \<le> 4 then titleWord (parts ! 1) else trimmed))"

type_synonym alias_map = "(gostr \<times> gostr) list"

definition alias_of :: "alias_map \<Rightarrow> gostr \<Rightarrow> gostr" where
  "alias_of aliases raw = (case map_of aliases raw of None \<Rightarrow> [] | Some a \<Rightarrow> a)"

definition modelDisplayName :: "(nat \<Rightarrow> nat) \<Rightarrow> alias_map \<Rightarrow> gostr \<Rightarrow> gostr" where
  "modelDisplayName ufold aliases raw =
    (let alias = trim_space (alias_of aliases raw) in
     if alias \<noteq> [] then alias
     else if equal_fold ufold raw ''unknown'' then ''Unknown model'' else compactModelName ufold raw)"

definition machineDisplayName :: "(nat \<Rightarrow> nat) \<Rightarrow> alias_map \<Rightarrow> gostr \<Rightarrow> gostr" where
  "machineDisplayName ufold aliases raw =
    (let alias = trim_space (alias_of aliases raw) in if alias \<noteq> [] then alias else compactMachineName ufold raw)"

definition harnessName :: "gostr \<Rightarrow> gostr" where
  "harnessName tool =
    (if tool = ''claude-code'' then ''Claude Code'' else if tool = ''codex'' then ''Codex''
     else if tool = ''opencode'' then ''OpenCode'' else if tool \<in> {''copilot-cli'', ''github-copilot''} then ''GitHub Copilot CLI''
     else if tool = ''antigravity'' then ''Antigravity'' else if tool = ''openclaw'' then ''OpenClaw''
     else if tool \<in> {''hermes-agent'', ''hermes''} then ''Hermes Agent'' else if tool = ''zcode'' then ''ZCode''
     else if tool = ''generic-jsonl'' then ''Generic JSONL'' else tool)"

definition analyticsDimensionLabel :: "gostr \<Rightarrow> gostr" where
  "analyticsDimensionLabel dimension =
    (if dimension = ''harnesses'' then ''Harnesses'' else if dimension = ''providers'' then ''Providers''
     else if dimension = ''models'' then ''Models'' else if dimension = ''machines'' then ''Machines'' else ''Projects'')"

definition breakdownDisplayName :: "(nat \<Rightarrow> nat) \<Rightarrow> gostr \<Rightarrow> alias_map \<Rightarrow> gostr \<Rightarrow> gostr" where
  "breakdownDisplayName ufold dimension aliases name =
    (if isUnknownBucketName ufold name then analyticsUnknownLabel dimension
     else if dimension = ''models'' then modelDisplayName ufold aliases name
     else if dimension = ''machines'' then machineDisplayName ufold aliases name
     else if dimension = ''harnesses'' then harnessName name else name)"

subsection \<open>Session names\<close>

definition sessionTimestampName :: "gostr \<Rightarrow> gostr option" where
  "sessionTimestampName raw =
    (if length raw < 16 \<or> raw ! 8 \<noteq> CHR ''_'' \<or> raw ! 15 \<noteq> CHR ''_'' then None
     else if \<not> isDigits (slice 0 8 raw) \<or> \<not> isDigits (slice 9 15 raw) then None
     else Some (slice 0 4 raw @ ''-'' @ slice 4 6 raw @ ''-'' @ slice 6 8 raw @ '' '' @ slice 9 11 raw @ '':'' @ slice 11 13 raw))"

definition shortID :: "gostr \<Rightarrow> gostr" where
  "shortID value =
    (let v = trim_func (\<lambda>r. \<not> ((48 \<le> r \<and> r \<le> 57) \<or> (97 \<le> r \<and> r \<le> 122) \<or> (65 \<le> r \<and> r \<le> 90))) value
     in if 8 < length v then take 8 v else v)"

definition session_prefixes :: "gostr list" where
  "session_prefixes = [''sha256:'', ''local-'', ''sess_subagent_agent_'', ''sess_'', ''ses_'', ''session_'']"

definition ellipsis :: gostr where "ellipsis = encode_rune 0x2026"

definition sessionDisplayName :: "gostr \<Rightarrow> gostr" where
  "sessionDisplayName raw =
    (let trimmed = trim_space raw in
     if trimmed = [] then []
     else (case sessionTimestampName trimmed of Some display \<Rightarrow> display
      | None \<Rightarrow>
         (case List.find (\<lambda>p. has_prefix trimmed p \<and> length p < length trimmed) session_prefixes of
            Some p \<Rightarrow> (if has_prefix p ''sess_subagent'' then ''subagent'' else ''session'') @ '' '' @ shortID (drop (length p) trimmed)
          | None \<Rightarrow> if 18 < length trimmed then take 18 trimmed @ ellipsis else trimmed)))"

subsection \<open>Numbers\<close>

text \<open>The loop of \<open>commas\<close>: a comma before each group of three from position \<open>index\<close> on.\<close>

fun comma_groups :: "nat \<Rightarrow> gostr \<Rightarrow> gostr" where
  "comma_groups 0 s = []"
| "comma_groups (Suc n) s = (if s = [] then [] else CHR '','' # take 3 s @ comma_groups n (drop 3 s))"

definition commas :: "i64 \<Rightarrow> gostr" where
  "commas value =
    (let digits = int_str value;
         start = (if has_prefix digits ''-'' then 1 else 0);
         first = (length digits - start) mod 3;
         first = (if first = 0 then 3 else first)
     in take (start + first) digits @ comma_groups (length digits) (drop (start + first) digits))"

definition commasPtr :: "i64 option \<Rightarrow> gostr" where
  "commasPtr v = (case v of None \<Rightarrow> [] | Some n \<Rightarrow> commas n)"

text \<open>\<open>math.Round\<close>, and the conversion to \<open>int64\<close>, which on amd64 gives the least integer when the value
  does not fit.\<close>

definition round_away :: "rat \<Rightarrow> int" where
  "round_away r = (if 0 \<le> r then \<lfloor>r + 1 / 2\<rfloor> else - \<lfloor>- r + 1 / 2\<rfloor>)"

definition to_i64 :: "f64 \<Rightarrow> i64" where
  "to_i64 x = (case x of Fin r \<Rightarrow> (let n = (if 0 \<le> r then \<lfloor>r\<rfloor> else - \<lfloor>- r\<rfloor>) in if is_i64 n then n else min_i64) | _ \<Rightarrow> min_i64)"

definition f64_round :: "f64 \<Rightarrow> f64" where
  "f64_round x = (case x of Fin r \<Rightarrow> Fin (of_int (round_away r)) | _ \<Rightarrow> x)"

text \<open>\<open>%02d\<close> and \<open>%d\<close>\<close>

definition two_d :: "i64 \<Rightarrow> gostr" where
  "two_d n = (if n < 0 then int_str n else pad_str 2 (nat n))"

definition money :: "f64 \<Rightarrow> gostr" where
  "money value =
    (let cents = to_i64 (f64_round (f64_mul value (Fin 100)));
         neg = cents < 0;
         cents = (if neg then i64_sub 0 cents else cents)
     in (if neg then ''-'' else []) @ ''$'' @ commas (go_div cents 100) @ ''.'' @ two_d (go_mod cents 100))"

definition durationLabel :: "i64 \<Rightarrow> gostr" where
  "durationLabel ms =
    (if ms < 1000 then int_str ms @ ''ms''
     else if ms < 60000 then format_fixed 1 (f64_div (f64_of_int ms) (Fin 1000)) @ ''s''
     else (let secs = go_div (i64_add ms 500) 1000 in
       if secs < 3600 then int_str (go_div secs 60) @ ''m '' @ two_d (go_mod secs 60) @ ''s''
       else int_str (go_div secs 3600) @ ''h '' @ two_d (go_div (go_mod secs 3600) 60) @ ''m''))"

definition trim_suffix :: "gostr \<Rightarrow> gostr \<Rightarrow> gostr" where
  "trim_suffix s p = (if has_suffix s p then take (length s - length p) s else s)"

definition compact_units :: "(rat \<times> gostr) list" where
  "compact_units = [(1000000000000, ''T''), (1000000000, ''B''), (1000000, ''M''), (1000, ''K'')]"

definition compact_number :: "i64 \<Rightarrow> gostr" where
  "compact_number value =
    (let x = f64_of_int value; a = (if f64_less x (Fin 0) then f64_neg x else x) in
     case List.find (\<lambda>u. f64_le (Fin (fst u)) a) compact_units of
       Some (unit, ending) \<Rightarrow> trim_suffix (format_fixed 1 (f64_div x (Fin unit))) ''.0'' @ ending
     | None \<Rightarrow> int_str value)"

definition compactPtr :: "i64 option \<Rightarrow> gostr" where
  "compactPtr v = (case v of None \<Rightarrow> [] | Some n \<Rightarrow> compact_number n)"

definition cacheUncached :: "cache_summary \<Rightarrow> i64" where
  "cacheUncached c = (if ch_EligibleTokens c \<le> ch_CachedTokens c then 0 else i64_sub (ch_EligibleTokens c) (ch_CachedTokens c))"

definition twoDigits :: "i64 \<Rightarrow> gostr" where
  "twoDigits value =
    (let v = (if value < 0 then 0 else value); v = (if 99 < v then 99 else v)
     in int_str (go_div v 10) @ int_str (go_mod v 10))"

definition analyticsBarPercent :: "i64 \<Rightarrow> i64 \<Rightarrow> f64" where
  "analyticsBarPercent value maximum =
    (if value \<le> 0 \<or> maximum \<le> 0 then Fin 0 else f64_div (f64_mul (f64_of_int value) (Fin 100)) (f64_of_int maximum))"

definition analyticsPartPercent :: "i64 \<Rightarrow> i64 \<Rightarrow> f64" where
  "analyticsPartPercent value whole =
    (if value \<le> 0 \<or> whole \<le> 0 then Fin 0 else f64_div (f64_mul (f64_of_int value) (Fin 100)) (f64_of_int whole))"

definition insightBarPercent :: "i64 \<Rightarrow> i64 \<Rightarrow> f64" where
  "insightBarPercent value maximum =
    (if value \<le> 0 \<or> maximum \<le> 0 then Fin 0
     else (let percent = f64_div (f64_mul (f64_of_int value) (Fin 100)) (f64_of_int maximum) in
       if f64_less percent (Fin 2) then Fin 2 else if f64_less (Fin 100) percent then Fin 100 else percent))"

definition insightCoverage :: "f64 \<Rightarrow> gostr" where
  "insightCoverage value =
    (if f64_le value (Fin 0) then ''0%'' else if f64_le (Fin 1) value then ''100%''
     else format_fixed 0 (f64_mul value (Fin 100)) @ ''%'')"

subsection \<open>Freshness\<close>

record data_freshness =
  df_Class :: gostr
  df_State :: gostr
  df_Age :: gostr

definition dataFreshnessFor :: "instant option \<Rightarrow> instant \<Rightarrow> data_freshness" where
  "dataFreshnessFor newest now =
    (case newest of None \<Rightarrow> \<lparr>df_Class = [], df_State = ''Unknown'', df_Age = ''no events yet''\<rparr>
     | Some t \<Rightarrow>
        (let age = time_sub now t; age = (if age < 0 then 0 else age); label = durationLabel (duration_ms age) @ '' ago'' in
         if age \<le> minutes 30 then \<lparr>df_Class = ''connected'', df_State = ''Fresh'', df_Age = label\<rparr>
         else \<lparr>df_Class = ''stale'', df_State = ''Stale'', df_Age = label\<rparr>))"

subsection \<open>The axis and the summary of the timeline\<close>

definition analyticsAxisTicks :: "i64 \<Rightarrow> (i64 \<times> i64) list" where
  "analyticsAxisTicks maximum =
    (if maximum \<le> 0 then []
     else map (\<lambda>position. (to_i64 (f64_round (f64_div (f64_mul (f64_of_int maximum) (f64_of_int position)) (Fin 100))), position))
       [100, 75, 50, 25, 0])"

definition tick_step :: "i64 \<Rightarrow> gostr \<Rightarrow> i64" where
  "tick_step n period =
    (if period = ''24h'' then 4 else if period = ''30d'' then 5 else if period = ''90d'' then 15
     else if period = ''all'' then max 1 (to_i64 (case f64_div (f64_of_int n) (Fin 6) of Fin r \<Rightarrow> Fin (of_int \<lceil>r\<rceil>) | x \<Rightarrow> x))
     else 1)"

definition analyticsDateTickClass :: "i64 \<Rightarrow> i64 \<Rightarrow> gostr \<Rightarrow> gostr" where
  "analyticsDateTickClass index n period =
    (if n \<le> 0 \<or> index < 0 \<or> n \<le> index then []
     else if index \<noteq> 0 \<and> index \<noteq> n - 1 \<and> go_mod index (tick_step n period) \<noteq> 0 then []
     else '' tick'' @ (if index = 0 then '' tick-start'' else []) @ (if index = n - 1 then '' tick-end'' else []))"

definition last_field :: "gostr \<Rightarrow> gostr \<Rightarrow> gostr" where
  "last_field label period =
    (if period \<noteq> ''24h'' then label else (let parts = go_fields label in if parts \<noteq> [] then last parts else label))"

definition analyticsDateTickLabel :: "analytics_point \<Rightarrow> gostr \<Rightarrow> gostr" where
  "analyticsDateTickLabel p period = last_field (ap_Label p) period"

definition analyticsShareDateTickLabel :: "share_point \<Rightarrow> gostr \<Rightarrow> gostr" where
  "analyticsShareDateTickLabel p period = last_field (sp_Label p) period"

definition analyticsPeakPoint :: "analytics_point list \<Rightarrow> analytics_point" where
  "analyticsPeakPoint points =
    (case points of [] \<Rightarrow> empty_point []
     | p # ps \<Rightarrow> fold (\<lambda>q peak. if ap_Tokens peak < ap_Tokens q then q else peak) ps p)"

definition analyticsAverageThread :: "analytics_summary \<Rightarrow> i64" where
  "analyticsAverageThread s = (if ay_Threads s \<le> 0 then 0 else go_div (ay_SessionTokens s) (ay_Threads s))"

text \<open>\<open>%+.1f%%\<close>\<close>

definition analyticsChangeLabel :: "f64 option \<Rightarrow> gostr" where
  "analyticsChangeLabel v =
    (case v of None \<Rightarrow> ''No earlier baseline''
     | Some x \<Rightarrow> (let t = format_fixed 1 x in
         (if has_prefix t ''-'' \<or> has_prefix t ''+'' then t else CHR ''+'' # t) @ ''%''))"

definition analyticsChangeClass :: "f64 option \<Rightarrow> gostr" where
  "analyticsChangeClass v =
    (case v of None \<Rightarrow> ''flat'' | Some x \<Rightarrow> if x = Fin 0 then ''flat'' else if f64_less (Fin 0) x then ''up'' else ''down'')"

definition analyticsShortTime :: "gostr \<Rightarrow> gostr" where
  "analyticsShortTime raw =
    (case timeParse raw of None \<Rightarrow> raw
     | Some t \<Rightarrow> (case civil (instant_day t) of (y, m, d) \<Rightarrow>
         month_short (instant_day t) @ '' '' @ int_str d @ '', '' @ fixed 2 (nat (instant_clock t div 3600)) @ '':''
           @ fixed 2 (nat (instant_clock t div 60 mod 60))))"

subsection \<open>Aliases\<close>

definition aliasMaps :: "(gostr \<times> gostr \<times> gostr) list \<Rightarrow> alias_map \<times> alias_map" where
  "aliasMaps values =
    (fold (\<lambda>(kind, i, a) m. if kind = AliasKindModel then upsert i a m else m) values [],
     fold (\<lambda>(kind, i, a) m. if kind = AliasKindMachine then upsert i a m else m) values [])"

record aliasRow =
  ar_Identity :: gostr
  ar_Alias :: gostr
  ar_Default :: gostr

text \<open>\<open>order\<close> is the order in which the map is iterated.\<close>

definition alias_rows :: "(gostr \<Rightarrow> gostr) \<Rightarrow> gostr list \<Rightarrow> alias_map \<Rightarrow> aliasRow list" where
  "alias_rows compactName names order = sort_key ar_Identity
    (map (\<lambda>n. \<lparr>ar_Identity = n, ar_Alias = alias_of order n, ar_Default = compactName n\<rparr>) names
     @ map (\<lambda>(i, a). \<lparr>ar_Identity = i, ar_Alias = a, ar_Default = compactName i\<rparr>) (filter (\<lambda>(i, a). i \<notin> set names) order))"

definition modelAliasRows :: "(nat \<Rightarrow> nat) \<Rightarrow> model_total list \<Rightarrow> alias_map \<Rightarrow> aliasRow list" where
  "modelAliasRows ufold values order = alias_rows (compactModelName ufold) (map mt_Model values) order"

definition machineAliasRows :: "(nat \<Rightarrow> nat) \<Rightarrow> (gostr \<times> i64) list \<Rightarrow> alias_map \<Rightarrow> aliasRow list" where
  "machineAliasRows ufold values order = alias_rows (compactMachineName ufold) (map fst values) order"

definition dashboardUsageRowsLimit :: nat where "dashboardUsageRowsLimit = 5"

definition limitDashboardRows :: "'a list \<Rightarrow> 'a list" where
  "limitDashboardRows values = (if length values \<le> dashboardUsageRowsLimit then values else take dashboardUsageRowsLimit values)"

subsection \<open>Tooltips of the heatmap\<close>

definition middle_dot :: gostr where "middle_dot = '' '' @ encode_rune 0xB7 @ '' ''"

definition breakdown_line :: "token_breakdown \<Rightarrow> gostr" where
  "breakdown_line b = [newline] @ ''  '' @ tb_Name b @ middle_dot
    @ (if 0 < tb_UnknownTokens b \<and> tb_Tokens b = 0 then ''token total unavailable'' else commas (tb_Tokens b) @ '' tokens'')"

definition appendActivityBreakdown :: "gostr \<Rightarrow> token_breakdown list \<Rightarrow> gostr" where
  "appendActivityBreakdown heading values = (if values = [] then [] else [newline] @ heading @ concat (map breakdown_line values))"

definition activityTooltip :: "activity_day \<Rightarrow> gostr" where
  "activityTooltip d =
    (if ad_Future d then []
     else if ad_Events d = 0 then ad_Label d @ middle_dot @ ''No token usage''
     else ad_Label d @ [newline]
       @ (let word = (if ad_Events d = 1 then ''event'' else ''events'') in
          if ad_Events d \<le> ad_UnknownTokens d then ''Token total unavailable'' @ middle_dot @ commas (ad_Events d) @ '' '' @ word
          else commas (ad_Tokens d) @ '' tokens'' @ middle_dot @ commas (ad_Events d) @ '' '' @ word)
       @ (if 0 < ad_UnknownTokens d then [newline] @ ''Some token totals unavailable'' else [])
       @ appendActivityBreakdown ''BY MODEL'' (ad_ByModel d) @ appendActivityBreakdown ''BY PROVIDER'' (ad_ByProvider d))"

subsection \<open>Grouped numbers\<close>

lemma comma_groups_digits: "length s \<le> n \<Longrightarrow> CHR '','' \<notin> set s \<Longrightarrow> filter (\<lambda>c. c \<noteq> CHR '','') (comma_groups n s) = s"
proof (induction n arbitrary: s)
  case (Suc n)
  have "CHR '','' \<notin> set (take 3 s)" "CHR '','' \<notin> set (drop 3 s)"
    using Suc.prems(2) set_take_subset set_drop_subset by fast+
  moreover from this have "filter (\<lambda>c. c \<noteq> CHR '','') (take 3 s) = take 3 s" by (auto simp: filter_id_conv)
  ultimately show ?case using Suc.IH[of "drop 3 s"] Suc.prems(1) by auto
qed simp

lemma comma_groups_split:
  "length s \<le> n \<Longrightarrow> CHR '','' \<notin> set s \<Longrightarrow> CHR '','' \<notin> set x \<Longrightarrow> 3 dvd length s \<Longrightarrow>
    \<exists>gs. split_on (CHR '','') (x @ comma_groups n s) = x # gs \<and> list_all (\<lambda>g. length g = 3) gs"
proof (induction n arbitrary: s x)
  case (Suc n)
  show ?case
  proof (cases "s = []")
    case False
    have l: "3 \<le> length s" using Suc.prems(4) False by (auto dest: dvd_imp_le)
    have t: "CHR '','' \<notin> set (take 3 s)" "CHR '','' \<notin> set (drop 3 s)"
      using Suc.prems(2) set_take_subset set_drop_subset by fast+
    have d: "3 dvd length (drop 3 s)" using Suc.prems(4) l by (simp add: dvd_diff_nat)
    have "length (drop 3 s) \<le> n" using Suc.prems(1) by simp
    from Suc.IH[OF this t(2,1) d] obtain gs
      where "split_on (CHR '','') (take 3 s @ comma_groups n (drop 3 s)) = take 3 s # gs" "list_all (\<lambda>g. length g = 3) gs" by blast
    then show ?thesis using False l by (simp add: split_on_append_sep[OF Suc.prems(3)])
  qed (use Suc.prems(3) in \<open>simp add: split_on_single\<close>)
qed (simp add: split_on_single)

lemma first_group:
  assumes "1 \<le> m"
  shows "(if m mod 3 = 0 then 3 else m mod 3) \<le> m" "3 dvd m - (if m mod 3 = 0 then 3 else m mod 3)"
    "1 \<le> (if m mod 3 = 0 then 3 else m mod 3)" "(if m mod 3 = 0 then 3 else m mod 3) \<le> (3 :: nat)"
proof -
  show "(if m mod 3 = 0 then 3 else m mod 3) \<le> m" using assms by (auto dest: dvd_imp_le)
  show "3 dvd m - (if m mod 3 = 0 then 3 else m mod 3)" by (auto simp: dvd_minus_mod intro: dvd_diff_nat)
  show "1 \<le> (if m mod 3 = 0 then 3 else m mod 3)" by simp
  show "(if m mod 3 = 0 then 3 else m mod 3) \<le> 3" using mod_less_divisor[of 3 m] by simp
qed

lemma int_str_sign: "has_prefix (int_str n) ''-'' = (n < 0)"
  using nat_str_bytes[of "hd (nat_str (nat n))" "nat n"] nat_str_not_Nil[of "nat n"]
  by (cases "nat_str (nat n)") (auto simp: int_str_def has_prefix_def byte_def)

lemma int_str_no_comma: "CHR '','' \<notin> set (int_str n)"
  using int_str_bytes[of "CHR '',''" n] by (auto simp: byte_def)

text \<open>Grouped numbers. For every 64-bit value the commas change nothing but the spacing: without them the
  text is the decimal number, sign included, so distinct values are shown distinctly; behind the first
  comma every group has exactly three digits, and before it there are one, two or three.\<close>

theorem commas_grouped:
  "filter (\<lambda>c. c \<noteq> CHR '','') (commas n) = int_str n
    \<and> (commas n = commas m \<longleftrightarrow> n = m)
    \<and> (case split_on (CHR '','') (commas n) of [] \<Rightarrow> False
       | g # gs \<Rightarrow> list_all (\<lambda>g. length g = 3) gs
           \<and> (let k = length g - (if n < 0 then 1 else 0) in 1 \<le> k \<and> k \<le> 3))"
proof -
  have parts: "\<exists>x rest. commas n = x @ comma_groups (length (int_str n)) rest \<and> int_str n = x @ rest \<and> 3 dvd length rest
      \<and> 1 \<le> length x - (if n < 0 then 1 else 0) \<and> length x - (if n < 0 then 1 else 0) \<le> 3" for n
  proof -
    define d s where "d = int_str n" and "s = (if n < 0 then 1 else 0 :: nat)"
    define f where "f = (if (length d - s) mod 3 = 0 then 3 else (length d - s) mod 3)"
    have "nat_str (nat n) \<noteq> []" "nat_str (nat (- n)) \<noteq> []" by (rule nat_str_not_Nil)+
    then have m: "1 \<le> length d - s" "s \<le> length d" by (simp_all add: d_def s_def int_str_def Suc_le_eq)
    have l: "f \<le> length d - s" "3 dvd length d - s - f" "1 \<le> f" "f \<le> 3"
      unfolding f_def by (rule first_group[OF m(1)])+
    have "commas n = take (s + f) d @ comma_groups (length d) (drop (s + f) d)"
      by (simp add: commas_def int_str_sign s_def f_def d_def Let_def)
    moreover have "length (take (s + f) d) = s + f" "length (drop (s + f) d) = length d - s - f" using l(1) m(2) by simp_all
    ultimately show ?thesis
      using l(2-4) unfolding s_def[symmetric] d_def[symmetric]
      by (intro exI[of _ "take (s + f) d"] exI[of _ "drop (s + f) d"]) simp
  qed
  have f: "filter (\<lambda>c. c \<noteq> CHR '','') (commas n) = int_str n" for n
  proof -
    obtain x rest where p: "commas n = x @ comma_groups (length (int_str n)) rest" "int_str n = x @ rest" using parts by blast
    have "CHR '','' \<notin> set x" "CHR '','' \<notin> set rest" using int_str_no_comma[of n] p(2) by auto
    moreover from this have "filter (\<lambda>c. c \<noteq> CHR '','') x = x" by (auto simp: filter_id_conv)
    ultimately show ?thesis using comma_groups_digits[of rest "length (int_str n)"] p by simp
  qed
  obtain x rest where p: "commas n = x @ comma_groups (length (int_str n)) rest" "int_str n = x @ rest" "3 dvd length rest"
    "1 \<le> length x - (if n < 0 then 1 else 0)" "length x - (if n < 0 then 1 else 0) \<le> 3"
    using parts by blast
  have "CHR '','' \<notin> set x" "CHR '','' \<notin> set rest" using int_str_no_comma[of n] p(2) by auto
  then obtain gs where "split_on (CHR '','') (commas n) = x # gs" "list_all (\<lambda>g. length g = 3) gs"
    using comma_groups_split[of rest "length (int_str n)" x] p(1-3) by auto
  moreover have "commas n = commas m \<longleftrightarrow> n = m" using f int_str_inj by metis
  ultimately show ?thesis using f p(4,5) by (simp add: Let_def)
qed

subsection \<open>Alias rows\<close>

lemma sort_key_strict:
  "distinct (map f xs) \<Longrightarrow> distinct (map f ys) \<Longrightarrow> set xs = set ys \<Longrightarrow> sort_key f xs = sort_key f ys"
  for f :: "'a \<Rightarrow> 'k :: linorder"
  by (rule map_sorted_distinct_set_unique[of f]) (auto simp: distinct_map)

text \<open>The rows of the settings page. Whatever the order in which Go iterates over the map of aliases,
  the page lists the same rows: exactly one for every name that was observed or has an alias, in
  increasing order, each with its alias (empty when it has none) and its default label; so the n-th
  identity and the n-th alias of the submitted form always belong together.\<close>

theorem alias_rows_fixed:
  assumes "distinct names" "distinct (keys_of order)" "distinct (keys_of order')" "map_of order = map_of order'"
  shows "alias_rows compactName names order = alias_rows compactName names order'
    \<and> sorted_wrt (<) (map ar_Identity (alias_rows compactName names order))
    \<and> set (alias_rows compactName names order)
        = (\<lambda>n. \<lparr>ar_Identity = n, ar_Alias = alias_of order n, ar_Default = compactName n\<rparr>) ` (set names \<union> fst ` set order)"
proof -
  let ?row = "\<lambda>n. \<lparr>ar_Identity = n, ar_Alias = alias_of order n, ar_Default = compactName n\<rparr>"
  have al: "alias_of order' = alias_of order" by (simp add: alias_of_def assms(4) fun_eq_iff)
  have rows: "map (\<lambda>(i, a). \<lparr>ar_Identity = i, ar_Alias = a, ar_Default = compactName i\<rparr>) (filter (\<lambda>(i, a). i \<notin> set names) m)
      = map ?row (filter (\<lambda>i. i \<notin> set names) (keys_of m))"
    if "distinct (keys_of m)" "alias_of m = alias_of order" for m
    using that by (auto simp: filter_map comp_def alias_of_def fun_eq_iff case_prod_unfold intro!: map_cong)
      (metis (mono_tags, lifting) case_optionE map_of_is_SomeI option.simps(5) prod.collapse)
  have d: "distinct (map ar_Identity (map ?row (names @ filter (\<lambda>i. i \<notin> set names) (keys_of m))))" if "distinct (keys_of m)" for m
    using that assms(1) by (auto simp: comp_def)
  have e: "alias_rows compactName names m = sort_key ar_Identity (map ?row (names @ filter (\<lambda>i. i \<notin> set names) (keys_of m)))"
    if "distinct (keys_of m)" "alias_of m = alias_of order" for m
    using that rows[OF that] by (simp add: alias_rows_def)
  have k: "fst ` set order = fst ` set order'" using assms(4) by (metis dom_map_of_conv_image_fst)
  have "alias_rows compactName names order = alias_rows compactName names order'"
    unfolding e[OF assms(2) refl] e[OF assms(3) al]
    by (rule sort_key_strict[OF d[OF assms(2)] d[OF assms(3)]]) (use k in auto)
  moreover have "sorted_wrt (<) (map ar_Identity (alias_rows compactName names order))"
    unfolding e[OF assms(2) refl] using d[OF assms(2)] by (simp add: strict_sorted_iff)
  moreover have "set (alias_rows compactName names order) = ?row ` (set names \<union> fst ` set order)"
    unfolding e[OF assms(2) refl] by auto
  ultimately show ?thesis by blast
qed

theorem alias_rows_fixed_witness:
  "alias_rows id [''b''] [(''c'', ''x''), (''a'', ''y'')] = alias_rows id [''b''] [(''a'', ''y''), (''c'', ''x'')]
    \<and> map ar_Identity (alias_rows id [''b''] [(''c'', ''x''), (''a'', ''y'')]) = [''a'', ''b'', ''c'']"
proof -
  have "distinct [''b'']" "distinct (keys_of [(''c'', ''x''), (''a'', ''y'')])" "distinct (keys_of [(''a'', ''y''), (''c'', ''x'')])"
    "map_of [(''c'', ''x''), (''a'', ''y'')] = map_of [(''a'', ''y''), (''c'', ''x'')]"
    by (simp_all add: fun_eq_iff)
  from alias_rows_fixed[OF this, where compactName = id] have "alias_rows id [''b''] [(''c'', ''x''), (''a'', ''y'')] = alias_rows id [''b''] [(''a'', ''y''), (''c'', ''x'')]"
    by blast
  moreover have "map ar_Identity (alias_rows id [''b''] [(''c'', ''x''), (''a'', ''y'')]) = [''a'', ''b'', ''c'']" by code_simp
  ultimately show ?thesis by blast
qed

subsection \<open>Names that are not ASCII\<close>

lemma encode_rune_lead: "128 \<le> r \<Longrightarrow> r < 1114112 \<Longrightarrow> encode_rune r \<noteq> [] \<and> 128 \<le> byte (hd (encode_rune r))"
  by (auto simp: encode_rune_def rune_error_def byte_def Let_def split: if_splits)

text \<open>Names that are not ASCII are shown broken. Capitalising a word looks at its first byte only: when
  the word begins with any rune beyond ASCII, its first byte is replaced by U+FFFD and the other bytes
  of the rune stay behind it, so the label is never the name.\<close>

theorem names_beyond_ascii:
  assumes "128 \<le> r" "r < 1114112"
  shows "titleWord (encode_rune r @ rest) = encode_rune rune_error @ tl (encode_rune r) @ rest
    \<and> titleWord (encode_rune r @ rest) \<noteq> encode_rune r @ rest"
proof -
  obtain c cs where c: "encode_rune r = c # cs" "128 \<le> byte c"
    using encode_rune_lead[OF assms] by (cases "encode_rune r") auto
  then have e: "titleWord (encode_rune r @ rest) = encode_rune rune_error @ cs @ rest" by (simp add: titleWord_def)
  have "length (encode_rune rune_error) = 3" by (simp add: encode_rune_def rune_error_def)
  then have "length (encode_rune rune_error @ cs @ rest) \<noteq> length (encode_rune r @ rest)" using c by simp
  then show ?thesis using e c(1) by (metis list.sel(3))
qed

theorem names_beyond_ascii_witness:
  "titleWord (encode_rune 0xE9 @ ''lan'') = [CHR 0xEF, CHR 0xBF, CHR 0xBD, CHR 0xA9] @ ''lan''"
proof -
  have "titleWord (encode_rune 0xE9 @ ''lan'') = encode_rune rune_error @ tl (encode_rune 0xE9) @ ''lan''"
    by (rule names_beyond_ascii[THEN conjunct1]) simp_all
  moreover have "encode_rune rune_error @ tl (encode_rune 0xE9) = [CHR 0xEF, CHR 0xBF, CHR 0xBD, CHR 0xA9]"
    by (simp add: encode_rune_def rune_error_def char_of_def bit_0 bit_numeral_rec)
  ultimately show ?thesis by simp
qed

end
