(* ===== verification/Store_Insights.thy ===== *)
theory Store_Insights
  imports Api_Labels
begin

text \<open>
  The insights of \<open>internal/database/database.go\<close>: the aggregate of the rows a query selects by local
  hour and weekday, the quality of the data, and the cards with their scores. Texts are built as the
  code prints them.
\<close>

subsection \<open>Quoting\<close>

text \<open>\<open>strconv.Quote\<close>, the verb \<open>%q\<close>; \<open>printable\<close> is the table of printable runes beyond ASCII.\<close>

definition lower_hex :: "nat \<Rightarrow> nat \<Rightarrow> gostr" where
  "lower_hex n r = map (\<lambda>i. ''0123456789abcdef'' ! (r div 16 ^ i mod 16)) (rev [0..<n])"

definition quote_rune :: "(nat \<Rightarrow> bool) \<Rightarrow> nat \<times> gostr \<Rightarrow> gostr" where
  "quote_rune printable rb = (case rb of (r, b) \<Rightarrow>
    (if r = rune_error \<and> length b = 1 then [CHR 0x5C] @ ''x'' @ lower_hex 2 (byte (hd b))
     else if r = 34 \<or> r = 92 then CHR 0x5C # b
     else if r < 128 \<and> 32 \<le> r \<and> r < 127 \<or> 128 \<le> r \<and> printable r then b
     else if r = 7 then [CHR 0x5C] @ ''a'' else if r = 8 then [CHR 0x5C] @ ''b''
     else if r = 12 then [CHR 0x5C] @ ''f'' else if r = 10 then [CHR 0x5C] @ ''n''
     else if r = 13 then [CHR 0x5C] @ ''r'' else if r = 9 then [CHR 0x5C] @ ''t''
     else if r = 11 then [CHR 0x5C] @ ''v''
     else if r < 32 \<or> r = 127 then [CHR 0x5C] @ ''x'' @ lower_hex 2 r
     else if r < 65536 then [CHR 0x5C] @ ''u'' @ lower_hex 4 r
     else [CHR 0x5C] @ ''U'' @ lower_hex 8 r))"

definition quote :: "(nat \<Rightarrow> bool) \<Rightarrow> gostr \<Rightarrow> gostr" where
  "quote printable s = [CHR 0x22] @ concat (map (quote_rune printable) (runes s)) @ [CHR 0x22]"

subsection \<open>The aggregate\<close>

record insight_aggregate =
  ia_hourTokens :: "i64 list"
  ia_hourEvents :: "i64 list"
  ia_weekdayTokens :: "i64 list"
  ia_weekdayEvents :: "i64 list"
  ia_knownEvents :: i64
  ia_unknownEvents :: i64
  ia_knownTokens :: i64
  ia_componentEvents :: i64
  ia_inputTokens :: i64
  ia_cachedTokens :: i64
  ia_outputTokens :: i64
  ia_unclassified :: i64
  ia_accuracy :: "(gostr \<times> i64) list"

definition no_aggregate :: insight_aggregate where
  "no_aggregate = \<lparr>ia_hourTokens = replicate 24 0, ia_hourEvents = replicate 24 0, ia_weekdayTokens = replicate 7 0,
     ia_weekdayEvents = replicate 7 0, ia_knownEvents = 0, ia_unknownEvents = 0, ia_knownTokens = 0, ia_componentEvents = 0,
     ia_inputTokens = 0, ia_cachedTokens = 0, ia_outputTokens = 0, ia_unclassified = 0, ia_accuracy = []\<rparr>"

definition bump :: "nat \<Rightarrow> i64 \<Rightarrow> i64 list \<Rightarrow> i64 list" where "bump i n xs = xs[i := i64_add (xs ! i) n]"

definition count_accuracy :: "gostr \<Rightarrow> (gostr \<times> i64) list \<Rightarrow> (gostr \<times> i64) list" where
  "count_accuracy a m = upsert a (i64_add (case map_of m a of None \<Rightarrow> 0 | Some n \<Rightarrow> n) 1) m"

text \<open>The sum of the components that a row reports.\<close>

definition knownComponents :: "row \<Rightarrow> i64" where
  "knownComponents r = i64_add (i64_add (i64_add (or_zero (rw_input r)) (or_zero (rw_cache_read r))) (or_zero (rw_cache_write r)))
     (or_zero (rw_output r))"

definition known_step :: "nat \<Rightarrow> nat \<Rightarrow> row \<Rightarrow> i64 \<Rightarrow> insight_aggregate \<Rightarrow> insight_aggregate" where
  "known_step hour wd r n a =
    (let remainder = i64_sub n (knownComponents r) in
     a\<lparr>ia_knownEvents := i64_add (ia_knownEvents a) 1, ia_knownTokens := i64_add (ia_knownTokens a) n,
       ia_hourTokens := bump hour n (ia_hourTokens a), ia_weekdayTokens := bump wd n (ia_weekdayTokens a),
       ia_componentEvents := (if rw_input r \<noteq> None \<or> rw_output r \<noteq> None \<or> rw_cache_read r \<noteq> None \<or> rw_cache_write r \<noteq> None
         then i64_add (ia_componentEvents a) 1 else ia_componentEvents a),
       ia_inputTokens := i64_add (ia_inputTokens a) (or_zero (rw_input r)),
       ia_cachedTokens := i64_add (i64_add (ia_cachedTokens a) (or_zero (rw_cache_read r))) (or_zero (rw_cache_write r)),
       ia_outputTokens := i64_add (ia_outputTokens a) (or_zero (rw_output r)),
       ia_unclassified := (if 0 < remainder then i64_add (ia_unclassified a) remainder else ia_unclassified a)\<rparr>)"

definition aggregate_step :: "zone \<Rightarrow> insight_aggregate \<Rightarrow> row \<Rightarrow> query_error + insight_aggregate" where
  "aggregate_step z a r =
    (case timeParse (rw_timestamp r) of
       None \<Rightarrow> Inl (BadTimestamp (rw_timestamp r))
     | Some t \<Rightarrow>
        (let loc = reportingLocation z;
             hour = nat (local_clock loc t div 3600);
             wd = nat (weekday (local_day loc t));
             a = a\<lparr>ia_accuracy := count_accuracy (rw_accuracy r) (ia_accuracy a),
                   ia_hourEvents := bump hour 1 (ia_hourEvents a), ia_weekdayEvents := bump wd 1 (ia_weekdayEvents a)\<rparr>
         in Inr (case rw_total r of
              None \<Rightarrow> a\<lparr>ia_unknownEvents := i64_add (ia_unknownEvents a) 1\<rparr>
            | Some n \<Rightarrow> known_step hour wd r n a)))"

definition insightsAggregate :: "zone \<Rightarrow> row list \<Rightarrow> query_error + insight_aggregate" where
  "insightsAggregate z rows = fold_err (aggregate_step z) no_aggregate rows"

subsection \<open>Quality, distributions\<close>

record insight_quality =
  iq_KnownEvents :: i64
  iq_UnknownEvents :: i64
  iq_KnownTokens :: i64
  iq_EventCoverage :: f64
  iq_Confidence :: gostr
  iq_Qualifier :: gostr
  iq_Accuracy :: "(gostr \<times> i64) list"

definition insightQuality :: "i64 \<Rightarrow> i64 \<Rightarrow> i64 \<Rightarrow> (gostr \<times> i64) list \<Rightarrow> insight_quality" where
  "insightQuality events tokens unknown accuracy =
    (let known = i64_sub events unknown;
         known = (if known < 0 then 0 else known);
         coverage = (if 0 < events then f64_div (f64_of_int known) (f64_of_int events) else Fin 0);
         confidence = (if 0 < events \<and> f64_le (round64 (99 / 100)) coverage then ''high''
           else if 0 < events \<and> f64_le (round64 (9 / 10)) coverage then ''medium''
           else if 0 < events then ''limited'' else ''unknown'')
     in \<lparr>iq_KnownEvents = known, iq_UnknownEvents = unknown, iq_KnownTokens = tokens, iq_EventCoverage = coverage,
         iq_Confidence = confidence,
         iq_Qualifier = (if confidence = ''high'' then ''all event totals are available in this window''
           else if confidence \<in> {''medium'', ''limited''} then ''some event totals are unavailable; token aggregates exclude them''
           else ''no token-total coverage is available''),
         iq_Accuracy = accuracy\<rparr>)"

definition insightQualifiers :: "insight_quality \<Rightarrow> insight_aggregate \<Rightarrow> analytics_summary \<Rightarrow> gostr list" where
  "insightQualifiers quality a summary =
    (let cost = ay_EstimatedCost summary;
         qs = (if 0 < iq_UnknownEvents quality
             then [int_str (iq_UnknownEvents quality) @ '' event(s) have unavailable token totals; token aggregates exclude them''] else [])
           @ (if ia_componentEvents a < iq_KnownEvents quality then [''token components are incomplete for some events with totals''] else [])
           @ (if cs_PricedTokens cost = 0 then [''cost coverage is unavailable in this window'']
              else if 0 < cs_UnpricedTokens cost then [''cost coverage is partial; unpriced tokens remain excluded''] else [])
     in if qs = [] then [''all event totals are available for this window''] else qs)"

record insight_distribution =
  id_Label :: gostr
  id_Tokens :: i64
  id_Events :: i64
  id_Share :: f64

definition distribution :: "(nat \<Rightarrow> gostr) \<Rightarrow> i64 list \<Rightarrow> i64 list \<Rightarrow> i64 \<Rightarrow> nat \<Rightarrow> insight_distribution" where
  "distribution label tokens events whole i =
    \<lparr>id_Label = label i, id_Tokens = tokens ! i, id_Events = events ! i,
     id_Share = (if 0 < whole then f64_div (f64_of_int (tokens ! i)) (f64_of_int whole) else Fin 0)\<rparr>"

text \<open>The first index with the largest positive value.\<close>

definition peak_step :: "i64 list \<Rightarrow> nat \<Rightarrow> nat option \<Rightarrow> nat option" where
  "peak_step tokens i peak =
    (if 0 < tokens ! i \<and> (case peak of None \<Rightarrow> True | Some p \<Rightarrow> tokens ! p < tokens ! i) then Some i else peak)"

definition peak_index :: "i64 list \<Rightarrow> nat \<Rightarrow> nat option" where
  "peak_index tokens n = fold (peak_step tokens) [0..<n] None"

definition hour_label :: "nat \<Rightarrow> gostr" where "hour_label hour = pad_str 2 hour @ '':00''"

definition insightHourly :: "insight_aggregate \<Rightarrow> i64 \<Rightarrow> location \<Rightarrow> insight_distribution list \<times> gostr" where
  "insightHourly a whole loc =
    (map (distribution hour_label (ia_hourTokens a) (ia_hourEvents a) whole) [0..<24],
     case peak_index (ia_hourTokens a) 24 of None \<Rightarrow> []
     | Some peak \<Rightarrow> (let c = local_clock loc (date_at loc (day_of 2000 1 1) (int peak * 3600) 0) in
         fixed 2 (nat (c div 3600)) @ '':'' @ fixed 2 (nat (c div 60 mod 60))))"

definition insightWeekdays :: "insight_aggregate \<Rightarrow> i64 \<Rightarrow> insight_distribution list \<times> gostr" where
  "insightWeekdays a whole =
    (map (distribution (\<lambda>i. weekday_names ! i) (ia_weekdayTokens a) (ia_weekdayEvents a) whole) [0..<7],
     case peak_index (ia_weekdayTokens a) 7 of None \<Rightarrow> [] | Some peak \<Rightarrow> weekday_names ! peak)"

subsection \<open>Cards\<close>

record insight_card =
  ic_ID :: gostr
  ic_Category :: gostr
  ic_Title :: gostr
  ic_Narrative :: gostr
  ic_Observation :: gostr
  ic_Evidence :: gostr
  ic_Basis :: gostr
  ic_AnalyticsURL :: gostr
  ic_AnalyticsQuery :: analytics_query
  ic_DataQuality :: "insight_quality option"
  ic_Qualifiers :: "gostr list"
  ic_PeakHour :: gostr
  ic_PeakWeekday :: gostr

text \<open>A card with its score; the quality is filled in at the end.\<close>

type_synonym candidate = "insight_card \<times> f64"

definition percent :: "f64 \<Rightarrow> gostr" where "percent x = format_fixed 1 x @ ''%''"

definition signed_percent :: "f64 \<Rightarrow> gostr" where "signed_percent x = analyticsChangeLabel (Some x)"

text \<open>\<open>share*100\<close> with one decimal\<close>

definition share_percent :: "f64 \<Rightarrow> gostr" where "share_percent x = percent (f64_mul x (Fin 100))"

definition absFloat :: "f64 \<Rightarrow> f64" where "absFloat x = (if f64_less x (Fin 0) then f64_neg x else x)"

definition maxFloat :: "f64 \<Rightarrow> f64 \<Rightarrow> f64" where "maxFloat x y = (if f64_less y x then x else y)"

definition maxInt64 :: "i64 \<Rightarrow> i64 \<Rightarrow> i64" where "maxInt64 x y = (if y < x then x else y)"

definition analyticsDimensionName :: "gostr \<Rightarrow> gostr" where
  "analyticsDimensionName dimension =
    (if dimension = ''harnesses'' then ''Harnesses'' else if dimension = ''providers'' then ''Providers''
     else if dimension = ''models'' then ''Models'' else if dimension = ''machines'' then ''Machines'' else ''Projects'')"

definition analyticsInsightURL :: "analytics_query \<Rightarrow> gostr" where
  "analyticsInsightURL q = ''/analytics?'' @ values_Encode (analyticsQueryValues q)"

definition unknown_note :: "insight_quality \<Rightarrow> gostr list" where
  "unknown_note quality = (if 0 < iq_UnknownEvents quality
     then [int_str (iq_UnknownEvents quality) @ '' unknown-total event(s) are excluded''] else [])"

definition insightMomentumCard :: "analytics_query \<Rightarrow> analytics \<Rightarrow> insight_quality \<Rightarrow> gostr \<Rightarrow> candidate option" where
  "insightMomentumCard q an quality url =
    (case an_Comparison an of None \<Rightarrow> None
     | Some cmp \<Rightarrow>
        (let tokens = ay_Tokens (an_Summary an); previous = cm_PreviousTokens cmp in
         if aq_Period q = ''all'' \<or> iq_KnownEvents quality \<le> 0 \<or> tokens \<le> 0 \<or> previous \<le> 0 then None
         else (let change = f64_div (f64_mul (f64_of_int (i64_sub tokens previous)) (Fin 100)) (f64_of_int previous);
                   direction = (if f64_less (Fin 0) change then ''up'' else if f64_less change (Fin 0) then ''down'' else ''steady'')
           in Some (\<lparr>ic_ID = ''momentum-vs-prior'', ic_Category = ''momentum'', ic_Title = ''Momentum vs prior window'',
               ic_Narrative = ''Token volume is '' @ direction
                 @ '' relative to the equal prior window; this is a volume comparison, not a productivity or causal claim.'',
               ic_Observation = signed_percent change @ '' change in tokens'',
               ic_Evidence = ''Tokens: '' @ int_str tokens @ '' current vs '' @ int_str previous @ '' equal prior ('' @ signed_percent change @ '').'',
               ic_Basis = ''(current tokens - equal-prior tokens) / equal-prior tokens; unavailable totals excluded'',
               ic_AnalyticsURL = url, ic_AnalyticsQuery = q, ic_DataQuality = None,
               ic_Qualifiers = ''comparison uses available totals in equal-length windows'' # unknown_note quality,
               ic_PeakHour = [], ic_PeakWeekday = []\<rparr>, f64_div (absFloat change) (Fin 100)))))"

text \<open>The tokens of the bucket whose label is the peak.\<close>

definition labelled_tokens :: "(nat \<Rightarrow> gostr) \<Rightarrow> nat \<Rightarrow> gostr \<Rightarrow> i64 list \<Rightarrow> i64" where
  "labelled_tokens label n peak tokens = (case List.find (\<lambda>i. label i = peak) [0..<n] of None \<Rightarrow> 0 | Some i \<Rightarrow> tokens ! i)"

definition insightRhythmCard :: "analytics_query \<Rightarrow> insight_aggregate \<Rightarrow> insight_quality \<Rightarrow> gostr \<Rightarrow> gostr \<Rightarrow> gostr \<Rightarrow> candidate option" where
  "insightRhythmCard q a quality peakHour peakWeekday url =
    (if ia_knownTokens a \<le> 0 \<or> peakHour = [] \<or> peakWeekday = [] then None
     else (let hourTokens = labelled_tokens hour_label 24 peakHour (ia_hourTokens a);
               dayTokens = labelled_tokens (\<lambda>i. weekday_names ! i) 7 peakWeekday (ia_weekdayTokens a);
               hourShare = f64_div (f64_of_int hourTokens) (f64_of_int (ia_knownTokens a));
               dayShare = f64_div (f64_of_int dayTokens) (f64_of_int (ia_knownTokens a))
       in Some (\<lparr>ic_ID = ''rhythm-peak-time'', ic_Category = ''rhythm'', ic_Title = ''Peak time and day'',
           ic_Narrative = ''The largest token buckets occur around '' @ peakHour @ '' local time and on '' @ peakWeekday
             @ ''; this describes timing only.'',
           ic_Observation = peakHour @ '' local hour and '' @ peakWeekday @ '' are the highest token buckets'',
           ic_Evidence = ''Peak local hour '' @ peakHour @ '': '' @ int_str hourTokens @ '' tokens ('' @ share_percent hourShare
             @ ''); peak local day '' @ peakWeekday @ '': '' @ int_str dayTokens @ '' tokens ('' @ share_percent dayShare @ '').'',
           ic_Basis = ''tokens grouped by event timestamp converted to the configured timezone; ties use earliest hour and Sunday-first weekday order'',
           ic_AnalyticsURL = url, ic_AnalyticsQuery = q, ic_DataQuality = None,
           ic_Qualifiers = ''local-time aggregate; timing alone does not establish intent or productivity'' # unknown_note quality,
           ic_PeakHour = peakHour, ic_PeakWeekday = peakWeekday\<rparr>, maxFloat hourShare dayShare)))"

definition insightConcentrationCard :: "(nat \<Rightarrow> bool) \<Rightarrow> analytics_query \<Rightarrow> analytics \<Rightarrow> insight_quality \<Rightarrow> gostr \<Rightarrow> candidate option" where
  "insightConcentrationCard printable q an quality url =
    (case an_Breakdown an of [] \<Rightarrow> None
     | first # _ \<Rightarrow>
        (let tokens = ay_Tokens (an_Summary an) in
         if tokens \<le> 0 \<or> ab_Tokens first \<le> 0 then None
         else (let share = f64_div (f64_of_int (ab_Tokens first)) (f64_of_int tokens);
                   dimension = analyticsDimensionName (aq_Dimension q)
           in Some (\<lparr>ic_ID = ''dimension-concentration'', ic_Category = ''concentration'', ic_Title = ''Top '' @ dimension @ '' concentration'',
               ic_Narrative = ab_Name first @ '' accounts for '' @ share_percent share @ '' of tokens in the selected ''
                 @ lower_ascii dimension @ '' dimension.'',
               ic_Observation = ab_Name first @ '': '' @ share_percent share @ '' of tokens'',
               ic_Evidence = ''Top '' @ lower_ascii dimension @ '' '' @ quote printable (ab_Name first) @ '': '' @ int_str (ab_Tokens first)
                 @ '' tokens ('' @ share_percent share @ '' of '' @ int_str tokens @ '' tokens).'',
               ic_Basis = ''dimension token total / window token total; rows with unavailable totals do not contribute'',
               ic_AnalyticsURL = url, ic_AnalyticsQuery = q, ic_DataQuality = None,
               ic_Qualifiers = ''share is calculated from available token totals'' # unknown_note quality,
               ic_PeakHour = [], ic_PeakWeekday = []\<rparr>, share))))"

definition insightCompositionCard ::
  "analytics_query \<Rightarrow> insight_aggregate \<Rightarrow> analytics_summary \<Rightarrow> insight_quality \<Rightarrow> gostr \<Rightarrow> candidate option" where
  "insightCompositionCard q a summary quality url =
    (let componentTotal = i64_add (i64_add (i64_add (ia_inputTokens a) (ia_cachedTokens a)) (ia_outputTokens a)) (ia_unclassified a)
     in if ia_knownTokens a \<le> 0 \<or> ia_componentEvents a = 0 \<or> componentTotal \<le> 0 then None
     else (let part = (\<lambda>n. f64_div (f64_of_int n) (f64_of_int componentTotal));
               cachedShare = part (ia_cachedTokens a); outputShare = part (ia_outputTokens a);
               inputText = share_percent (part (ia_inputTokens a));
               cost = ay_EstimatedCost summary; cache = ay_Cache summary;
               counted = i64_add (cs_PricedTokens cost) (cs_UnpricedTokens cost);
               costCoverage = (if 0 < counted then f64_div (f64_of_int (cs_PricedTokens cost)) (f64_of_int counted) else Fin 0);
               cacheText = (if 0 < ch_EligibleTokens cache then ''cache hit '' @ share_percent (ch_HitRate cache) else ''cache data unavailable'');
               costText = (if 0 < counted then ''cost coverage '' @ share_percent costCoverage else ''cost coverage unavailable'');
               score = maxFloat cachedShare outputShare;
               uncovered = f64_add (Fin 1) (f64_neg costCoverage)
       in Some (\<lparr>ic_ID = ''token-composition'', ic_Category = ''composition'', ic_Title = ''Token composition and coverage'',
           ic_Narrative = ''Component fields are split '' @ inputText @ '' input, '' @ share_percent cachedShare @ '' cached input, and ''
             @ share_percent outputShare @ '' output; '' @ cacheText @ '' and '' @ costText @ ''.'',
           ic_Observation = ''Input '' @ inputText @ middle_dot @ ''cached '' @ share_percent cachedShare @ middle_dot
             @ ''output '' @ share_percent outputShare,
           ic_Evidence = ''Component totals: input '' @ int_str (ia_inputTokens a) @ '', cached '' @ int_str (ia_cachedTokens a)
             @ '', output '' @ int_str (ia_outputTokens a) @ '', unclassified '' @ int_str (ia_unclassified a) @ ''; '' @ cacheText
             @ ''; '' @ costText @ ''.'',
           ic_Basis = ''component / (input + cached + output + unclassified); cache hit = cached eligible tokens / eligible input+cache tokens; cost coverage = priced tokens / priced+unpriced tokens'',
           ic_AnalyticsURL = url, ic_AnalyticsQuery = q, ic_DataQuality = None,
           ic_Qualifiers = [''component shares are based on reported component fields; unclassified remainder is retained'']
             @ (if 0 < cs_UnpricedTokens cost \<or> cs_PricedTokens cost = 0 then [''estimated cost is partial or unavailable''] else [])
             @ unknown_note quality,
           ic_PeakHour = [], ic_PeakWeekday = []\<rparr>,
           if f64_less costCoverage (Fin 1) then maxFloat score uncovered else score)))"

definition accuracy_label :: "(gostr \<times> i64) list \<Rightarrow> gostr" where
  "accuracy_label counts =
    (let parts = concat (map (\<lambda>key. case map_of counts key of
           Some n \<Rightarrow> (if 0 < n then [int_str n @ '' '' @ key] else []) | None \<Rightarrow> [])
         [AccuracyReported, AccuracyDerived, AccuracyEstimated, AccuracyUnknown])
     in if parts = [] then ''accuracy classification unavailable'' else join_with '', '' parts)"

definition insightConfidenceCard ::
  "analytics_query \<Rightarrow> insight_aggregate \<Rightarrow> analytics_summary \<Rightarrow> insight_quality \<Rightarrow> gostr \<Rightarrow> candidate option" where
  "insightConfidenceCard q a summary quality url =
    (if ay_Events summary \<le> 0 then None
     else (let known = iq_KnownEvents quality; coverage = share_percent (iq_EventCoverage quality);
               score = f64_add (Fin 1) (f64_neg (iq_EventCoverage quality))
       in Some (\<lparr>ic_ID = ''data-confidence'', ic_Category = ''confidence'', ic_Title = ''Data confidence'',
           ic_Narrative = int_str known @ '' of '' @ int_str (ay_Events summary) @ '' events include token totals ('' @ coverage
             @ '' coverage); data confidence is '' @ iq_Confidence quality @ ''.''
             @ (if 0 < iq_UnknownEvents quality then '' Unknown totals are excluded from token-volume conclusions.'' else []),
           ic_Observation = coverage @ '' of events include token totals'',
           ic_Evidence = ''Events with totals: '' @ int_str known @ ''; events without totals: '' @ int_str (iq_UnknownEvents quality)
             @ ''; token accuracy classes: '' @ accuracy_label (iq_Accuracy quality) @ ''.'',
           ic_Basis = ''events with totals / all events; unavailable totals remain unavailable and do not become zero'',
           ic_AnalyticsURL = url, ic_AnalyticsQuery = q, ic_DataQuality = None,
           ic_Qualifiers = [iq_Qualifier quality], ic_PeakHour = [], ic_PeakWeekday = []\<rparr>,
           if ia_componentEvents a < known
           then maxFloat score (f64_div (f64_of_int (i64_sub known (ia_componentEvents a))) (f64_of_int (maxInt64 1 known)))
           else score)))"

subsection \<open>The insights\<close>

text \<open>\<open>sort.SliceStable\<close> on at most twenty elements: insertion from the right.\<close>

fun insert_left :: "('a \<Rightarrow> 'a \<Rightarrow> bool) \<Rightarrow> 'a \<Rightarrow> 'a list \<Rightarrow> 'a list" where
  "insert_left lt x [] = [x]"
| "insert_left lt x (y # ys) = (if lt x y then y # insert_left lt x ys else x # y # ys)"

definition SliceStable :: "('a \<Rightarrow> 'a \<Rightarrow> bool) \<Rightarrow> 'a list \<Rightarrow> 'a list" where
  "SliceStable lt xs = rev (fold (insert_left lt) xs [])"

definition candidate_less :: "candidate \<Rightarrow> candidate \<Rightarrow> bool" where
  "candidate_less x y \<longleftrightarrow> (if \<not> (f64_le (snd x) (snd y) \<and> f64_le (snd y) (snd x)) then f64_less (snd y) (snd x)
     else ic_ID (fst x) < ic_ID (fst y))"

record insights =
  in_Period :: gostr
  in_Timezone :: gostr
  in_Scope :: analytics_query
  in_Filter :: analytics_query
  in_StartDate :: gostr
  in_EndDate :: gostr
  in_DataQuality :: insight_quality
  in_Qualifiers :: "gostr list"
  in_Hourly :: "insight_distribution list"
  in_Weekdays :: "insight_distribution list"
  in_PeakHour :: gostr
  in_PeakWeekday :: gostr
  in_Cards :: "insight_card list"

definition insight_candidates ::
  "(nat \<Rightarrow> bool) \<Rightarrow> analytics_query \<Rightarrow> analytics \<Rightarrow> insight_aggregate \<Rightarrow> insight_quality \<Rightarrow> gostr \<Rightarrow> gostr \<Rightarrow> candidate list" where
  "insight_candidates printable q an a quality peakHour peakWeekday =
    (let url = analyticsInsightURL q in
     List.map_filter id
       [insightMomentumCard q an quality url, insightRhythmCard q a quality peakHour peakWeekday url,
        insightConcentrationCard printable q an quality url, insightCompositionCard q a (an_Summary an) quality url,
        insightConfidenceCard q a (an_Summary an) quality url])"

definition insight_cards :: "insight_quality \<Rightarrow> candidate list \<Rightarrow> insight_card list" where
  "insight_cards quality candidates = map (\<lambda>c. (fst c)\<lparr>ic_DataQuality := Some quality, ic_AnalyticsQuery := (ic_AnalyticsQuery (fst c))\<lparr>aq_Now := None\<rparr>\<rparr>)
     (take 5 (SliceStable candidate_less candidates))"

definition insights_of :: "zone \<Rightarrow> gostr \<Rightarrow> (nat \<Rightarrow> bool) \<Rightarrow> analytics_query \<Rightarrow> analytics \<Rightarrow> insight_aggregate \<Rightarrow> insights" where
  "insights_of z timezone printable q an a =
    (let quality = insightQuality (ay_Events (an_Summary an)) (ay_Tokens (an_Summary an)) (ia_unknownEvents a) (ia_accuracy a);
         (hourly, peakHour) = insightHourly a (ia_knownTokens a) (reportingLocation z);
         (weekdays, peakWeekday) = insightWeekdays a (ia_knownTokens a)
     in \<lparr>in_Period = aq_Period q, in_Timezone = timezone, in_Scope = q, in_Filter = q, in_StartDate = an_StartDate an,
         in_EndDate = an_EndDate an, in_DataQuality = quality, in_Qualifiers = insightQualifiers quality a (an_Summary an),
         in_Hourly = hourly, in_Weekdays = weekdays, in_PeakHour = peakHour, in_PeakWeekday = peakWeekday,
         in_Cards = insight_cards quality (insight_candidates printable q an a quality peakHour peakWeekday)\<rparr>)"

text \<open>The two queries read the clock one after the other; \<open>None\<close> if the analytics do not return.\<close>

definition Insights ::
  "zone \<Rightarrow> gostr \<Rightarrow> (nat \<Rightarrow> bool) \<Rightarrow> instant \<Rightarrow> instant \<Rightarrow> row list \<Rightarrow> analytics_query \<Rightarrow> (query_error + insights) option" where
  "Insights z timezone printable clock clock' t q0 =
    map_option (\<lambda>r. case r of Inl e \<Rightarrow> Inl e
      | Inr an \<Rightarrow>
         (case normalizeAnalyticsQuery z clock' q0 of (q, start, until) \<Rightarrow>
            (case insightsAggregate z (filter (analyticsWhere q start until) t) of Inl e \<Rightarrow> Inl e
             | Inr a \<Rightarrow> Inr (insights_of z timezone printable q an a))))
      (Analytics z timezone clock t q0)"

subsection \<open>What the aggregate holds\<close>

definition row_hour :: "zone \<Rightarrow> row \<Rightarrow> nat" where
  "row_hour z r = nat (local_clock (reportingLocation z) (the (timeParse (rw_timestamp r))) div 3600)"

definition row_weekday :: "zone \<Rightarrow> row \<Rightarrow> nat" where
  "row_weekday z r = nat (weekday (local_day (reportingLocation z) (the (timeParse (rw_timestamp r)))))"

text \<open>The wrapped sums of the rows of each bucket.\<close>

definition buckets :: "nat \<Rightarrow> (row \<Rightarrow> nat) \<Rightarrow> (row \<Rightarrow> int) \<Rightarrow> row list \<Rightarrow> i64 list" where
  "buckets n key f rows = map (\<lambda>i. wrap64 (total_of f (filter (\<lambda>r. key r = i) rows))) [0..<n]"

lemma row_hour_24: "row_hour z r < 24"
proof -
  have "n mod 86400 div 3600 \<le> 86399 div 3600" for n :: int by (rule zdiv_mono1) (use pos_mod_bound[of 86400 n] in auto)
  then have "n mod 86400 div 3600 < 24" for n :: int using order_le_less_trans[of "n mod 86400 div 3600" 23 24] by simp
  then show ?thesis by (simp add: row_hour_def local_clock_def nat_less_iff)
qed

lemma row_weekday_7: "row_weekday z r < 7"
  by (simp add: row_weekday_def weekday_def nat_less_iff)

lemma buckets_Nil: "buckets n key f [] = replicate n 0"
  by (simp add: buckets_def map_replicate_const)

lemma buckets_snoc: "key r < n \<Longrightarrow> buckets n key f (rows @ [r]) = bump (key r) (f r) (buckets n key f rows)"
  by (rule nth_equalityI) (auto simp: buckets_def bump_def nth_list_update i64_add_wrap(1))

lemma bump_zero: "i < n \<Longrightarrow> bump i 0 (buckets n key f rows) = buckets n key f rows"
  by (rule nth_equalityI) (auto simp: buckets_def bump_def nth_list_update i64_add_wrap(1))

lemma sum_buckets:
  assumes "\<And>r. key r < n"
  shows "wrap64 (sum_list (buckets n key f rows)) = wrap64 (total_of f rows)"
proof -
  have "(\<Sum>i \<leftarrow> [0..<n]. total_of f (filter (\<lambda>r. key r = i) rows)) = total_of f rows"
  proof (induction rows)
    case (Cons r rows)
    have "(\<Sum>i \<leftarrow> [0..<n]. total_of f (filter (\<lambda>x. key x = i) (r # rows)))
        = (\<Sum>i \<leftarrow> [0..<n]. (if i = key r then f r else 0) + total_of f (filter (\<lambda>x. key x = i) rows))"
      by (rule arg_cong[of _ _ sum_list], rule map_cong) auto
    also have "\<dots> = (\<Sum>i \<leftarrow> [0..<n]. if i = key r then f r else 0) + total_of f rows"
      by (simp add: sum_list_addf Cons.IH)
    also have "(\<Sum>i \<leftarrow> [0..<n]. if i = key r then f r else 0) = f r"
      using assms[of r] by (simp add: interv_sum_list_conv_sum_set_nat sum.delta)
    finally show ?case by simp
  qed simp
  then show ?thesis by (simp add: buckets_def wrap64_sum)
qed

definition aggregated :: "zone \<Rightarrow> insight_aggregate \<Rightarrow> row list \<Rightarrow> bool" where
  "aggregated z a rows \<longleftrightarrow>
     ia_hourTokens a = buckets 24 (row_hour z) row_tokens rows \<and> ia_hourEvents a = buckets 24 (row_hour z) (\<lambda>_. 1) rows
   \<and> ia_weekdayTokens a = buckets 7 (row_weekday z) row_tokens rows \<and> ia_weekdayEvents a = buckets 7 (row_weekday z) (\<lambda>_. 1) rows
   \<and> ia_knownTokens a = wrap64 (total_of row_tokens rows) \<and> ia_unknownEvents a = wrap64 (total_of row_unknown rows)"

lemma aggregate_step_aggregated:
  assumes "aggregate_step z a r = Inr a'" "aggregated z a rows"
  shows "aggregated z a' (rows @ [r])"
proof -
  obtain t where t: "timeParse (rw_timestamp r) = Some t" using assms(1) by (cases "timeParse (rw_timestamp r)") (auto simp: aggregate_step_def)
  have k: "row_hour z r = nat (local_clock (reportingLocation z) t div 3600)" "row_weekday z r = nat (weekday (local_day (reportingLocation z) t))"
    by (simp_all add: row_hour_def row_weekday_def t)
  have w: "i64_add (wrap64 x) n = wrap64 (x + n)" for x n by (rule i64_add_wrap(1))
  have e: "ia_hourEvents a' = bump (row_hour z r) 1 (ia_hourEvents a)" "ia_weekdayEvents a' = bump (row_weekday z r) 1 (ia_weekdayEvents a)"
    "ia_hourTokens a' = bump (row_hour z r) (row_tokens r) (ia_hourTokens a)"
    "ia_weekdayTokens a' = bump (row_weekday z r) (row_tokens r) (ia_weekdayTokens a)"
    "ia_knownTokens a' = i64_add (ia_knownTokens a) (row_tokens r)" "ia_unknownEvents a' = i64_add (ia_unknownEvents a) (row_unknown r)"
    using assms
    by (auto simp: aggregate_step_def t k[symmetric] known_step_def Let_def row_tokens_def row_unknown_def aggregated_def w bump_zero[OF row_hour_24] bump_zero[OF row_weekday_7] split: option.splits)
  show ?thesis
    using assms(2) unfolding aggregated_def e buckets_snoc[of "row_hour z", OF row_hour_24] buckets_snoc[of "row_weekday z", OF row_weekday_7]
    by (simp add: w)
qed

lemma aggregate_loop:
  "fold_err (aggregate_step z) a rs = Inr a' \<Longrightarrow> aggregated z a rows \<Longrightarrow> aggregated z a' (rows @ rs)"
proof (induction rs arbitrary: a rows)
  case (Cons r rs)
  obtain a1 where 1: "aggregate_step z a r = Inr a1" "fold_err (aggregate_step z) a1 rs = Inr a'"
    using Cons.prems(1) by (auto split: sum.splits)
  show ?case using Cons.IH[OF 1(2) aggregate_step_aggregated[OF 1(1) Cons.prems(2)]] by simp
qed simp

lemma insightsAggregate_aggregated: "insightsAggregate z rows = Inr a \<Longrightarrow> aggregated z a rows"
  using aggregate_loop[of z no_aggregate rows a "[]"] by (simp add: insightsAggregate_def aggregated_def no_aggregate_def buckets_Nil)

text \<open>Reading the rows fails in the same way as for the summary.\<close>

lemma insightsAggregate_errors:
  "(case analyticsSummary z rows of Inl e \<Rightarrow> insightsAggregate z rows = Inl e | Inr s \<Rightarrow> \<exists>a. insightsAggregate z rows = Inr a)"
proof -
  have "(case fold_err (summary_step z) acc rows of Inl e \<Rightarrow> fold_err (aggregate_step z) a rows = Inl e
      | Inr s \<Rightarrow> \<exists>a'. fold_err (aggregate_step z) a rows = Inr a')" for acc a
  proof (induction rows arbitrary: acc a)
    case (Cons r rows)
    show ?case
    proof (cases "timeParse (rw_timestamp r)")
      case None
      then show ?thesis by (cases acc) (simp add: summary_step_def aggregate_step_def)
    next
      case (Some t)
      obtain acc' where "summary_step z acc r = Inr acc'" by (cases acc) (simp add: summary_step_def Some)
      moreover obtain a' where "aggregate_step z a r = Inr a'" by (simp add: aggregate_step_def Some Let_def)
      ultimately show ?thesis using Cons.IH[where acc = acc' and a = a'] by (auto split: sum.splits)
    qed
  qed simp
  from this[where acc = "(no_summary, [], [])" and a = no_aggregate] show ?thesis
    by (auto simp: insightsAggregate_def analyticsSummary_def Let_def split: sum.splits)
qed

text \<open>The parts of the analytics that the insights use.\<close>

lemma Analytics_parts:
  assumes "Analytics z timezone clock t q0 = Some (Inr an)" "normalizeAnalyticsQuery z clock q0 = (q, start, until)"
  shows "analyticsSummary z (filter (analyticsWhere q start until) t) = Inr (an_Summary an)"
    and "compare_windows z t q start (case until of None \<Rightarrow> zero_time | Some e \<Rightarrow> e) (ay_Tokens (an_Summary an)) = Inr (an_Comparison an)"
    and "analyticsBreakdown (aq_Dimension q) (ay_Tokens (an_Summary an)) (filter (analyticsWhere q start until) t) = Inr (an_Breakdown an)"
    and "\<exists>ps ps'. analyticsPoints z (aq_Period q) (filter (analyticsWhere q start until) t) = Inr ps
      \<and> fillAnalyticsPoints z ps (aq_Period q) start (case until of None \<Rightarrow> zero_time | Some e \<Rightarrow> e) = Some ps'
      \<and> an_EndDate an = day_text (reportingLocation z) (dateOnly z ((case until of None \<Rightarrow> zero_time | Some e \<Rightarrow> e) - 1))
      \<and> an_StartDate an = (if aq_Period q = ''all'' \<and> ps' \<noteq> [] then ap_Date (hd ps')
          else case start of None \<Rightarrow> an_EndDate an | Some s \<Rightarrow> day_text (reportingLocation z) s)"
proof -
  let ?rows = "filter (analyticsWhere q start until) t" and ?until = "case until of None \<Rightarrow> zero_time | Some e \<Rightarrow> e"
  note A = assms(1)[unfolded Analytics_def assms(2) prod.case Let_def]
  obtain s where s: "analyticsSummary z ?rows = Inr s" using A by (cases "analyticsSummary z ?rows") simp_all
  obtain c where c: "compare_windows z t q start ?until (ay_Tokens s) = Inr c"
    using A by (cases "compare_windows z t q start ?until (ay_Tokens s)") (simp_all add: s)
  obtain ps where ps: "analyticsPoints z (aq_Period q) ?rows = Inr ps"
    using A by (cases "analyticsPoints z (aq_Period q) ?rows") (simp_all add: s c)
  obtain ps' where ps': "fillAnalyticsPoints z ps (aq_Period q) start ?until = Some ps'"
    using A by (cases "fillAnalyticsPoints z ps (aq_Period q) start ?until") (simp_all add: s c ps)
  obtain bs where bs: "analyticsBreakdown (aq_Dimension q) (ay_Tokens s) ?rows = Inr bs"
    using A by (cases "analyticsBreakdown (aq_Dimension q) (ay_Tokens s) ?rows") (simp_all add: s c ps ps')
  let ?shares = "analyticsShareTimeline z (aq_Period q) (aq_Dimension q) ?rows start ?until bs (ay_Tokens s)"
  obtain sh where sh: "?shares = Some (Inr sh)"
    using A by (cases ?shares; cases "the ?shares") (simp_all add: s c ps ps' bs)
  obtain ss where ss: "analyticsSessions ?rows = Inr ss"
    using A by (cases "analyticsSessions ?rows"; cases sh) (simp_all add: s c ps ps' bs sh)
  have "an_Summary an = s" "an_Comparison an = c" "an_Breakdown an = bs"
    using A by (cases sh, auto simp: s c ps ps' bs sh ss)+
  then show "analyticsSummary z ?rows = Inr (an_Summary an)"
    "compare_windows z t q start ?until (ay_Tokens (an_Summary an)) = Inr (an_Comparison an)"
    "analyticsBreakdown (aq_Dimension q) (ay_Tokens (an_Summary an)) ?rows = Inr (an_Breakdown an)"
    using s c bs by simp_all
  have "an_EndDate an = day_text (reportingLocation z) (dateOnly z (?until - 1))
      \<and> an_StartDate an = (if aq_Period q = ''all'' \<and> ps' \<noteq> [] then ap_Date (hd ps')
          else case start of None \<Rightarrow> an_EndDate an | Some s \<Rightarrow> day_text (reportingLocation z) s)"
    using A by (cases sh) (auto simp: s c ps ps' bs sh ss split: option.split)
  then show "\<exists>ps ps'. analyticsPoints z (aq_Period q) ?rows = Inr ps \<and> fillAnalyticsPoints z ps (aq_Period q) start ?until = Some ps'
      \<and> an_EndDate an = day_text (reportingLocation z) (dateOnly z (?until - 1))
      \<and> an_StartDate an = (if aq_Period q = ''all'' \<and> ps' \<noteq> [] then ap_Date (hd ps')
          else case start of None \<Rightarrow> an_EndDate an | Some s \<Rightarrow> day_text (reportingLocation z) s)"
    using ps ps' by blast
qed

lemma Analytics_summary_error:
  assumes "normalizeAnalyticsQuery z clock q0 = (q, start, until)" "analyticsSummary z (filter (analyticsWhere q start until) t) = Inl e"
  shows "Analytics z timezone clock t q0 = Some (Inl e)"
  using assms by (simp add: Analytics_def)

lemma Insights_two_clocks:
  assumes "Insights z timezone printable clock clock' t q0 = Some (Inr r)" "normalizeAnalyticsQuery z clock' q0 = (q, start, until)"
  obtains an a where "Analytics z timezone clock t q0 = Some (Inr an)"
    "insightsAggregate z (filter (analyticsWhere q start until) t) = Inr a" "r = insights_of z timezone printable q an a"
proof -
  note I = assms(1)[unfolded Insights_def assms(2) prod.case]
  obtain v where v: "Analytics z timezone clock t q0 = Some v" using I by (cases "Analytics z timezone clock t q0") simp_all
  obtain an where an: "v = Inr an" using I by (cases v) (simp_all add: v)
  let ?a = "insightsAggregate z (filter (analyticsWhere q start until) t)"
  obtain a where a: "?a = Inr a" using I by (cases ?a) (simp_all add: v an)
  show ?thesis by (rule that[of an a]) (use I in \<open>simp_all add: v an a\<close>)
qed

lemmas Insights_parts = Insights_two_clocks[where clock' = clock and clock = clock for clock]

lemma insights_of_sel [simp]:
  "in_DataQuality (insights_of z timezone printable q an a)
     = insightQuality (ay_Events (an_Summary an)) (ay_Tokens (an_Summary an)) (ia_unknownEvents a) (ia_accuracy a)"
  "in_Hourly (insights_of z timezone printable q an a) = fst (insightHourly a (ia_knownTokens a) (reportingLocation z))"
  "in_PeakHour (insights_of z timezone printable q an a) = snd (insightHourly a (ia_knownTokens a) (reportingLocation z))"
  "in_Weekdays (insights_of z timezone printable q an a) = fst (insightWeekdays a (ia_knownTokens a))"
  "in_PeakWeekday (insights_of z timezone printable q an a) = snd (insightWeekdays a (ia_knownTokens a))"
  by (simp_all add: insights_of_def Let_def split: prod.split)

lemma distribution_lists:
  assumes "length tokens = n" "length events = n"
  shows "map id_Tokens (map (distribution label tokens events whole) [0..<n]) = tokens"
    "map id_Events (map (distribution label tokens events whole) [0..<n]) = events"
  using assms by (auto simp: distribution_def comp_def intro: nth_equalityI)

lemma length_buckets [simp]: "length (buckets n key f rows) = n"
  by (simp add: buckets_def)

lemma insightQuality_sel [simp]:
  "iq_UnknownEvents (insightQuality events tokens unknown accuracy) = unknown"
  "iq_KnownTokens (insightQuality events tokens unknown accuracy) = tokens"
  "iq_KnownEvents (insightQuality events tokens unknown accuracy) = max 0 (i64_sub events unknown)"
  "iq_Accuracy (insightQuality events tokens unknown accuracy) = accuracy"
  by (auto simp: insightQuality_def Let_def)

lemma total_unknown_bounds: "0 \<le> total_of row_unknown rows \<and> total_of row_unknown rows \<le> int (length rows)"
  by (induction rows) (auto simp: row_unknown_def)

lemma wrap64_small: "0 \<le> n \<Longrightarrow> n \<le> max_i64 \<Longrightarrow> wrap64 n = n"
  by (simp add: wrap64_def max_i64_def)


text \<open>The insights are available whenever the analytics view is. For one reading of the clock they return
  exactly when the analytics return, they fail exactly when those fail, and with the same error: the
  second pass over the rows adds no failure of its own.\<close>

theorem insights_fail_as_analytics:
  "map_option (case_sum Some (\<lambda>r. None)) (Insights z timezone printable clock clock t q)
    = map_option (case_sum Some (\<lambda>an. None)) (Analytics z timezone clock t q)"
proof (cases "Analytics z timezone clock t q")
  case None
  then show ?thesis by (simp add: Insights_def)
next
  case (Some v)
  obtain q' start until where nq: "normalizeAnalyticsQuery z clock q = (q', start, until)" by (metis prod_cases3)
  show ?thesis
  proof (cases v)
    case (Inl e)
    then show ?thesis by (simp add: Insights_def Some)
  next
    case (Inr an)
    have "analyticsSummary z (filter (analyticsWhere q' start until) t) = Inr (an_Summary an)"
      using Analytics_parts(1)[OF Some[unfolded Inr] nq] .
    then obtain a where "insightsAggregate z (filter (analyticsWhere q' start until) t) = Inr a"
      using insightsAggregate_errors[of z "filter (analyticsWhere q' start until) t"] by auto
    then show ?thesis by (simp add: Insights_def Some Inr nq)
  qed
qed

subsection \<open>The order of the cards\<close>

lemma insert_left_mset: "mset (insert_left lt x ys) = add_mset x (mset ys)"
  by (induction ys) simp_all

lemma SliceStable_mset [simp]: "mset (SliceStable lt xs) = mset xs"
proof -
  have "mset (fold (insert_left lt) xs ys) = mset xs + mset ys" for ys
    by (induction xs arbitrary: ys) (simp_all add: insert_left_mset)
  then show ?thesis by (simp add: SliceStable_def)
qed

text \<open>No element is before one that should precede it; for this the comparison need only be asymmetric.\<close>

lemma insert_left_successively:
  assumes "\<And>x y. lt x y \<Longrightarrow> \<not> lt y x"
  shows "successively (\<lambda>x y. \<not> lt x y) ys \<Longrightarrow> successively (\<lambda>x y. \<not> lt x y) (insert_left lt x ys)
    \<and> (ys \<noteq> [] \<longrightarrow> hd (insert_left lt x ys) \<in> {x, hd ys})"
proof (induction ys)
  case (Cons y ys)
  then show ?case using assms by (cases ys) auto
qed simp

lemma SliceStable_ordered:
  assumes "\<And>x y. lt x y \<Longrightarrow> \<not> lt y x"
  shows "successively (\<lambda>x y. \<not> lt y x) (SliceStable lt xs)"
proof -
  have "successively (\<lambda>x y. \<not> lt x y) ys \<Longrightarrow> successively (\<lambda>x y. \<not> lt x y) (fold (insert_left lt) xs ys)" for ys
    by (induction xs arbitrary: ys) (use insert_left_successively[of lt, OF assms] in auto)
  from this[of "[]"] show ?thesis by (simp add: SliceStable_def)
qed

lemma candidate_less_asym: "candidate_less x y \<Longrightarrow> \<not> candidate_less y x"
  by (cases "snd x"; cases "snd y") (auto simp: candidate_less_def split: if_splits)

text \<open>The identities of the cards, in the order in which they are built.\<close>

definition card_ids :: "gostr list" where
  "card_ids = [''momentum-vs-prior'', ''rhythm-peak-time'', ''dimension-concentration'', ''token-composition'', ''data-confidence'']"

lemma card_sel:
  "insightMomentumCard q an quality url = Some c \<Longrightarrow> ic_ID (fst c) = card_ids ! 0 \<and> ic_AnalyticsQuery (fst c) = q \<and> aq_Period q \<noteq> ''all''"
  "insightRhythmCard q a quality peakHour peakWeekday url = Some c \<Longrightarrow> ic_ID (fst c) = card_ids ! 1 \<and> ic_AnalyticsQuery (fst c) = q"
  "insightConcentrationCard printable q an quality url = Some c \<Longrightarrow> ic_ID (fst c) = card_ids ! 2 \<and> ic_AnalyticsQuery (fst c) = q"
  "insightCompositionCard q a summary quality url = Some c \<Longrightarrow> ic_ID (fst c) = card_ids ! 3 \<and> ic_AnalyticsQuery (fst c) = q"
  "insightConfidenceCard q a summary quality url = Some c \<Longrightarrow> ic_ID (fst c) = card_ids ! 4 \<and> ic_AnalyticsQuery (fst c) = q"
  by (auto simp: insightMomentumCard_def insightRhythmCard_def insightConcentrationCard_def insightCompositionCard_def insightConfidenceCard_def
      card_ids_def Let_def split: option.splits list.splits if_splits)

definition named_options :: "candidate option list \<Rightarrow> gostr list \<Rightarrow> bool" where
  "named_options os ks \<longleftrightarrow> list_all2 (\<lambda>x k. \<forall>c. x = Some c \<longrightarrow> ic_ID (fst c) = k) os ks"

lemma named_options_sub:
  "named_options os ks \<Longrightarrow> distinct ks \<Longrightarrow>
    (let ids = map (ic_ID \<circ> fst) (List.map_filter id os) in distinct ids \<and> set ids \<subseteq> set ks \<and> length ids \<le> length ks)"
  unfolding named_options_def
proof (induction os ks rule: list_all2_induct)
  case (Cons x os k ks)
  then show ?case by (cases x) (auto simp: map_filter_simps Let_def)
qed (simp add: map_filter_simps)

lemma card_ids_distinct: "distinct card_ids"
  by (simp add: card_ids_def)

lemma map_filter_id_mem: "c \<in> set (List.map_filter id xs) \<longleftrightarrow> Some c \<in> set xs"
  by (induction xs) (auto simp: map_filter_simps split: option.splits)

lemma candidates_named:
  fixes q an a quality peakHour peakWeekday printable
  defines "cs \<equiv> insight_candidates printable q an a quality peakHour peakWeekday"
  shows "distinct (map (ic_ID \<circ> fst) cs)" "length cs \<le> 5" "\<And>c. c \<in> set cs \<Longrightarrow> ic_AnalyticsQuery (fst c) = q"
proof -
  let ?url = "analyticsInsightURL q"
  let ?os = "[insightMomentumCard q an quality ?url, insightRhythmCard q a quality peakHour peakWeekday ?url,
    insightConcentrationCard printable q an quality ?url, insightCompositionCard q a (an_Summary an) quality ?url,
    insightConfidenceCard q a (an_Summary an) quality ?url]"
  have cs: "cs = List.map_filter id ?os" unfolding cs_def insight_candidates_def Let_def ..
  have "named_options ?os [card_ids ! 0, card_ids ! 1, card_ids ! 2, card_ids ! 3, card_ids ! 4]"
    unfolding named_options_def by (auto dest: card_sel)
  moreover have "[card_ids ! 0, card_ids ! 1, card_ids ! 2, card_ids ! 3, card_ids ! 4] = card_ids" by (simp add: card_ids_def)
  ultimately have n: "named_options ?os card_ids" by simp
  have "length card_ids = 5" by (simp add: card_ids_def)
  then show "distinct (map (ic_ID \<circ> fst) cs)" "length cs \<le> 5"
    using named_options_sub[OF n card_ids_distinct] unfolding cs Let_def by auto
  show "ic_AnalyticsQuery (fst c) = q" if "c \<in> set cs" for c
    using that unfolding cs map_filter_id_mem by (auto dest: card_sel[OF sym])
qed

lemma candidate_mem:
  "c \<in> set (insight_candidates printable q an a quality peakHour peakWeekday) \<longleftrightarrow>
    (let url = analyticsInsightURL q in
     Some c \<in> {insightMomentumCard q an quality url, insightRhythmCard q a quality peakHour peakWeekday url,
       insightConcentrationCard printable q an quality url, insightCompositionCard q a (an_Summary an) quality url,
       insightConfidenceCard q a (an_Summary an) quality url})"
  unfolding insight_candidates_def Let_def map_filter_id_mem by simp

lemma card_ids_neq: "i < 5 \<Longrightarrow> j < 5 \<Longrightarrow> card_ids ! i = card_ids ! j \<longleftrightarrow> i = j"
  using card_ids_distinct by (simp add: nth_eq_iff_index_eq card_ids_def)

lemma confidence_card:
  "card_ids ! 4 \<in> (ic_ID \<circ> fst) ` set (insight_candidates printable q an a quality peakHour peakWeekday) \<longleftrightarrow> 0 < ay_Events (an_Summary an)"
proof
  assume "card_ids ! 4 \<in> (ic_ID \<circ> fst) ` set (insight_candidates printable q an a quality peakHour peakWeekday)"
  then obtain c where "c \<in> set (insight_candidates printable q an a quality peakHour peakWeekday)" "ic_ID (fst c) = card_ids ! 4" by auto
  then have "insightConfidenceCard q a (an_Summary an) quality (analyticsInsightURL q) = Some c"
    unfolding candidate_mem Let_def by (auto dest!: card_sel(1-4)[OF sym] simp: card_ids_neq)
  then show "0 < ay_Events (an_Summary an)" by (simp add: insightConfidenceCard_def split: if_splits)
next
  assume "0 < ay_Events (an_Summary an)"
  then obtain c where c: "insightConfidenceCard q a (an_Summary an) quality (analyticsInsightURL q) = Some c"
    by (simp add: insightConfidenceCard_def Let_def)
  then have "c \<in> set (insight_candidates printable q an a quality peakHour peakWeekday)" by (simp add: candidate_mem Let_def)
  then show "card_ids ! 4 \<in> (ic_ID \<circ> fst) ` set (insight_candidates printable q an a quality peakHour peakWeekday)"
    using card_sel(5)[OF c] by force
qed

lemma momentum_card:
  "c \<in> set (insight_candidates printable q an a quality peakHour peakWeekday) \<Longrightarrow> aq_Period q = ''all'' \<Longrightarrow> ic_ID (fst c) \<noteq> card_ids ! 0"
  unfolding candidate_mem Let_def by (auto dest!: card_sel[OF sym] simp: card_ids_neq)

text \<open>C33: The cards of the insights. Whatever the data: at most one card of each kind, so at most five, in
  decreasing order of their scores and, for equal scores, by identity; no candidate is lost and no two
  cards share an identity; every card carries the quality of the data and the filter without the
  clock; the confidence card is there exactly when there are events, and there is no momentum card
  for the whole history, which has no window before it.\<close>

theorem insight_cards_ranked:
  fixes printable q an a quality peakHour peakWeekday
  defines "cs \<equiv> insight_candidates printable q an a quality peakHour peakWeekday"
  defines "cards \<equiv> insight_cards quality cs"
  shows "(\<exists>ranked. mset ranked = mset cs \<and> successively (\<lambda>x y. \<not> candidate_less y x) ranked
      \<and> cards = map (\<lambda>c. (fst c)\<lparr>ic_DataQuality := Some quality, ic_AnalyticsQuery := q\<lparr>aq_Now := None\<rparr>\<rparr>) ranked)
    \<and> distinct (map ic_ID cards) \<and> length cards \<le> 5
    \<and> list_all (\<lambda>c. ic_DataQuality c = Some quality \<and> ic_AnalyticsQuery c = q\<lparr>aq_Now := None\<rparr>) cards
    \<and> (''data-confidence'' \<in> ic_ID ` set cards \<longleftrightarrow> 0 < ay_Events (an_Summary an))
    \<and> \<not> (aq_Period q = ''all'' \<and> ''momentum-vs-prior'' \<in> ic_ID ` set cards)"
proof -
  let ?ranked = "SliceStable candidate_less cs"
  let ?d = "\<lambda>c. (fst c)\<lparr>ic_DataQuality := Some quality, ic_AnalyticsQuery := q\<lparr>aq_Now := None\<rparr>\<rparr>"
  have m: "mset ?ranked = mset cs" by simp
  then have s: "set ?ranked = set cs" and l: "length ?ranked \<le> 5"
    using candidates_named(2)[of printable q an a quality peakHour peakWeekday] unfolding cs_def by (metis set_mset_mset, metis size_mset)
  have c: "cards = map ?d ?ranked"
    using l s candidates_named(3)[of _ printable q an a quality peakHour peakWeekday] unfolding cards_def insight_cards_def cs_def by auto
  have ids: "map ic_ID cards = map (ic_ID \<circ> fst) ?ranked" by (simp add: c)
  have dc: "distinct (map (ic_ID \<circ> fst) cs)"
    unfolding cs_def by (rule candidates_named(1))
  have "mset (map (ic_ID \<circ> fst) ?ranked) = mset (map (ic_ID \<circ> fst) cs)" by (simp only: mset_map m)
  from mset_eq_imp_distinct_iff[OF this] have d: "distinct (map ic_ID cards)" using dc unfolding ids by blast
  have i: "ic_ID ` set cards = (ic_ID \<circ> fst) ` set cs" using ids s by (metis image_comp image_set set_map)
  have n: "''data-confidence'' = card_ids ! 4" "''momentum-vs-prior'' = card_ids ! 0" by (simp_all add: card_ids_def)
  show ?thesis
  proof (intro conjI)
    show "\<exists>ranked. mset ranked = mset cs \<and> successively (\<lambda>x y. \<not> candidate_less y x) ranked \<and> cards = map ?d ranked"
      using m c SliceStable_ordered[of candidate_less cs, OF candidate_less_asym] by blast
    show "''data-confidence'' \<in> ic_ID ` set cards \<longleftrightarrow> 0 < ay_Events (an_Summary an)"
      unfolding i n cs_def by (rule confidence_card)
    show "\<not> (aq_Period q = ''all'' \<and> ''momentum-vs-prior'' \<in> ic_ID ` set cards)"
      unfolding i n using momentum_card[of _ printable q an a quality peakHour peakWeekday] unfolding cs_def by force
    show "distinct (map ic_ID cards)" by (rule d)
    show "length cards \<le> 5" using l by (simp add: c)
    show "list_all (\<lambda>c. ic_DataQuality c = Some quality \<and> ic_AnalyticsQuery c = q\<lparr>aq_Now := None\<rparr>) cards" by (simp add: c list_all_iff)
  qed
qed

subsection \<open>Peaks\<close>

text \<open>The first of the largest values, if a value is positive.\<close>

definition is_peak :: "i64 list \<Rightarrow> nat \<Rightarrow> nat option \<Rightarrow> bool" where
  "is_peak xs n peak \<longleftrightarrow> (case peak of None \<Rightarrow> (\<forall>i < n. xs ! i \<le> 0)
     | Some p \<Rightarrow> p < n \<and> 0 < xs ! p \<and> (\<forall>i < n. xs ! i \<le> xs ! p) \<and> (\<forall>i < p. xs ! i < xs ! p))"

lemma peak_index_is_peak: "is_peak xs n (peak_index xs n)"
proof (induction n)
  case (Suc n)
  then show ?case
    by (auto simp: is_peak_def peak_index_def peak_step_def less_Suc_eq split: option.splits)
qed (simp add: is_peak_def peak_index_def)

lemma weekday_names_distinct: "distinct weekday_names" "length weekday_names = 7"
  by (simp_all add: weekday_names_def)

lemma find_label:
  assumes "inj_on label {..<n}" "p < n"
  shows "labelled_tokens label n (label p) tokens = tokens ! p"
proof -
  have "List.find (\<lambda>i. label i = label p) [0..<n] = Some p"
    unfolding find_Some_iff using assms by (auto intro!: exI[of _ p]) (metis inj_onD lessThan_iff less_trans nat_neq_iff)
  then show ?thesis by (simp add: labelled_tokens_def)
qed

lemma hour_labels: "inj_on hour_label {..<24}" "h < 24 \<Longrightarrow> fixed 2 h @ '':00'' = hour_label h"
proof -
  have "distinct (map hour_label [0..<24])" by code_simp
  then show "inj_on hour_label {..<24}" by (simp add: distinct_map atLeast0LessThan)
  have "list_all (\<lambda>h. fixed 2 h @ '':00'' = hour_label h) [0..<24]" by code_simp
  then show "h < 24 \<Longrightarrow> fixed 2 h @ '':00'' = hour_label h" by (simp add: list_all_iff)
qed

text \<open>The peaks of the insights. In a zone whose clocks were not moved on 2000-01-01, the day the code
  uses to print hours: the peak hour and the peak weekday name the first bucket with the most tokens,
  and are empty exactly when no bucket has any; and looking the bucket up again by its label, as the
  rhythm card does, finds the tokens of that bucket.\<close>

theorem insights_peaks:
  assumes "Insights z timezone printable clock clock t q0 = Some (Inr r)"
    and "\<And>h. 0 \<le> h \<Longrightarrow> h < 24 \<Longrightarrow> local_clock (reportingLocation z) (date_at (reportingLocation z) (day_of 2000 1 1) (h * 3600) 0) = h * 3600"
  defines "hours \<equiv> map id_Tokens (in_Hourly r)" and "days \<equiv> map id_Tokens (in_Weekdays r)"
  shows "\<exists>hour day. is_peak hours 24 hour \<and> is_peak days 7 day
    \<and> in_PeakHour r = (case hour of None \<Rightarrow> [] | Some h \<Rightarrow> id_Label (in_Hourly r ! h))
    \<and> in_PeakWeekday r = (case day of None \<Rightarrow> [] | Some d \<Rightarrow> id_Label (in_Weekdays r ! d))
    \<and> labelled_tokens hour_label 24 (in_PeakHour r) hours = (case hour of None \<Rightarrow> 0 | Some h \<Rightarrow> hours ! h)
    \<and> labelled_tokens (\<lambda>i. weekday_names ! i) 7 (in_PeakWeekday r) days = (case day of None \<Rightarrow> 0 | Some d \<Rightarrow> days ! d)"
proof -
  obtain q start until where nq: "normalizeAnalyticsQuery z clock q0 = (q, start, until)" by (metis prod_cases3)
  obtain an a where p: "insightsAggregate z (filter (analyticsWhere q start until) t) = Inr a" "r = insights_of z timezone printable q an a"
    using Insights_parts[OF assms(1) nq] by metis
  have a: "aggregated z a (filter (analyticsWhere q start until) t)" by (rule insightsAggregate_aggregated[OF p(1)])
  let ?h = "peak_index (ia_hourTokens a) 24" and ?d = "peak_index (ia_weekdayTokens a) 7"
  have hd: "hours = ia_hourTokens a" "days = ia_weekdayTokens a"
    unfolding hours_def days_def p(2) insights_of_sel insightHourly_def insightWeekdays_def fst_conv
    using a by (simp_all only: distribution_lists aggregated_def length_buckets)
  have pk: "is_peak hours 24 ?h" "is_peak days 7 ?d" unfolding hd by (rule peak_index_is_peak)+
  have clock: "fixed 2 (nat (c div 3600)) @ '':'' @ fixed 2 (nat (c div 60 mod 60)) = hour_label h" if "c = int h * 3600" "h < 24" for c h
  proof -
    have "nat (c div 3600) = h" "c div 60 mod 60 = 0" using that by (simp_all add: mod_mult_right_eq flip: mult.assoc)
    moreover have "fixed 2 0 = ''00''" by code_simp
    ultimately show ?thesis using hour_labels(2)[OF that(2)] by simp
  qed
  have ph: "in_PeakHour r = (case ?h of None \<Rightarrow> [] | Some h \<Rightarrow> hour_label h)"
    unfolding p(2) insights_of_sel insightHourly_def snd_conv
  proof (cases ?h)
    case (Some h)
    then have "h < 24" using pk(1) by (simp add: is_peak_def)
    then show "(case ?h of None \<Rightarrow> [] | Some peak \<Rightarrow>
        let c = local_clock (reportingLocation z) (date_at (reportingLocation z) (day_of 2000 1 1) (int peak * 3600) 0)
        in fixed 2 (nat (c div 3600)) @ '':'' @ fixed 2 (nat (c div 60 mod 60))) = (case ?h of None \<Rightarrow> [] | Some h \<Rightarrow> hour_label h)"
      unfolding Some option.case Let_def by (intro clock assms(2)) simp_all
  qed simp
  have pd: "in_PeakWeekday r = (case ?d of None \<Rightarrow> [] | Some d \<Rightarrow> weekday_names ! d)"
    unfolding p(2) insights_of_sel insightWeekdays_def snd_conv ..
  have lab: "id_Label (in_Hourly r ! h) = hour_label h" if "h < 24" for h
    using that by (simp add: p(2) insightHourly_def distribution_def)
  have labd: "id_Label (in_Weekdays r ! d) = weekday_names ! d" if "d < 7" for d
    using that by (simp add: p(2) insightWeekdays_def distribution_def)
  have inj: "inj_on (\<lambda>i. weekday_names ! i) {..<7}"
    using weekday_names_distinct by (auto simp: inj_on_def nth_eq_iff_index_eq)
  have none: "labelled_tokens label n [] xs = 0" if "\<And>i. i < n \<Longrightarrow> label i \<noteq> []" for label n xs
  proof -
    have "List.find (\<lambda>i. label i = []) [0..<n] = None" unfolding find_None_iff using that by auto
    then show ?thesis by (simp add: labelled_tokens_def)
  qed
  have ne: "hour_label i \<noteq> []" for i by (simp add: hour_label_def)
  have "list_all (\<lambda>w. w \<noteq> []) weekday_names" by (simp add: weekday_names_def)
  then have ned: "weekday_names ! i \<noteq> []" if "i < 7" for i using that by (simp add: list_all_length weekday_names_distinct(2))
  show ?thesis
  proof (rule exI[of _ ?h], rule exI[of _ ?d], intro conjI pk)
    show "in_PeakHour r = (case ?h of None \<Rightarrow> [] | Some h \<Rightarrow> id_Label (in_Hourly r ! h))"
      using ph pk(1) by (auto simp: is_peak_def lab split: option.splits)
    show "in_PeakWeekday r = (case ?d of None \<Rightarrow> [] | Some d \<Rightarrow> id_Label (in_Weekdays r ! d))"
      using pd pk(2) by (auto simp: is_peak_def labd split: option.splits)
    show "labelled_tokens hour_label 24 (in_PeakHour r) hours = (case ?h of None \<Rightarrow> 0 | Some h \<Rightarrow> hours ! h)"
      using pk(1) none[of 24 hour_label hours] ne find_label[OF hour_labels(1), of _ hours]
      by (auto simp: ph is_peak_def split: option.splits)
    show "labelled_tokens (\<lambda>i. weekday_names ! i) 7 (in_PeakWeekday r) days = (case ?d of None \<Rightarrow> 0 | Some d \<Rightarrow> days ! d)"
      using pk(2) none[of 7 "\<lambda>i. weekday_names ! i" days] ned find_label[OF inj, of _ days]
      by (auto simp: pd is_peak_def split: option.splits)
  qed
qed

subsection \<open>The insights are available\<close>

lemma typed_tokens: "row_typed r \<Longrightarrow> 0 \<le> row_tokens r"
  by (auto simp: row_typed_def nonneg_i64_def row_tokens_def split: option.splits)

lemma total_sublist: "list_all row_typed t \<Longrightarrow> total_of row_tokens (filter P t) \<le> total_of row_tokens t"
  by (induction t) (auto dest: typed_tokens)

lemma total_tokens: "sum_list (row_totals t) = total_of row_tokens t"
  by (induction t) (auto simp: row_totals_def row_tokens_def split: option.split)

lemma sublists_fit:
  assumes "list_all row_typed t" "LifetimeTokens t = Inr n" "(k, g) \<in> set (groups key (filter P t))"
  shows "fits row_tokens g"
proof -
  have "n = total_of row_tokens t" using sql_sum_exact[OF assms(2)[unfolded LifetimeTokens_def]] by (simp add: total_tokens)
  moreover have "is_i64 n"
  proof -
    have "is_i64 acc \<Longrightarrow> sql_sum acc vs = Inr m \<Longrightarrow> is_i64 m" for acc vs m
      by (induction acc vs rule: sql_sum.induct) (auto split: if_splits)
    moreover have "is_i64 0" by (simp add: is_i64_def min_i64_def max_i64_def)
    ultimately show ?thesis using assms(2) unfolding LifetimeTokens_def by metis
  qed
  moreover have g: "g = filter (\<lambda>r. key r = k \<and> P r) t" using assms(3) by (simp add: groups_mem conj_commute)
  ultimately have "total_of row_tokens g \<le> max_i64"
    using total_sublist[OF assms(1), of "\<lambda>r. key r = k \<and> P r"] by (simp add: is_i64_def)
  moreover have "\<forall>v \<in> set (map row_tokens g). 0 \<le> v" using assms(1) typed_tokens by (auto simp: g list_all_iff)
  ultimately have "sql_sum 0 (map row_tokens g) = Inr (0 + total_of row_tokens g)" by (intro sql_sum_nonneg) simp_all
  then show ?thesis by (simp add: fits_def)
qed

lemma Analytics_available:
  assumes "list_all row_typed t" "LifetimeTokens t = Inr n" "sane_zone (reportingLocation z)"
  shows "\<exists>an. Analytics z timezone clock t q0 = Some (Inr an)"
proof -
  obtain q start until where nq: "normalizeAnalyticsQuery z clock q0 = (q, start, until)" by (metis prod_cases3)
  let ?rows = "filter (analyticsWhere q start until) t" and ?until = "case until of None \<Rightarrow> zero_time | Some e \<Rightarrow> e"
  have rows: "list_all row_typed ?rows" by (rule typed_filter[OF assms(1)])
  obtain s where s: "analyticsSummary z ?rows = Inr s" using typed_summary[OF rows] by blast
  obtain c where c: "compare_windows z t q start ?until (ay_Tokens s) = Inr c" using typed_compare[OF assms(1)] by blast
  obtain ps where ps: "analyticsPoints z (aq_Period q) ?rows = Inr ps" using typed_points[OF rows] by blast
  obtain ps' where ps': "fillAnalyticsPoints z ps (aq_Period q) start ?until = Some ps'" using fillAnalyticsPoints_total[OF assms(3)] by blast
  have "list_all (\<lambda>(k, g). fits row_tokens g) (groups (breakdown_name (aq_Dimension q)) ?rows)"
    using sublists_fit[OF assms(1,2)] by (auto simp: list_all_iff)
  then obtain bs where bs: "analyticsBreakdown (aq_Dimension q) (ay_Tokens s) ?rows = Inr bs" by (simp add: analyticsBreakdown_def Let_def)
  let ?sh = "analyticsShareTimeline z (aq_Period q) (aq_Dimension q) ?rows start ?until bs (ay_Tokens s)"
  obtain v where v: "?sh = Some v" using analyticsShareTimeline_total[OF assms(3)] by blast
  obtain sh where sh: "v = Inr sh" using typed_shares[OF rows] v by (cases v) blast+
  have "list_all (fits row_tokens) (map snd (groups (\<lambda>r. [the (rw_session_id r), rw_machine_id r, rw_provider r, rw_tool r])
      (filter (\<lambda>r. rw_session_id r \<noteq> None \<and> rw_session_id r \<noteq> Some []) ?rows)))"
    using sublists_fit[OF assms(1,2)] by (auto simp: list_all_iff filter_filter)
  then obtain ss where ss: "analyticsSessions ?rows = Inr ss" by (simp add: analyticsSessions_def Let_def)
  show ?thesis
    unfolding Analytics_def nq Let_def prod.case by (cases sh) (simp add: s c ps ps' bs v sh ss)
qed

lemma insights_available':
  assumes "list_all row_typed t" "LifetimeTokens t = Inr n" "sane_zone (reportingLocation z)"
  shows "\<exists>r. Insights z timezone printable clock clock' t q = Some (Inr r)"
proof -
  obtain an where an: "Analytics z timezone clock t q = Some (Inr an)" using Analytics_available[OF assms] by blast
  obtain q' start until where nq: "normalizeAnalyticsQuery z clock' q = (q', start, until)" by (metis prod_cases3)
  let ?rows = "filter (analyticsWhere q' start until) t"
  obtain s where "analyticsSummary z ?rows = Inr s" using typed_summary[OF typed_filter[OF assms(1)]] by blast
  then obtain a where "insightsAggregate z ?rows = Inr a" using insightsAggregate_errors[of z ?rows] by auto
  then show ?thesis by (simp add: Insights_def an nq)
qed

text \<open>C34: The analytics view and the insights can always be read. As long as the lifetime total is a 64-bit
  number, which \<open>Ingest\<close> demands before it accepts anything, and the reporting zone has offsets within
  a day of each other, both are returned on a table of well-typed rows for every query and every
  reading of the clock: no row, no sum and no loop can make the pages fail.\<close>

theorem insights_available:
  assumes "list_all row_typed t" "LifetimeTokens t = Inr n" "sane_zone (reportingLocation z)"
  shows "(\<exists>an. Analytics z timezone clock t q = Some (Inr an)) \<and> (\<exists>r. Insights z timezone printable clock clock' t q = Some (Inr r))"
  using Analytics_available[OF assms] insights_available'[OF assms] by blast

lemma sample_lifetime: "LifetimeTokens [event_row sample_env sample_event] = Inr 7"
  by (simp add: LifetimeTokens_def row_totals_def row_simps sample_event_def is_i64_def min_i64_def max_i64_def)

lemma utc_sane: "sane_zone (reportingLocation None)"
  by (simp add: sane_zone_def reportingLocation_def UTC_def)

definition history_query :: analytics_query where
  "history_query = \<lparr>aq_Period = ''all'', aq_Dimension = ''models'', aq_Machine = [], aq_Provider = [], aq_Model = [], aq_Tool = [], aq_Now = None\<rparr>"

theorem insights_available_witness:
  "\<exists>r. Insights None ''UTC'' (\<lambda>_. True) 7 8 [event_row sample_env sample_event] history_query = Some (Inr r)"
  using insights_available[of "[event_row sample_env sample_event]", OF _ sample_lifetime utc_sane] sample_row_stored by simp

lemma sample_insights:
  obtains r where "Insights None ''UTC'' (\<lambda>_. True) 7 7 [event_row sample_env sample_event] history_query = Some (Inr r)"
proof -
  obtain an where an: "Analytics None ''UTC'' 7 [event_row sample_env sample_event] history_query = Some (Inr an)"
    using Analytics_available[of "[event_row sample_env sample_event]", OF _ sample_lifetime utc_sane, of "''UTC''" 7 history_query]
      sample_row_stored by auto
  obtain q start until where nq: "normalizeAnalyticsQuery None 7 history_query = (q, start, until)" by (metis prod_cases3)
  let ?rows = "filter (analyticsWhere q start until) [event_row sample_env sample_event]"
  obtain a where "insightsAggregate None ?rows = Inr a"
    using insightsAggregate_errors[of None ?rows] Analytics_parts(1)[OF an nq] by auto
  then show ?thesis using that by (simp add: Insights_def an nq)
qed


theorem insights_peaks_witness:
  "\<exists>r hour. Insights None ''UTC'' (\<lambda>_. True) 7 7 [event_row sample_env sample_event] history_query = Some (Inr r)
    \<and> is_peak (map id_Tokens (in_Hourly r)) 24 hour
    \<and> in_PeakHour r = (case hour of None \<Rightarrow> [] | Some h \<Rightarrow> id_Label (in_Hourly r ! h))"
proof -
  obtain r where r: "Insights None ''UTC'' (\<lambda>_. True) 7 7 [event_row sample_env sample_event] history_query = Some (Inr r)"
    by (rule sample_insights)
  have "local_clock (reportingLocation None) (date_at (reportingLocation None) (day_of 2000 1 1) (h * 3600) 0) = h * 3600" if "h < 24" "0 \<le> h" for h
  proof -
    have "(86400 * (d - e) + 3600 * h) mod 86400 = 3600 * h" for d e using that by (simp add: mod_add_left_eq[symmetric])
    then show ?thesis
      by (simp add: local_clock_def local_seconds_def unix_seconds_def nanos_per_second_def reportingLocation_def UTC_def date_at_def Let_def algebra_simps)
  qed
  then show ?thesis using insights_peaks[OF r] r by blast
qed

end
