(* ===== verification/Insights_Private.thy ===== *)
theory Insights_Private
  imports Store_Insights
begin

text \<open>
  What the insights can reveal: they are a function of the rows without their identities. Two tables
  that differ only in event IDs, sessions, adapters, durations, reasoning tokens and the columns of
  the dimensions that are not shown give the same insights.
\<close>

text \<open>A row without what the insights of the query must not depend on.\<close>

definition anonymous :: "analytics_query \<Rightarrow> row \<Rightarrow> row" where
  "anonymous q r = r\<lparr>rw_event_id := ''e'', rw_session_id := None, rw_adapter := ''a'', rw_adapter_version := [], rw_duration := None,
     rw_reasoning := None, rw_cost_estimated := False, rw_currency := [],
     rw_project := (if aq_Dimension q \<in> {''harnesses'', ''providers'', ''models'', ''machines''} then [] else rw_project r)\<rparr>"

lemma anonymous_simps [simp]:
  "rw_timestamp (anonymous q r) = rw_timestamp r" "rw_total (anonymous q r) = rw_total r" "rw_cost (anonymous q r) = rw_cost r"
  "rw_input (anonymous q r) = rw_input r" "rw_output (anonymous q r) = rw_output r" "rw_cache_read (anonymous q r) = rw_cache_read r"
  "rw_cache_write (anonymous q r) = rw_cache_write r" "rw_accuracy (anonymous q r) = rw_accuracy r"
  "rw_machine_id (anonymous q r) = rw_machine_id r" "rw_provider (anonymous q r) = rw_provider r" "rw_tool (anonymous q r) = rw_tool r"
  "shown_model (anonymous q r) = shown_model r" "row_tokens (anonymous q r) = row_tokens r" "row_unknown (anonymous q r) = row_unknown r"
  "knownComponents (anonymous q r) = knownComponents r" "row_session (anonymous q r) = None"
  by (simp_all add: anonymous_def shown_model_def row_tokens_def row_unknown_def knownComponents_def row_session_def)

lemma anonymous_where [simp]: "analyticsWhere q' start until (anonymous q r) = analyticsWhere q' start until r"
  by (simp add: analyticsWhere_def cong: option.case_cong)

lemma anonymous_breakdown: "aq_Dimension q' = aq_Dimension q \<or> aq_Dimension q' = ''projects'' \<and> aq_Dimension q \<notin> {''harnesses'', ''providers'', ''models'', ''machines''}
    \<Longrightarrow> breakdown_name (aq_Dimension q') (anonymous q r) = breakdown_name (aq_Dimension q') r"
  by (auto simp: breakdown_name_def analyticsBreakdownExpression_def anonymous_def shown_model_def Let_def)

lemma fold_err_map: "fold_err f s (map g xs) = fold_err (\<lambda>s x. f s (g x)) s xs"
  by (induction xs arbitrary: s) (auto split: sum.split)

lemma filter_anonymous: "filter (analyticsWhere q' start until) (map (anonymous q) t) = map (anonymous q) (filter (analyticsWhere q' start until) t)"
  by (simp add: filter_map comp_def)

lemma aggregate_anonymous: "insightsAggregate z (map (anonymous q) rows) = insightsAggregate z rows"
proof -
  have "aggregate_step z a (anonymous q r) = aggregate_step z a r" for a r by (simp add: aggregate_step_def known_step_def Let_def cong: option.case_cong if_cong)
  then show ?thesis by (simp add: insightsAggregate_def fold_err_map)
qed

lemma points_anonymous: "analyticsPoints z period (map (anonymous q) rows) = analyticsPoints z period rows"
proof -
  have "point_step z period m (anonymous q r) = point_step z period m r" for m r by (simp add: point_step_def add_to_point_def Let_def cong: option.case_cong)
  then show ?thesis by (simp add: analyticsPoints_def fold_err_map)
qed

text \<open>The summary without what it says about sessions.\<close>

definition sessionless :: "analytics_summary \<Rightarrow> analytics_summary" where
  "sessionless s = s\<lparr>ay_SessionTokens := 0, ay_Threads := 0\<rparr>"

lemma sessionless_eq: "sessionless s = sessionless s' \<longleftrightarrow> ay_Events s = ay_Events s' \<and> ay_UnknownEvents s = ay_UnknownEvents s'
    \<and> ay_Tokens s = ay_Tokens s' \<and> ay_EstimatedCost s = ay_EstimatedCost s' \<and> ay_Cache s = ay_Cache s'
    \<and> ay_ActiveDays s = ay_ActiveDays s' \<and> ay_AverageActiveDay s = ay_AverageActiveDay s'"
  by (cases s; cases s') (auto simp: sessionless_def)

lemma steps_anonymous [simp]: "cost_step (anonymous q r) c = cost_step r c" "cache_step_of (anonymous q r) c' = cache_step_of r c'"
  by (simp_all add: cost_step_def cache_step_of_def Let_def cong: option.case_cong if_cong)

lemma summary_loop_anonymous:
  "fold_err (summary_step z) (s, days, ths) rows = Inr (s1, days1, ths1) \<Longrightarrow> sessionless s = sessionless s' \<Longrightarrow>
    \<exists>s2 ths2. fold_err (summary_step z) (s', days, ths') (map (anonymous q) rows) = Inr (s2, days1, ths2) \<and> sessionless s1 = sessionless s2"
proof (induction rows arbitrary: s days ths s' ths')
  case (Cons r rows)
  obtain t where t: "timeParse (rw_timestamp r) = Some t"
    using Cons.prems(1) by (cases "timeParse (rw_timestamp r)") (simp_all add: summary_step_def)
  obtain a ds hs where 1: "summary_step z (s, days, ths) r = Inr (a, ds, hs)" by (simp add: summary_step_def t)
  obtain a' hs' where 2: "summary_step z (s', days, ths') (anonymous q r) = Inr (a', ds, hs')"
    using 1 by (simp add: summary_step_def t)
  have "sessionless a = sessionless a'"
    using Cons.prems(2) 1 2 by (auto simp: summary_step_def t sessionless_eq)
  from Cons.IH[OF _ this, of ds hs hs'] show ?case using Cons.prems(1) 1 2 by auto
qed auto

lemma summary_anonymous:
  assumes "analyticsSummary z rows = Inr s"
  shows "\<exists>s'. analyticsSummary z (map (anonymous q) rows) = Inr s' \<and> sessionless s = sessionless s'"
proof -
  obtain s1 days ths where 1: "fold_err (summary_step z) (no_summary, [], []) rows = Inr (s1, days, ths)"
    using assms by (auto simp: analyticsSummary_def split: sum.splits)
  from summary_loop_anonymous[OF 1 refl, of "[]" q] obtain s2 ths2 where
    2: "fold_err (summary_step z) (no_summary, [], []) (map (anonymous q) rows) = Inr (s2, days, ths2)" "sessionless s1 = sessionless s2" by auto
  then show ?thesis using assms by (auto simp: analyticsSummary_def 1 2(1) Let_def sessionless_eq)
qed

subsection \<open>Breakdown and comparison\<close>

lemma compare_anonymous:
  assumes "compare_windows z t q' start until n = Inr c"
  shows "compare_windows z (map (anonymous q) t) q' start until n = Inr c"
proof (cases start)
  case (Some a)
  let ?rows = "filter (analyticsWhere q' (Some (a - time_sub until a)) (Some a)) t"
  obtain s where s: "analyticsSummary z ?rows = Inr s"
    using assms by (cases "analyticsSummary z ?rows") (simp_all add: compare_windows_def Some)
  from summary_anonymous[OF s, of q] obtain s' where "analyticsSummary z (map (anonymous q) ?rows) = Inr s'" "sessionless s = sessionless s'" by blast
  then show ?thesis using assms s by (simp add: compare_windows_def Some filter_anonymous sessionless_eq cong: if_cong)
qed (use assms in \<open>simp add: compare_windows_def\<close>)

lemma groups_map:
  assumes "\<And>r. key (g r) = key r"
  shows "groups key (map g rows) = map (\<lambda>(k, rs). (k, map g rs)) (groups key rows)"
  by (simp add: groups_def filter_map comp_def assms image_image)

definition named_tokens :: "analytics_breakdown \<Rightarrow> gostr \<times> i64" where "named_tokens b = (ab_Name b, ab_Tokens b)"

lemma sort_desc_named: "map named_tokens (sort_desc ab_Tokens ab_Name bs) = sort_desc snd fst (map named_tokens bs)"
  by (simp add: sort_desc_def sort_key_map comp_def named_tokens_def)

lemma breakdown_anonymous:
  assumes "analyticsBreakdown d n rows = Inr bs" "analyticsBreakdown d n' (map (anonymous q) rows) = Inr bs'"
    and "\<And>r. breakdown_name d (anonymous q r) = breakdown_name d r"
  shows "map named_tokens bs = map named_tokens bs'"
proof -
  let ?gs = "groups (breakdown_name d) rows"
  have m: "groups (breakdown_name d) (map (anonymous q) rows) = map (\<lambda>(k, rs). (k, map (anonymous q) rs)) ?gs"
    by (rule groups_map) (rule assms(3))
  have "map named_tokens bs = sort_desc snd fst (map (\<lambda>(k, g). (k, total_of row_tokens g)) ?gs)"
    using assms(1) by (auto simp: analyticsBreakdown_def Let_def sort_desc_named comp_def case_prod_unfold named_tokens_def split: if_splits)
  moreover have "map named_tokens bs' = sort_desc snd fst (map (\<lambda>(k, g). (k, total_of row_tokens g)) ?gs)"
    using assms(2) by (auto simp: analyticsBreakdown_def m Let_def sort_desc_named comp_def case_prod_unfold named_tokens_def split: if_splits)
  ultimately show ?thesis by simp
qed

subsection \<open>The insights\<close>

lemma insights_of_cong:
  assumes "sessionless (an_Summary an) = sessionless (an_Summary an')" "an_Comparison an = an_Comparison an'"
    and "map named_tokens (an_Breakdown an) = map named_tokens (an_Breakdown an')"
    and "an_StartDate an = an_StartDate an'" "an_EndDate an = an_EndDate an'"
  shows "insights_of z timezone printable q an a = insights_of z timezone printable q an' a"
proof -
  note s = assms(1)[unfolded sessionless_eq]
  have b: "insightConcentrationCard printable q an quality url = insightConcentrationCard printable q an' quality url" for quality url
    using assms(3) s by (cases "an_Breakdown an"; cases "an_Breakdown an'")
      (simp_all add: insightConcentrationCard_def named_tokens_def Let_def cong: if_cong)
  have "insightQualifiers quality a (an_Summary an) = insightQualifiers quality a (an_Summary an')" for quality
    using s by (simp add: insightQualifiers_def Let_def cong: if_cong)
  moreover have "insightMomentumCard q an quality url = insightMomentumCard q an' quality url" for quality url
    using s assms(2) by (simp add: insightMomentumCard_def Let_def cong: if_cong option.case_cong)
  moreover have "insightCompositionCard q a (an_Summary an) quality url = insightCompositionCard q a (an_Summary an') quality url" for quality url
    using s by (simp add: insightCompositionCard_def Let_def cong: if_cong option.case_cong)
  moreover have "insightConfidenceCard q a (an_Summary an) quality url = insightConfidenceCard q a (an_Summary an') quality url" for quality url
    using s by (simp add: insightConfidenceCard_def Let_def cong: if_cong option.case_cong)
  ultimately show ?thesis
    using b s assms(4,5) by (simp add: insights_of_def insight_candidates_def Let_def)
qed

lemma Insights_anonymous:
  assumes "Insights z timezone printable clock clock' t q = Some (Inr r)"
    and "Insights z timezone printable clock clock' (map (anonymous q) t) q = Some (Inr r')"
  shows "r = r'"
proof -
  obtain q1 start1 until1 where n1: "normalizeAnalyticsQuery z clock q = (q1, start1, until1)" by (metis prod_cases3)
  obtain q2 start2 until2 where n2: "normalizeAnalyticsQuery z clock' q = (q2, start2, until2)" by (metis prod_cases3)
  let ?t' = "map (anonymous q) t"
  obtain an a where a: "Analytics z timezone clock t q = Some (Inr an)"
      "insightsAggregate z (filter (analyticsWhere q2 start2 until2) t) = Inr a" "r = insights_of z timezone printable q2 an a"
    using Insights_two_clocks[OF assms(1) n2] by metis
  obtain an' a' where a': "Analytics z timezone clock ?t' q = Some (Inr an')"
      "insightsAggregate z (filter (analyticsWhere q2 start2 until2) ?t') = Inr a'" "r' = insights_of z timezone printable q2 an' a'"
    using Insights_two_clocks[OF assms(2) n2] by metis
  have "a' = a" using a(2) a'(2) by (simp add: filter_anonymous aggregate_anonymous)
  moreover have "insights_of z timezone printable q2 an a = insights_of z timezone printable q2 an' a"
  proof (rule insights_of_cong)
    note p = Analytics_parts[OF a(1) n1] and p' = Analytics_parts[OF a'(1) n1, unfolded filter_anonymous]
    show s: "sessionless (an_Summary an) = sessionless (an_Summary an')"
      using summary_anonymous[OF p(1), of q] p'(1) by auto
    then show "an_Comparison an = an_Comparison an'"
      using compare_anonymous[OF p(2), of q] p'(2) by (simp add: sessionless_eq)
    have "aq_Dimension q1 = aq_Dimension q \<or> aq_Dimension q1 = ''projects'' \<and> aq_Dimension q \<notin> {''harnesses'', ''providers'', ''models'', ''machines''}"
      using n1 by (auto simp: normalizeAnalyticsQuery_def Let_def)
    from anonymous_breakdown[OF this] show "map named_tokens (an_Breakdown an) = map named_tokens (an_Breakdown an')"
      by (intro breakdown_anonymous[OF p(3) p'(3)])
    show e: "an_EndDate an = an_EndDate an'" using p(4) p'(4) by metis
    show "an_StartDate an = an_StartDate an'" using p(4) p'(4) e by (simp add: points_anonymous) (metis (no_types) Inr_inject option.inject)
  qed
  ultimately show ?thesis using a(3) a'(3) by simp
qed

lemma anonymous_typed: "row_typed r \<Longrightarrow> row_typed (anonymous q r)"
proof -
  have "name_ok ''e''" "name_ok ''a''"
    by (simp_all add: name_ok_def str_eval del: runes.simps(2))
  then show "row_typed r \<Longrightarrow> row_typed (anonymous q r)" by (simp add: row_typed_def anonymous_def nonneg_i64_def)
qed

text \<open>C31: What the insights reveal. Two tables of events that agree on times, token counts, costs, accuracy
  and the names a query can filter or group by, but differ in anything else (the identities of events
  and sessions, adapters, durations, reasoning tokens, and project names unless the view is by
  project), give exactly the same insights: no text, number or card depends on the rest.\<close>

theorem insights_private:
  assumes "map (anonymous q) t = map (anonymous q) t'"
    and "list_all row_typed t" "LifetimeTokens t = Inr n" "list_all row_typed t'" "sane_zone (reportingLocation z)"
  shows "Insights z timezone printable clock clock' t q = Insights z timezone printable clock clock' t' q"
proof -
  have l: "LifetimeTokens (map (anonymous q) x) = LifetimeTokens x" for x
    by (simp add: LifetimeTokens_def row_totals_def comp_def cong: option.case_cong)
  have typed: "list_all row_typed (map (anonymous q) x)" if "list_all row_typed x" for x
    using that anonymous_typed by (auto simp: list_all_iff)
  have l': "LifetimeTokens t' = Inr n" using l[of t] l[of t'] assms(1,3) by simp
  obtain r where r: "Insights z timezone printable clock clock' t q = Some (Inr r)" using insights_available' assms by blast
  obtain r' where r': "Insights z timezone printable clock clock' t' q = Some (Inr r')" using insights_available' assms l' by blast
  obtain x where x: "Insights z timezone printable clock clock' (map (anonymous q) t) q = Some (Inr x)"
    using insights_available'[OF typed[OF assms(2)] _ assms(5)] l[of t] assms(3) by metis
  have "r = x" by (rule Insights_anonymous[OF r x])
  moreover have "r' = x" by (rule Insights_anonymous[OF r' x[unfolded assms(1)]])
  ultimately show ?thesis using r r' by simp
qed

theorem insights_private_witness:
  "\<exists>r. Insights None ''UTC'' (\<lambda>_. True) 7 8 [event_row sample_env sample_event] history_query = Some (Inr r)
    \<and> Insights None ''UTC'' (\<lambda>_. True) 7 8 [(event_row sample_env sample_event)\<lparr>rw_session_id := Some ''other'', rw_event_id := ''e2''\<rparr>]
        history_query = Some (Inr r)"
proof -
  let ?r = "event_row sample_env sample_event" and ?r' = "(event_row sample_env sample_event)\<lparr>rw_session_id := Some ''other'', rw_event_id := ''e2''\<rparr>"
  have "name_ok ''e2''" by (simp add: name_ok_def str_eval del: runes.simps(2))
  then have t: "list_all row_typed [?r]" "list_all row_typed [?r']"
    using sample_row_stored by (simp_all add: row_typed_def)
  have "map (anonymous history_query) [?r] = map (anonymous history_query) [?r']" by (simp add: anonymous_def)
  from insights_private[OF this t(1) sample_lifetime t(2) utc_sane]
  show ?thesis using insights_available'[OF t(1) sample_lifetime utc_sane] by metis
qed

end
