(* ===== verification/Go_Regexp.thy ===== *)
theory Go_Regexp
  imports Go_Runtime
begin

text \<open>
  Package \<open>regexp\<close>: a match is found at the leftmost position and, there, the one that a backtracking
  search finds first. A text is the list of its runes with their bytes; a position is the part before,
  reversed, and the part behind.
\<close>

type_synonym position = "(nat \<times> gostr) list \<times> (nat \<times> gostr) list"

datatype re =
    Sym "nat \<Rightarrow> bool"
  | Eps
  | Alt re re
  | Seq re re
  | Star re
  | Assert "nat option \<Rightarrow> nat option \<Rightarrow> bool"

text \<open>The ends of the matches from a position, in the order of preference.\<close>

function (sequential) ends :: "re \<Rightarrow> position \<Rightarrow> position list" where
  "ends (Sym P) (us, []) = []"
| "ends (Sym P) (us, c # vs) = (if P (fst c) then [(c # us, vs)] else [])"
| "ends Eps p = [p]"
| "ends (Alt r s) p = ends r p @ ends s p"
| "ends (Seq r s) p = concat (map (ends s) (ends r p))"
| "ends (Star r) p = concat (map (\<lambda>p'. if length (snd p') < length (snd p) then ends (Star r) p' else []) (ends r p)) @ [p]"
| "ends (Assert A) (us, vs) =
    (if A (case us of [] \<Rightarrow> None | u # _ \<Rightarrow> Some (fst u)) (case vs of [] \<Rightarrow> None | v # _ \<Rightarrow> Some (fst v)) then [(us, vs)] else [])"
  by pat_completeness auto
termination
  by (relation "measures [\<lambda>(r, p). size r, \<lambda>(r, p). length (snd p)]") auto

declare ends.simps(6) [simp del]

text \<open>The first match from a position on: where it starts and ends.\<close>

fun find_from :: "re \<Rightarrow> position \<Rightarrow> (position \<times> position) option" where
  "find_from r (us, vs) =
    (case ends r (us, vs) of
       e # _ \<Rightarrow> Some ((us, vs), e)
     | [] \<Rightarrow> (case vs of [] \<Rightarrow> None | v # vs' \<Rightarrow> find_from r (v # us, vs')))"

definition MatchString :: "re \<Rightarrow> gostr \<Rightarrow> bool" where "MatchString r s \<longleftrightarrow> find_from r ([], runes s) \<noteq> None"

text \<open>The runes between two positions.\<close>

definition between :: "position \<Rightarrow> position \<Rightarrow> gostr" where
  "between a b = concat (map snd (take (length (snd a) - length (snd b)) (snd a)))"

text \<open>\<open>FindAllString\<close> for expressions that do not match the empty text; \<open>n\<close> bounds the number of matches.\<close>

fun find_all :: "nat \<Rightarrow> re \<Rightarrow> position \<Rightarrow> gostr list" where
  "find_all 0 r p = []"
| "find_all (Suc n) r p = (case find_from r p of None \<Rightarrow> [] | Some (a, b) \<Rightarrow> between a b # find_all n r b)"

definition FindAllString :: "re \<Rightarrow> gostr \<Rightarrow> gostr list" where
  "FindAllString r s = find_all (length (runes s)) r ([], runes s)"

subsection \<open>Building blocks\<close>

text \<open>Simple case folding of the runes that fold to an ASCII letter: the letters, long s and the Kelvin sign.\<close>

definition fold_ascii :: "nat \<Rightarrow> nat" where
  "fold_ascii r = (if 65 \<le> r \<and> r \<le> 90 then r + 32 else if r = 0x17F then 115 else if r = 0x212A then 107 else r)"

text \<open>A word of lower-case letters under \<open>(?i)\<close>.\<close>

fun re_word :: "gostr \<Rightarrow> re" where
  "re_word [] = Eps"
| "re_word (c # cs) = Seq (Sym (\<lambda>r. fold_ascii r = byte c)) (re_word cs)"

fun re_any :: "re list \<Rightarrow> re" where
  "re_any [] = Sym (\<lambda>r. False)"
| "re_any [r] = r"
| "re_any (r # s # rs) = Alt r (re_any (s # rs))"

definition re_class :: "gostr \<Rightarrow> re" where "re_class cs = Sym (\<lambda>r. r \<in> set (map byte cs))"

definition re_opt :: "re \<Rightarrow> re" where "re_opt r = Alt r Eps"

definition re_start :: re where "re_start = Assert (\<lambda>l r. l = None)"

definition re_end :: re where "re_end = Assert (\<lambda>l r. r = None)"

definition is_word_rune :: "nat option \<Rightarrow> bool" where
  "is_word_rune r = (case r of None \<Rightarrow> False
     | Some r \<Rightarrow> 48 \<le> r \<and> r \<le> 57 \<or> 65 \<le> r \<and> r \<le> 90 \<or> 97 \<le> r \<and> r \<le> 122 \<or> r = 95)"

definition re_boundary :: re where
  "re_boundary = Assert (\<lambda>l r. is_word_rune l \<noteq> is_word_rune r)"

definition re_digit :: re where "re_digit = Sym (\<lambda>r. 48 \<le> r \<and> r \<le> 57)"

subsection \<open>Matching\<close>

text \<open>The relation of a match, without preference.\<close>

inductive re_match :: "re \<Rightarrow> position \<Rightarrow> position \<Rightarrow> bool" where
  "P (fst c) \<Longrightarrow> re_match (Sym P) (us, c # vs) (c # us, vs)"
| "re_match Eps p p"
| "re_match r p p' \<Longrightarrow> re_match (Alt r s) p p'"
| "re_match s p p' \<Longrightarrow> re_match (Alt r s) p p'"
| "re_match r p p' \<Longrightarrow> re_match s p' p'' \<Longrightarrow> re_match (Seq r s) p p''"
| "re_match (Star r) p p"
| "re_match r p p' \<Longrightarrow> length (snd p') < length (snd p) \<Longrightarrow> re_match (Star r) p' p'' \<Longrightarrow> re_match (Star r) p p''"
| "A (case us of [] \<Rightarrow> None | u # _ \<Rightarrow> Some (fst u)) (case vs of [] \<Rightarrow> None | v # _ \<Rightarrow> Some (fst v)) \<Longrightarrow>
    re_match (Assert A) (us, vs) (us, vs)"

inductive_cases re_match_elims:
  "re_match (Sym P) p p'" "re_match Eps p p'" "re_match (Alt r s) p p'" "re_match (Seq r s) p p'" "re_match (Assert A) p p'"

text \<open>The search finds a match exactly when there is one.\<close>

lemma ends_sound: "p' \<in> set (ends r p) \<Longrightarrow> re_match r p p'"
proof (induction r p arbitrary: p' rule: ends.induct)
  case (6 r p)
  from "6.prems" consider "p' = p"
    | q where "q \<in> set (ends r p)" "length (snd q) < length (snd p)" "p' \<in> set (ends (Star r) q)"
    by (subst (asm) ends.simps(6)) (auto split: if_splits)
  then show ?case
  proof cases
    case 2
    then show ?thesis using re_match.intros(7)[OF "6.IH"(1)[OF 2(1)] 2(2) "6.IH"(2)[OF 2(1,2,3)]] by simp
  qed (simp add: re_match.intros)
next
  case (5 r s p)
  then obtain q where "q \<in> set (ends r p)" "p' \<in> set (ends s q)" by auto
  then show ?case using 5(1,2) re_match.intros(5) by blast
qed (auto split: if_splits intro: re_match.intros)

lemma ends_complete: "re_match r p p' \<Longrightarrow> p' \<in> set (ends r p)"
proof (induction rule: re_match.induct)
  case (6 r p)
  show ?case by (subst ends.simps(6)) simp
next
  case (7 r p p' p'')
  then show ?case by (subst ends.simps(6)) auto
qed auto

lemma ends_iff: "p' \<in> set (ends r p) \<longleftrightarrow> re_match r p p'"
  using ends_sound ends_complete by blast

definition matches_at :: "re \<Rightarrow> gostr \<Rightarrow> bool" where
  "matches_at r s \<longleftrightarrow> (\<exists>n p'. n \<le> length (runes s) \<and> re_match r (rev (take n (runes s)), drop n (runes s)) p')"

lemma find_from_iff:
  "find_from r (us, vs) \<noteq> None \<longleftrightarrow> (\<exists>n p'. n \<le> length vs \<and> re_match r (rev (take n vs) @ us, drop n vs) p')"
proof (induction vs arbitrary: us)
  case Nil
  then show ?case by (cases "ends r (us, [])") (auto simp: ends_iff[symmetric] simp del: ends.simps)
next
  case (Cons v vs)
  have s: "(\<exists>n \<le> length (v # vs). Q n) \<longleftrightarrow> Q 0 \<or> (\<exists>n \<le> length vs. Q (Suc n))" for Q
    by (metis Suc_le_mono le0 length_Cons not0_implies_Suc)
  have t: "(\<exists>n p'. n \<le> length (v # vs) \<and> re_match r (rev (take n (v # vs)) @ us, drop n (v # vs)) p')
      \<longleftrightarrow> (\<exists>p'. re_match r (us, v # vs) p') \<or> (\<exists>n p'. n \<le> length vs \<and> re_match r (rev (take n vs) @ v # us, drop n vs) p')"
    using s[of "\<lambda>n. \<exists>p'. re_match r (rev (take n (v # vs)) @ us, drop n (v # vs)) p'"] by auto
  have e: "(\<exists>p'. re_match r (us, v # vs) p') \<longleftrightarrow> ends r (us, v # vs) \<noteq> []"
    unfolding ends_iff[symmetric] by (cases "ends r (us, v # vs)") auto
  show ?case
    unfolding t e using Cons.IH[of "v # us"] by (cases "ends r (us, v # vs)") (auto simp del: ends.simps)
qed

lemma MatchString_iff: "MatchString r s \<longleftrightarrow> matches_at r s"
  using find_from_iff[of r "[]" "runes s"] by (simp add: MatchString_def matches_at_def)

text \<open>A match moves over the text.\<close>

lemma re_match_moves: "re_match r (us, vs) (us', vs') \<Longrightarrow> \<exists>ws. vs = ws @ vs' \<and> us' = rev ws @ us"
proof -
  have "re_match r p p' \<Longrightarrow> \<exists>ws. snd p = ws @ snd p' \<and> fst p' = rev ws @ fst p" for p p'
    by (induction rule: re_match.induct) fastforce+
  then show "re_match r (us, vs) (us', vs') \<Longrightarrow> \<exists>ws. vs = ws @ vs' \<and> us' = rev ws @ us" by fastforce
qed

text \<open>A match of \<open>x y\<close> where \<open>y\<close> is a single rune: where it ends.\<close>

lemma Seq_Sym_match:
  assumes "re_match (Seq x (Sym P)) (us, vs) p'"
  shows "\<exists>ws c vs'. vs = ws @ c # vs' \<and> P (fst c) \<and> re_match x (us, vs) (rev ws @ us, c # vs')"
proof -
  obtain q where q: "re_match x (us, vs) q" "re_match (Sym P) q p'" using assms by (auto elim: re_match_elims)
  obtain a c vs' where c: "q = (a, c # vs')" "P (fst c)" using q(2) by (auto elim: re_match_elims)
  obtain ws where "vs = ws @ c # vs'" "a = rev ws @ us" using re_match_moves[of x us vs a "c # vs'"] q(1) c(1) by auto
  then show ?thesis using q(1) c by blast
qed

lemma re_any_match: "re_match (re_any rs) p p' \<Longrightarrow> \<exists>r \<in> set rs. re_match r p p'"
  by (induction rs rule: re_any.induct) (auto elim: re_match_elims)

lemma re_word_match:
  "re_match (re_word w) p p' \<Longrightarrow> w \<noteq> [] \<Longrightarrow> \<exists>c us. fst p' = c # us \<and> fold_ascii (fst c) = byte (last w)"
proof (induction w arbitrary: p)
  case (Cons x w)
  obtain q where q: "re_match (Sym (\<lambda>r. fold_ascii r = byte x)) p q" "re_match (re_word w) q p'"
    using Cons.prems(1) by (auto elim: re_match_elims)
  show ?case
  proof (cases "w = []")
    case True
    then have "p' = q" using q(2) by (auto elim: re_match_elims)
    then show ?thesis using q(1) True by (auto elim: re_match_elims)
  next
    case False
    then show ?thesis using Cons.IH[OF q(2)] by simp
  qed
qed simp

lemma Star_Sym_match: "re_match (Star (Sym P)) p p' \<Longrightarrow> \<exists>ws. snd p = ws @ snd p' \<and> fst p' = rev ws @ fst p \<and> list_all (P \<circ> fst) ws"
proof (induction "Star (Sym P)" p p' rule: re_match.induct)
  case (7 p p' p'')
  obtain c vs where c: "snd p = c # vs" "p' = (c # fst p, vs)" "P (fst c)" using 7(1) by (auto elim: re_match_elims)
  obtain ws where "snd p' = ws @ snd p''" "fst p'' = rev ws @ fst p'" "list_all (P \<circ> fst) ws" using 7(4) by blast
  then show ?case using c by (intro exI[of _ "c # ws"]) auto
qed simp

end
