(* ===== verification/Ai_Card.thy ===== *)
theory Ai_Card
  imports Go_Regexp Usage_Event Go_Net
begin

text \<open>
  The card of \<open>internal/insights/synthesis.go\<close>: what may be sent to the optional language model, what
  may come back, and the checks on both. \<open>ulow\<close> and \<open>ufold\<close> are the case tables of runes beyond ASCII.
\<close>

subsection \<open>Cards and answers\<close>

record ai_scope =
  sc_Label :: gostr
  sc_Count :: i64

record ai_quality =
  aqy_Level :: gostr
  aqy_Note :: gostr

record ai_evidence =
  ae_ID :: gostr
  ae_Category :: gostr
  ae_Observation :: gostr
  ae_Basis :: gostr

record ai_input =
  ai_PeriodLabel :: gostr
  ai_Timezone :: gostr
  ai_ScopeLabels :: "ai_scope list"
  ai_DataQuality :: ai_quality
  ai_Evidence :: "ai_evidence list"

record ai_output =
  ao_Title :: gostr
  ao_Summary :: gostr
  ao_EvidenceIDs :: "gostr list"

definition maxPeriodLabel :: nat where "maxPeriodLabel = 120"
definition maxTimezone :: nat where "maxTimezone = 64"
definition maxScopeLabels :: nat where "maxScopeLabels = 12"
definition maxScopeLabel :: nat where "maxScopeLabel = 80"
definition maxEvidence :: nat where "maxEvidence = 5"
definition maxEvidenceID :: nat where "maxEvidenceID = 96"
definition maxCategory :: nat where "maxCategory = 80"
definition maxObservation :: nat where "maxObservation = 800"
definition maxBasis :: nat where "maxBasis = 800"
definition maxQualityLevel :: nat where "maxQualityLevel = 32"
definition maxQualityNote :: nat where "maxQualityNote = 240"
definition maxOutputTitle :: nat where "maxOutputTitle = 120"
definition maxOutputSummary :: nat where "maxOutputSummary = 600"

definition allowedScopeLabels :: "gostr list" where
  "allowedScopeLabels = [''overall'', ''filtered view'', ''current period'', ''selected period'', ''all activity'',
     ''top categories'', ''other'', ''unknown'']"

definition IsAggregateScopeLabel :: "(nat \<Rightarrow> nat) \<Rightarrow> gostr \<Rightarrow> bool" where
  "IsAggregateScopeLabel ulow label \<longleftrightarrow> to_lower ulow (trim_space label) \<in> set allowedScopeLabels"

subsection \<open>Patterns\<close>

definition sensitive_labels :: "gostr list" where
  "sensitive_labels = [''session'', ''project'', ''machine'', ''provider'', ''model'', ''tool'', ''timestamp'', ''prompt'',
     ''response'', ''repository'', ''repo'', ''path'', ''hostname'', ''username'', ''email'']"

definition sensitiveKeyPattern :: re where
  "sensitiveKeyPattern =
    Seq (Alt re_start (Sym (\<lambda>r. r \<in> {34, 39, 123, 125, 44, 9, 10, 12, 13, 32})))
     (Seq (re_any (map re_word sensitive_labels
         @ [Seq (re_word ''api'') (Seq (re_opt (Sym (\<lambda>r. r = 95 \<or> r = 45))) (re_word ''key''))]
         @ map re_word [''secret'', ''credential'']
         @ [Seq (re_word ''token'') (Seq (re_opt (Sym (\<lambda>r. r = 95 \<or> r = 45))) (re_word ''id''))]))
       (Seq (Star (Sym (\<lambda>r. r \<in> {34, 39, 123, 125, 95, 45, 9, 10, 12, 13, 32}))) (Sym (\<lambda>r. r = 58))))"

definition sensitiveIdentifierPattern :: re where
  "sensitiveIdentifierPattern =
    Seq (Alt re_start (Sym (\<lambda>r. r = 45 \<or> r = 95 \<or> r = 58)))
     (Seq (re_any (map re_word sensitive_labels))
       (Alt re_end (Sym (\<lambda>r. r = 45 \<or> r = 95 \<or> r = 58))))"

definition numberPattern :: re where
  "numberPattern = Seq re_boundary (Seq re_digit (Seq (Star (Sym (\<lambda>r. 48 \<le> r \<and> r \<le> 57 \<or> r = 44)))
     (Seq (re_opt (Seq (Sym (\<lambda>r. r = 46)) (Seq re_digit (Star re_digit))))
       (Seq (re_opt (Sym (\<lambda>r. r = 37 \<or> fold_ascii r \<in> {107, 109, 103, 116}))) re_boundary))))"

subsection \<open>Texts\<close>

datatype text_issue =
    IsRequired gostr | ExceedsCharacters gostr nat | HasControlCharacters gostr | HasSensitiveKey gostr | IsRawRecord gostr

definition rejectSensitiveKey :: "gostr \<Rightarrow> gostr \<Rightarrow> text_issue option" where
  "rejectSensitiveKey name value = first_error
    [fail_if (MatchString sensitiveKeyPattern value) (HasSensitiveKey name),
     fail_if (has_prefix (trim_space value) [CHR 0x7B] \<or> has_prefix (trim_space value) [CHR 0x5B]) (IsRawRecord name)]"

definition ai_validateText :: "gostr \<Rightarrow> gostr \<Rightarrow> nat \<Rightarrow> bool \<Rightarrow> text_issue + gostr" where
  "ai_validateText name value0 limit required =
    (let value = trim_space value0 in
     case first_error
       [fail_if (required \<and> value = []) (IsRequired name),
        fail_if (limit < rune_count value) (ExceedsCharacters name limit),
        fail_if (list_ex (\<lambda>r. r = 0 \<or> (r < 32 \<and> r \<noteq> 10 \<and> r \<noteq> 9)) (rune_list value)) (HasControlCharacters name),
        rejectSensitiveKey name value] of
       Some e \<Rightarrow> Inl e | None \<Rightarrow> Inr value)"

datatype id_issue = IDRequired | IDTooLong | IDNotPrintable | IDSensitive

definition validateEvidenceID :: "gostr \<Rightarrow> id_issue + gostr" where
  "validateEvidenceID value0 =
    (let value = trim_space value0 in
     case first_error
       [fail_if (value = []) IDRequired,
        fail_if (maxEvidenceID < rune_count value) IDTooLong,
        fail_if (list_ex (\<lambda>r. r < 33 \<or> 126 < r \<or> r = 34 \<or> r = 92) (rune_list value)) IDNotPrintable,
        fail_if (MatchString sensitiveIdentifierPattern value) IDSensitive] of
       Some e \<Rightarrow> Inl e | None \<Rightarrow> Inr value)"

definition isSensitiveCategory :: "(nat \<Rightarrow> nat) \<Rightarrow> gostr \<Rightarrow> bool" where
  "isSensitiveCategory ulow value \<longleftrightarrow> to_lower ulow (trim_space value) \<in>
     {''session'', ''project'', ''machine'', ''provider'', ''model'', ''tool'', ''timestamp'', ''repository'', ''repo'', ''path''}"

subsection \<open>The card\<close>

datatype card_issue =
    CardText text_issue
  | TooManyScopeLabels
  | NotAggregateLabel nat gostr
  | CountOutOfBounds nat
  | TooMuchEvidence
  | CardID nat id_issue
  | DuplicateEvidence gostr
  | SensitiveCategory nat

abbreviation indexed :: "gostr \<Rightarrow> nat \<Rightarrow> gostr \<Rightarrow> gostr" where
  "indexed xs i field \<equiv> xs @ [CHR 0x5B] @ nat_str i @ [CHR 0x5D] @ field"

definition card_text :: "gostr \<Rightarrow> gostr \<Rightarrow> nat \<Rightarrow> bool \<Rightarrow> card_issue + gostr" where
  "card_text name value limit required = (case ai_validateText name value limit required of Inl e \<Rightarrow> Inl (CardText e) | Inr v \<Rightarrow> Inr v)"

definition checked_scope :: "(nat \<Rightarrow> nat) \<Rightarrow> nat \<Rightarrow> ai_scope \<Rightarrow> card_issue + ai_scope" where
  "checked_scope ulow i s =
    (case card_text (indexed ''scope_labels'' i ''.label'') (sc_Label s) maxScopeLabel True of
       Inl e \<Rightarrow> Inl e
     | Inr label \<Rightarrow>
        (let label = to_lower ulow label in
         if label \<notin> set allowedScopeLabels then Inl (NotAggregateLabel i label)
         else if sc_Count s < 0 \<or> 1000000000 < sc_Count s then Inl (CountOutOfBounds i)
         else Inr (s\<lparr>sc_Label := label\<rparr>)))"

fun checked_scopes :: "(nat \<Rightarrow> nat) \<Rightarrow> nat \<Rightarrow> ai_scope list \<Rightarrow> card_issue + ai_scope list" where
  "checked_scopes ulow i [] = Inr []"
| "checked_scopes ulow i (s # ss) =
    (case checked_scope ulow i s of Inl e \<Rightarrow> Inl e
     | Inr s' \<Rightarrow> (case checked_scopes ulow (Suc i) ss of Inl e \<Rightarrow> Inl e | Inr ss' \<Rightarrow> Inr (s' # ss')))"

definition checked_evidence :: "(nat \<Rightarrow> nat) \<Rightarrow> nat \<Rightarrow> gostr list \<Rightarrow> ai_evidence \<Rightarrow> card_issue + ai_evidence" where
  "checked_evidence ulow i seen ev =
    (case validateEvidenceID (ae_ID ev) of
       Inl e \<Rightarrow> Inl (CardID i e)
     | Inr ident \<Rightarrow>
        if ident \<in> set seen then Inl (DuplicateEvidence ident)
        else (case card_text (indexed ''evidence'' i ''.category'') (ae_Category ev) maxCategory True of
           Inl e \<Rightarrow> Inl e
         | Inr category \<Rightarrow>
            if MatchString sensitiveIdentifierPattern category \<or> isSensitiveCategory ulow category then Inl (SensitiveCategory i)
            else (case card_text (indexed ''evidence'' i ''.observation'') (ae_Observation ev) maxObservation True of
               Inl e \<Rightarrow> Inl e
             | Inr observation \<Rightarrow>
                (case card_text (indexed ''evidence'' i ''.basis'') (ae_Basis ev) maxBasis False of
                   Inl e \<Rightarrow> Inl e
                 | Inr basis \<Rightarrow> Inr \<lparr>ae_ID = ident, ae_Category = category, ae_Observation = observation, ae_Basis = basis\<rparr>))))"

fun checked_evidences :: "(nat \<Rightarrow> nat) \<Rightarrow> nat \<Rightarrow> gostr list \<Rightarrow> ai_evidence list \<Rightarrow> card_issue + ai_evidence list" where
  "checked_evidences ulow i seen [] = Inr []"
| "checked_evidences ulow i seen (ev # evs) =
    (case checked_evidence ulow i seen ev of Inl e \<Rightarrow> Inl e
     | Inr ev' \<Rightarrow> (case checked_evidences ulow (Suc i) (ae_ID ev' # seen) evs of Inl e \<Rightarrow> Inl e | Inr evs' \<Rightarrow> Inr (ev' # evs')))"

definition ValidateInput :: "(nat \<Rightarrow> nat) \<Rightarrow> ai_input \<Rightarrow> card_issue + ai_input" where
  "ValidateInput ulow input =
    (case card_text ''period_label'' (ai_PeriodLabel input) maxPeriodLabel True of Inl e \<Rightarrow> Inl e | Inr period \<Rightarrow>
    (case card_text ''timezone'' (ai_Timezone input) maxTimezone True of Inl e \<Rightarrow> Inl e | Inr timezone \<Rightarrow>
     if maxScopeLabels < length (ai_ScopeLabels input) then Inl TooManyScopeLabels
     else
    (case checked_scopes ulow 0 (ai_ScopeLabels input) of Inl e \<Rightarrow> Inl e | Inr scopes \<Rightarrow>
    (case card_text ''data_quality.level'' (aqy_Level (ai_DataQuality input)) maxQualityLevel True of Inl e \<Rightarrow> Inl e | Inr level \<Rightarrow>
    (case card_text ''data_quality.note'' (aqy_Note (ai_DataQuality input)) maxQualityNote False of Inl e \<Rightarrow> Inl e | Inr note \<Rightarrow>
     if maxEvidence < length (ai_Evidence input) then Inl TooMuchEvidence
     else
    (case checked_evidences ulow 0 [] (ai_Evidence input) of Inl e \<Rightarrow> Inl e | Inr evidence \<Rightarrow>
     Inr \<lparr>ai_PeriodLabel = period, ai_Timezone = timezone, ai_ScopeLabels = scopes,
          ai_DataQuality = \<lparr>aqy_Level = level, aqy_Note = note\<rparr>, ai_Evidence = evidence\<rparr>))))))"

subsection \<open>The answer\<close>

datatype answer_issue =
    AnswerText text_issue
  | TooManyReferences
  | ReferenceID nat id_issue
  | NotSupplied gostr
  | DuplicateReference gostr
  | UnsupportedNumber gostr

definition normalizeNumber :: "(nat \<Rightarrow> nat) \<Rightarrow> gostr \<Rightarrow> gostr" where
  "normalizeNumber ulow value = to_lower ulow (filter (\<lambda>c. c \<noteq> CHR '','') value)"

definition numbers_of :: "(nat \<Rightarrow> nat) \<Rightarrow> gostr \<Rightarrow> gostr list" where
  "numbers_of ulow s = map (normalizeNumber ulow) (FindAllString numberPattern s)"

definition evidence_numbers :: "(nat \<Rightarrow> nat) \<Rightarrow> ai_evidence list \<Rightarrow> gostr list" where
  "evidence_numbers ulow evidence = concat (map (\<lambda>e. numbers_of ulow (ae_Observation e @ '' '' @ ae_Basis e)) evidence)"

fun check_references :: "gostr list \<Rightarrow> nat \<Rightarrow> gostr list \<Rightarrow> gostr list \<Rightarrow> answer_issue option" where
  "check_references known i seen [] = None"
| "check_references known i seen (r # rs) =
    (case validateEvidenceID r of
       Inl e \<Rightarrow> Some (ReferenceID i e)
     | Inr ident \<Rightarrow> if ident \<notin> set known then Some (NotSupplied ident)
         else if ident \<in> set seen then Some (DuplicateReference ident)
         else check_references known (Suc i) (ident # seen) rs)"

definition ValidateOutput :: "(nat \<Rightarrow> nat) \<Rightarrow> ai_output \<Rightarrow> ai_evidence list \<Rightarrow> answer_issue option" where
  "ValidateOutput ulow output evidence =
    (case ai_validateText ''title'' (ao_Title output) maxOutputTitle True of Inl e \<Rightarrow> Some (AnswerText e) | Inr title \<Rightarrow>
    (case ai_validateText ''summary'' (ao_Summary output) maxOutputSummary True of Inl e \<Rightarrow> Some (AnswerText e) | Inr summary \<Rightarrow>
     if maxEvidence < length (ao_EvidenceIDs output) then Some TooManyReferences
     else
    (case check_references (map ae_ID evidence) 0 [] (ao_EvidenceIDs output) of Some e \<Rightarrow> Some e | None \<Rightarrow>
     map_option UnsupportedNumber (List.find (\<lambda>n. normalizeNumber ulow n \<notin> set (evidence_numbers ulow evidence))
       (FindAllString numberPattern (title @ '' '' @ summary))))))"

subsection \<open>What a checked text is\<close>

definition text_ok :: "nat \<Rightarrow> bool \<Rightarrow> gostr \<Rightarrow> bool" where
  "text_ok limit required v \<longleftrightarrow> trim_space v = v \<and> \<not> (required \<and> v = []) \<and> rune_count v \<le> limit
    \<and> list_all (\<lambda>r. 32 \<le> r \<or> r = 10 \<or> r = 9) (rune_list v) \<and> \<not> MatchString sensitiveKeyPattern v
    \<and> \<not> has_prefix v [CHR 0x7B] \<and> \<not> has_prefix v [CHR 0x5B]"

definition id_ok :: "gostr \<Rightarrow> bool" where
  "id_ok v \<longleftrightarrow> trim_space v = v \<and> v \<noteq> [] \<and> rune_count v \<le> maxEvidenceID
    \<and> list_all (\<lambda>r. 33 \<le> r \<and> r \<le> 126 \<and> r \<noteq> 34 \<and> r \<noteq> 92) (rune_list v) \<and> \<not> MatchString sensitiveIdentifierPattern v"

lemma first_error_None_iff: "first_error xs = None \<longleftrightarrow> list_all (\<lambda>x. x = None) xs"
  by (simp add: first_error_None list_all_iff)

lemma ai_validateText_Inr: "ai_validateText name v limit required = Inr t \<longleftrightarrow> t = trim_space v \<and> text_ok limit required t"
proof -
  have "first_error [fail_if (required \<and> trim_space v = []) (IsRequired name), fail_if (limit < rune_count (trim_space v)) (ExceedsCharacters name limit),
      fail_if (list_ex (\<lambda>r. r = 0 \<or> (r < 32 \<and> r \<noteq> 10 \<and> r \<noteq> 9)) (rune_list (trim_space v))) (HasControlCharacters name),
      rejectSensitiveKey name (trim_space v)] = None \<longleftrightarrow> text_ok limit required (trim_space v)"
    unfolding first_error_None_iff rejectSensitiveKey_def
    by (auto simp: first_error_None_iff fail_if_None text_ok_def list_ex_iff list_all_iff)
  then show ?thesis unfolding ai_validateText_def Let_def by (auto split: option.splits)
qed

lemma ai_validateText_Inl: "ai_validateText name v limit required = Inl e \<Longrightarrow> \<not> text_ok limit required (trim_space v)"
  using ai_validateText_Inr[of name v limit required "trim_space v"] by auto

lemma validateEvidenceID_Inr: "validateEvidenceID v = Inr t \<longleftrightarrow> t = trim_space v \<and> id_ok t"
proof -
  have "first_error [fail_if (trim_space v = []) IDRequired, fail_if (maxEvidenceID < rune_count (trim_space v)) IDTooLong,
      fail_if (list_ex (\<lambda>r. r < 33 \<or> 126 < r \<or> r = 34 \<or> r = 92) (rune_list (trim_space v))) IDNotPrintable,
      fail_if (MatchString sensitiveIdentifierPattern (trim_space v)) IDSensitive] = None \<longleftrightarrow> id_ok (trim_space v)"
    unfolding first_error_None_iff by (auto simp: fail_if_None id_ok_def list_ex_iff list_all_iff)
  then show ?thesis unfolding validateEvidenceID_def Let_def by (auto split: option.splits)
qed

lemma card_text_Inr: "card_text name v limit required = Inr t \<longleftrightarrow> t = trim_space v \<and> text_ok limit required t"
  using ai_validateText_Inr[of name v limit required] by (cases "ai_validateText name v limit required") (auto simp: card_text_def)

lemma check_references_None:
  "check_references known i seen rs = None \<longleftrightarrow>
    list_all id_ok (map trim_space rs) \<and> set (map trim_space rs) \<subseteq> set known \<and> distinct (map trim_space rs)
    \<and> set (map trim_space rs) \<inter> set seen = {}"
proof (induction rs arbitrary: i seen)
  case (Cons r rs)
  show ?case
  proof (cases "validateEvidenceID r")
    case (Inl e)
    then have "\<not> id_ok (trim_space r)" using validateEvidenceID_Inr[of r "trim_space r"] by auto
    then show ?thesis by (simp add: Inl)
  next
    case (Inr v)
    then have "v = trim_space r" "id_ok v" using iffD1[OF validateEvidenceID_Inr Inr] by blast+
    then show ?thesis using Cons.IH[of "Suc i" "v # seen"] Inr by auto
  qed
qed simp

lemma ValidateOutput_None:
  "ValidateOutput ulow output evidence = None \<longleftrightarrow>
    text_ok maxOutputTitle True (trim_space (ao_Title output)) \<and> text_ok maxOutputSummary True (trim_space (ao_Summary output))
    \<and> length (ao_EvidenceIDs output) \<le> maxEvidence \<and> distinct (map trim_space (ao_EvidenceIDs output))
    \<and> list_all id_ok (map trim_space (ao_EvidenceIDs output))
    \<and> set (map trim_space (ao_EvidenceIDs output)) \<subseteq> ae_ID ` set evidence
    \<and> set (numbers_of ulow (trim_space (ao_Title output) @ '' '' @ trim_space (ao_Summary output))) \<subseteq> set (evidence_numbers ulow evidence)"
proof (cases "ai_validateText ''title'' (ao_Title output) maxOutputTitle True")
  case (Inl e)
  then show ?thesis using ai_validateText_Inl[OF Inl] by (simp add: ValidateOutput_def)
next
  case title: (Inr title)
  then have t: "title = trim_space (ao_Title output)" "text_ok maxOutputTitle True title"
    using iffD1[OF ai_validateText_Inr title] by blast+
  show ?thesis
  proof (cases "ai_validateText ''summary'' (ao_Summary output) maxOutputSummary True")
    case (Inl e)
    then show ?thesis using ai_validateText_Inl[OF Inl] by (simp add: ValidateOutput_def title)
  next
    case (Inr summary)
    then have s: "summary = trim_space (ao_Summary output)" "text_ok maxOutputSummary True summary"
      using iffD1[OF ai_validateText_Inr Inr] by blast+
    have "(List.find (\<lambda>n. normalizeNumber ulow n \<notin> X) ns = None) = (normalizeNumber ulow ` set ns \<subseteq> X)" for X ns
      by (auto simp: find_None_iff)
    then show ?thesis
      using t s check_references_None[of "map ae_ID evidence" 0 "[]" "ao_EvidenceIDs output"]
      by (auto simp: ValidateOutput_def title Inr numbers_of_def split: option.split)
  qed
qed

text \<open>C36: What an accepted answer of the model is. An answer passes exactly when its title and summary,
  trimmed, are not empty, within their limits, free of control characters and of anything that looks
  like a labelled record; its references, trimmed, are distinct and among the supplied evidence, at
  most five; and every number the pattern finds in the title and summary is, without its commas, a
  number of the evidence.\<close>

theorem accepted_answer:
  "ValidateOutput ulow output evidence = None \<longleftrightarrow>
    text_ok maxOutputTitle True (trim_space (ao_Title output)) \<and> text_ok maxOutputSummary True (trim_space (ao_Summary output))
    \<and> length (ao_EvidenceIDs output) \<le> maxEvidence \<and> distinct (map trim_space (ao_EvidenceIDs output))
    \<and> list_all id_ok (map trim_space (ao_EvidenceIDs output))
    \<and> set (map trim_space (ao_EvidenceIDs output)) \<subseteq> ae_ID ` set evidence
    \<and> set (numbers_of ulow (trim_space (ao_Title output) @ '' '' @ trim_space (ao_Summary output))) \<subseteq> set (evidence_numbers ulow evidence)"
  by (rule ValidateOutput_None)

subsection \<open>Texts that the patterns do not match\<close>

text \<open>A labelled record needs a colon behind a letter, with nothing but separators between them.\<close>

lemma sensitive_words_end:
  assumes "re_match (re_any (map re_word ws1 @ [Seq r1 (Seq r2 (re_word w1))] @ map re_word ws2 @ [Seq r3 (Seq r4 (re_word w2))])) p p'"
    and "list_all (\<lambda>w. w \<noteq> [] \<and> 97 \<le> byte (last w) \<and> byte (last w) \<le> 122) (w1 # w2 # ws1 @ ws2)"
  shows "\<exists>c us. fst p' = c # us \<and> 97 \<le> fold_ascii (fst c) \<and> fold_ascii (fst c) \<le> 122"
proof -
  obtain r where r: "re_match r p p'"
    "r \<in> set (map re_word ws1 @ [Seq r1 (Seq r2 (re_word w1))] @ map re_word ws2 @ [Seq r3 (Seq r4 (re_word w2))])"
    using re_any_match[OF assms(1)] by blast
  consider w where "w \<in> set (ws1 @ ws2)" "r = re_word w" | "r = Seq r1 (Seq r2 (re_word w1))" | "r = Seq r3 (Seq r4 (re_word w2))"
    using r(2) by auto
  then have "\<exists>w q. w \<in> set (w1 # w2 # ws1 @ ws2) \<and> re_match (re_word w) q p'"
  proof cases
    case (1 w)
    then show ?thesis using r(1) by (intro exI[of _ w] exI[of _ p]) auto
  qed (use r(1) in \<open>auto elim!: re_match_elims(4)\<close>)
  then obtain w q where w: "w \<in> set (w1 # w2 # ws1 @ ws2)" "re_match (re_word w) q p'" by blast
  then have "w \<noteq> []" "97 \<le> byte (last w)" "byte (last w) \<le> 122" using assms(2) by (auto simp: list_all_iff)
  then show ?thesis using re_word_match[OF w(2)] by auto
qed

definition key_separators :: "nat set" where "key_separators = {34, 39, 123, 125, 95, 45, 9, 10, 12, 13, 32}"

lemma sensitiveKey_colon:
  assumes "MatchString sensitiveKeyPattern s"
  shows "\<exists>xs c seps d ys. runes s = xs @ [c] @ seps @ [d] @ ys \<and> 97 \<le> fold_ascii (fst c) \<and> fold_ascii (fst c) \<le> 122
    \<and> list_all (\<lambda>x. fst x \<in> key_separators) seps \<and> fst d = 58"
proof -
  obtain n p' where n: "re_match sensitiveKeyPattern (rev (take n (runes s)), drop n (runes s)) p'"
    using assms by (auto simp: MatchString_iff matches_at_def)
  let ?p = "(rev (take n (runes s)), drop n (runes s))"
  obtain x B where x: "sensitiveKeyPattern = Seq x (Seq B (Seq (Star (Sym (\<lambda>r. r \<in> key_separators))) (Sym (\<lambda>r. r = 58))))"
    "\<And>p p'. re_match B p p' \<Longrightarrow> \<exists>c us. fst p' = c # us \<and> 97 \<le> fold_ascii (fst c) \<and> fold_ascii (fst c) \<le> 122"
  proof (rule that)
    show "sensitiveKeyPattern = Seq (Alt re_start (Sym (\<lambda>r. r \<in> {34, 39, 123, 125, 44, 9, 10, 12, 13, 32})))
        (Seq (re_any (map re_word sensitive_labels @ [Seq (re_word ''api'') (Seq (re_opt (Sym (\<lambda>r. r = 95 \<or> r = 45))) (re_word ''key''))]
            @ map re_word [''secret'', ''credential''] @ [Seq (re_word ''token'') (Seq (re_opt (Sym (\<lambda>r. r = 95 \<or> r = 45))) (re_word ''id''))]))
          (Seq (Star (Sym (\<lambda>r. r \<in> key_separators))) (Sym (\<lambda>r. r = 58))))"
      unfolding sensitiveKeyPattern_def key_separators_def ..
    show "\<exists>c us. fst p' = c # us \<and> 97 \<le> fold_ascii (fst c) \<and> fold_ascii (fst c) \<le> 122"
      if "re_match (re_any (map re_word sensitive_labels @ [Seq (re_word ''api'') (Seq (re_opt (Sym (\<lambda>r. r = 95 \<or> r = 45))) (re_word ''key''))]
            @ map re_word [''secret'', ''credential''] @ [Seq (re_word ''token'') (Seq (re_opt (Sym (\<lambda>r. r = 95 \<or> r = 45))) (re_word ''id''))])) p p'" for p p'
      by (rule sensitive_words_end[OF that]) (simp add: sensitive_labels_def byte_def)
  qed
  obtain q1 q2 where q: "re_match x ?p q1" "re_match B q1 q2" "re_match (Seq (Star (Sym (\<lambda>r. r \<in> key_separators))) (Sym (\<lambda>r. r = 58))) q2 p'"
    using n unfolding x(1) by (blast elim: re_match_elims(4))
  obtain c us where c: "fst q2 = c # us" "97 \<le> fold_ascii (fst c)" "fold_ascii (fst c) \<le> 122" using x(2)[OF q(2)] by blast
  obtain ws where q1: "drop n (runes s) = ws @ snd q1" "fst q1 = rev ws @ rev (take n (runes s))"
    using re_match_moves[of x "rev (take n (runes s))" "drop n (runes s)" "fst q1" "snd q1"] q(1) by auto
  obtain ws' where q2: "snd q1 = ws' @ snd q2" "fst q2 = rev ws' @ fst q1"
    using re_match_moves[of B "fst q1" "snd q1" "fst q2" "snd q2"] q(2) by auto
  have whole: "runes s = rev (fst q2) @ snd q2"
    using q1 q2 append_take_drop_id[of n "runes s"] by simp
  obtain seps d ys where d: "snd q2 = seps @ d # ys" "fst d = 58"
      "re_match (Star (Sym (\<lambda>r. r \<in> key_separators))) q2 (rev seps @ fst q2, d # ys)"
    using Seq_Sym_match[of "Star (Sym (\<lambda>r. r \<in> key_separators))" "\<lambda>r. r = 58" "fst q2" "snd q2" p', unfolded prod.collapse, OF q(3)]
    unfolding prod.collapse by blast
  have "list_all (\<lambda>x. fst x \<in> key_separators) seps"
    using Star_Sym_match[OF d(3)] d(1) by (auto simp: comp_def)
  then show ?thesis using whole c d(1,2) by (intro exI[of _ "rev us"] exI[of _ c] exI[of _ seps] exI[of _ d] exI[of _ ys]) simp
qed

lemma no_colon_insensitive: "58 \<notin> set (rune_list s) \<Longrightarrow> \<not> MatchString sensitiveKeyPattern s"
  using sensitiveKey_colon[of s] by (auto simp: rune_list_def)

subsection \<open>What a checked card is\<close>

definition scope_ok :: "ai_scope \<Rightarrow> bool" where
  "scope_ok s \<longleftrightarrow> sc_Label s \<in> set allowedScopeLabels \<and> 0 \<le> sc_Count s \<and> sc_Count s \<le> 1000000000"

definition evidence_ok :: "(nat \<Rightarrow> nat) \<Rightarrow> ai_evidence \<Rightarrow> bool" where
  "evidence_ok ulow e \<longleftrightarrow> id_ok (ae_ID e) \<and> text_ok maxCategory True (ae_Category e)
    \<and> \<not> MatchString sensitiveIdentifierPattern (ae_Category e) \<and> \<not> isSensitiveCategory ulow (ae_Category e)
    \<and> text_ok maxObservation True (ae_Observation e) \<and> text_ok maxBasis False (ae_Basis e)"

definition card_ok :: "(nat \<Rightarrow> nat) \<Rightarrow> ai_input \<Rightarrow> bool" where
  "card_ok ulow c \<longleftrightarrow> text_ok maxPeriodLabel True (ai_PeriodLabel c) \<and> text_ok maxTimezone True (ai_Timezone c)
    \<and> length (ai_ScopeLabels c) \<le> maxScopeLabels \<and> list_all scope_ok (ai_ScopeLabels c)
    \<and> text_ok maxQualityLevel True (aqy_Level (ai_DataQuality c)) \<and> text_ok maxQualityNote False (aqy_Note (ai_DataQuality c))
    \<and> length (ai_Evidence c) \<le> maxEvidence \<and> distinct (map ae_ID (ai_Evidence c)) \<and> list_all (evidence_ok ulow) (ai_Evidence c)"

definition trimmed_evidence :: "ai_evidence \<Rightarrow> ai_evidence" where
  "trimmed_evidence e = \<lparr>ae_ID = trim_space (ae_ID e), ae_Category = trim_space (ae_Category e),
     ae_Observation = trim_space (ae_Observation e), ae_Basis = trim_space (ae_Basis e)\<rparr>"

lemma text_ok_trim: "text_ok l b v \<Longrightarrow> trim_space v = v" and id_ok_trim: "id_ok v \<Longrightarrow> trim_space v = v"
  by (simp_all add: text_ok_def id_ok_def)

lemma Inr_cases:
  assumes "\<And>y. x = Inr y \<longleftrightarrow> y = v \<and> P"
  shows "\<exists>e. x = (if P then Inr v else Inl e)"
  using assms[of v] assms by (cases x) auto

lemma card_text_cases:
  obtains e where "card_text name v limit required = (if text_ok limit required (trim_space v) then Inr (trim_space v) else Inl e)"
proof (cases "card_text name v limit required")
  case (Inl e)
  then have "\<not> text_ok limit required (trim_space v)" using card_text_Inr[of name v limit required "trim_space v"] by auto
  then show ?thesis using that[of e] Inl by simp
next
  case (Inr t)
  then have "t = trim_space v" "text_ok limit required t" using iffD1[OF card_text_Inr Inr] by blast+
  then show ?thesis using that Inr by simp
qed

lemma evidenceID_cases:
  obtains e where "validateEvidenceID v = (if id_ok (trim_space v) then Inr (trim_space v) else Inl e)"
proof (cases "validateEvidenceID v")
  case (Inl e)
  then have "\<not> id_ok (trim_space v)" using validateEvidenceID_Inr[of v "trim_space v"] by auto
  then show ?thesis using that[of e] Inl by simp
next
  case (Inr t)
  then have "t = trim_space v" "id_ok t" using iffD1[OF validateEvidenceID_Inr Inr] by blast+
  then show ?thesis using that Inr by simp
qed

lemma checked_evidence_Inr:
  "checked_evidence ulow i seen e = Inr e' \<longleftrightarrow> e' = trimmed_evidence e \<and> evidence_ok ulow e' \<and> ae_ID e' \<notin> set seen"
proof -
  obtain a where a: "validateEvidenceID (ae_ID e) = (if id_ok (trim_space (ae_ID e)) then Inr (trim_space (ae_ID e)) else Inl a)"
    by (rule evidenceID_cases)
  obtain b where b: "card_text (indexed ''evidence'' i ''.category'') (ae_Category e) maxCategory True
      = (if text_ok maxCategory True (trim_space (ae_Category e)) then Inr (trim_space (ae_Category e)) else Inl b)" by (rule card_text_cases)
  obtain c where c: "card_text (indexed ''evidence'' i ''.observation'') (ae_Observation e) maxObservation True
      = (if text_ok maxObservation True (trim_space (ae_Observation e)) then Inr (trim_space (ae_Observation e)) else Inl c)" by (rule card_text_cases)
  obtain d where d: "card_text (indexed ''evidence'' i ''.basis'') (ae_Basis e) maxBasis False
      = (if text_ok maxBasis False (trim_space (ae_Basis e)) then Inr (trim_space (ae_Basis e)) else Inl d)" by (rule card_text_cases)
  show ?thesis unfolding checked_evidence_def a b c d by (auto simp: evidence_ok_def trimmed_evidence_def)
qed

lemma checked_evidences_Inr:
  "checked_evidences ulow i seen es = Inr es' \<longleftrightarrow> es' = map trimmed_evidence es \<and> list_all (evidence_ok ulow) es'
    \<and> distinct (map ae_ID es') \<and> set (map ae_ID es') \<inter> set seen = {}"
proof (induction es arbitrary: i seen es')
  case (Cons e es)
  show ?case
  proof (cases "checked_evidence ulow i seen e")
    case (Inl err)
    then have "\<not> (evidence_ok ulow (trimmed_evidence e) \<and> ae_ID (trimmed_evidence e) \<notin> set seen)"
      using checked_evidence_Inr[of ulow i seen e "trimmed_evidence e"] by auto
    then show ?thesis by (auto simp: Inl)
  next
    case (Inr e')
    have e': "e' = trimmed_evidence e" "evidence_ok ulow e'" "ae_ID e' \<notin> set seen" using iffD1[OF checked_evidence_Inr Inr] by blast+
    show ?thesis
    proof (cases "checked_evidences ulow (Suc i) (ae_ID e' # seen) es")
      case (Inl err)
      then have "\<not> (list_all (evidence_ok ulow) (map trimmed_evidence es) \<and> distinct (map ae_ID (map trimmed_evidence es))
          \<and> set (map ae_ID (map trimmed_evidence es)) \<inter> set (ae_ID e' # seen) = {})"
        using Cons.IH[of "Suc i" "ae_ID e' # seen" "map trimmed_evidence es"] by auto
      moreover have "checked_evidences ulow i seen (e # es) = Inl err" by (simp add: Inr Inl)
      ultimately show ?thesis unfolding e'(1) by (auto simp del: checked_evidences.simps)
    next
      case rest: (Inr es1)
      have "es1 = map trimmed_evidence es" "list_all (evidence_ok ulow) es1" "distinct (map ae_ID es1)"
        "set (map ae_ID es1) \<inter> set (ae_ID e' # seen) = {}"
        using iffD1[OF Cons.IH rest] by blast+
      moreover have "checked_evidences ulow i seen (e # es) = Inr (e' # es1)" by (simp add: Inr rest)
      ultimately show ?thesis using e' by (auto simp: disjoint_iff simp del: checked_evidences.simps)
    qed
  qed
qed auto

definition lowered_scope :: "(nat \<Rightarrow> nat) \<Rightarrow> ai_scope \<Rightarrow> ai_scope" where
  "lowered_scope ulow s = s\<lparr>sc_Label := to_lower ulow (trim_space (sc_Label s))\<rparr>"

lemma checked_scope_Inr:
  "checked_scope ulow i s = Inr s' \<longleftrightarrow> s' = lowered_scope ulow s \<and> text_ok maxScopeLabel True (trim_space (sc_Label s)) \<and> scope_ok s'"
proof -
  obtain b where b: "card_text (indexed ''scope_labels'' i ''.label'') (sc_Label s) maxScopeLabel True
      = (if text_ok maxScopeLabel True (trim_space (sc_Label s)) then Inr (trim_space (sc_Label s)) else Inl b)" by (rule card_text_cases)
  show ?thesis unfolding checked_scope_def b by (auto simp: scope_ok_def lowered_scope_def Let_def)
qed

lemma checked_scopes_Inr:
  "checked_scopes ulow i ss = Inr ss' \<longleftrightarrow> ss' = map (lowered_scope ulow) ss
    \<and> list_all (\<lambda>s. text_ok maxScopeLabel True (trim_space (sc_Label s))) ss \<and> list_all scope_ok ss'"
proof (induction ss arbitrary: i ss')
  case (Cons s ss)
  show ?case
  proof (cases "checked_scope ulow i s")
    case (Inl err)
    then have "\<not> (text_ok maxScopeLabel True (trim_space (sc_Label s)) \<and> scope_ok (lowered_scope ulow s))"
      using checked_scope_Inr[of ulow i s "lowered_scope ulow s"] by auto
    then show ?thesis by (auto simp: Inl)
  next
    case (Inr s')
    have s': "s' = lowered_scope ulow s" "text_ok maxScopeLabel True (trim_space (sc_Label s))" "scope_ok s'"
      using iffD1[OF checked_scope_Inr Inr] by blast+
    show ?thesis
    proof (cases "checked_scopes ulow (Suc i) ss")
      case (Inl err)
      then have "\<not> (list_all (\<lambda>s. text_ok maxScopeLabel True (trim_space (sc_Label s))) ss \<and> list_all scope_ok (map (lowered_scope ulow) ss))"
        using Cons.IH[of "Suc i" "map (lowered_scope ulow) ss"] by auto
      moreover have "checked_scopes ulow i (s # ss) = Inl err" by (simp add: Inr Inl)
      ultimately show ?thesis by (auto simp del: checked_scopes.simps)
    next
      case rest: (Inr ss1)
      have "ss1 = map (lowered_scope ulow) ss" "list_all (\<lambda>s. text_ok maxScopeLabel True (trim_space (sc_Label s))) ss" "list_all scope_ok ss1"
        using iffD1[OF Cons.IH rest] by blast+
      moreover have "checked_scopes ulow i (s # ss) = Inr (s' # ss1)" by (simp add: Inr rest)
      ultimately show ?thesis using s' by (auto simp del: checked_scopes.simps)
    qed
  qed
qed auto

text \<open>The card that is sent.\<close>

definition trimmed_card :: "(nat \<Rightarrow> nat) \<Rightarrow> ai_input \<Rightarrow> ai_input" where
  "trimmed_card ulow c = \<lparr>ai_PeriodLabel = trim_space (ai_PeriodLabel c), ai_Timezone = trim_space (ai_Timezone c),
     ai_ScopeLabels = map (lowered_scope ulow) (ai_ScopeLabels c),
     ai_DataQuality = \<lparr>aqy_Level = trim_space (aqy_Level (ai_DataQuality c)), aqy_Note = trim_space (aqy_Note (ai_DataQuality c))\<rparr>,
     ai_Evidence = map trimmed_evidence (ai_Evidence c)\<rparr>"

lemma ValidateInput_Inr:
  "ValidateInput ulow c = Inr c' \<longleftrightarrow> c' = trimmed_card ulow c \<and> card_ok ulow c'
    \<and> list_all (\<lambda>s. text_ok maxScopeLabel True (trim_space (sc_Label s))) (ai_ScopeLabels c)"
proof -
  obtain a where a: "card_text ''period_label'' (ai_PeriodLabel c) maxPeriodLabel True
      = (if text_ok maxPeriodLabel True (trim_space (ai_PeriodLabel c)) then Inr (trim_space (ai_PeriodLabel c)) else Inl a)" by (rule card_text_cases)
  obtain b where b: "card_text ''timezone'' (ai_Timezone c) maxTimezone True
      = (if text_ok maxTimezone True (trim_space (ai_Timezone c)) then Inr (trim_space (ai_Timezone c)) else Inl b)" by (rule card_text_cases)
  obtain d where d: "card_text ''data_quality.level'' (aqy_Level (ai_DataQuality c)) maxQualityLevel True
      = (if text_ok maxQualityLevel True (trim_space (aqy_Level (ai_DataQuality c))) then Inr (trim_space (aqy_Level (ai_DataQuality c))) else Inl d)"
    by (rule card_text_cases)
  obtain e where e: "card_text ''data_quality.note'' (aqy_Note (ai_DataQuality c)) maxQualityNote False
      = (if text_ok maxQualityNote False (trim_space (aqy_Note (ai_DataQuality c))) then Inr (trim_space (aqy_Note (ai_DataQuality c))) else Inl e)"
    by (rule card_text_cases)
  let ?S = "checked_scopes ulow 0 (ai_ScopeLabels c)" and ?E = "checked_evidences ulow 0 [] (ai_Evidence c)"
  let ?sok = "list_all (\<lambda>s. text_ok maxScopeLabel True (trim_space (sc_Label s))) (ai_ScopeLabels c) \<and> list_all scope_ok (map (lowered_scope ulow) (ai_ScopeLabels c))"
  let ?eok = "list_all (evidence_ok ulow) (map trimmed_evidence (ai_Evidence c)) \<and> distinct (map ae_ID (map trimmed_evidence (ai_Evidence c)))"
  obtain f where f: "?S = (if ?sok then Inr (map (lowered_scope ulow) (ai_ScopeLabels c)) else Inl f)"
  proof -
    have "?S = Inr y \<longleftrightarrow> y = map (lowered_scope ulow) (ai_ScopeLabels c) \<and> ?sok" for y
      unfolding checked_scopes_Inr by (rule iffI; elim conjE; hypsubst; intro conjI refl; assumption)
    from Inr_cases[OF this] show ?thesis using that by blast
  qed
  obtain g where g: "?E = (if ?eok then Inr (map trimmed_evidence (ai_Evidence c)) else Inl g)"
  proof -
    have "?E = Inr y \<longleftrightarrow> y = map trimmed_evidence (ai_Evidence c) \<and> ?eok" for y
      unfolding checked_evidences_Inr list.set Int_empty_right by (rule iffI; elim conjE; hypsubst; intro conjI refl; assumption)
    from Inr_cases[OF this] show ?thesis using that by blast
  qed
  show ?thesis unfolding ValidateInput_def a b d e f g
    by (auto simp: trimmed_card_def card_ok_def)
qed

lemma allowed_label:
  assumes "l \<in> set allowedScopeLabels"
  shows "text_ok maxScopeLabel True l" "to_lower ulow l = l"
proof -
  have "list_all (\<lambda>l. trim_space l = l \<and> l \<noteq> [] \<and> rune_count l \<le> 80 \<and> list_all (\<lambda>r. 32 \<le> r \<and> r < 65536 \<and> r \<noteq> 58) (rune_list l)
      \<and> \<not> has_prefix l [CHR 0x7B] \<and> \<not> has_prefix l [CHR 0x5B] \<and> to_lower ulow l = l) allowedScopeLabels"
    by (simp add: allowedScopeLabels_def str_eval has_prefix_def to_lower_def lower_rune_def encode_rune_def char_of_def bit_0 del: runes.simps(2))
  then have l: "trim_space l = l" "l \<noteq> []" "rune_count l \<le> 80" "list_all (\<lambda>r. 32 \<le> r \<and> r < 65536 \<and> r \<noteq> 58) (rune_list l)"
    "\<not> has_prefix l [CHR 0x7B]" "\<not> has_prefix l [CHR 0x5B]" "to_lower ulow l = l"
    using assms unfolding list_all_iff by blast+
  have "58 \<notin> set (rune_list l)" using l(4) by (auto simp: list_all_iff)
  from no_colon_insensitive[OF this] show "text_ok maxScopeLabel True l"
    using l by (auto simp: text_ok_def maxScopeLabel_def list_all_iff)
  show "to_lower ulow l = l" by (rule l(7))
qed

lemma trimmed_checked: "evidence_ok ulow e \<Longrightarrow> trimmed_evidence e = e" "scope_ok s \<Longrightarrow> lowered_scope ulow s = s"
  using text_ok_trim allowed_label(1)[of "sc_Label s"] allowed_label(2)[of "sc_Label s" ulow]
  by (auto simp: evidence_ok_def trimmed_evidence_def id_ok_def text_ok_def scope_ok_def lowered_scope_def)

text \<open>C35: The card that leaves the machine. Whatever card is offered, one that passes is within every bound: at
  most twelve scope labels, all from the fixed list of shapes, at most five items of evidence with
  distinct opaque identities, no sensitive category, and every text trimmed, within its length, free of
  control characters, of raw JSON and of anything that looks like a labelled record. It is the offered
  card with its texts trimmed and its labels in lower case, nothing else; and checking it again
  accepts it unchanged.\<close>

theorem checked_card:
  assumes "ValidateInput ulow c = Inr c'"
  shows "card_ok ulow c' \<and> c' = trimmed_card ulow c \<and> ValidateInput ulow c' = Inr c'
    \<and> list_all (\<lambda>s. IsAggregateScopeLabel ulow (sc_Label s)) (ai_ScopeLabels c)"
proof -
  have c': "c' = trimmed_card ulow c" "card_ok ulow c'" using iffD1[OF ValidateInput_Inr assms] by blast+
  have s: "list_all scope_ok (ai_ScopeLabels c')" "list_all (evidence_ok ulow) (ai_Evidence c')" using c'(2) by (simp_all add: card_ok_def)
  have scopes: "map (lowered_scope ulow) (ai_ScopeLabels c') = ai_ScopeLabels c'" "map trimmed_evidence (ai_Evidence c') = ai_Evidence c'"
    using s trimmed_checked by (auto simp: list_all_iff intro!: map_idI)
  have t: "trim_space (ai_PeriodLabel c') = ai_PeriodLabel c'" "trim_space (ai_Timezone c') = ai_Timezone c'"
    "trim_space (aqy_Level (ai_DataQuality c')) = aqy_Level (ai_DataQuality c')" "trim_space (aqy_Note (ai_DataQuality c')) = aqy_Note (ai_DataQuality c')"
    using c'(2) text_ok_trim unfolding card_ok_def by blast+
  have "trimmed_card ulow c' = c'"
    unfolding trimmed_card_def scopes t by (cases c') simp
  moreover have "list_all (\<lambda>s. text_ok maxScopeLabel True (trim_space (sc_Label s))) (ai_ScopeLabels c')"
    using s(1) allowed_label(1) by (auto simp: list_all_iff scope_ok_def text_ok_trim[OF allowed_label(1)])
  ultimately have "ValidateInput ulow c' = Inr c'" using c'(2) by (simp add: ValidateInput_Inr)
  moreover have "list_all (\<lambda>s. IsAggregateScopeLabel ulow (sc_Label s)) (ai_ScopeLabels c)"
    using s(1) by (auto simp: c'(1) trimmed_card_def list_all_iff scope_ok_def lowered_scope_def IsAggregateScopeLabel_def)
  ultimately show ?thesis using c' by simp
qed

text \<open>A card with one item of evidence.\<close>

definition sample_card :: ai_input where
  "sample_card = \<lparr>ai_PeriodLabel = '' 7d '', ai_Timezone = ''UTC'', ai_ScopeLabels = [\<lparr>sc_Label = ''Overall'', sc_Count = 1\<rparr>],
     ai_DataQuality = \<lparr>aqy_Level = ''high'', aqy_Note = []\<rparr>,
     ai_Evidence = [\<lparr>ae_ID = ''e1'', ae_Category = ''momentum'', ae_Observation = ''up 5%'', ae_Basis = []\<rparr>]\<rparr>"

lemma short_text_ok:
  assumes "list_all (\<lambda>r. 32 \<le> r \<and> r \<noteq> 58) (rune_list v)" "trim_space v = v" "rune_count v \<le> limit" "required \<Longrightarrow> v \<noteq> []"
    and "\<not> has_prefix v [CHR 0x7B]" "\<not> has_prefix v [CHR 0x5B]"
  shows "text_ok limit required v"
proof -
  have "58 \<notin> set (rune_list v)" using assms(1) by (auto simp: list_all_iff)
  from no_colon_insensitive[OF this] show ?thesis using assms by (auto simp: text_ok_def list_all_iff)
qed


lemma sample_patterns: "\<not> MatchString sensitiveIdentifierPattern ''e1''" "\<not> MatchString sensitiveIdentifierPattern ''momentum''"
  by (simp_all add: MatchString_def str_eval sensitiveIdentifierPattern_def sensitive_labels_def re_start_def re_end_def fold_ascii_def
      del: runes.simps(2))

lemma sample_card_checked: "ValidateInput (\<lambda>r. r) sample_card = Inr (trimmed_card (\<lambda>r. r) sample_card)"
proof -
  have e: "trim_space '' 7d '' = ''7d''" "trim_space ''Overall'' = ''Overall''" "to_lower (\<lambda>r. r) ''Overall'' = ''overall''"
    "trim_space ''UTC'' = ''UTC''" "trim_space ''high'' = ''high''" "trim_space ''momentum'' = ''momentum''"
    "trim_space ''e1'' = ''e1''" "trim_space ''up 5%'' = ''up 5%''" "to_lower (\<lambda>r. r) ''momentum'' = ''momentum''"
    by (simp_all add: str_eval to_lower_def lower_rune_def encode_rune_def char_of_def bit_0 del: runes.simps(2))
  have t: "text_ok limit required v" if "v \<in> {''7d'', ''UTC'', ''high'', ''Overall'', ''momentum'', ''up 5%''}" "8 \<le> limit" for limit required v
    by (rule short_text_ok) (use that in \<open>auto simp: e str_eval has_prefix_def simp del: runes.simps(2)\<close>)
  have n: "text_ok limit False []" for limit by (rule short_text_ok) (simp_all add: rune_list_def rune_count_def has_prefix_def)
  have i: "id_ok ''e1''" by (simp add: id_ok_def e sample_patterns(1)) (simp add: str_eval maxEvidenceID_def del: runes.simps(2))
  show ?thesis
    unfolding ValidateInput_Inr
    by (simp add: sample_card_def trimmed_card_def card_ok_def trimmed_evidence_def lowered_scope_def scope_ok_def evidence_ok_def e t n i
        sample_patterns(2) isSensitiveCategory_def allowedScopeLabels_def maxPeriodLabel_def maxTimezone_def maxScopeLabels_def maxScopeLabel_def
        maxQualityLevel_def maxQualityNote_def maxEvidence_def maxCategory_def maxObservation_def maxBasis_def)
qed

theorem checked_card_witness:
  "card_ok (\<lambda>r. r) (trimmed_card (\<lambda>r. r) sample_card)
    \<and> ValidateInput (\<lambda>r. r) (trimmed_card (\<lambda>r. r) sample_card) = Inr (trimmed_card (\<lambda>r. r) sample_card)"
  using checked_card[OF sample_card_checked] by blast

lemma numbers_unseen:
  "ValidateOutput ulow \<lparr>ao_Title = ''Up 5x'', ao_Summary = ''Up 5x'', ao_EvidenceIDs = []\<rparr> evidence = None"
proof -
  have e: "trim_space ''Up 5x'' = ''Up 5x''" by (simp add: str_eval del: runes.simps(2))
  have t: "text_ok limit True ''Up 5x''" if "8 \<le> limit" for limit
    by (rule short_text_ok) (use that in \<open>auto simp: e str_eval has_prefix_def simp del: runes.simps(2)\<close>)
  have "FindAllString numberPattern ''Up 5x Up 5x'' = []"
    by (simp add: FindAllString_def numberPattern_def str_eval re_boundary_def re_digit_def re_opt_def is_word_rune_def
        fold_ascii_def ends.simps(6) del: runes.simps(2))
  then show ?thesis
    unfolding ValidateOutput_None by (simp add: e t maxOutputTitle_def maxOutputSummary_def numbers_of_def id_ok_def)
qed


end
