(* ===== verification/Ai_Client.thy ===== *)
theory Ai_Client
  imports Ai_Card Sha256 Go_Zone
begin

text \<open>
  The client of \<open>internal/insights/synthesis.go\<close>: configuration, cache, request and the reading of the
  answer. The JSON codec, the URL parser and the transport are parameters.
\<close>

subsection \<open>Configuration\<close>

datatype ai_status =
    StatusDisabled | StatusReady | StatusCached | StatusTimeout | StatusError | StatusRefused | StatusInvalid | StatusUnavailable

record ai_cache_entry =
  ce_output :: ai_output
  ce_expires :: instant

record ai_config =
  cf_BaseURL :: gostr
  cf_Model :: gostr
  cf_APIKey :: gostr
  cf_Timeout :: i64
  cf_CacheTTL :: i64

record ai_client =
  cl_baseURL :: gostr
  cl_model :: gostr
  cl_apiKey :: gostr
  cl_timeout :: i64
  cl_cacheTTL :: i64
  cl_cache :: "(gostr \<times> ai_cache_entry) list"

definition ai_defaultBaseURL :: gostr where "ai_defaultBaseURL = ''https://api.openai.com''"
definition ai_defaultModel :: gostr where "ai_defaultModel = ''gpt-5.6-luna''"
definition ai_defaultTimeout :: i64 where "ai_defaultTimeout = seconds 15"
definition ai_defaultCacheTTL :: i64 where "ai_defaultCacheTTL = minutes 5"

definition ai_New :: "ai_config \<Rightarrow> ai_client" where
  "ai_New cfg =
    (let base = trim_right_char (CHR ''/'') (trim_space (cf_BaseURL cfg)); model = trim_space (cf_Model cfg) in
     \<lparr>cl_baseURL = (if base = [] then ai_defaultBaseURL else base),
      cl_model = (if model = [] then ai_defaultModel else model),
      cl_apiKey = trim_space (cf_APIKey cfg),
      cl_timeout = (if cf_Timeout cfg \<le> 0 then ai_defaultTimeout else cf_Timeout cfg),
      cl_cacheTTL = (if cf_CacheTTL cfg = 0 then ai_defaultCacheTTL else cf_CacheTTL cfg),
      cl_cache = []\<rparr>)"

definition Disabled :: ai_client where
  "Disabled = ai_New \<lparr>cf_BaseURL = [], cf_Model = [], cf_APIKey = [], cf_Timeout = 0, cf_CacheTTL = 0\<rparr>"

subsection \<open>What the client depends on\<close>

text \<open>
  A message of the \<open>output\<close> list as its nested decoding gives it: undecodable, or type, text and
  content. The trailing value of a decoder is the end, another value or garbage.
\<close>

datatype ai_item = BadItem | AiItem gostr gostr "ai_item list"

datatype ai_trailing = AtEOF | TrailingValue | TrailingGarbage

datatype decoded_output = OutputMalformed | OutputDecoded ai_output ai_trailing

text \<open>\<open>error\<close> is the raw text of the field, empty when it is missing.\<close>

record ai_envelope =
  rp_status :: gostr
  rp_output_text :: gostr
  rp_output :: "ai_item list"
  rp_error :: gostr

datatype transport = NotBuilt | TimedOut | Failed | ReadFailed | Answered int gostr

record ai_sent =
  ax_url :: gostr
  ax_authorization :: gostr
  ax_body :: gostr

record ai_env =
  av_ulow :: "nat \<Rightarrow> nat"
  av_ufold :: "nat \<Rightarrow> nat"
  av_url :: "gostr \<Rightarrow> (gostr \<times> gostr) option"
  av_input :: "ai_input \<Rightarrow> gostr option"
  av_card :: "ai_input \<Rightarrow> gostr option"
  av_body :: "gostr \<Rightarrow> gostr \<Rightarrow> gostr option"
  av_send :: "ai_sent \<Rightarrow> transport"
  av_envelope :: "gostr \<Rightarrow> ai_envelope option"
  av_value :: "gostr \<Rightarrow> json option"
  av_fields :: "gostr \<Rightarrow> (gostr \<times> gostr) list option"
  av_decode :: "gostr \<Rightarrow> decoded_output"

datatype ai_error =
    DisabledError | ConfigurationError | InputError card_issue | EncodingError | RequestError | TimeoutError | TransportError
  | ReadError | BodyTooLarge | StatusCodeError int gostr | NotJSON | ApiError gostr | ResponseStatus gostr | ResponseIncomplete gostr
  | RefusedError gostr | NoOutputText | BadOutputText | MissingField gostr | MalformedOutput | TrailingJSON | MalformedTrailing
  | OutputError answer_issue

definition invalidConfiguration :: "ai_env \<Rightarrow> ai_client \<Rightarrow> bool" where
  "invalidConfiguration env c \<longleftrightarrow> trim_space (cl_baseURL c) = [] \<or> trim_space (cl_model c) = []
    \<or> (case av_url env (cl_baseURL c) of None \<Rightarrow> True | Some (scheme, host) \<Rightarrow> scheme = [] \<or> host = [])"

definition client_Status :: "ai_env \<Rightarrow> ai_client \<Rightarrow> ai_status" where
  "client_Status env c = (if cl_apiKey c = [] then StatusDisabled
     else if invalidConfiguration env c then StatusUnavailable else StatusReady)"

definition ClearCache :: "ai_client \<Rightarrow> ai_client" where "ClearCache c = c\<lparr>cl_cache := []\<rparr>"

subsection \<open>The cache\<close>

definition cached :: "gostr \<Rightarrow> instant \<Rightarrow> ai_client \<Rightarrow> ai_client \<times> ai_output option" where
  "cached key now c =
    (case map_of (cl_cache c) key of
       None \<Rightarrow> (c, None)
     | Some entry \<Rightarrow>
         if \<not> now < ce_expires entry then (c\<lparr>cl_cache := remove_key key (cl_cache c)\<rparr>, None)
         else (c, Some (ce_output entry)))"

definition putCache :: "gostr \<Rightarrow> ai_output \<Rightarrow> instant \<Rightarrow> ai_client \<Rightarrow> ai_client" where
  "putCache key output expires c = c\<lparr>cl_cache := upsert key \<lparr>ce_output = output, ce_expires = expires\<rparr> (cl_cache c)\<rparr>"

definition inputHash :: "ai_env \<Rightarrow> ai_input \<Rightarrow> gostr option" where
  "inputHash env input = map_option (\<lambda>encoded. hex_encode (sha256_sum encoded)) (av_input env input)"

subsection \<open>Reading the answer\<close>

definition ai_maxHTTPBodyBytes :: nat where "ai_maxHTTPBodyBytes = 1048576"

definition compactBody :: "gostr \<Rightarrow> gostr" where
  "compactBody body = (let text = trim_space body in if 512 < length text then take 512 text @ encode_rune 0x2026 else text)"

definition fence :: gostr where "fence = replicate 3 (CHR 0x60)"

definition stripJSONFence :: "(nat \<Rightarrow> nat) \<Rightarrow> gostr \<Rightarrow> gostr" where
  "stripJSONFence ufold text0 =
    (let text = trim_space text0 in
     if \<not> has_prefix text fence \<or> \<not> has_suffix text fence then text
     else (let text = trim_space (take (length text - 3) text) in
       case cut_on (CHR 0x0A) text of (line, rest, found) \<Rightarrow>
         if found then
           (let language = trim_space line in
            if equal_fold ufold language fence \<or> equal_fold ufold language (fence @ ''json'') then trim_space rest else text)
         else trim_space (trim_prefix text fence)))"

fun findOutputText :: "(nat \<Rightarrow> nat) \<Rightarrow> ai_item list \<Rightarrow> gostr" where
  "findOutputText ufold [] = []"
| "findOutputText ufold (BadItem # items) = findOutputText ufold items"
| "findOutputText ufold (AiItem kind text content # items) =
    (if equal_fold ufold kind ''output_text'' \<and> trim_space text \<noteq> [] then text
     else (let inner = findOutputText ufold content in if inner \<noteq> [] then inner else findOutputText ufold items))"

text \<open>The members of an object come in the order in which the map is iterated.\<close>

definition text_member :: "gostr \<Rightarrow> (gostr \<times> json) list \<Rightarrow> gostr option" where
  "text_member key members = (case map_of members key of Some (JStr s) \<Rightarrow> Some s | _ \<Rightarrow> None)"

fun findRefusalValue :: "(nat \<Rightarrow> nat) \<Rightarrow> json \<Rightarrow> gostr"
  and findRefusalMembers :: "(nat \<Rightarrow> nat) \<Rightarrow> (gostr \<times> json) list \<Rightarrow> gostr"
  and findRefusalItems :: "(nat \<Rightarrow> nat) \<Rightarrow> json list \<Rightarrow> gostr" where
  "findRefusalValue ufold (JObj members) =
    (case text_member ''type'' members of
       Some kind \<Rightarrow> (if equal_fold ufold kind ''refusal''
         then (case text_member ''refusal'' members of Some s \<Rightarrow> trim_space s | None \<Rightarrow> ''provider refusal'')
         else findRefusalMembers ufold members)
     | None \<Rightarrow> findRefusalMembers ufold members)"
| "findRefusalValue ufold (JArr items) = findRefusalItems ufold items"
| "findRefusalValue ufold JNull = []"
| "findRefusalValue ufold (JBool b) = []"
| "findRefusalValue ufold (JNum x) = []"
| "findRefusalValue ufold (JInt n) = []"
| "findRefusalValue ufold (JStr s) = []"
| "findRefusalValue ufold JOther = []"
| "findRefusalMembers ufold [] = []"
| "findRefusalMembers ufold ((key, child) # rest) =
    (let own = (if equal_fold ufold key ''refusal'' then (case child of JStr s \<Rightarrow> trim_space s | _ \<Rightarrow> []) else []) in
     if own \<noteq> [] then own
     else (let inner = findRefusalValue ufold child in if inner \<noteq> [] then inner else findRefusalMembers ufold rest))"
| "findRefusalItems ufold [] = []"
| "findRefusalItems ufold (v # vs) =
    (let inner = findRefusalValue ufold v in if inner \<noteq> [] then inner else findRefusalItems ufold vs)"

definition findRefusal :: "ai_env \<Rightarrow> gostr \<Rightarrow> gostr" where
  "findRefusal env body = (case av_value env body of None \<Rightarrow> [] | Some v \<Rightarrow> findRefusalValue (av_ufold env) v)"

definition missing_field :: "(gostr \<times> gostr) list \<Rightarrow> gostr option" where
  "missing_field members = List.find (\<lambda>key. case map_of members key of None \<Rightarrow> True | Some raw \<Rightarrow> trim_space raw = ''null'')
     [''title'', ''summary'', ''evidence_ids'']"

definition parse_output :: "ai_env \<Rightarrow> gostr \<Rightarrow> ai_evidence list \<Rightarrow> (ai_status \<times> ai_error) + ai_output" where
  "parse_output env text evidence =
    (case av_fields env text of None \<Rightarrow> Inl (StatusInvalid, BadOutputText) | Some members \<Rightarrow>
    (case missing_field members of Some key \<Rightarrow> Inl (StatusInvalid, MissingField key) | None \<Rightarrow>
    (case av_decode env text of OutputMalformed \<Rightarrow> Inl (StatusInvalid, MalformedOutput) | OutputDecoded output after \<Rightarrow>
     if after = TrailingValue then Inl (StatusInvalid, TrailingJSON)
     else if after = TrailingGarbage then Inl (StatusInvalid, MalformedTrailing)
     else (case ValidateOutput (av_ulow env) output evidence of
       Some e \<Rightarrow> Inl (StatusInvalid, OutputError e) | None \<Rightarrow> Inr output))))"

definition parseResponse :: "ai_env \<Rightarrow> gostr \<Rightarrow> ai_evidence list \<Rightarrow> (ai_status \<times> ai_error) + ai_output" where
  "parseResponse env body evidence =
    (case av_envelope env body of None \<Rightarrow> Inl (StatusInvalid, NotJSON) | Some e \<Rightarrow>
     if rp_error e \<noteq> [] \<and> rp_error e \<noteq> ''null'' then Inl (StatusError, ApiError (compactBody (rp_error e)))
     else (let status = to_lower (av_ulow env) (trim_space (rp_status e)) in
       if status \<in> {''failed'', ''cancelled''} then Inl (StatusError, ResponseStatus status)
       else if status \<in> {''incomplete'', ''in_progress'', ''queued''} then Inl (StatusError, ResponseIncomplete status)
       else (let refusal = findRefusal env body in
         if refusal \<noteq> [] then Inl (StatusRefused, RefusedError refusal)
         else (let text = trim_space (rp_output_text e);
                   text = (if text = [] then findOutputText (av_ufold env) (rp_output e) else text)
           in if text = [] then Inl (StatusInvalid, NoOutputText)
              else parse_output env (stripJSONFence (av_ufold env) text) evidence))))"

subsection \<open>The request\<close>

definition prompt_text :: "gostr \<Rightarrow> gostr" where
  "prompt_text cardJSON = ''Create a concise aggregate insight. Return only JSON matching the supplied schema. Use only supplied evidence references and do not invent quantities.''
     @ [CHR 0x0A] @ ''Aggregate card:'' @ [CHR 0x0A] @ cardJSON"

text \<open>\<open>av_body\<close> encodes the request for the model and the text; the schema in it is fixed.\<close>

definition buildRequestBody :: "ai_env \<Rightarrow> gostr \<Rightarrow> ai_input \<Rightarrow> gostr option" where
  "buildRequestBody env model input = Option.bind (av_card env input) (\<lambda>cardJSON. av_body env model (prompt_text cardJSON))"

definition ai_request :: "ai_env \<Rightarrow> ai_client \<Rightarrow> ai_input \<Rightarrow> ai_sent list \<times> ((ai_status \<times> ai_error) + ai_output)" where
  "ai_request env c input =
    (case buildRequestBody env (cl_model c) input of
       None \<Rightarrow> ([], Inl (StatusInvalid, EncodingError))
     | Some body \<Rightarrow>
        (let request = \<lparr>ax_url = cl_baseURL c @ ''/v1/responses'', ax_authorization = ''Bearer '' @ cl_apiKey c, ax_body = body\<rparr> in
         case av_send env request of
           NotBuilt \<Rightarrow> ([], Inl (StatusUnavailable, RequestError))
         | TimedOut \<Rightarrow> ([request], Inl (StatusTimeout, TimeoutError))
         | Failed \<Rightarrow> ([request], Inl (StatusError, TransportError))
         | ReadFailed \<Rightarrow> ([request], Inl (StatusError, ReadError))
         | Answered status answer \<Rightarrow> ([request],
             if ai_maxHTTPBodyBytes < length answer then Inl (StatusError, BodyTooLarge)
             else if status < 200 \<or> 300 \<le> status then Inl (StatusError, StatusCodeError status (compactBody answer))
             else parseResponse env answer (ai_Evidence input))))"

subsection \<open>A synthesis\<close>

record ai_result =
  ar_Output :: "ai_output option"
  ar_Status :: ai_status
  ar_Cached :: bool
  ar_Fallback :: bool
  ar_Err :: "ai_error option"

definition fallback :: "ai_status \<Rightarrow> ai_error \<Rightarrow> ai_result" where
  "fallback status e = \<lparr>ar_Output = None, ar_Status = status, ar_Cached = False, ar_Fallback = True, ar_Err = Some e\<rparr>"

text \<open>The clock is read when the cache is asked and again when the answer is kept.\<close>

definition SynthesizeResult ::
  "ai_env \<Rightarrow> instant \<Rightarrow> instant \<Rightarrow> ai_client \<Rightarrow> ai_input \<Rightarrow> ai_client \<times> ai_sent list \<times> ai_result" where
  "SynthesizeResult env now now' c input =
    (if cl_apiKey c = [] then (c, [], fallback StatusDisabled DisabledError)
     else if invalidConfiguration env c then (c, [], fallback StatusUnavailable ConfigurationError)
     else (case ValidateInput (av_ulow env) input of
       Inl e \<Rightarrow> (c, [], fallback StatusInvalid (InputError e))
     | Inr sanitized \<Rightarrow>
        (case inputHash env sanitized of
           None \<Rightarrow> (c, [], fallback StatusInvalid EncodingError)
         | Some key \<Rightarrow>
            (case cached key now c of
               (c, Some output) \<Rightarrow> (c, [], \<lparr>ar_Output = Some output, ar_Status = StatusCached, ar_Cached = True, ar_Fallback = False, ar_Err = None\<rparr>)
             | (c, None) \<Rightarrow>
                (case ai_request env c sanitized of
                   (sent, Inl (status, e)) \<Rightarrow> (c, sent, fallback status e)
                 | (sent, Inr output) \<Rightarrow>
                     (if 0 < cl_cacheTTL c then putCache key output (now' + cl_cacheTTL c) c else c, sent,
                      \<lparr>ar_Output = Some output, ar_Status = StatusReady, ar_Cached = False, ar_Fallback = False, ar_Err = None\<rparr>))))))"

definition Synthesize :: "ai_env \<Rightarrow> instant \<Rightarrow> instant \<Rightarrow> ai_client \<Rightarrow> ai_input \<Rightarrow> ai_client \<times> ai_sent list \<times> (ai_error + ai_output)" where
  "Synthesize env now now' c input = (case SynthesizeResult env now now' c input of (c', sent, r) \<Rightarrow>
     (c', sent, case (ar_Err r, ar_Output r) of (None, Some output) \<Rightarrow> Inr output | (Some e, _) \<Rightarrow> Inl e | _ \<Rightarrow> Inl EncodingError))"

subsection \<open>What a synthesis does\<close>

text \<open>The cases of a synthesis.\<close>

lemma SynthesizeResult_cases:
  assumes "SynthesizeResult env now now' c input = (c', sent, r)"
  obtains (refused) status e where "c' = c" "sent = []" "r = fallback status e" "status \<noteq> StatusReady"
  | (hit) sanitized key answer where "cl_apiKey c \<noteq> []" "ValidateInput (av_ulow env) input = Inr sanitized" "inputHash env sanitized = Some key"
      "cached key now c = (c', Some answer)" "sent = []" "ar_Output r = Some answer" "ar_Status r = StatusCached" "ar_Err r = None"
  | (failed) sanitized key status e where "cl_apiKey c \<noteq> []" "ValidateInput (av_ulow env) input = Inr sanitized" "inputHash env sanitized = Some key"
      "cached key now c = (c', None)" "ai_request env c' sanitized = (sent, Inl (status, e))" "r = fallback status e"
  | (fresh) sanitized key answer c1 where "cl_apiKey c \<noteq> []" "ValidateInput (av_ulow env) input = Inr sanitized" "inputHash env sanitized = Some key"
      "cached key now c = (c1, None)" "ai_request env c1 sanitized = (sent, Inr answer)"
      "c' = (if 0 < cl_cacheTTL c1 then putCache key answer (now' + cl_cacheTTL c1) c1 else c1)"
      "ar_Output r = Some answer" "ar_Status r = StatusReady" "ar_Err r = None"
proof (cases "cl_apiKey c = [] \<or> invalidConfiguration env c")
  case True
  then show ?thesis using assms refused by (auto simp: SynthesizeResult_def split: if_splits)
next
  case False
  note A = assms[unfolded SynthesizeResult_def]
  show ?thesis
  proof (cases "ValidateInput (av_ulow env) input")
    case (Inl e)
    then show ?thesis using A False refused by auto
  next
    case san: (Inr sanitized)
    show ?thesis
    proof (cases "inputHash env sanitized")
      case None
      then show ?thesis using A False san refused by auto
    next
      case key: (Some key)
      obtain c1 o1 where c1: "cached key now c = (c1, o1)" by (metis prod.exhaust)
      show ?thesis
      proof (cases o1)
        case (Some answer)
        then show ?thesis using A False san key c1 by (intro hit[of sanitized key answer]) auto
      next
        case None
        obtain s1 v where v: "ai_request env c1 sanitized = (s1, v)" by (metis prod.exhaust)
        show ?thesis
        proof (cases v)
          case (Inl e)
          then show ?thesis using A False san key c1 None v by (cases e) (intro failed[of sanitized key "fst e" "snd e"], auto)
        next
          case (Inr answer)
          then show ?thesis using A False san key c1 None v by (intro fresh[of sanitized key c1 answer]) auto
        qed
      qed
    qed
  qed
qed

lemma cached_keeps: "cached key now c = (c', v) \<Longrightarrow> set (cl_cache c') \<subseteq> set (cl_cache c) \<and> cl_apiKey c' = cl_apiKey c \<and> cl_model c' = cl_model c
    \<and> cl_baseURL c' = cl_baseURL c \<and> cl_cacheTTL c' = cl_cacheTTL c"
  by (auto simp: cached_def remove_key_def split: option.splits if_splits)

lemma ai_request_sends:
  "ai_request env c input = (sent, v) \<Longrightarrow> sent = [] \<or> (\<exists>cardJSON body. av_card env input = Some cardJSON
      \<and> av_body env (cl_model c) (prompt_text cardJSON) = Some body
      \<and> sent = [\<lparr>ax_url = cl_baseURL c @ ''/v1/responses'', ax_authorization = ''Bearer '' @ cl_apiKey c, ax_body = body\<rparr>])"
  by (auto simp: ai_request_def buildRequestBody_def Let_def bind_eq_Some_conv split: option.splits transport.splits)

lemma ai_request_checked: "ai_request env c input = (sent, Inr answer) \<Longrightarrow> ValidateOutput (av_ulow env) answer (ai_Evidence input) = None"
  by (auto simp: ai_request_def parseResponse_def parse_output_def Let_def split: option.splits transport.splits if_splits decoded_output.splits)

lemma ai_request_status: "ai_request env c input = (sent, Inl (status, e)) \<Longrightarrow> status \<noteq> StatusReady"
  by (auto simp: ai_request_def parseResponse_def parse_output_def Let_def split: option.splits transport.splits if_splits decoded_output.splits)

text \<open>C38: What is sent to the language model. A synthesis sends at most one request, and only with a key; its
  body is built from the checked card alone, so nothing of a card that fails a check leaves the
  machine, and without a key nothing does.\<close>

theorem synthesis_sends_checked_cards:
  assumes "SynthesizeResult env now now' c input = (c', sent, r)"
  shows "sent = [] \<or> cl_apiKey c \<noteq> [] \<and> (\<exists>checked cardJSON body. ValidateInput (av_ulow env) input = Inr checked \<and> card_ok (av_ulow env) checked
      \<and> av_card env checked = Some cardJSON \<and> av_body env (cl_model c) (prompt_text cardJSON) = Some body
      \<and> sent = [\<lparr>ax_url = cl_baseURL c @ ''/v1/responses'', ax_authorization = ''Bearer '' @ cl_apiKey c, ax_body = body\<rparr>])"
  using assms
proof (cases rule: SynthesizeResult_cases)
  case (failed sanitized key status e)
  then show ?thesis
    using ai_request_sends[OF failed(5)] cached_keeps[OF failed(4)] iffD1[OF ValidateInput_Inr failed(2)] by auto
next
  case (fresh sanitized key answer c1)
  then show ?thesis
    using ai_request_sends[OF fresh(5)] cached_keeps[OF fresh(4)] iffD1[OF ValidateInput_Inr fresh(2)] by auto
qed auto

text \<open>The clients that calls can reach; the transport may answer differently each time.\<close>

inductive ai_reach :: "ai_env \<Rightarrow> ai_client \<Rightarrow> bool" for env where
  "ai_reach env (ai_New cfg)"
| "ai_reach env c \<Longrightarrow> SynthesizeResult (env\<lparr>av_send := tr\<rparr>) now now' c input = (c', sent, r) \<Longrightarrow> ai_reach env c'"
| "ai_reach env c \<Longrightarrow> ai_reach env (ClearCache c)"

text \<open>An answer that was accepted for a card with this hash.\<close>

definition answers :: "ai_env \<Rightarrow> gostr \<Rightarrow> ai_output \<Rightarrow> bool" where
  "answers env key answer \<longleftrightarrow> (\<exists>checked. card_ok (av_ulow env) checked \<and> inputHash env checked = Some key
     \<and> ValidateOutput (av_ulow env) answer (ai_Evidence checked) = None)"

lemma inputHash_send [simp]: "inputHash (env\<lparr>av_send := tr\<rparr>) checked = inputHash env checked"
  by (simp add: inputHash_def)

lemma set_upsert_sub: "set (upsert k v m) \<subseteq> insert (k, v) (set m)"
  by (induction m) (auto split: if_splits)

lemma ValidateInput_card_ok: "ValidateInput ulow c = Inr c' \<Longrightarrow> card_ok ulow c'"
  using ValidateInput_Inr by blast

lemma fresh_answers:
  "ValidateInput (av_ulow env) input = Inr checked \<Longrightarrow> inputHash env checked = Some key \<Longrightarrow>
    ValidateOutput (av_ulow env) answer (ai_Evidence checked) = None \<Longrightarrow> answers env key answer"
  unfolding answers_def by (intro exI[of _ checked]) (simp add: ValidateInput_card_ok)

lemma reach_cache_answers: "ai_reach env c \<Longrightarrow> (key, entry) \<in> set (cl_cache c) \<Longrightarrow> answers env key (ce_output entry)"
proof (induction arbitrary: key entry rule: ai_reach.induct)
  case (2 c tr now now' input c' sent r)
  show ?case using 2(2)
  proof (cases rule: SynthesizeResult_cases)
    case (refused status e)
    then show ?thesis using 2(3,4) by auto
  next
    case (hit sanitized k answer)
    then show ?thesis using 2(3,4) cached_keeps by blast
  next
    case (failed sanitized k status e)
    then show ?thesis using 2(3,4) cached_keeps by blast
  next
    case (fresh sanitized k answer c1)
    have new: "answers env k answer"
      using fresh_answers[of env input sanitized k answer] fresh(2,3) ai_request_checked[OF fresh(5)] by simp
    have old: "answers env key (ce_output entry)" if "(key, entry) \<in> set (cl_cache c1)"
      using 2(3) that cached_keeps[OF fresh(4)] by blast
    have "(key, entry) \<in> insert (k, \<lparr>ce_output = answer, ce_expires = now' + cl_cacheTTL c1\<rparr>) (set (cl_cache c1))"
      using 2(4) set_upsert_sub[of k "\<lparr>ce_output = answer, ce_expires = now' + cl_cacheTTL c1\<rparr>" "cl_cache c1"]
      by (auto simp: fresh(6) putCache_def split: if_splits)
    then show ?thesis using new old by auto
  qed
qed (simp_all add: ai_New_def ClearCache_def Let_def)


text \<open>C40: The cache of the synthesis. After a ready answer, asking again with a card that checks to the same one
  returns that answer without any request until the time to live has passed, whatever the provider
  would say now; from that instant on the entry is dropped and the provider is asked again.\<close>

theorem synthesis_cached_until_expiry:
  assumes "SynthesizeResult env now now' c input = (c', sent, r)" "ar_Status r = StatusReady" "0 < cl_cacheTTL c"
    and "ValidateInput (av_ulow env) input' = ValidateInput (av_ulow env) input"
  shows "\<exists>checked key. ValidateInput (av_ulow env) input = Inr checked \<and> inputHash env checked = Some key
    \<and> SynthesizeResult (env\<lparr>av_send := tr\<rparr>) t t' c' input' =
      (if t < now' + cl_cacheTTL c
       then (c', [], \<lparr>ar_Output = ar_Output r, ar_Status = StatusCached, ar_Cached = True, ar_Fallback = False, ar_Err = None\<rparr>)
       else SynthesizeResult (env\<lparr>av_send := tr\<rparr>) t t' (c'\<lparr>cl_cache := remove_key key (cl_cache c')\<rparr>) input')"
  using assms(1)
proof (cases rule: SynthesizeResult_cases)
  case (fresh sanitized key answer c1)
  note k = cached_keeps[OF fresh(4)]
  have c': "c' = putCache key answer (now' + cl_cacheTTL c) c1" using fresh(6) assms(3) k by simp
  have "\<not> invalidConfiguration env c" using assms(1,2) fresh(1) by (auto simp: SynthesizeResult_def fallback_def)
  then have u: "cl_apiKey c' \<noteq> []" "\<not> invalidConfiguration (env\<lparr>av_send := tr\<rparr>) c'"
    using fresh(1) k by (simp_all add: c' putCache_def invalidConfiguration_def)
  have m: "map_of (cl_cache c') key = Some \<lparr>ce_output = answer, ce_expires = now' + cl_cacheTTL c\<rparr>"
    by (simp add: c' putCache_def)
  let ?c2 = "c'\<lparr>cl_cache := remove_key key (cl_cache c')\<rparr>"
  have u2: "cl_apiKey ?c2 \<noteq> []" "\<not> invalidConfiguration (env\<lparr>av_send := tr\<rparr>) ?c2" using u by (simp_all add: invalidConfiguration_def)
  have m2: "cached key t ?c2 = (?c2, None)" by (simp add: cached_def)
  have v: "ValidateInput (av_ulow env) input' = Inr sanitized" using assms(4) fresh(2) by simp
  show ?thesis
  proof (intro exI[of _ sanitized] exI[of _ key] conjI fresh(2,3))
    show "SynthesizeResult (env\<lparr>av_send := tr\<rparr>) t t' c' input' =
      (if t < now' + cl_cacheTTL c
       then (c', [], \<lparr>ar_Output = ar_Output r, ar_Status = StatusCached, ar_Cached = True, ar_Fallback = False, ar_Err = None\<rparr>)
       else SynthesizeResult (env\<lparr>av_send := tr\<rparr>) t t' ?c2 input')"
    proof (cases "t < now' + cl_cacheTTL c")
      case True
      then have "cached key t c' = (c', Some answer)" using m by (simp add: cached_def)
      then show ?thesis using True u v fresh by (simp add: SynthesizeResult_def)
    next
      case False
      then have "cached key t c' = (?c2, None)" using m by (simp add: cached_def)
      then show ?thesis using False u u2 v m2 fresh by (simp add: SynthesizeResult_def)
    qed
  qed
qed (use assms(2) ai_request_status in \<open>auto simp: fallback_def\<close>)

subsection \<open>Examples\<close>

text \<open>A provider that always gives the same short answer.\<close>

definition sample_answer :: ai_output where
  "sample_answer = \<lparr>ao_Title = ''Up 5x'', ao_Summary = ''Up 5x'', ao_EvidenceIDs = []\<rparr>"

definition sample_ai_env :: ai_env where
  "sample_ai_env = \<lparr>av_ulow = (\<lambda>r. r), av_ufold = (\<lambda>r. r), av_url = (\<lambda>u. Some (''https'', ''h'')), av_input = (\<lambda>c. Some ''c''),
     av_card = (\<lambda>c. Some ''c''), av_body = (\<lambda>m t. Some t), av_send = (\<lambda>q. Answered 200 ''r''),
     av_envelope = (\<lambda>b. Some \<lparr>rp_status = ''completed'', rp_output_text = ''t'', rp_output = [], rp_error = []\<rparr>),
     av_value = (\<lambda>b. Some (JObj [])), av_fields = (\<lambda>t. Some [(''title'', ''v''), (''summary'', ''v''), (''evidence_ids'', ''v'')]),
     av_decode = (\<lambda>t. OutputDecoded sample_answer AtEOF)\<rparr>"

definition sample_ai_config :: ai_config where
  "sample_ai_config = \<lparr>cf_BaseURL = ''https://h'', cf_Model = ''m'', cf_APIKey = ''k'', cf_Timeout = 0, cf_CacheTTL = 0\<rparr>"

lemma sample_client: "ai_New sample_ai_config = \<lparr>cl_baseURL = ''https://h'', cl_model = ''m'', cl_apiKey = ''k'',
    cl_timeout = ai_defaultTimeout, cl_cacheTTL = ai_defaultCacheTTL, cl_cache = []\<rparr>"
  by (simp add: ai_New_def sample_ai_config_def str_eval trim_right_char_def Let_def del: runes.simps(2))

lemma sample_ready:
  obtains key sent where "SynthesizeResult sample_ai_env 5 6 (ai_New sample_ai_config) sample_card =
    (putCache key sample_answer (6 + ai_defaultCacheTTL) (ai_New sample_ai_config), [sent],
     \<lparr>ar_Output = Some sample_answer, ar_Status = StatusReady, ar_Cached = False, ar_Fallback = False, ar_Err = None\<rparr>)"
proof -
  have v: "ValidateInput (av_ulow sample_ai_env) sample_card = Inr (trimmed_card (\<lambda>r. r) sample_card)"
    using sample_card_checked by (simp add: sample_ai_env_def)
  obtain key where k: "inputHash sample_ai_env x = Some key" for x by (simp add: inputHash_def sample_ai_env_def)
  have e: "trim_space ''completed'' = ''completed''" "to_lower (\<lambda>r. r) ''completed'' = ''completed''" "trim_space ''t'' = ''t''" "trim_space ''v'' = ''v''"
    "trim_space ''https://h'' = ''https://h''" "trim_space ''m'' = ''m''"
    by (simp_all add: str_eval to_lower_def lower_rune_def encode_rune_def char_of_def bit_0 del: runes.simps(2))
  have p: "parseResponse sample_ai_env b ev = Inr sample_answer" for b ev
    by (simp add: parseResponse_def parse_output_def sample_ai_env_def findRefusal_def text_member_def missing_field_def e
        stripJSONFence_def fence_def has_prefix_def numbers_unseen[folded sample_answer_def] Let_def)
  have f: "av_send sample_ai_env q = Answered 200 ''r''" for q by (simp add: sample_ai_env_def)
  have bb: "buildRequestBody sample_ai_env m x = Some (prompt_text ''c'')" for m x
    by (simp add: buildRequestBody_def sample_ai_env_def)
  have r: "\<exists>sent. ai_request sample_ai_env (ai_New sample_ai_config) x = ([sent], Inr sample_answer)" for x
    by (simp add: ai_request_def bb f p ai_maxHTTPBodyBytes_def Let_def)
  then obtain sent where r: "ai_request sample_ai_env (ai_New sample_ai_config) (trimmed_card (\<lambda>r. r) sample_card) = ([sent], Inr sample_answer)"
    by blast
  have "\<not> invalidConfiguration sample_ai_env (ai_New sample_ai_config)"
    by (simp add: invalidConfiguration_def sample_client e) (simp add: sample_ai_env_def)
  moreover have "0 < ai_defaultCacheTTL" by (simp add: ai_defaultCacheTTL_def minutes_def seconds_def nanos_per_second_def)
  ultimately show ?thesis
    using that[of key sent] k v r by (simp add: SynthesizeResult_def cached_def sample_client)
qed

theorem synthesis_sends_checked_cards_witness:
  "\<exists>c' sent r. SynthesizeResult sample_ai_env 5 6 (ai_New sample_ai_config) sample_card = (c', [sent], r)
    \<and> ax_authorization sent = ''Bearer k''"
proof -
  obtain key sent where s: "SynthesizeResult sample_ai_env 5 6 (ai_New sample_ai_config) sample_card =
    (putCache key sample_answer (6 + ai_defaultCacheTTL) (ai_New sample_ai_config), [sent],
     \<lparr>ar_Output = Some sample_answer, ar_Status = StatusReady, ar_Cached = False, ar_Fallback = False, ar_Err = None\<rparr>)"
    by (rule sample_ready)
  from synthesis_sends_checked_cards[OF s] show ?thesis using s by (auto simp: sample_client)
qed


theorem synthesis_cached_until_expiry_witness:
  "\<exists>c' sent r. SynthesizeResult sample_ai_env 5 6 (ai_New sample_ai_config) sample_card = (c', [sent], r)
    \<and> (case SynthesizeResult (sample_ai_env\<lparr>av_send := \<lambda>q. Failed\<rparr>) 7 8 c' sample_card of (c'', sent', r') \<Rightarrow>
         sent' = [] \<and> ar_Output r' = Some sample_answer)"
proof -
  obtain key sent where s: "SynthesizeResult sample_ai_env 5 6 (ai_New sample_ai_config) sample_card =
    (putCache key sample_answer (6 + ai_defaultCacheTTL) (ai_New sample_ai_config), [sent],
     \<lparr>ar_Output = Some sample_answer, ar_Status = StatusReady, ar_Cached = False, ar_Fallback = False, ar_Err = None\<rparr>)"
    by (rule sample_ready)
  have t: "0 < cl_cacheTTL (ai_New sample_ai_config)" "7 < 6 + cl_cacheTTL (ai_New sample_ai_config)"
    by (simp_all add: sample_client ai_defaultCacheTTL_def minutes_def seconds_def nanos_per_second_def)
  from synthesis_cached_until_expiry[OF s _ t(1) refl, of "\<lambda>q. Failed" 7 8] show ?thesis using s t(2) by auto
qed

end
