(* ===== verification/Sqlite_Handles.thy ===== *)
theory Sqlite_Handles
  imports Adapters_Core
begin

text \<open>
  \<open>SQLiteHandles\<close> of \<open>internal/adapters/sqlite.go\<close>: the bounded cache of read-only connections, as a
  map of entries and a recency list, and its refinement of a least-recently-used list. What the
  operating system and the driver answer (\<open>stat\<close>, \<open>ping\<close>, \<open>open\<close>) is an argument of each call.
\<close>

text \<open>The identity of a file: device, inode and whether the platform exposes them.\<close>

record file_id =
  fi_device :: nat
  fi_inode :: nat
  fi_identifiable :: bool

record handle =
  hd_conn :: nat
  hd_path :: gostr
  hd_file :: file_id

record handles =
  hs_entries :: "(gostr \<times> handle) list"
  hs_order :: "gostr list"
  hs_max :: nat

definition NewSQLiteHandles :: "int \<Rightarrow> handles" where
  "NewSQLiteHandles m = \<lparr>hs_entries = [], hs_order = [], hs_max = (if m \<le> 0 then 8 else nat m)\<rparr>"

definition handles_Len :: "handles \<Rightarrow> nat" where "handles_Len h = length (hs_entries h)"

text \<open>\<open>removeLocked\<close>: the recency element and the entry go together.\<close>

definition removeLocked :: "gostr \<Rightarrow> handles \<Rightarrow> handles" where
  "removeLocked path h = h\<lparr>hs_order := removeAll path (hs_order h), hs_entries := remove_key path (hs_entries h)\<rparr>"

definition drop_handle :: "gostr \<Rightarrow> handles \<Rightarrow> handles" where
  "drop_handle path h = (case map_of (hs_entries h) path of None \<Rightarrow> h | Some e \<Rightarrow> removeLocked path h)"

text \<open>Eviction of the least recently used handle when the cache is full.\<close>

definition make_room :: "handles \<Rightarrow> handles" where
  "make_room h =
    (if hs_max h \<le> length (hs_entries h)
     then (case hs_order h of [] \<Rightarrow> h
           | oldest # rest \<Rightarrow>
              (case map_of (hs_entries h) oldest of
                 None \<Rightarrow> h\<lparr>hs_order := rest\<rparr>
               | Some stale \<Rightarrow> removeLocked oldest h))
     else h)"

text \<open>What the outside answers during one call.\<close>

record outside =
  os_stat :: "go_err + file_id"
  os_ping :: bool
  os_open :: "go_err + nat"

definition open_handle :: "outside \<Rightarrow> gostr \<Rightarrow> file_id \<Rightarrow> handles \<Rightarrow> handles \<times> (go_err + nat)" where
  "open_handle w path f h =
    (case os_open w of Inl err \<Rightarrow> (h, Inl err)
     | Inr conn \<Rightarrow>
        (let h' = make_room h in
         (h'\<lparr>hs_order := hs_order h' @ [path],
             hs_entries := upsert path \<lparr>hd_conn = conn, hd_path = path, hd_file = f\<rparr> (hs_entries h')\<rparr>, Inr conn)))"

definition handles_Get :: "outside \<Rightarrow> gostr \<Rightarrow> handles \<Rightarrow> handles \<times> (go_err + nat)" where
  "handles_Get w path h =
    (case os_stat w of Inl err \<Rightarrow> (drop_handle path h, Inl err)
     | Inr f \<Rightarrow>
        (case map_of (hs_entries h) path of
           Some e \<Rightarrow>
             (if fi_identifiable f \<and> fi_device (hd_file e) = fi_device f \<and> fi_inode (hd_file e) = fi_inode f \<and> os_ping w
              then (h\<lparr>hs_order := removeAll path (hs_order h) @ [path]\<rparr>, Inr (hd_conn e))
              else open_handle w path f (removeLocked path h))
         | None \<Rightarrow> open_handle w path f h))"

definition handles_Close :: "handles \<Rightarrow> handles" where
  "handles_Close h = fold (\<lambda>path h. removeLocked path h) (keys_of (hs_entries h)) h"

text \<open>The operations as steps, for every answer of the outside.\<close>

inductive handles_step :: "handles \<Rightarrow> handles \<Rightarrow> bool" where
  step_get: "handles_Get w path h = (h', r) \<Longrightarrow> handles_step h h'"
| step_close: "handles_step h (handles_Close h)"

inductive_cases handles_stepE [elim]: "handles_step h h'"

inductive handles_reach :: "int \<Rightarrow> handles \<Rightarrow> bool" for m where
  reach_new: "handles_reach m (NewSQLiteHandles m)"
| reach_step: "handles_reach m h \<Longrightarrow> handles_step h h' \<Longrightarrow> handles_reach m h'"

subsection \<open>The invariant\<close>

definition handles_ok :: "handles \<Rightarrow> bool" where
  "handles_ok h \<longleftrightarrow> distinct (hs_order h) \<and> distinct (keys_of (hs_entries h))
    \<and> set (hs_order h) = fst ` set (hs_entries h) \<and> length (hs_entries h) \<le> hs_max h \<and> 0 < hs_max h
    \<and> list_all (\<lambda>(p, e). hd_path e = p) (hs_entries h)"

lemma removeLocked_fields [simp]:
  "hs_max (removeLocked p h) = hs_max h" "hs_order (removeLocked p h) = removeAll p (hs_order h)"
  "hs_entries (removeLocked p h) = remove_key p (hs_entries h)"
  by (simp_all add: removeLocked_def)

lemma removeLocked_ok: "handles_ok h \<Longrightarrow> handles_ok (removeLocked p h)"
  using length_remove_key_le[of p "hs_entries h"]
  by (auto simp: handles_ok_def distinct_removeAll distinct_keys_remove_key list_all_remove_key)

lemma drop_handle_ok: "handles_ok h \<Longrightarrow> handles_ok (drop_handle p h)"
  by (simp add: drop_handle_def removeLocked_ok split: option.split)

lemma length_order: "handles_ok h \<Longrightarrow> length (hs_order h) = length (hs_entries h)"
  by (metis distinct_card handles_ok_def length_map list.set_map)

lemma make_room_spec:
  assumes "handles_ok h"
  shows "handles_ok (make_room h)" "length (hs_entries (make_room h)) < hs_max h" "hs_max (make_room h) = hs_max h"
    "hs_order (make_room h) = (if hs_max h \<le> length (hs_order h) then tl (hs_order h) else hs_order h)"
    "map_of (hs_entries (make_room h)) = (if hs_max h \<le> length (hs_order h)
       then (map_of (hs_entries h))(hd (hs_order h) := None) else map_of (hs_entries h))"
proof -
  have len: "length (hs_order h) = length (hs_entries h)" by (rule length_order[OF assms])
  have all: "handles_ok (make_room h) \<and> length (hs_entries (make_room h)) < hs_max h \<and> hs_max (make_room h) = hs_max h
    \<and> hs_order (make_room h) = (if hs_max h \<le> length (hs_order h) then tl (hs_order h) else hs_order h)
    \<and> map_of (hs_entries (make_room h)) = (if hs_max h \<le> length (hs_order h)
       then (map_of (hs_entries h))(hd (hs_order h) := None) else map_of (hs_entries h))"
  proof (cases "hs_max h \<le> length (hs_entries h)")
    case True
    then obtain p rest where o: "hs_order h = p # rest" using assms len by (cases "hs_order h") (auto simp: handles_ok_def)
    then have p: "p \<in> fst ` set (hs_entries h)" "p \<notin> set rest" "distinct (keys_of (hs_entries h))"
      using assms by (auto simp: handles_ok_def)
    then obtain e where e: "map_of (hs_entries h) p = Some e" by (metis map_of_eq_None_iff not_None_eq)
    have m: "make_room h = removeLocked p h" using True o e by (simp add: make_room_def)
    have "length (hs_entries h) = hs_max h" using True assms by (simp add: handles_ok_def)
    moreover have "length (hs_entries h) \<noteq> 0" using len o by auto
    ultimately have "length (remove_key p (hs_entries h)) < hs_max h"
      using length_remove_key[OF p(3), of p] p(1) by simp
    then show ?thesis using m o True len p(2) removeLocked_ok[OF assms, of p] by simp
  next
    case False
    then show ?thesis using assms len by (simp add: make_room_def)
  qed
  then show "handles_ok (make_room h)" "length (hs_entries (make_room h)) < hs_max h" "hs_max (make_room h) = hs_max h"
    "hs_order (make_room h) = (if hs_max h \<le> length (hs_order h) then tl (hs_order h) else hs_order h)"
    "map_of (hs_entries (make_room h)) = (if hs_max h \<le> length (hs_order h)
       then (map_of (hs_entries h))(hd (hs_order h) := None) else map_of (hs_entries h))" by simp_all
qed

lemma set_tl_subset: "set (tl xs) \<subseteq> set xs"
  by (cases xs) auto

lemma open_handle_ok:
  assumes "handles_ok h" "path \<notin> set (hs_order h)"
  shows "handles_ok (fst (open_handle w path f h))"
proof (cases "os_open w")
  case (Inr conn)
  note r = make_room_spec[OF assms(1)]
  have np: "path \<notin> set (hs_order (make_room h))"
    using assms(2) set_tl_subset[of "hs_order h"] unfolding r(4) by (auto split: if_splits)
  then have nk: "path \<notin> fst ` set (hs_entries (make_room h))" using r(1) by (simp add: handles_ok_def)
  have "upsert path e (hs_entries (make_room h)) = hs_entries (make_room h) @ [(path, e)]" for e
    by (rule upsert_new[OF nk])
  then show ?thesis using Inr r np nk by (auto simp: open_handle_def Let_def handles_ok_def)
qed (simp add: open_handle_def assms)


lemma handles_Get_ok: "handles_ok h \<Longrightarrow> handles_ok (fst (handles_Get w path h))"
proof (cases "os_stat w")
  case (Inr f)
  assume ok: "handles_ok h"
  show ?thesis
  proof (cases "map_of (hs_entries h) path")
    case None
    then have "path \<notin> set (hs_order h)" using ok by (simp add: handles_ok_def map_of_eq_None_iff)
    then show ?thesis using ok Inr None open_handle_ok by (simp add: handles_Get_def)
  next
    case (Some e)
    then have "path \<in> set (hs_order h)" using ok by (auto simp: handles_ok_def dest: map_of_SomeD intro: rev_image_eqI)
    then have "handles_ok (h\<lparr>hs_order := removeAll path (hs_order h) @ [path]\<rparr>)"
      using ok by (auto simp: handles_ok_def distinct_removeAll)
    moreover have "handles_ok (fst (open_handle w path f (removeLocked path h)))"
      by (rule open_handle_ok[OF removeLocked_ok[OF ok]]) simp
    ultimately show ?thesis using Inr Some by (simp add: handles_Get_def)
  qed
qed (simp add: handles_Get_def drop_handle_ok)

lemma handles_Close_fold: "handles_ok h \<Longrightarrow> handles_ok (fold removeLocked ps h)"
  by (induction ps arbitrary: h) (simp_all add: removeLocked_ok)

lemma fold_removeLocked_entries:
  "fst ` set (hs_entries (fold removeLocked ps h)) = fst ` set (hs_entries h) - set ps"
  by (induction ps arbitrary: h) auto

lemma handles_Close_empty: "hs_entries (handles_Close h) = []"
  using fold_removeLocked_entries[of "keys_of (hs_entries h)" h] unfolding handles_Close_def by simp

text \<open>In every state the handle cache can reach, entries and recency list hold the same paths
  without repetition, every entry is filed under its own path, and there are never more handles
  than the maximum, which is positive (8 when a non-positive one is asked for).\<close>

theorem handles_reach_ok:
  assumes "handles_reach m h"
  shows "handles_ok h \<and> handles_Len h \<le> hs_max h \<and> hs_max h = (if m \<le> 0 then 8 else nat m)
    \<and> handles_Len (handles_Close h) = 0"
proof -
  have mx: "hs_max (fold removeLocked ps h) = hs_max h" for ps h by (induction ps arbitrary: h) simp_all
  have mo: "hs_max (make_room h) = hs_max h" for h
    by (auto simp: make_room_def removeLocked_def split: list.split option.split)
  have mg: "hs_max (fst (handles_Get w p h)) = hs_max h" for w p h
    by (auto simp: handles_Get_def open_handle_def drop_handle_def mo Let_def split: sum.splits option.splits)
  have "handles_ok h \<and> hs_max h = (if m \<le> 0 then 8 else nat m)"
    using assms
  proof induction
    case reach_new
    show ?case by (auto simp: NewSQLiteHandles_def handles_ok_def)
  next
    case (reach_step h h')
    from reach_step(2) show ?case
    proof cases
      case (step_get w path r)
      then show ?thesis using reach_step(3) handles_Get_ok[of h w path] mg[of w path h] by simp
    next
      case step_close
      then show ?thesis using reach_step(3) handles_Close_fold mx by (simp add: handles_Close_def)
    qed
  qed
  then show ?thesis by (auto simp: handles_ok_def handles_Len_def handles_Close_empty)
qed

definition sample_outside :: "nat \<Rightarrow> outside" where
  "sample_outside n = \<lparr>os_stat = Inr \<lparr>fi_device = 1, fi_inode = n, fi_identifiable = True\<rparr>, os_ping = True, os_open = Inr n\<rparr>"

definition two_opened :: handles where
  "two_opened = fst (handles_Get (sample_outside 2) ''b'' (fst (handles_Get (sample_outside 1) ''a'' (NewSQLiteHandles 1))))"

lemma two_opened_order: "hs_order two_opened = [''b'']"
  by (simp add: two_opened_def handles_Get_def sample_outside_def NewSQLiteHandles_def open_handle_def make_room_def
      Let_def removeLocked_def remove_key_def)

lemma two_opened_reach: "handles_reach 1 two_opened"
proof -
  have "handles_reach 1 (fst (handles_Get w p h))" if "handles_reach 1 h" for w p h
    by (rule reach_step[OF that step_get[of w p h _ "snd (handles_Get w p h)"]]) simp
  then show ?thesis unfolding two_opened_def using reach_new by blast
qed

theorem handles_reach_ok_witness:
  "handles_ok two_opened \<and> handles_Len two_opened \<le> 1 \<and> hs_order two_opened = [''b'']"
  using handles_reach_ok[OF two_opened_reach] two_opened_order by simp

subsection \<open>Refinement of a least-recently-used list\<close>

text \<open>The abstract cache: handles from the least to the most recently used.\<close>

type_synonym lru = "(gostr \<times> handle) list"

definition lru_view :: "(gostr \<rightharpoonup> handle) \<Rightarrow> gostr list \<Rightarrow> lru" where
  "lru_view f ps = map (\<lambda>p. (p, the (f p))) ps"

definition handles_abs :: "handles \<Rightarrow> lru" where
  "handles_abs h = lru_view (map_of (hs_entries h)) (hs_order h)"

definition lru_use :: "nat \<Rightarrow> gostr \<Rightarrow> handle \<Rightarrow> lru \<Rightarrow> lru" where
  "lru_use m p e c = (let c' = remove_key p c in (if m \<le> length c' then tl c' else c') @ [(p, e)])"

definition fresh_handle :: "nat \<Rightarrow> gostr \<Rightarrow> file_id \<Rightarrow> handle" where
  "fresh_handle conn path f = \<lparr>hd_conn = conn, hd_path = path, hd_file = f\<rparr>"

definition same_file :: "file_id \<Rightarrow> handle \<Rightarrow> bool" where
  "same_file f e \<longleftrightarrow> fi_identifiable f \<and> fi_device (hd_file e) = fi_device f \<and> fi_inode (hd_file e) = fi_inode f"

definition lru_Get :: "outside \<Rightarrow> nat \<Rightarrow> gostr \<Rightarrow> lru \<Rightarrow> lru \<times> (go_err + nat)" where
  "lru_Get w m path c =
    (case os_stat w of Inl err \<Rightarrow> (remove_key path c, Inl err)
     | Inr f \<Rightarrow>
        (case map_of c path of
           Some e \<Rightarrow>
             if same_file f e \<and> os_ping w then (remove_key path c @ [(path, e)], Inr (hd_conn e))
             else (case os_open w of Inl err \<Rightarrow> (remove_key path c, Inl err)
                   | Inr conn \<Rightarrow> (lru_use m path (fresh_handle conn path f) c, Inr conn))
         | None \<Rightarrow> (case os_open w of Inl err \<Rightarrow> (c, Inl err)
                   | Inr conn \<Rightarrow> (lru_use m path (fresh_handle conn path f) c, Inr conn))))"

lemma view_simps [simp]:
  "lru_view f [] = []" "lru_view f (ps @ qs) = lru_view f ps @ lru_view f qs" "lru_view f [p] = [(p, the (f p))]"
  "tl (lru_view f ps) = lru_view f (tl ps)" "length (lru_view f ps) = length ps"
  by (simp_all add: lru_view_def map_tl)

lemma map_of_view: "map_of (lru_view f ps) p = (if p \<in> set ps then Some (the (f p)) else None)"
  by (induction ps) (auto simp: lru_view_def)

lemma view_remove: "remove_key p (lru_view f ps) = lru_view f (removeAll p ps)"
  by (induction ps) (auto simp: lru_view_def remove_key_def)

lemma view_upd [simp]: "p \<notin> set ps \<Longrightarrow> lru_view (f(p := x)) ps = lru_view f ps"
  by (auto simp: lru_view_def)

lemma map_of_abs: "handles_ok h \<Longrightarrow> map_of (handles_abs h) p = map_of (hs_entries h) p"
proof -
  assume ok: "handles_ok h"
  have "p \<in> set (hs_order h) \<longleftrightarrow> map_of (hs_entries h) p \<noteq> None"
    using ok by (simp add: handles_ok_def map_of_eq_None_iff)
  then show ?thesis by (cases "map_of (hs_entries h) p") (simp_all add: handles_abs_def map_of_view)
qed

lemma abs_remove: "handles_abs (removeLocked p h) = remove_key p (handles_abs h)"
  by (simp add: handles_abs_def view_remove)

lemma remove_key_id: "k \<notin> fst ` set m \<Longrightarrow> remove_key k m = m"
  by (induction m) (auto simp: remove_key_def)

lemma keys_abs: "fst ` set (handles_abs h) = set (hs_order h)"
  by (force simp: handles_abs_def lru_view_def)

lemma abs_open:
  assumes "handles_ok h" "path \<notin> set (hs_order h)" "os_open w = Inr conn"
  shows "handles_abs (fst (open_handle w path f h)) = lru_use (hs_max h) path (fresh_handle conn path f) (handles_abs h)"
proof -
  note r = make_room_spec[OF assms(1)]
  have np: "path \<notin> set (hs_order (make_room h))"
    using assms(2) set_tl_subset[of "hs_order h"] unfolding r(4) by (auto split: if_splits)
  have v: "lru_view (map_of (hs_entries (make_room h))) (hs_order (make_room h))
    = (if hs_max h \<le> length (hs_order h) then tl (handles_abs h) else handles_abs h)"
  proof (cases "hs_max h \<le> length (hs_order h)")
    case True
    have "distinct (hs_order h)" using assms(1) by (simp add: handles_ok_def)
    then have "hd (hs_order h) \<notin> set (tl (hs_order h))" by (cases "hs_order h") auto
    then show ?thesis using True unfolding r(4,5) handles_abs_def by simp
  qed (use r(4,5) in \<open>simp add: handles_abs_def\<close>)
  have "remove_key path (handles_abs h) = handles_abs h"
    using assms(2) by (intro remove_key_id) (simp add: keys_abs)
  moreover have "length (handles_abs h) = length (hs_order h)" by (simp add: handles_abs_def)
  ultimately show ?thesis
    using assms(3) np v by (simp add: open_handle_def handles_abs_def[of "_\<lparr>hs_order := _, hs_entries := _\<rparr>"]
        lru_use_def Let_def fresh_handle_def)
qed

text \<open>C16: The map of handles with its recency list implements a least-recently-used list: \<open>Get\<close> answers
  what the abstract cache answers and leaves the state that stands for its result. A connection
  is served from the cache only when the file identity is known and unchanged and the
  connection answers; it is otherwise opened anew, evicting the least recently used one.\<close>

theorem handles_Get_refines:
  assumes "handles_ok h"
  shows "(let (h', r) = handles_Get w path h in (handles_abs h', r)) = lru_Get w (hs_max h) path (handles_abs h)
    \<and> handles_ok (fst (handles_Get w path h))"
proof -
  have ok: "handles_ok (removeLocked path h)" by (rule removeLocked_ok[OF assms])
  have absent: "path \<notin> set (hs_order h)" "path \<notin> fst ` set (handles_abs h)" if "map_of (hs_entries h) path = None"
    using that assms by (simp_all add: handles_ok_def map_of_eq_None_iff keys_abs)
  have again: "lru_use m path e (remove_key path c) = lru_use m path e c" for m e c
    by (simp add: lru_use_def remove_key_def)
  have move: "handles_abs (h\<lparr>hs_order := removeAll path (hs_order h) @ [path]\<rparr>)
      = remove_key path (handles_abs h) @ [(path, e)]" if "map_of (hs_entries h) path = Some e" for e
    using that by (simp add: handles_abs_def view_remove)
  have op: "handles_abs (fst (open_handle w path f (removeLocked path h)))
      = lru_use (hs_max h) path (fresh_handle conn path f) (handles_abs h)" if "os_open w = Inr conn" for conn f
    using abs_open[OF ok _ that] by (simp add: abs_remove again)
  have res: "snd (open_handle w path f g) = os_open w" for f g
    by (simp add: open_handle_def Let_def split: sum.split)
  have fail: "fst (open_handle w path f g) = g" if "os_open w = Inl err" for f g err
    using that by (simp add: open_handle_def)
  show ?thesis
    using handles_Get_ok[OF assms, of w path] move op abs_open[OF assms absent(1)] res fail absent
    by (auto simp: handles_Get_def lru_Get_def map_of_abs[OF assms] same_file_def drop_handle_def abs_remove
        remove_key_id case_prod_unfold Let_def split: sum.split option.split)
qed

lemma new_handles_ok: "handles_ok (NewSQLiteHandles m)"
  by (auto simp: NewSQLiteHandles_def handles_ok_def)

theorem handles_Get_refines_witness:
  "(let (h', r) = handles_Get (sample_outside 1) ''a'' (NewSQLiteHandles 1) in (handles_abs h', r))
    = ([(''a'', fresh_handle 1 ''a'' \<lparr>fi_device = 1, fi_inode = 1, fi_identifiable = True\<rparr>)], Inr 1)"
  using handles_Get_refines[OF new_handles_ok, of "sample_outside 1" "''a''" 1]
  by (simp add: lru_Get_def sample_outside_def handles_abs_def NewSQLiteHandles_def lru_use_def remove_key_def Let_def)

end
