(* ===== verification/Codex_Adapter.thy ===== *)
theory Codex_Adapter
  imports Sqlite_Handles Go_Net Record_Lines "HOL-Library.Sublist"
begin

text \<open>
  Package \<open>internal/adapters/codex\<close>: the token counters of Codex session logs, read incrementally.
  The file system and the JSON decoder are the parameter \<open>codex_world\<close>; contexts are not
  cancelled. The parse loop is a fold of one step per line over an explicit state, whose part
  that outlives the pass is the state saved in the cursor.
\<close>

definition adapterID :: gostr where "adapterID = ''codex''"
definition adapterVersion :: gostr where "adapterVersion = ''0.6.0''"
definition maxCodexRecordBytes :: nat where "maxCodexRecordBytes = 67108864"
definition codexParseStateVersion :: int where "codexParseStateVersion = 1"

fun firstNonEmpty :: "gostr list \<Rightarrow> gostr" where
  "firstNonEmpty [] = []"
| "firstNonEmpty (v # vs) = (let value = trim_space v in if value \<noteq> [] then value else firstNonEmpty vs)"

subsection \<open>Token counters\<close>

record token_usage =
  tu_Input :: i64
  tu_CachedInput :: i64
  tu_CacheReadInput :: i64
  tu_CacheWriteInput :: i64
  tu_Output :: i64
  tu_Reasoning :: i64
  tu_Total :: i64

record norm_usage =
  nu_Input :: i64
  nu_Cached :: i64
  nu_CacheWrite :: i64
  nu_Output :: i64
  nu_Reasoning :: i64
  nu_Total :: i64

definition zero_usage :: norm_usage where
  "zero_usage = \<lparr>nu_Input = 0, nu_Cached = 0, nu_CacheWrite = 0, nu_Output = 0, nu_Reasoning = 0, nu_Total = 0\<rparr>"

definition normalizeTokenUsage :: "token_usage option \<Rightarrow> norm_usage" where
  "normalizeTokenUsage tokens =
    (case tokens of None \<Rightarrow> zero_usage
     | Some t \<Rightarrow>
        (let input = max 0 (tu_Input t);
             cached0 = max 0 (tu_CachedInput t);
             cached1 = (if cached0 = 0 then max 0 (tu_CacheReadInput t) else cached0);
             cached = min cached1 input;
             cacheWrite = max 0 (tu_CacheWriteInput t);
             output = max 0 (tu_Output t);
             reasoning = min (max 0 (tu_Reasoning t)) output;
             tot0 = max 0 (tu_Total t);
             tot = (if tot0 = 0 \<and> (0 < input \<or> 0 < output) then i64_add input output else tot0)
         in \<lparr>nu_Input = input, nu_Cached = cached, nu_CacheWrite = cacheWrite, nu_Output = output,
             nu_Reasoning = reasoning, nu_Total = tot\<rparr>))"

definition delta :: "norm_usage \<Rightarrow> norm_usage \<Rightarrow> norm_usage" where
  "delta v p =
    (let input = max 0 (i64_sub (nu_Input v) (nu_Input p));
         cached = min input (max 0 (i64_sub (nu_Cached v) (nu_Cached p)));
         output = max 0 (i64_sub (nu_Output v) (nu_Output p));
         reasoning = min output (max 0 (i64_sub (nu_Reasoning v) (nu_Reasoning p)))
     in \<lparr>nu_Input = i64_sub input cached, nu_Cached = cached,
         nu_CacheWrite = max 0 (i64_sub (nu_CacheWrite v) (nu_CacheWrite p)), nu_Output = output,
         nu_Reasoning = reasoning, nu_Total = max 0 (i64_sub (nu_Total v) (nu_Total p))\<rparr>)"

definition isZero :: "norm_usage \<Rightarrow> bool" where
  "isZero v \<longleftrightarrow> nu_Input v = 0 \<and> nu_Cached v = 0 \<and> nu_CacheWrite v = 0 \<and> nu_Output v = 0
    \<and> nu_Reasoning v = 0 \<and> nu_Total v = 0"

definition eventTokenUsage :: "norm_usage \<Rightarrow> norm_usage" where
  "eventTokenUsage v =
    (let cached = min (max 0 (nu_Cached v)) (max 0 (nu_Input v)) in
     \<lparr>nu_Input = i64_sub (max 0 (nu_Input v)) cached, nu_Cached = cached, nu_CacheWrite = max 0 (nu_CacheWrite v),
      nu_Output = max 0 (nu_Output v), nu_Reasoning = min (max 0 (nu_Reasoning v)) (max 0 (nu_Output v)),
      nu_Total = max 0 (nu_Total v)\<rparr>)"

text \<open>\<open>subtractInheritedPrefix\<close>: the adjusted counters and what is left of the prefix.\<close>

definition monus_usage :: "norm_usage \<Rightarrow> norm_usage \<Rightarrow> norm_usage" where
  "monus_usage v p =
    \<lparr>nu_Input = max 0 (i64_sub (nu_Input v) (nu_Input p)), nu_Cached = max 0 (i64_sub (nu_Cached v) (nu_Cached p)),
     nu_CacheWrite = max 0 (i64_sub (nu_CacheWrite v) (nu_CacheWrite p)),
     nu_Output = max 0 (i64_sub (nu_Output v) (nu_Output p)),
     nu_Reasoning = max 0 (i64_sub (nu_Reasoning v) (nu_Reasoning p)),
     nu_Total = max 0 (i64_sub (nu_Total v) (nu_Total p))\<rparr>"

definition subtractInheritedPrefix :: "norm_usage \<Rightarrow> norm_usage \<Rightarrow> norm_usage \<times> norm_usage" where
  "subtractInheritedPrefix value remaining = (monus_usage value remaining, monus_usage remaining value)"

definition derefTokenUsage :: "norm_usage option \<Rightarrow> norm_usage" where
  "derefTokenUsage v = (case v of None \<Rightarrow> zero_usage | Some u \<Rightarrow> u)"

subsection \<open>Records of the log\<close>

record log_record =
  lr_Type :: gostr
  lr_Timestamp :: gostr
  lr_Payload :: gostr

record session_metadata =
  sm_ID :: gostr
  sm_SessionID :: gostr
  sm_ModelProvider :: gostr
  sm_CWD :: gostr
  sm_ForkedFromID :: gostr
  sm_ForkedFromIDAlt :: gostr
  sm_ParentSessionID :: gostr
  sm_ParentSessionIDAlt :: gostr
  sm_Timestamp :: gostr

definition no_metadata :: session_metadata where
  "no_metadata = \<lparr>sm_ID = [], sm_SessionID = [], sm_ModelProvider = [], sm_CWD = [], sm_ForkedFromID = [],
    sm_ForkedFromIDAlt = [], sm_ParentSessionID = [], sm_ParentSessionIDAlt = [], sm_Timestamp = []\<rparr>"

record turn_context =
  tc_Model :: gostr
  tc_CWD :: gostr

record token_info =
  ti_Model :: gostr
  ti_ModelName :: gostr
  ti_Last :: "token_usage option"
  ti_Total :: "token_usage option"

record event_payload =
  ep_Type :: gostr
  ep_Info :: "token_info option"

definition forkParentID :: "session_metadata \<Rightarrow> gostr" where
  "forkParentID m = firstNonEmpty [sm_ForkedFromID m, sm_ForkedFromIDAlt m, sm_ParentSessionID m, sm_ParentSessionIDAlt m]"

definition forkTimestamp :: "session_metadata \<Rightarrow> gostr \<Rightarrow> gostr" where
  "forkTimestamp m fallback = firstNonEmpty [sm_Timestamp m, fallback]"

text \<open>The state saved in a cursor.\<close>

record parse_state =
  pt_Version :: int
  pt_CacheIdentity :: gostr
  pt_SessionID :: gostr
  pt_SourceSessionID :: gostr
  pt_Provider :: gostr
  pt_Model :: gostr
  pt_Project :: gostr
  pt_PreviousCumulative :: "norm_usage option"
  pt_HasPreviousCumulative :: bool
  pt_ForkBaseline :: "norm_usage option"
  pt_ForkResolved :: bool
  pt_ForkPrefixPending :: bool
  pt_RemainingForkPrefix :: "norm_usage option"

text \<open>
  What the adapter reads: files, their \<open>stat\<close>, the directory walk, the threads table of an SQLite
  state (\<open>None\<close> when there is no such table) and the JSON codec for each type.
\<close>

record thread_row =
  tr_id :: gostr
  tr_created_at_ms :: i64
  tr_updated_at_ms :: i64
  tr_model_provider :: "gostr option"
  tr_model :: "gostr option"
  tr_cwd :: "gostr option"
  tr_tokens_used :: i64

record codex_world =
  cw_file :: "gostr \<Rightarrow> go_err + gostr"
  cw_stat :: "gostr \<Rightarrow> go_err + i64 \<times> i64"
  cw_paths :: "gostr \<Rightarrow> go_err + gostr list"
  cw_threads :: "gostr \<Rightarrow> go_err + thread_row list option"
  cw_record :: "gostr \<Rightarrow> log_record option"
  cw_metadata :: "gostr \<Rightarrow> session_metadata option"
  cw_turn :: "gostr \<Rightarrow> turn_context option"
  cw_payload :: "gostr \<Rightarrow> event_payload option"
  cw_encode :: "parse_state \<Rightarrow> gostr option"
  cw_decode :: "gostr \<Rightarrow> parse_state option"
  cw_ulow :: "nat \<Rightarrow> nat"
  cw_ufold :: "nat \<Rightarrow> nat"

definition encodeCodexParseState :: "codex_world \<Rightarrow> parse_state \<Rightarrow> gostr" where
  "encodeCodexParseState w s =
    (case cw_encode w (s\<lparr>pt_Version := codexParseStateVersion\<rparr>) of None \<Rightarrow> [] | Some encoded \<Rightarrow> encoded)"

definition decodeCodexParseState :: "codex_world \<Rightarrow> gostr \<Rightarrow> parse_state option" where
  "decodeCodexParseState w raw =
    (if trim_space raw = [] then None
     else case cw_decode w raw of None \<Rightarrow> None
      | Some s \<Rightarrow> if pt_Version s \<noteq> codexParseStateVersion then None else Some s)"

subsection \<open>Sessions and forks\<close>

text \<open>
  \<open>bufio.Scanner\<close> over lines with a bound on the token: the lines without their line ends up to
  the first that does not fit, and whether all did.
\<close>

function scan_lines :: "nat \<Rightarrow> gostr \<Rightarrow> gostr list \<times> bool" where
  "scan_lines limit s =
    (if s = [] then ([], True)
     else (let line = takeWhile (\<lambda>c. c \<noteq> newline) s in
       if limit \<le> length line then ([], False)
       else (let token = (if line \<noteq> [] \<and> last line = CHR 0x0D then butlast line else line);
                 (more, ok) = scan_lines limit (drop (Suc (length line)) s)
             in (token # more, ok))))"
  by pat_completeness auto
termination by (relation "measure (\<lambda>(limit, s). length s)") auto

declare scan_lines.simps [simp del]

definition quoted :: "gostr \<Rightarrow> gostr" where "quoted s = CHR 0x22 # s @ [CHR 0x22]"

fun metadata_in :: "codex_world \<Rightarrow> gostr list \<Rightarrow> session_metadata option" where
  "metadata_in w [] = None"
| "metadata_in w (line # ls) =
    (if \<not> contains line (quoted ''session_meta'') then metadata_in w ls
     else case cw_record w line of None \<Rightarrow> metadata_in w ls
      | Some r \<Rightarrow>
          if lr_Type r \<noteq> ''session_meta'' then metadata_in w ls
          else case cw_metadata w (lr_Payload r) of None \<Rightarrow> metadata_in w ls
            | Some m \<Rightarrow> Some (m\<lparr>sm_Timestamp := forkTimestamp m (lr_Timestamp r)\<rparr>))"

text \<open>\<open>readSessionMetadata\<close>: the error, or the metadata when there is one.\<close>

definition readSessionMetadata :: "codex_world \<Rightarrow> gostr \<Rightarrow> go_err + session_metadata option" where
  "readSessionMetadata w path =
    (case cw_file w path of Inl e \<Rightarrow> Inl e
     | Inr content \<Rightarrow>
        (case scan_lines maxCodexRecordBytes content of (lines, ok) \<Rightarrow>
          (case metadata_in w lines of Some m \<Rightarrow> Inr (Some m)
           | None \<Rightarrow> if ok then Inr None else Inl [])))"

record codex_index =
  ci_sessionFiles :: "(gostr \<times> gostr) list"
  ci_metadataByPath :: "(gostr \<times> session_metadata) list"
  ci_metadataSigs :: "(gostr \<times> file_signature) list"

definition empty_index :: codex_index where
  "empty_index = \<lparr>ci_sessionFiles = [], ci_metadataByPath = [], ci_metadataSigs = []\<rparr>"

definition index_source :: "codex_world \<Rightarrow> codex_index \<Rightarrow> source_info \<Rightarrow> codex_index \<Rightarrow> codex_index" where
  "index_source w old src new =
    (let path = so_Path src in
     case Signature (cw_stat w) path of Inl e \<Rightarrow> new
     | Inr signature \<Rightarrow>
        (let cached = map_of (ci_metadataByPath old) path;
             use = (if cached = None \<or> map_of (ci_metadataSigs old) path \<noteq> Some signature
                    then (case readSessionMetadata w path of Inl e \<Rightarrow> None | Inr m \<Rightarrow> m) else cached)
         in case use of None \<Rightarrow> new
          | Some m \<Rightarrow>
             (let i = firstNonEmpty [sm_ID m, sm_SessionID m];
                  files = ci_sessionFiles new
              in new\<lparr>ci_metadataByPath := upsert path m (ci_metadataByPath new),
                     ci_metadataSigs := upsert path signature (ci_metadataSigs new),
                     ci_sessionFiles := (if i \<noteq> [] \<and> map_of files i = None then upsert i path files else files)\<rparr>)))"

definition refreshSessionIndex :: "codex_world \<Rightarrow> codex_index \<Rightarrow> source_info list \<Rightarrow> codex_index" where
  "refreshSessionIndex w old sources = fold (index_source w old) sources empty_index"

definition path_join :: "gostr \<Rightarrow> gostr \<Rightarrow> gostr" where "path_join a b = a @ ''/'' @ b"

definition discoverLogs :: "codex_world \<Rightarrow> gostr \<Rightarrow> go_err + source_info list" where
  "discoverLogs w dir =
    (case (cw_paths w (path_join dir ''sessions''), cw_paths w (path_join dir ''archived_sessions'')) of
       (r1, r2) \<Rightarrow>
         (let list = (\<lambda>r. case r of Inl e \<Rightarrow> if NotExist \<in> set e then Inr [] else Inl e | Inr ps \<Rightarrow> Inr ps) in
          case list r1 of Inl e \<Rightarrow> Inl e
          | Inr ps1 \<Rightarrow> (case list r2 of Inl e \<Rightarrow> Inl e
             | Inr ps2 \<Rightarrow> Inr (sort_key so_Path
                 (map (\<lambda>p. \<lparr>so_Path = p, so_Identity = HashIdentity p\<rparr>) (ps1 @ ps2))))))"

definition sourceMetadata :: "codex_world \<Rightarrow> codex_index \<Rightarrow> gostr \<Rightarrow> session_metadata option" where
  "sourceMetadata w x path =
    (case map_of (ci_metadataByPath x) path of Some m \<Rightarrow> Some m
     | None \<Rightarrow> (case readSessionMetadata w path of Inl e \<Rightarrow> None | Inr m \<Rightarrow> m))"

definition bool_str :: "bool \<Rightarrow> gostr" where "bool_str b = (if b then ''true'' else ''false'')"

definition logCacheIdentity :: "codex_world \<Rightarrow> codex_index \<Rightarrow> gostr \<Rightarrow> gostr \<Rightarrow> gostr" where
  "logCacheIdentity w x path identity =
    (case sourceMetadata w x path of None \<Rightarrow> identity
     | Some m \<Rightarrow>
        (let parentID = forkParentID m in
         if parentID = [] then identity
         else (let parentPath = (case map_of (ci_sessionFiles x) parentID of None \<Rightarrow> [] | Some p \<Rightarrow> p) in
           if parentPath = [] \<or> parentPath = path
           then HashIdentity (join_with nul [identity, ''fork'', parentID, ''unresolved''])
           else case Signature (cw_stat w) parentPath of
               Inl e \<Rightarrow> HashIdentity (join_with nul [identity, ''fork'', parentID, parentPath, ''unavailable''])
             | Inr s \<Rightarrow> HashIdentity (join_with nul [identity, ''fork'', parentID, parentPath, int_str (fs_Size s),
                 int_str (fs_ModTime s), int_str (fs_SidecarSize s), int_str (fs_SidecarTime s), bool_str (fs_Sidecar s)]))))"

fun inherited_in :: "codex_world \<Rightarrow> instant \<Rightarrow> norm_usage option \<Rightarrow> gostr list \<Rightarrow> norm_usage option" where
  "inherited_in w forkAt latest [] = latest"
| "inherited_in w forkAt latest (line # ls) =
    inherited_in w forkAt
     (if \<not> contains line (quoted ''token_count'') then latest
      else case cw_record w line of None \<Rightarrow> latest
       | Some r \<Rightarrow>
          if lr_Type r \<noteq> ''event_msg'' then latest
          else case cw_payload w (lr_Payload r) of None \<Rightarrow> latest
            | Some p \<Rightarrow>
               if ep_Type p \<noteq> ''token_count'' then latest
               else case Option.bind (ep_Info p) ti_Total of None \<Rightarrow> latest
                 | Some tot \<Rightarrow>
                    (case parse_rfc3339 (lr_Timestamp r) of None \<Rightarrow> latest
                     | Some t \<Rightarrow> if forkAt < t then latest else Some (normalizeTokenUsage (Some tot)))) ls"

definition inheritedCumulativeUsage :: "codex_world \<Rightarrow> gostr \<Rightarrow> gostr \<Rightarrow> go_err + norm_usage option" where
  "inheritedCumulativeUsage w path forkTime =
    (case parse_rfc3339 forkTime of None \<Rightarrow> Inr None
     | Some forkAt \<Rightarrow>
        (case cw_file w path of Inl e \<Rightarrow> Inl e
         | Inr content \<Rightarrow>
            (case scan_lines maxCodexRecordBytes content of (lines, ok) \<Rightarrow>
              if ok then Inr (inherited_in w forkAt None lines) else Inl [])))"

text \<open>\<open>resolveForkBaseline\<close>: the index, which it fills when it is empty, and the baseline.\<close>

definition resolveForkBaseline ::
  "codex_world \<Rightarrow> gostr \<Rightarrow> codex_index \<Rightarrow> gostr \<Rightarrow> session_metadata \<Rightarrow> codex_index \<times> norm_usage option" where
  "resolveForkBaseline w dir x sourcePath m =
    (let parentID = forkParentID m; forkTime = forkTimestamp m [] in
     if parentID = [] \<or> forkTime = [] then (x, None)
     else (let found = (\<lambda>y. case map_of (ci_sessionFiles y) parentID of None \<Rightarrow> [] | Some p \<Rightarrow> p);
               x' = (if found x = [] \<and> ci_sessionFiles x = []
                     then (case discoverLogs w dir of Inl e \<Rightarrow> x | Inr sources \<Rightarrow> refreshSessionIndex w x sources)
                     else x);
               parentPath = found x'
       in if parentPath = [] \<or> parentPath = sourcePath then (x', None)
          else (x', case inheritedCumulativeUsage w parentPath forkTime of Inl e \<Rightarrow> None | Inr b \<Rightarrow> b)))"

subsection \<open>The parse loop\<close>

text \<open>The variables of the loop; \<open>cx_seen\<close> and \<open>cx_events\<close> belong to one pass only.\<close>

record codex_state =
  cx_sessionID :: gostr
  cx_sourceSessionID :: gostr
  cx_provider :: gostr
  cx_model :: gostr
  cx_project :: gostr
  cx_previous :: norm_usage
  cx_hasPrevious :: bool
  cx_forkBaseline :: norm_usage
  cx_forkResolved :: bool
  cx_forkPending :: bool
  cx_remaining :: norm_usage
  cx_index :: codex_index
  cx_seen :: "gostr list"
  cx_events :: "event list"

definition on_session_meta ::
  "codex_world \<Rightarrow> gostr \<Rightarrow> gostr \<Rightarrow> log_record \<Rightarrow> session_metadata \<Rightarrow> codex_state \<Rightarrow> codex_state" where
  "on_session_meta w dir path r m0 st =
    (let m = m0\<lparr>sm_Timestamp := forkTimestamp m0 (lr_Timestamp r)\<rparr>;
         st1 = (if \<not> cx_forkResolved st
           then (case resolveForkBaseline w dir (cx_index st) path m of (x, b) \<Rightarrow>
                  (case b of None \<Rightarrow> st\<lparr>cx_index := x\<rparr>
                   | Some baseline \<Rightarrow> st\<lparr>cx_index := x, cx_forkBaseline := baseline, cx_remaining := baseline,
                       cx_previous := zero_usage, cx_hasPrevious := False, cx_forkPending := True, cx_forkResolved := True\<rparr>))
           else st);
         norm = NormalizeSessionID (cw_ulow w)
     in st1\<lparr>cx_sessionID := firstNonEmpty [cx_sessionID st1, norm (sm_ID m), norm (sm_SessionID m)],
            cx_sourceSessionID := firstNonEmpty [cx_sourceSessionID st1, norm (sm_SessionID m), norm (sm_ID m)],
            cx_provider := firstNonEmpty [sm_ModelProvider m, cx_provider st1],
            cx_project := firstNonEmpty [NormalizeProject (cw_ulow w) (sm_CWD m), cx_project st1]\<rparr>)"

definition on_turn_context :: "codex_world \<Rightarrow> turn_context \<Rightarrow> codex_state \<Rightarrow> codex_state" where
  "on_turn_context w t st =
    st\<lparr>cx_model := firstNonEmpty [trim_space (tc_Model t), cx_model st],
       cx_project := firstNonEmpty [NormalizeProject (cw_ulow w) (tc_CWD t), cx_project st]\<rparr>"

text \<open>
  The counters of one token count: the state, and the tokens of the event when the record is not
  skipped.
\<close>

definition cumulative_tokens :: "norm_usage \<Rightarrow> codex_state \<Rightarrow> codex_state \<times> norm_usage option" where
  "cumulative_tokens current st =
    (if cx_forkPending st \<and> nu_Total current \<le> nu_Total (cx_forkBaseline st) then (st, Some zero_usage)
     else (let st1 = (if cx_forkPending st
               then st\<lparr>cx_previous := cx_forkBaseline st, cx_hasPrevious := True, cx_forkPending := False\<rparr> else st);
               previous = (if cx_hasPrevious st1 \<and> nu_Total current < nu_Total (cx_previous st1) then zero_usage else cx_previous st1);
               tokens = delta current previous;
               st2 = st1\<lparr>cx_previous := current, cx_hasPrevious := True\<rparr>
           in if isZero tokens \<and> \<not> cx_hasPrevious st1 then (st2, None) else (st2, Some tokens)))"

definition single_tokens :: "norm_usage \<Rightarrow> codex_state \<Rightarrow> codex_state \<times> norm_usage option" where
  "single_tokens raw st =
    (if isZero raw then (st, None)
     else (let (raw', st1) = (if cx_forkResolved st
               then (case subtractInheritedPrefix raw (cx_remaining st) of (a, rem) \<Rightarrow> (a, st\<lparr>cx_remaining := rem\<rparr>)) else (raw, st));
               tokens = eventTokenUsage raw'
           in if isZero tokens \<and> \<not> cx_forkResolved st then (st1, None) else (st1, Some tokens)))"

definition codexUsageKey ::
  "gostr \<Rightarrow> gostr \<Rightarrow> gostr \<Rightarrow> gostr \<Rightarrow> i64 \<Rightarrow> i64 \<Rightarrow> i64 \<Rightarrow> i64 \<Rightarrow> i64 \<Rightarrow> gostr" where
  "codexUsageKey sessionID timestamp provider model input cached output reasoning tot =
    join_with nul [sessionID, timestamp, provider, model, int_str input, int_str cached, ''0'', int_str output,
      int_str reasoning, int_str tot]"

definition codex_event ::
  "gostr \<Rightarrow> gostr \<Rightarrow> gostr \<Rightarrow> i64 \<Rightarrow> gostr \<Rightarrow> instant \<Rightarrow> norm_usage \<Rightarrow> codex_state \<Rightarrow> event" where
  "codex_event machineID path currentModel lineNumber timeText t tokens st =
    (let stableSessionID = firstNonEmpty [cx_sessionID st, HashSessionID path];
         eventSessionID = firstNonEmpty [cx_sourceSessionID st, stableSessionID];
         identity = HashIdentity (adapterID @ '':session:'' @ eventSessionID)
     in \<lparr>ev_SchemaVersion = event_schema_version,
         ev_EventID = DeterministicID machineID adapterID identity lineNumber timeText eventSessionID,
         ev_Timestamp = t, ev_MachineID = machineID, ev_SessionID = stableSessionID, ev_Project = cx_project st,
         ev_Provider = cx_provider st, ev_Model = currentModel, ev_CanonicalModel = [], ev_Tool = ''codex'',
         ev_InputTokens = Some (nu_Input tokens), ev_OutputTokens = Some (nu_Output tokens),
         ev_CacheReadTokens = Some (nu_Cached tokens), ev_CacheWriteTokens = Some (nu_CacheWrite tokens),
         ev_ReasoningTokens = Some (nu_Reasoning tokens), ev_TotalTokens = Some (nu_Total tokens), ev_DurationMS = None,
         ev_Cost = None, ev_CostEstimated = False, ev_Currency = ''USD'', ev_TokenAccuracy = AccuracyReported,
         ev_Source = \<lparr>src_Adapter = adapterID, src_AdapterVersion = adapterVersion, src_Identity = identity,
                      src_Offset = lineNumber\<rparr>,
         ev_Metadata = None\<rparr>)"

definition on_token_count ::
  "gostr \<Rightarrow> gostr \<Rightarrow> i64 \<Rightarrow> log_record \<Rightarrow> token_info \<Rightarrow> codex_state \<Rightarrow> codex_state" where
  "on_token_count machineID path lineNumber r info st =
    (let usingCumulative = (ti_Total info \<noteq> None) in
     case (if usingCumulative then cumulative_tokens (normalizeTokenUsage (ti_Total info)) st
           else single_tokens (normalizeTokenUsage (ti_Last info)) st) of
       (st1, None) \<Rightarrow> st1
     | (st1, Some tokens) \<Rightarrow>
        (case parse_rfc3339 (lr_Timestamp r) of None \<Rightarrow> st1
         | Some t \<Rightarrow>
            (let currentModel = firstNonEmpty [trim_space (ti_Model info), trim_space (ti_ModelName info), cx_model st1, ''unknown''];
                 raw = normalizeTokenUsage (ti_Last info);
                 usageKey = codexUsageKey (firstNonEmpty [cx_sessionID st1, HashSessionID path]) (rfc3339_nano t)
                   (cx_provider st1) currentModel (nu_Input raw) (nu_Cached raw) (nu_Output raw) (nu_Reasoning raw) (nu_Total raw)
             in if \<not> usingCumulative \<and> usageKey \<in> set (cx_seen st1) then st1
                else st1\<lparr>cx_seen := (if usingCumulative then cx_seen st1 else usageKey # cx_seen st1),
                         cx_events := cx_events st1 @
                           [codex_event machineID path currentModel lineNumber (lr_Timestamp r) t tokens st1]\<rparr>)))"

text \<open>One line: what is not a record of interest leaves the state as it is.\<close>

definition codex_line ::
  "codex_world \<Rightarrow> gostr \<Rightarrow> gostr \<Rightarrow> gostr \<Rightarrow> i64 \<Rightarrow> gostr \<Rightarrow> codex_state \<Rightarrow> codex_state" where
  "codex_line w dir machineID path lineNumber line st =
    (if \<not> contains line (quoted ''session_meta'') \<and> \<not> contains line (quoted ''turn_context'')
        \<and> \<not> contains line (quoted ''token_count'') then st
     else case cw_record w line of None \<Rightarrow> st
      | Some r \<Rightarrow>
         if lr_Type r = ''session_meta'' then
           (case cw_metadata w (lr_Payload r) of None \<Rightarrow> st | Some m \<Rightarrow> on_session_meta w dir path r m st)
         else if lr_Type r = ''turn_context'' then
           (case cw_turn w (lr_Payload r) of None \<Rightarrow> st | Some t \<Rightarrow> on_turn_context w t st)
         else if lr_Type r = ''event_msg'' then
           (case cw_payload w (lr_Payload r) of None \<Rightarrow> st
            | Some p \<Rightarrow>
               if ep_Type p \<noteq> ''token_count'' then st
               else (case ep_Info p of None \<Rightarrow> st
                  | Some info \<Rightarrow>
                     if ti_Last info = None \<and> ti_Total info = None then st
                     else on_token_count machineID path lineNumber r info st))
         else st)"

text \<open>
  The loop: the state, position and line number at the end of the input, where a last record
  without its newline is left for the next pass; or the error of an oversized record.
\<close>

function codex_loop ::
  "(i64 \<Rightarrow> gostr \<Rightarrow> codex_state \<Rightarrow> codex_state) \<Rightarrow> codex_state \<Rightarrow> i64 \<Rightarrow> i64 \<Rightarrow> gostr
    \<Rightarrow> codex_state \<times> (go_err + i64 \<times> i64)" where
  "codex_loop step st position lineNumber s =
    (case ReadRecordLimit 65535 maxCodexRecordBytes s of
       (RecordTooLong, rest) \<Rightarrow> (st, Inl [])
     | (Record line eof, rest) \<Rightarrow>
         if line = [] \<and> eof then (st, Inr (position, lineNumber))
         else if eof \<and> \<not> has_suffix line [newline] then (st, Inr (position, lineNumber))
         else codex_loop step (step (lineNumber + 1) line st) (position + int (length line)) (lineNumber + 1) rest)"
  by pat_completeness auto

termination
  by (relation "measure (\<lambda>(step, st, position, lineNumber, s). length s)") (auto dest!: ReadRecordLimit_shorter)

declare codex_loop.simps [simp del]

subsection \<open>A pass over a log\<close>

definition fresh_state :: "norm_usage option \<Rightarrow> codex_index \<Rightarrow> codex_state" where
  "fresh_state baseline x =
    \<lparr>cx_sessionID = [], cx_sourceSessionID = [], cx_provider = ''openai'', cx_model = ''unknown'', cx_project = [],
     cx_previous = zero_usage, cx_hasPrevious = False, cx_forkBaseline = derefTokenUsage baseline,
     cx_forkResolved = (baseline \<noteq> None), cx_forkPending = (baseline \<noteq> None), cx_remaining = derefTokenUsage baseline,
     cx_index = x, cx_seen = [], cx_events = []\<rparr>"

definition resumed_state :: "parse_state \<Rightarrow> codex_index \<Rightarrow> codex_state" where
  "resumed_state p x =
    \<lparr>cx_sessionID = pt_SessionID p, cx_sourceSessionID = pt_SourceSessionID p, cx_provider = pt_Provider p,
     cx_model = pt_Model p, cx_project = pt_Project p, cx_previous = derefTokenUsage (pt_PreviousCumulative p),
     cx_hasPrevious = pt_HasPreviousCumulative p, cx_forkBaseline = derefTokenUsage (pt_ForkBaseline p),
     cx_forkResolved = pt_ForkResolved p, cx_forkPending = pt_ForkPrefixPending p,
     cx_remaining = derefTokenUsage (pt_RemainingForkPrefix p), cx_index = x, cx_seen = [], cx_events = []\<rparr>"

definition saved_state :: "gostr \<Rightarrow> codex_state \<Rightarrow> parse_state" where
  "saved_state cacheIdentity st =
    \<lparr>pt_Version = 0, pt_CacheIdentity = cacheIdentity, pt_SessionID = cx_sessionID st,
     pt_SourceSessionID = cx_sourceSessionID st, pt_Provider = cx_provider st, pt_Model = cx_model st,
     pt_Project = cx_project st, pt_PreviousCumulative = Some (cx_previous st),
     pt_HasPreviousCumulative = cx_hasPrevious st, pt_ForkBaseline = Some (cx_forkBaseline st),
     pt_ForkResolved = cx_forkResolved st, pt_ForkPrefixPending = cx_forkPending st,
     pt_RemainingForkPrefix = Some (cx_remaining st)\<rparr>"

text \<open>The state to resume from, when the cursor has one that still applies.\<close>

definition resume_from :: "codex_world \<Rightarrow> cursor \<Rightarrow> i64 \<Rightarrow> gostr \<Rightarrow> gostr \<Rightarrow> parse_state option" where
  "resume_from w c fileSize cacheIdentity expectedIdentity =
    (case decodeCodexParseState w (cu_State c) of None \<Rightarrow> None
     | Some p \<Rightarrow>
        if cu_Offset c \<le> 0 \<or> cu_Line c \<le> 0 \<or> fileSize < cu_Offset c then None
        else if pt_CacheIdentity p \<noteq> cacheIdentity then None
        else if cu_Identity c \<noteq> [] \<and> cu_Identity c \<noteq> expectedIdentity then None
        else Some p)"

definition parseLogUncached ::
  "codex_world \<Rightarrow> gostr \<Rightarrow> codex_index \<Rightarrow> source_info \<Rightarrow> gostr \<Rightarrow> cursor \<Rightarrow> gostr
    \<Rightarrow> (go_err + parse_result) \<times> codex_index" where
  "parseLogUncached w dir x src machineID c cacheIdentity =
    (case cw_file w (so_Path src) of Inl e \<Rightarrow> (Inl e, x)
     | Inr content \<Rightarrow>
        (let path = so_Path src;
             expectedIdentity = HashIdentity path;
             resume = resume_from w c (int (length content)) cacheIdentity expectedIdentity;
             (offset, lineNumber) = (case resume of None \<Rightarrow> (0, 0) | Some _ \<Rightarrow> (cu_Offset c, cu_Line c));
             m = (case sourceMetadata w x path of None \<Rightarrow> no_metadata | Some m \<Rightarrow> m);
             start = (case resume of
                 Some p \<Rightarrow> resumed_state p x
               | None \<Rightarrow> (case resolveForkBaseline w dir x path m of (x', baseline) \<Rightarrow> fresh_state baseline x'))
         in case codex_loop (codex_line w dir machineID path) start offset lineNumber (drop (nat offset) content) of
              (st, Inl e) \<Rightarrow> (Inl e, cx_index st)
            | (st, Inr (position, line')) \<Rightarrow>
                (Inr \<lparr>ps_Events = cx_events st,
                      ps_Cursor = \<lparr>cu_Identity = expectedIdentity, cu_Offset = position, cu_Line = line',
                        cu_State = encodeCodexParseState w (saved_state cacheIdentity st)\<rparr>\<rparr>, cx_index st)))"

subsection \<open>The adapter\<close>

record codex_adapter =
  ca_root :: gostr
  ca_cache :: snapshot_cache
  ca_index :: codex_index

text \<open>A result that the cache keeps, or its error.\<close>

definition cached_parse ::
  "codex_world \<Rightarrow> codex_adapter \<Rightarrow> gostr \<Rightarrow> gostr \<Rightarrow> cursor
    \<Rightarrow> (codex_adapter \<Rightarrow> (go_err + parse_result) \<times> codex_index) \<Rightarrow> file_signature \<Rightarrow> (go_err + parse_result) \<times> codex_adapter" where
  "cached_parse w a path identity c parse signature =
    (case snapshot_Lookup (ca_cache a) path signature identity c of
       Some cached \<Rightarrow> (cached, a)
     | None \<Rightarrow>
        (case parse a of
           (Inl e, x) \<Rightarrow> (Inl e, a\<lparr>ca_index := x, ca_cache := snapshot_Store (ca_cache a) path signature identity c
                        \<lparr>ps_Events = [], ps_Cursor = no_cursor\<rparr> (Some e)\<rparr>)
         | (Inr result, x) \<Rightarrow>
             (Inr result, a\<lparr>ca_index := x, ca_cache := snapshot_Store (ca_cache a) path signature identity c result None\<rparr>)))"

definition parseLog :: "codex_world \<Rightarrow> codex_adapter \<Rightarrow> source_info \<Rightarrow> gostr \<Rightarrow> cursor \<Rightarrow> (go_err + parse_result) \<times> codex_adapter" where
  "parseLog w a src machineID c =
    (case Signature (cw_stat w) (so_Path src) of Inl e \<Rightarrow> (Inl e, a)
     | Inr signature \<Rightarrow>
        (let identity = (if so_Identity src = [] then HashIdentity (so_Path src) else so_Identity src);
             cacheIdentity = logCacheIdentity w (ca_index a) (so_Path src) identity
         in cached_parse w a (so_Path src) cacheIdentity c
              (\<lambda>a. parseLogUncached w (ca_root a) (ca_index a) src machineID c cacheIdentity) signature))"

definition thread_event :: "codex_world \<Rightarrow> gostr \<Rightarrow> gostr \<Rightarrow> thread_row \<Rightarrow> event" where
  "thread_event w machineID sourceIdentity r =
    (let text = (\<lambda>v. case v of None \<Rightarrow> [] | Some s \<Rightarrow> s) in
     \<lparr>ev_SchemaVersion = event_schema_version,
      ev_EventID = DeterministicID machineID adapterID sourceIdentity 0 ''snapshot'' (tr_id r),
      ev_Timestamp = UnixTime (if tr_updated_at_ms r \<le> 0 then tr_created_at_ms r else tr_updated_at_ms r),
      ev_MachineID = machineID, ev_SessionID = tr_id r, ev_Project = NormalizeProject (cw_ulow w) (text (tr_cwd r)),
      ev_Provider = firstNonEmpty [text (tr_model_provider r), ''unknown''],
      ev_Model = firstNonEmpty [trim_space (text (tr_model r)), ''unknown''], ev_CanonicalModel = [], ev_Tool = ''codex'',
      ev_InputTokens = None, ev_OutputTokens = None, ev_CacheReadTokens = None, ev_CacheWriteTokens = None,
      ev_ReasoningTokens = None, ev_TotalTokens = Some (tr_tokens_used r),
      ev_DurationMS = DurationMS (tr_created_at_ms r) (tr_updated_at_ms r),
      ev_Cost = None, ev_CostEstimated = False, ev_Currency = ''USD'', ev_TokenAccuracy = AccuracyReported,
      ev_Source = \<lparr>src_Adapter = adapterID, src_AdapterVersion = ''0.2.0'', src_Identity = sourceIdentity, src_Offset = 0\<rparr>,
      ev_Metadata = None\<rparr>)"

definition parseThreadSnapshotsUncached :: "codex_world \<Rightarrow> gostr \<Rightarrow> gostr \<Rightarrow> gostr \<Rightarrow> go_err + parse_result" where
  "parseThreadSnapshotsUncached w path machineID sourceIdentity =
    (let cursor = no_cursor\<lparr>cu_Identity := sourceIdentity\<rparr> in
     case cw_threads w path of Inl e \<Rightarrow> Inl e
     | Inr None \<Rightarrow> Inr \<lparr>ps_Events = [], ps_Cursor = cursor\<rparr>
     | Inr (Some rows) \<Rightarrow>
         Inr \<lparr>ps_Events = map (thread_event w machineID sourceIdentity)
                (sort_key tr_created_at_ms (sort_key tr_id (filter (\<lambda>r. 0 < tr_tokens_used r) rows))),
              ps_Cursor = cursor\<rparr>)"

text \<open>\<open>filepath.Base\<close> and \<open>filepath.Ext\<close> of a clean path that is not a root.\<close>

definition path_base :: "gostr \<Rightarrow> gostr" where "path_base p = last (split_on (CHR ''/'') p)"

definition path_ext :: "gostr \<Rightarrow> gostr" where
  "path_ext p = (let b = path_base p in if CHR ''.'' \<in> set b then CHR ''.'' # last (split_on (CHR ''.'') b) else [])"

definition parseThreadSnapshots :: "codex_world \<Rightarrow> codex_adapter \<Rightarrow> source_info \<Rightarrow> gostr \<Rightarrow> cursor \<Rightarrow> (go_err + parse_result) \<times> codex_adapter" where
  "parseThreadSnapshots w a src machineID c =
    (case Signature (cw_stat w) (so_Path src) of Inl e \<Rightarrow> (Inl e, a)
     | Inr signature \<Rightarrow>
        (let sourceIdentity = adapterID @ '':'' @ path_base (so_Path src) @ '':threads'' in
         cached_parse w a (so_Path src) sourceIdentity c
           (\<lambda>a. (parseThreadSnapshotsUncached w (so_Path src) machineID sourceIdentity, ca_index a)) signature))"

definition codex_Parse :: "codex_world \<Rightarrow> codex_adapter \<Rightarrow> source_info \<Rightarrow> gostr \<Rightarrow> cursor \<Rightarrow> (go_err + parse_result) \<times> codex_adapter" where
  "codex_Parse w a src machineID c =
    (if trim_space machineID = [] then (Inl [], a)
     else if equal_fold (cw_ufold w) (path_ext (so_Path src)) ''.jsonl'' then parseLog w a src machineID c
     else parseThreadSnapshots w a src machineID c)"

text \<open>\<open>Discover\<close>; \<open>glob\<close> lists the SQLite states of the directory.\<close>

definition codex_Discover :: "codex_world \<Rightarrow> (gostr \<Rightarrow> go_err + gostr list) \<Rightarrow> codex_adapter \<Rightarrow> (go_err + source_info list) \<times> codex_adapter" where
  "codex_Discover w glob a =
    (case discoverLogs w (ca_root a) of Inl e \<Rightarrow> (Inl e, a)
     | Inr logs \<Rightarrow>
        if logs \<noteq> [] then
          (Inr logs, a\<lparr>ca_index := refreshSessionIndex w (ca_index a) logs,
                       ca_cache := snapshot_Prune (ca_cache a) (map so_Path logs)\<rparr>)
        else case glob (path_join (ca_root a) ''state_*.sqlite'') of Inl e \<Rightarrow> (Inl e, a)
         | Inr paths \<Rightarrow>
            (let sources = map (\<lambda>p. \<lparr>so_Path = p, so_Identity = []\<rparr>) (sort paths) in
             (Inr sources, a\<lparr>ca_index := refreshSessionIndex w (ca_index a) [],
                             ca_cache := snapshot_Prune (ca_cache a) (map so_Path sources)\<rparr>)))"

subsection \<open>The loop over a growing file\<close>

text \<open>The loop on complete lines followed by more input is the loop on the lines, then on the rest.\<close>

lemma codex_loop_append:
  assumes "s = [] \<or> last s = newline"
  shows "codex_loop step st p n (s @ t) =
    (case codex_loop step st p n s of (st', Inl e) \<Rightarrow> (st', Inl e) | (st', Inr (p', n')) \<Rightarrow> codex_loop step st' p' n' t)"
  using assms
proof (induction step st p n s rule: codex_loop.induct)
  case (1 step st p n s)
  show ?case
  proof (cases "s = []")
    case True
    have "line_of [] = ([], [], True)" by (simp add: line_of_def)
    then have "ReadRecordLimit 65535 maxCodexRecordBytes [] = (Record [] True, [])"
      using ReadRecordLimit_of_line[of "[]" "[]" "[]" True maxCodexRecordBytes 65535] by simp
    then show ?thesis using True by (simp add: codex_loop.simps[of step st p n "[]"])
  next
    case False
    then have nl: "last s = newline" using "1.prems" by simp
    obtain line rest eof where l: "line_of s = (line, rest, eof)" by (cases "line_of s")
    then have a: "line_of (s @ t) = (line, rest @ t, False)" "\<not> eof" "rest = [] \<or> last rest = newline"
      using line_of_append[OF False nl, of t] by simp_all
    show ?thesis
    proof (cases "length line \<le> maxCodexRecordBytes")
      case True
      have r: "ReadRecordLimit 65535 maxCodexRecordBytes s = (Record line False, rest)"
        "ReadRecordLimit 65535 maxCodexRecordBytes (s @ t) = (Record line False, rest @ t)"
        using ReadRecordLimit_of_line[OF l] ReadRecordLimit_of_line[OF a(1)] True a(2) by simp_all
      have "codex_loop step (step (n + 1) line st) (p + int (length line)) (n + 1) (rest @ t)
        = (case codex_loop step (step (n + 1) line st) (p + int (length line)) (n + 1) rest of
             (st', Inl e) \<Rightarrow> (st', Inl e) | (st', Inr (p', n')) \<Rightarrow> codex_loop step st' p' n' t)"
        by (rule "1.IH"[OF r(1)[symmetric] refl]) (use a(3) in simp_all)
      then show ?thesis using r by (simp add: codex_loop.simps[of step st p n s] codex_loop.simps[of step st p n "s @ t"])
    next
      case False
      then have "fst (ReadRecordLimit 65535 maxCodexRecordBytes s) = RecordTooLong"
        "fst (ReadRecordLimit 65535 maxCodexRecordBytes (s @ t)) = RecordTooLong"
        using ReadRecordLimit_of_line[OF l] ReadRecordLimit_of_line[OF a(1)] by simp_all
      then show ?thesis
        by (subst codex_loop.simps, subst (2) codex_loop.simps) (auto split: prod.splits read_result.splits)
    qed
  qed
qed

subsection \<open>What a pass carries over\<close>

text \<open>The state with other \<open>seen\<close> keys and events: no step reads them but for the duplicate test.\<close>

definition with_pass :: "gostr list \<Rightarrow> event list \<Rightarrow> codex_state \<Rightarrow> codex_state" where
  "with_pass seen evs st = st\<lparr>cx_seen := seen, cx_events := evs\<rparr>"

lemma with_pass_simps [simp]:
  "cx_seen (with_pass seen evs st) = seen" "cx_events (with_pass seen evs st) = evs"
  "cx_index (with_pass seen evs st) = cx_index st" "cx_forkPending (with_pass seen evs st) = cx_forkPending st"
  "with_pass seen evs (with_pass seen' evs' st) = with_pass seen evs st"
  "with_pass (cx_seen st) (cx_events st) st = st"
  by (simp_all add: with_pass_def)

lemma on_session_meta_pass:
  "on_session_meta w dir path r m (with_pass seen evs st) = with_pass seen evs (on_session_meta w dir path r m st)"
  by (simp add: on_session_meta_def with_pass_def Let_def split: prod.split option.split)

lemma on_turn_context_pass: "on_turn_context w t (with_pass seen evs st) = with_pass seen evs (on_turn_context w t st)"
  by (simp add: on_turn_context_def with_pass_def)

lemma cumulative_tokens_pass:
  "cumulative_tokens u (with_pass seen evs st) = (case cumulative_tokens u st of (st', v) \<Rightarrow> (with_pass seen evs st', v))"
  by (simp add: cumulative_tokens_def with_pass_def Let_def)

lemma single_tokens_pass:
  "single_tokens u (with_pass seen evs st) = (case single_tokens u st of (st', v) \<Rightarrow> (with_pass seen evs st', v))"
  by (simp add: single_tokens_def with_pass_def Let_def split: prod.split)

lemma codex_event_pass: "codex_event m path model n ts t u (with_pass seen evs st) = codex_event m path model n ts t u st"
  by (simp add: codex_event_def with_pass_def Let_def)

text \<open>Two passes in step: equal but for events, the second with fewer keys seen.\<close>

definition in_step :: "codex_state \<Rightarrow> codex_state \<Rightarrow> bool" where
  "in_step s t \<longleftrightarrow> s = with_pass (cx_seen s) (cx_events s) t \<and> set (cx_seen t) \<subseteq> set (cx_seen s)"

definition steps_to :: "codex_state \<Rightarrow> codex_state \<Rightarrow> codex_state \<Rightarrow> codex_state \<Rightarrow> bool" where
  "steps_to s t s' t' \<longleftrightarrow> in_step s' t' \<and> (\<exists>E F. cx_events s' = cx_events s @ E \<and> cx_events t' = cx_events t @ F \<and> subseq E F
      \<and> (set (cx_seen s) = set (cx_seen t) \<longrightarrow> E = F \<and> set (cx_seen s') = set (cx_seen t')))"

lemma tokens_keep_pass:
  "cx_seen (fst (cumulative_tokens u st)) = cx_seen st" "cx_events (fst (cumulative_tokens u st)) = cx_events st"
  "cx_seen (fst (single_tokens u st)) = cx_seen st" "cx_events (fst (single_tokens u st)) = cx_events st"
  by (simp_all add: cumulative_tokens_def single_tokens_def Let_def split: prod.split)

lemma on_session_meta_keeps:
  "cx_seen (on_session_meta w dir path r m st) = cx_seen st" "cx_events (on_session_meta w dir path r m st) = cx_events st"
  by (simp_all add: on_session_meta_def Let_def split: prod.split option.split)

lemma on_turn_context_keeps:
  "cx_seen (on_turn_context w t st) = cx_seen st" "cx_events (on_turn_context w t st) = cx_events st"
  by (simp_all add: on_turn_context_def)

lemma steps_to_quiet:
  assumes "in_step s t" "s' = with_pass (cx_seen s) (cx_events s) t'" "cx_seen t' = cx_seen t" "cx_events t' = cx_events t"
  shows "steps_to s t s' t'"
  using assms by (auto simp: steps_to_def in_step_def)

lemma steps_to_refl: "in_step s t \<Longrightarrow> steps_to s t s t"
  by (rule steps_to_quiet) (simp_all add: in_step_def)

lemma on_token_count_step:
  assumes "in_step s t"
  shows "steps_to s t (on_token_count m path n r info s) (on_token_count m path n r info t)"
proof -
  define f where "f st = (if ti_Total info \<noteq> None then cumulative_tokens (normalizeTokenUsage (ti_Total info)) st
    else single_tokens (normalizeTokenUsage (ti_Last info)) st)" for st
  have s: "s = with_pass (cx_seen s) (cx_events s) t" and sub: "set (cx_seen t) \<subseteq> set (cx_seen s)"
    using assms by (simp_all add: in_step_def)
  obtain t1 v where ft: "f t = (t1, v)" by (cases "f t")
  have fs: "f s = (with_pass (cx_seen s) (cx_events s) t1, v)"
    using ft by (subst s) (auto simp: f_def cumulative_tokens_pass single_tokens_pass split: if_splits)
  have t1: "cx_seen t1 = cx_seen t" "cx_events t1 = cx_events t"
    using ft tokens_keep_pass by (auto simp: f_def split: if_splits) (metis fst_conv)+
  show ?thesis
  proof (cases v)
    case None
    then show ?thesis using fs ft t1 steps_to_quiet[OF assms refl t1]
      unfolding on_token_count_def Let_def f_def[symmetric] by simp
  next
    case (Some u)
    show ?thesis
    proof (cases "parse_rfc3339 (lr_Timestamp r)")
      case None
      then show ?thesis using fs ft t1 Some steps_to_quiet[OF assms refl t1]
        unfolding on_token_count_def Let_def f_def[symmetric] by simp
    next
      case (Some t0)
      have fields: "cx_sessionID (with_pass a b t1) = cx_sessionID t1" "cx_provider (with_pass a b t1) = cx_provider t1"
        "cx_model (with_pass a b t1) = cx_model t1" for a b by (simp_all add: with_pass_def)
      show ?thesis
        unfolding on_token_count_def Let_def f_def[symmetric] fs ft \<open>v = _\<close> Some prod.case option.case fields codex_event_pass
          with_pass_simps t1
        using sub by (auto simp: steps_to_def in_step_def with_pass_def t1)
    qed
  qed
qed

lemma codex_line_step:
  assumes "in_step s t"
  shows "steps_to s t (codex_line w dir m path n line s) (codex_line w dir m path n line t)"
proof -
  have s: "s = with_pass (cx_seen s) (cx_events s) t" using assms by (simp add: in_step_def)
  have meta: "steps_to s t (on_session_meta w dir path r d s) (on_session_meta w dir path r d t)" for r d
    by (rule steps_to_quiet[OF assms]) (use on_session_meta_pass s on_session_meta_keeps in metis)+
  have turn: "steps_to s t (on_turn_context w d s) (on_turn_context w d t)" for d
    by (rule steps_to_quiet[OF assms]) (use on_turn_context_pass s on_turn_context_keeps in metis)+
  show ?thesis
    using meta turn on_token_count_step[OF assms] steps_to_refl[OF assms]
    by (simp add: codex_line_def split: option.split)
qed

lemma steps_to_trans:
  assumes "steps_to s t s' t'" "steps_to s' t' s'' t''"
  shows "steps_to s t s'' t''"
proof -
  obtain E F where 1: "cx_events s' = cx_events s @ E" "cx_events t' = cx_events t @ F" "subseq E F"
    "set (cx_seen s) = set (cx_seen t) \<longrightarrow> E = F \<and> set (cx_seen s') = set (cx_seen t')"
    using assms(1) unfolding steps_to_def by blast
  obtain E' F' where 2: "cx_events s'' = cx_events s' @ E'" "cx_events t'' = cx_events t' @ F'" "subseq E' F'"
    "set (cx_seen s') = set (cx_seen t') \<longrightarrow> E' = F' \<and> set (cx_seen s'') = set (cx_seen t'')"
    using assms(2) unfolding steps_to_def by blast
  have "cx_events s'' = cx_events s @ (E @ E')" "cx_events t'' = cx_events t @ (F @ F')" "subseq (E @ E') (F @ F')"
    using 1 2 by (simp_all add: list_emb_append_mono)
  moreover have "set (cx_seen s) = set (cx_seen t) \<longrightarrow> E @ E' = F @ F' \<and> set (cx_seen s'') = set (cx_seen t'')"
    using 1(4) 2(4) by blast
  ultimately show ?thesis using assms(2) unfolding steps_to_def by blast
qed

lemma codex_loop_step:
  assumes "in_step s t"
  shows "steps_to s t (fst (codex_loop (codex_line w dir m path) s p n input)) (fst (codex_loop (codex_line w dir m path) t p n input))
    \<and> snd (codex_loop (codex_line w dir m path) s p n input) = snd (codex_loop (codex_line w dir m path) t p n input)"
  using assms
proof (induction "codex_line w dir m path" s p n input arbitrary: t rule: codex_loop.induct)
  case (1 st p n input)
  let ?L = "codex_line w dir m path"
  obtain r rest where r: "ReadRecordLimit 65535 maxCodexRecordBytes input = (r, rest)"
    by (cases "ReadRecordLimit 65535 maxCodexRecordBytes input")
  show ?case
  proof (cases r)
    case RecordTooLong
    then show ?thesis using r steps_to_refl[OF "1.prems"]
      by (simp add: codex_loop.simps[of ?L st p n input] codex_loop.simps[of ?L t p n input])
  next
    case (Record line eof)
    show ?thesis
    proof (cases "line = [] \<and> eof \<or> eof \<and> \<not> has_suffix line [newline]")
      case True
      then show ?thesis using r Record steps_to_refl[OF "1.prems"]
        by (auto simp add: codex_loop.simps[of ?L st p n input] codex_loop.simps[of ?L t p n input])
    next
      case False
      note st = codex_line_step[OF "1.prems", of w dir m path "n + 1" line]
      have i: "in_step (?L (n + 1) line st) (?L (n + 1) line t)" using st by (simp add: steps_to_def)
      have ih: "steps_to (?L (n + 1) line st) (?L (n + 1) line t)
          (fst (codex_loop ?L (?L (n + 1) line st) (p + int (length line)) (n + 1) rest))
          (fst (codex_loop ?L (?L (n + 1) line t) (p + int (length line)) (n + 1) rest))
        \<and> snd (codex_loop ?L (?L (n + 1) line st) (p + int (length line)) (n + 1) rest)
          = snd (codex_loop ?L (?L (n + 1) line t) (p + int (length line)) (n + 1) rest)"
        by (rule "1.hyps"[OF r[symmetric] Record _ _ i]) (use False in auto)
      have "codex_loop ?L u p n input = codex_loop ?L (?L (n + 1) line u) (p + int (length line)) (n + 1) rest" for u
        using r Record False by (auto simp add: codex_loop.simps[of ?L u p n input])
      then show ?thesis using ih steps_to_trans[OF st] by simp
    qed
  qed
qed

text \<open>On complete lines the loop ends at their end, having counted them.\<close>

lemma codex_loop_position:
  assumes "s = [] \<or> last s = newline" "snd (codex_loop step st p n s) = Inr (p', n')"
  shows "p' = p + int (length s) \<and> n \<le> n' \<and> (s \<noteq> [] \<longrightarrow> n < n')"
  using assms
proof (induction step st p n s rule: codex_loop.induct)
  case (1 step st p n s)
  show ?case
  proof (cases "s = []")
    case True
    have "ReadRecordLimit 65535 maxCodexRecordBytes [] = (Record [] True, [])"
      using ReadRecordLimit_of_line[of "[]" "[]" "[]" True maxCodexRecordBytes 65535] by (simp add: line_of_def)
    then show ?thesis using True "1.prems"(2) by (simp add: codex_loop.simps[of step st p n "[]"])
  next
    case False
    then have nl: "last s = newline" using "1.prems" by simp
    obtain line rest eof where l: "line_of s = (line, rest, eof)" by (cases "line_of s")
    then have a: "\<not> eof" "line @ rest = s" "rest = [] \<or> last rest = newline"
      using line_of_append[OF False nl, of "[]"] by simp_all
    show ?thesis
    proof (cases "length line \<le> maxCodexRecordBytes")
      case True
      then have r: "ReadRecordLimit 65535 maxCodexRecordBytes s = (Record line False, rest)"
        using ReadRecordLimit_of_line[OF l] a(1) by simp
      have "p' = p + int (length line) + int (length rest) \<and> n + 1 \<le> n' \<and> (rest \<noteq> [] \<longrightarrow> n + 1 < n')"
        using "1.IH"[OF r[symmetric] refl _ _ a(3)] "1.prems"(2) r by (simp add: codex_loop.simps[of step st p n s])
      moreover have "length s = length line + length rest" using a(2) by (metis length_append)
      ultimately show ?thesis by simp
    next
      case False
      then have "fst (ReadRecordLimit 65535 maxCodexRecordBytes s) = RecordTooLong" using ReadRecordLimit_of_line[OF l] by simp
      then show ?thesis using "1.prems"(2) by (subst (asm) codex_loop.simps) (auto split: prod.splits)
    qed
  qed
qed

subsection \<open>Reading a log in pieces\<close>

definition with_file :: "gostr \<Rightarrow> gostr \<Rightarrow> codex_world \<Rightarrow> codex_world" where
  "with_file path content w = w\<lparr>cw_file := (cw_file w)(path := Inr content)\<rparr>"

lemma with_file_simps [simp]:
  "cw_record (with_file path c w) = cw_record w" "cw_metadata (with_file path c w) = cw_metadata w"
  "cw_turn (with_file path c w) = cw_turn w" "cw_payload (with_file path c w) = cw_payload w"
  "cw_encode (with_file path c w) = cw_encode w" "cw_decode (with_file path c w) = cw_decode w"
  "cw_ulow (with_file path c w) = cw_ulow w" "cw_file (with_file path c w) = (cw_file w)(path := Inr c)"
  by (simp_all add: with_file_def)

lemma decode_with_file: "decodeCodexParseState (with_file path c w) = decodeCodexParseState w"
  by (rule ext) (simp only: decodeCodexParseState_def with_file_simps)

lemma inherited_in_with_file: "inherited_in (with_file path c w) t0 latest ls = inherited_in w t0 latest ls"
proof (induction ls arbitrary: latest)
  case (Cons l ls)
  then show ?case unfolding inherited_in.simps with_file_simps by blast
qed simp

lemma inheritedCumulativeUsage_with_file:
  "p \<noteq> path \<Longrightarrow> inheritedCumulativeUsage (with_file path c w) p t = inheritedCumulativeUsage w p t"
  unfolding inheritedCumulativeUsage_def inherited_in_with_file by (simp cong: option.case_cong)

lemma resolveForkBaseline_with_file:
  "ci_sessionFiles x \<noteq> [] \<Longrightarrow> resolveForkBaseline (with_file path c w) dir x path m = resolveForkBaseline w dir x path m"
  "ci_sessionFiles x \<noteq> [] \<Longrightarrow> fst (resolveForkBaseline w dir x path m) = x"
  by (simp_all add: resolveForkBaseline_def Let_def inheritedCumulativeUsage_with_file)

lemma tokens_index:
  "cx_index (fst (cumulative_tokens u st)) = cx_index st" "cx_index (fst (single_tokens u st)) = cx_index st"
  by (simp_all add: cumulative_tokens_def single_tokens_def Let_def split: prod.split)

lemma on_token_count_index: "cx_index (on_token_count m path n r info st) = cx_index st"
proof -
  obtain st1 v where f: "(if ti_Total info \<noteq> None then cumulative_tokens (normalizeTokenUsage (ti_Total info)) st
      else single_tokens (normalizeTokenUsage (ti_Last info)) st) = (st1, v)" by fastforce
  have "cx_index st1 = cx_index st" using f tokens_index by (metis fst_conv)
  then show ?thesis unfolding on_token_count_def Let_def f by (simp split: option.split)
qed

lemma codex_line_with_file:
  assumes "ci_sessionFiles (cx_index st) \<noteq> []"
  shows "codex_line (with_file path c w) dir m path n line st = codex_line w dir m path n line st
    \<and> cx_index (codex_line w dir m path n line st) = cx_index st"
proof -
  define b where "b d = snd (resolveForkBaseline w dir (cx_index st) path d)" for d
  have b: "resolveForkBaseline w dir (cx_index st) path d = (cx_index st, b d)" for d
    unfolding b_def using resolveForkBaseline_with_file(2)[OF assms] by (intro prod_eqI) simp_all
  have b': "resolveForkBaseline (with_file path c w) dir (cx_index st) path d = (cx_index st, b d)" for d
    using b resolveForkBaseline_with_file(1)[OF assms] by simp
  have meta: "on_session_meta (with_file path c w) dir path r d st = on_session_meta w dir path r d st"
    "cx_index (on_session_meta w dir path r d st) = cx_index st" for r d
    by (simp_all add: on_session_meta_def b b' Let_def split: option.split)
  have turn: "on_turn_context (with_file path c w) d st = on_turn_context w d st"
    "cx_index (on_turn_context w d st) = cx_index st" for d
    by (simp_all add: on_turn_context_def)
  show ?thesis using meta turn by (simp add: codex_line_def on_token_count_index split: option.split)
qed

lemma codex_loop_with_file:
  assumes "ci_sessionFiles (cx_index st) \<noteq> []"
  shows "codex_loop (codex_line (with_file path c w) dir m path) st p n input = codex_loop (codex_line w dir m path) st p n input
    \<and> cx_index (fst (codex_loop (codex_line w dir m path) st p n input)) = cx_index st"
  using assms
proof (induction "codex_line w dir m path" st p n input rule: codex_loop.induct)
  case (1 st p n input)
  let ?L = "codex_line w dir m path" and ?M = "codex_line (with_file path c w) dir m path"
  obtain r rest where r: "ReadRecordLimit 65535 maxCodexRecordBytes input = (r, rest)"
    by (cases "ReadRecordLimit 65535 maxCodexRecordBytes input")
  show ?case
  proof (cases r)
    case RecordTooLong
    then show ?thesis using r by (simp add: codex_loop.simps[of ?L st p n input] codex_loop.simps[of ?M st p n input])
  next
    case (Record line eof)
    show ?thesis
    proof (cases "line = [] \<and> eof \<or> eof \<and> \<not> has_suffix line [newline]")
      case True
      then show ?thesis using r Record by (auto simp add: codex_loop.simps[of ?L st p n input] codex_loop.simps[of ?M st p n input])
    next
      case False
      note l = codex_line_with_file[OF "1.prems", of path c w dir m "n + 1" line]
      have "codex_loop ?M (?L (n + 1) line st) (p + int (length line)) (n + 1) rest
          = codex_loop ?L (?L (n + 1) line st) (p + int (length line)) (n + 1) rest
        \<and> cx_index (fst (codex_loop ?L (?L (n + 1) line st) (p + int (length line)) (n + 1) rest)) = cx_index (?L (n + 1) line st)"
        by (rule "1.hyps"[OF r[symmetric] Record]) (use False l "1.prems" in auto)
      moreover have "codex_loop ?L st p n input = codex_loop ?L (?L (n + 1) line st) (p + int (length line)) (n + 1) rest"
        "codex_loop ?M st p n input = codex_loop ?M (?M (n + 1) line st) (p + int (length line)) (n + 1) rest"
        using r Record False by (auto simp add: codex_loop.simps[of ?L st p n input] codex_loop.simps[of ?M st p n input])
      ultimately show ?thesis using l by simp
    qed
  qed
qed

text \<open>The state at the end of a first pass over a content, of a source that is in the index.\<close>

definition first_pass ::
  "codex_world \<Rightarrow> gostr \<Rightarrow> codex_index \<Rightarrow> source_info \<Rightarrow> gostr \<Rightarrow> gostr \<Rightarrow> codex_state \<times> (go_err + i64 \<times> i64)" where
  "first_pass w dir x src machineID content =
    codex_loop (codex_line w dir machineID (so_Path src))
      (fresh_state (snd (resolveForkBaseline w dir x (so_Path src) (the (map_of (ci_metadataByPath x) (so_Path src))))) x) 0 0 content"

text \<open>What is assumed of the JSON codec: the saved state is read back.\<close>

definition state_roundtrips :: "codex_world \<Rightarrow> parse_state \<Rightarrow> bool" where
  "state_roundtrips w p \<longleftrightarrow>
    decodeCodexParseState w (encodeCodexParseState w p) = Some (p\<lparr>pt_Version := codexParseStateVersion\<rparr>)"

lemma parse_first:
  assumes "map_of (ci_metadataByPath x) (so_Path src) \<noteq> None" "ci_sessionFiles x \<noteq> []"
  shows "parseLogUncached (with_file (so_Path src) content w) dir x src m no_cursor ci =
    (case first_pass w dir x src m content of
       (st, Inl e) \<Rightarrow> (Inl e, x)
     | (st, Inr (p, n)) \<Rightarrow> (Inr \<lparr>ps_Events = cx_events st, ps_Cursor = \<lparr>cu_Identity = HashIdentity (so_Path src),
          cu_Offset = p, cu_Line = n, cu_State = encodeCodexParseState w (saved_state ci st)\<rparr>\<rparr>, x))"
proof -
  let ?w = "with_file (so_Path src) content w"
  obtain md where md: "map_of (ci_metadataByPath x) (so_Path src) = Some md" using assms(1) by blast
  obtain b where b: "resolveForkBaseline w dir x (so_Path src) md = (x, b)"
    using resolveForkBaseline_with_file(2)[OF assms(2)] by (metis eq_fst_iff)
  have b': "resolveForkBaseline ?w dir x (so_Path src) md = (x, b)"
    using b resolveForkBaseline_with_file(1)[OF assms(2)] by simp
  have none: "resume_from ?w no_cursor l ci i = None" for l i
    by (simp add: resume_from_def decodeCodexParseState_def no_cursor_def)
  have ix: "cx_index (fresh_state b x) = x" by (simp add: fresh_state_def)
  then have "ci_sessionFiles (cx_index (fresh_state b x)) \<noteq> []" using assms(2) by simp
  note l = codex_loop_with_file[OF this, of "so_Path src" content w dir m 0 0 content]
  have e: "encodeCodexParseState ?w = encodeCodexParseState w" by (rule ext) (simp add: encodeCodexParseState_def)
  obtain st r where lp: "codex_loop (codex_line w dir m (so_Path src)) (fresh_state b x) 0 0 content = (st, r)" by fastforce
  have "codex_loop (codex_line ?w dir m (so_Path src)) (fresh_state b x) 0 0 content = (st, r)" "cx_index st = x"
    using l lp ix by simp_all
  then show ?thesis
    by (cases r) (simp_all add: parseLogUncached_def sourceMetadata_def md b b' first_pass_def Let_def none e lp split: prod.split)
qed

lemma resumed_saved: "resumed_state (saved_state ci st\<lparr>pt_Version := v\<rparr>) (cx_index st) = with_pass [] [] st"
  by (simp add: resumed_state_def saved_state_def with_pass_def derefTokenUsage_def)

text \<open>C4: An append-only session log may be read in pieces: when a pass has read the complete lines of
  a log, a later pass that resumes from its cursor fails exactly when reading the longer log from
  its beginning fails, and otherwise ends with the same cursor, saved state included; the events
  of the full read are a subsequence of those of the two passes (a repeated non-cumulative record
  may be reported again by the second), and exactly those when the first pass saw cumulative
  counters only.\<close>

theorem codex_resume:
  assumes indexed: "map_of (ci_metadataByPath x) (so_Path src) \<noteq> None" "ci_sessionFiles x \<noteq> []"
    and lines: "xs \<noteq> []" "last xs = newline"
    and codec: "state_roundtrips w (saved_state ci (fst (first_pass w dir x src m xs)))"
    and first: "parseLogUncached (with_file (so_Path src) xs w) dir x src m no_cursor ci = (Inr r1, x1)"
  shows "case (fst (parseLogUncached (with_file (so_Path src) (xs @ ys) w) dir x src m no_cursor ci),
      fst (parseLogUncached (with_file (so_Path src) (xs @ ys) w) dir x1 src m (ps_Cursor r1) ci)) of
    (Inl e, second) \<Rightarrow> second = Inl e
  | (Inr r, second) \<Rightarrow> (case second of Inl e \<Rightarrow> False
      | Inr r2 \<Rightarrow> ps_Cursor r2 = ps_Cursor r \<and> subseq (ps_Events r) (ps_Events r1 @ ps_Events r2)
          \<and> (cx_seen (fst (first_pass w dir x src m xs)) = [] \<longrightarrow> ps_Events r = ps_Events r1 @ ps_Events r2))"
proof -
  let ?path = "so_Path src" and ?L = "codex_line w dir m (so_Path src)" and ?w = "with_file (so_Path src) (xs @ ys) w"
  obtain st p n where fp: "first_pass w dir x src m xs = (st, Inr (p, n))" and x1: "x1 = x"
    and r1: "r1 = \<lparr>ps_Events = cx_events st, ps_Cursor = \<lparr>cu_Identity = HashIdentity ?path, cu_Offset = p, cu_Line = n,
        cu_State = encodeCodexParseState w (saved_state ci st)\<rparr>\<rparr>"
    using first unfolding parse_first[OF indexed] by (auto split: prod.splits sum.splits)
  have pos: "p = int (length xs)" "0 < n"
    using codex_loop_position[OF disjI2[OF lines(2)], of ?L _ 0 0 p n] lines(1) fp unfolding first_pass_def by (metis add_0 snd_conv)+
  have ix: "cx_index st = x"
    using codex_loop_with_file[where input = xs and c = "[]"] indexed(2) fp unfolding first_pass_def
    by (metis fresh_state_def codex_state.select_convs(12) fst_conv)
  have all: "first_pass w dir x src m (xs @ ys) = codex_loop ?L st p n ys"
    using codex_loop_append[of xs ?L _ 0 0 ys] lines fp unfolding first_pass_def by simp
  have dec: "decodeCodexParseState ?w (encodeCodexParseState w (saved_state ci st))
      = Some (saved_state ci st\<lparr>pt_Version := codexParseStateVersion\<rparr>)"
    using codec fp unfolding state_roundtrips_def decode_with_file by simp
  have "resume_from ?w (ps_Cursor r1) (int (length (xs @ ys))) ci (HashIdentity ?path)
      = Some (saved_state ci st\<lparr>pt_Version := codexParseStateVersion\<rparr>)"
    using pos lines(1) by (simp add: resume_from_def r1 dec) (simp add: saved_state_def)
  moreover have "encodeCodexParseState ?w = encodeCodexParseState w" by (rule ext) (simp add: encodeCodexParseState_def)
  moreover have "codex_loop (codex_line ?w dir m ?path) (with_pass [] [] st) p n ys = codex_loop ?L (with_pass [] [] st) p n ys"
    using codex_loop_with_file[of "with_pass [] [] st"] indexed(2) ix by simp
  ultimately have second: "fst (parseLogUncached ?w dir x1 src m (ps_Cursor r1) ci) =
    (case codex_loop ?L (with_pass [] [] st) p n ys of (st', Inl e) \<Rightarrow> Inl e
     | (st', Inr (p', n')) \<Rightarrow> Inr \<lparr>ps_Events = cx_events st', ps_Cursor = \<lparr>cu_Identity = HashIdentity ?path,
          cu_Offset = p', cu_Line = n', cu_State = encodeCodexParseState w (saved_state ci st')\<rparr>\<rparr>)"
    using pos resumed_saved[of codexParseStateVersion ci st] ix x1
    by (simp add: parseLogUncached_def Let_def r1 split: prod.split sum.split)
  have i: "in_step st (with_pass [] [] st)" by (simp add: in_step_def)
  obtain s' t' res where lp: "codex_loop ?L st p n ys = (s', res)" "codex_loop ?L (with_pass [] [] st) p n ys = (t', res)"
    and sv: "steps_to st (with_pass [] [] st) s' t'"
    using codex_loop_step[OF i, of w dir m ?path p n ys] by (metis prod.collapse)
  obtain E F where ev: "cx_events s' = cx_events st @ E" "cx_events t' = F" "subseq E F"
    "cx_seen st = [] \<longrightarrow> E = F"
    using sv unfolding steps_to_def by auto
  have saved: "saved_state ci s' = saved_state ci t'"
  proof -
    have "saved_state ci (with_pass a b t') = saved_state ci t'" for a b by (simp add: saved_state_def with_pass_def)
    then show ?thesis using sv unfolding steps_to_def in_step_def by metis
  qed
  show ?thesis
    unfolding second parse_first[OF indexed] all lp fp
    using ev saved by (auto simp: r1 list_emb_append_mono split: sum.split prod.split)
qed

text \<open>A world whose logs are blank lines.\<close>

definition sample_index :: codex_index where
  "sample_index = \<lparr>ci_sessionFiles = [(''i'', ''p'')], ci_metadataByPath = [(''p'', no_metadata)], ci_metadataSigs = []\<rparr>"

definition sample_world :: codex_world where
  "sample_world = \<lparr>cw_file = (\<lambda>_. Inl []), cw_stat = (\<lambda>_. Inl []), cw_paths = (\<lambda>_. Inl []), cw_threads = (\<lambda>_. Inl []),
    cw_record = (\<lambda>_. None), cw_metadata = (\<lambda>_. None), cw_turn = (\<lambda>_. None), cw_payload = (\<lambda>_. None),
    cw_encode = (\<lambda>_. Some ''{}''),
    cw_decode = (\<lambda>_. Some (saved_state ''c'' (fresh_state None sample_index)\<lparr>pt_Version := codexParseStateVersion\<rparr>)),
    cw_ulow = (\<lambda>r. r), cw_ufold = (\<lambda>r. r)\<rparr>"

definition sample_source :: source_info where "sample_source = \<lparr>so_Path = ''p'', so_Identity = []\<rparr>"

lemma blank_line: "codex_line w dir m path n [newline] st = st"
  by (simp add: codex_line_def quoted_def has_prefix_def)

lemma sample_first_pass: "first_pass sample_world dir sample_index sample_source m [newline] = (fresh_state None sample_index, Inr (1, 1))"
proof -
  have b: "resolveForkBaseline sample_world dir sample_index ''p'' no_metadata = (sample_index, None)"
    by (simp add: resolveForkBaseline_def forkParentID_def no_metadata_def Let_def)
  have r: "ReadRecordLimit 65535 maxCodexRecordBytes [newline] = (Record [newline] False, [])"
    "ReadRecordLimit 65535 maxCodexRecordBytes [] = (Record [] True, [])"
    using ReadRecordLimit_of_line[of "[newline]" "[newline]" "[]" False maxCodexRecordBytes 65535]
      ReadRecordLimit_of_line[of "[]" "[]" "[]" True maxCodexRecordBytes 65535]
    by (simp_all add: line_of_def maxCodexRecordBytes_def)
  show ?thesis
    by (simp add: first_pass_def sample_source_def sample_index_def[THEN arg_cong, of ci_metadataByPath] b r blank_line
        codex_loop.simps[of _ _ _ _ "[newline]"] codex_loop.simps[of _ _ _ _ "[]"])
qed

theorem codex_resume_witness:
  "case (fst (parseLogUncached (with_file ''p'' [newline, newline] sample_world) [] sample_index sample_source ''m'' no_cursor ''c''),
      fst (parseLogUncached (with_file ''p'' [newline, newline] sample_world) [] sample_index sample_source ''m''
        \<lparr>cu_Identity = HashIdentity ''p'', cu_Offset = 1, cu_Line = 1,
         cu_State = encodeCodexParseState sample_world (saved_state ''c'' (fresh_state None sample_index))\<rparr> ''c'')) of
     (Inl e, second) \<Rightarrow> second = Inl e
   | (Inr r, second) \<Rightarrow> (case second of Inl e \<Rightarrow> False | Inr r2 \<Rightarrow> ps_Cursor r2 = ps_Cursor r \<and> ps_Events r = ps_Events r2)"
proof -
  have i: "map_of (ci_metadataByPath sample_index) (so_Path sample_source) \<noteq> None" "ci_sessionFiles sample_index \<noteq> []"
    by (simp_all add: sample_index_def sample_source_def)
  have l: "[newline] \<noteq> []" "last [newline] = newline" by simp_all
  have c: "state_roundtrips sample_world (saved_state ''c'' (fst (first_pass sample_world [] sample_index sample_source ''m'' [newline])))"
    unfolding sample_first_pass
    by (simp add: state_roundtrips_def decodeCodexParseState_def encodeCodexParseState_def sample_world_def
        codexParseStateVersion_def str_eval is_space_def del: runes.simps(2))
  have f: "parseLogUncached (with_file (so_Path sample_source) [newline] sample_world) [] sample_index sample_source ''m'' no_cursor ''c''
    = (Inr \<lparr>ps_Events = [], ps_Cursor = \<lparr>cu_Identity = HashIdentity (so_Path sample_source), cu_Offset = 1, cu_Line = 1,
        cu_State = encodeCodexParseState sample_world (saved_state ''c'' (fresh_state None sample_index))\<rparr>\<rparr>, sample_index)"
    unfolding parse_first[OF i] sample_first_pass by (simp add: fresh_state_def)
  have "cx_seen (fst (first_pass sample_world [] sample_index sample_source ''m'' [newline])) = []"
    unfolding sample_first_pass by (simp add: fresh_state_def)
  then show ?thesis
    using codex_resume[OF i l c f, of "[newline]"] by (auto simp: sample_source_def split: sum.splits)
qed

subsection \<open>Token counters are consistent\<close>

definition usage_ok :: "norm_usage \<Rightarrow> bool" where
  "usage_ok v \<longleftrightarrow> 0 \<le> nu_Input v \<and> 0 \<le> nu_Cached v \<and> 0 \<le> nu_CacheWrite v \<and> 0 \<le> nu_Output v
    \<and> 0 \<le> nu_Reasoning v \<and> nu_Reasoning v \<le> nu_Output v \<and> 0 \<le> nu_Total v"

definition usage_i64 :: "token_usage \<Rightarrow> bool" where
  "usage_i64 t \<longleftrightarrow> list_all is_i64 [tu_Input t, tu_CachedInput t, tu_CacheReadInput t, tu_CacheWriteInput t, tu_Output t,
    tu_Reasoning t, tu_Total t]"

definition norm_i64 :: "norm_usage \<Rightarrow> bool" where
  "norm_i64 v \<longleftrightarrow> list_all is_i64 [nu_Input v, nu_Cached v, nu_CacheWrite v, nu_Output v, nu_Reasoning v, nu_Total v]"

text \<open>The JSON decoder yields 64-bit integers.\<close>

definition world_i64 :: "codex_world \<Rightarrow> bool" where
  "world_i64 w \<longleftrightarrow> (\<forall>raw p info. cw_payload w raw = Some p \<longrightarrow> ep_Info p = Some info
    \<longrightarrow> (\<forall>t. ti_Last info = Some t \<or> ti_Total info = Some t \<longrightarrow> usage_i64 t))"

lemma is_i64_max0: "is_i64 a \<Longrightarrow> is_i64 (max 0 a)"
  by (simp add: is_i64_def min_i64_def max_i64_def max_def)

lemma is_i64_min: "is_i64 a \<Longrightarrow> is_i64 b \<Longrightarrow> is_i64 (min a b)"
  by (simp add: min_def)

lemma i64_sub_part: "is_i64 a \<Longrightarrow> 0 \<le> b \<Longrightarrow> b \<le> a \<Longrightarrow> i64_sub a b = a - b"
  by (rule i64_sub_exact) (simp add: is_i64_def min_i64_def)

lemma delta_ok: "usage_ok (delta v p)"
proof -
  have "i64_sub (max 0 (i64_sub a b)) (min (max 0 (i64_sub a b)) (max 0 c)) = max 0 (i64_sub a b) - min (max 0 (i64_sub a b)) (max 0 c)" for a b c
    by (rule i64_sub_part) (simp_all add: is_i64_max0)
  then show ?thesis by (simp add: usage_ok_def delta_def Let_def)
qed

lemma zero_usage_ok: "usage_ok zero_usage"
  by (simp add: usage_ok_def zero_usage_def)

lemma eventTokenUsage_ok: "norm_i64 v \<Longrightarrow> usage_ok (eventTokenUsage v)"
proof -
  assume "norm_i64 v"
  then have "i64_sub (max 0 (nu_Input v)) (min (max 0 (nu_Cached v)) (max 0 (nu_Input v)))
      = max 0 (nu_Input v) - min (max 0 (nu_Cached v)) (max 0 (nu_Input v))"
    by (intro i64_sub_part) (simp_all add: norm_i64_def is_i64_max0)
  then show ?thesis by (simp add: usage_ok_def eventTokenUsage_def Let_def)
qed

lemma norm_i64_normalize: "(\<And>u. t = Some u \<Longrightarrow> usage_i64 u) \<Longrightarrow> norm_i64 (normalizeTokenUsage t)"
  by (cases t)
    (simp_all add: normalizeTokenUsage_def zero_usage_def norm_i64_def usage_i64_def Let_def is_i64_max0 is_i64_min is_i64_def[of 0] min_i64_def max_i64_def)

lemma norm_i64_monus: "norm_i64 (monus_usage v p)"
  by (simp add: monus_usage_def norm_i64_def is_i64_max0)

lemma cumulative_tokens_ok: "snd (cumulative_tokens u st) = Some v \<Longrightarrow> usage_ok v"
  using delta_ok zero_usage_ok by (auto simp: cumulative_tokens_def Let_def split: if_splits)

lemma single_tokens_ok: "norm_i64 u \<Longrightarrow> snd (single_tokens u st) = Some v \<Longrightarrow> usage_ok v"
  using eventTokenUsage_ok norm_i64_monus
  by (auto simp: single_tokens_def subtractInheritedPrefix_def Let_def split: if_splits)

text \<open>What the parser guarantees of an event's counters.\<close>

definition counted_event :: "gostr \<Rightarrow> event \<Rightarrow> bool" where
  "counted_event machineID e \<longleftrightarrow> (case (ev_InputTokens e, ev_OutputTokens e, ev_CacheReadTokens e, ev_CacheWriteTokens e,
      ev_ReasoningTokens e, ev_TotalTokens e) of
     (Some i, Some out, Some cr, Some cwr, Some re, Some t) \<Rightarrow> 0 \<le> i \<and> 0 \<le> out \<and> 0 \<le> cr \<and> 0 \<le> cwr \<and> 0 \<le> re \<and> re \<le> out \<and> 0 \<le> t
   | _ \<Rightarrow> False)
   \<and> ev_MachineID e = machineID \<and> ev_SchemaVersion e = event_schema_version \<and> src_Adapter (ev_Source e) = adapterID
   \<and> ev_SessionID e \<noteq> [] \<and> ev_Model e \<noteq> []"

lemma firstNonEmpty_Nil: "firstNonEmpty vs = [] \<longleftrightarrow> list_all (\<lambda>v. trim_space v = []) vs"
  by (induction vs rule: firstNonEmpty.induct) (auto simp: Let_def)

lemma trim_hash: "trim_space (HashSessionID v) \<noteq> []"
  using event_id_like_trim[OF hashes_event_id_like(1), of v] by (simp add: HashSessionID_def)

lemma trim_unknown: "trim_space ''unknown'' \<noteq> []"
  by (simp add: str_eval is_space_def del: runes.simps(2))

lemma codex_event_counted:
  assumes "usage_ok v" "currentModel \<noteq> []"
  shows "counted_event m (codex_event m path currentModel n ts t v st)"
  using assms firstNonEmpty_Nil trim_hash
  by (simp add: counted_event_def codex_event_def Let_def usage_ok_def)

lemma on_token_count_counted:
  assumes "\<And>t. ti_Last info = Some t \<Longrightarrow> usage_i64 t" "list_all (counted_event m) (cx_events st)"
  shows "list_all (counted_event m) (cx_events (on_token_count m path n r info st))"
proof -
  define f where "f = (if ti_Total info \<noteq> None then cumulative_tokens (normalizeTokenUsage (ti_Total info)) st
    else single_tokens (normalizeTokenUsage (ti_Last info)) st)"
  obtain st1 v where f: "f = (st1, v)" by fastforce
  have ev: "cx_events st1 = cx_events st"
    using f tokens_keep_pass unfolding f_def by (metis fst_conv)
  have ok: "usage_ok u" if "v = Some u" for u
  proof (cases "ti_Total info = None")
    case True
    then show ?thesis
      using f that single_tokens_ok[OF norm_i64_normalize[OF assms(1)], where st = st and v = u] unfolding f_def by simp
  next
    case False
    then show ?thesis
      using f that cumulative_tokens_ok[of "normalizeTokenUsage (ti_Total info)" st u] unfolding f_def by simp
  qed
  have model: "firstNonEmpty [a, b, c, ''unknown''] \<noteq> []" for a b c
    using trim_unknown by (simp add: firstNonEmpty_Nil del: firstNonEmpty.simps)
  show ?thesis
    unfolding on_token_count_def Let_def f_def[symmetric] f
    using ev assms(2) codex_event_counted[OF ok model] by (auto split: option.split)
qed

lemma codex_line_counted:
  assumes "world_i64 w" "list_all (counted_event m) (cx_events st)"
  shows "list_all (counted_event m) (cx_events (codex_line w dir m path n line st))"
  using assms(2) on_token_count_counted[of _ m st path n] on_session_meta_keeps on_turn_context_keeps assms(1)
  unfolding codex_line_def world_i64_def by (auto split: option.split)

lemma codex_loop_invariant:
  assumes "\<And>st n line. P st \<Longrightarrow> P (step n line st)" and "P st"
  shows "P (fst (codex_loop step st p n s))"
  using assms
proof (induction step st p n s rule: codex_loop.induct)
  case (1 step st p n s)
  obtain r rest where r: "ReadRecordLimit 65535 maxCodexRecordBytes s = (r, rest)"
    by (cases "ReadRecordLimit 65535 maxCodexRecordBytes s")
  show ?case
  proof (cases r)
    case RecordTooLong
    then show ?thesis using r "1.prems" by (simp add: codex_loop.simps[of step st p n s])
  next
    case (Record line eof)
    show ?thesis
    proof (cases "line = [] \<and> eof \<or> eof \<and> \<not> has_suffix line [newline]")
      case True
      then show ?thesis using r Record "1.prems" by (auto simp add: codex_loop.simps[of step st p n s])
    next
      case False
      have "codex_loop step st p n s = codex_loop step (step (n + 1) line st) (p + int (length line)) (n + 1) rest"
        using r Record False by (auto simp add: codex_loop.simps[of step st p n s])
      moreover have "P (fst (codex_loop step (step (n + 1) line st) (p + int (length line)) (n + 1) rest))"
        by (rule "1.IH"[OF r[symmetric] Record _ _ "1.prems"(1) "1.prems"(1)[OF "1.prems"(2)]]) (use False in auto)
      ultimately show ?thesis by simp
    qed
  qed
qed

text \<open>Every event a Codex pass reports, whether the pass starts from scratch or from a stored
  cursor, carries all six token counters, none of them negative, with no more reasoning tokens
  than output tokens; it names the machine, the schema version, the adapter, a session and a
  model. The counters of the log are only assumed to be 64-bit integers: negative, decreasing and
  overflowing counts are all allowed.
\<close>

theorem codex_events_counted:
  assumes "world_i64 w"
    and "fst (parseLogUncached w dir x src machineID c cacheIdentity) = Inr result"
  shows "list_all (counted_event machineID) (ps_Events result)"
proof -
  obtain content where c: "cw_file w (so_Path src) = Inr content"
    using assms(2) by (cases "cw_file w (so_Path src)") (simp_all add: parseLogUncached_def)
  have inv: "list_all (counted_event machineID) (cx_events (fst (codex_loop (codex_line w dir machineID (so_Path src)) st p n s)))"
    if "cx_events st = []" for st p n s
    by (rule codex_loop_invariant) (simp_all add: codex_line_counted[OF assms(1)] that)
  have "cx_events (fresh_state b x) = []" "cx_events (resumed_state q x) = []" for b q x
    by (simp_all add: fresh_state_def resumed_state_def)
  note start = inv[OF this(1)] inv[OF this(2)]
  show ?thesis
    using assms(2) c start unfolding parseLogUncached_def Let_def
    by (simp split: option.splits prod.splits sum.splits) (metis fst_conv parse_result.select_convs(1))+
qed

text \<open>A log of one line, which counts 5 input and 3 output tokens.\<close>

definition counting_info :: token_info where
  "counting_info = \<lparr>ti_Model = ''gpt-5'', ti_ModelName = [], ti_Last = Some \<lparr>tu_Input = 5, tu_CachedInput = 2, tu_CacheReadInput = 0,
     tu_CacheWriteInput = 0, tu_Output = 3, tu_Reasoning = 9, tu_Total = 8\<rparr>, ti_Total = None\<rparr>"

definition counting_world :: codex_world where
  "counting_world = sample_world\<lparr>
     cw_record := (\<lambda>_. Some \<lparr>lr_Type = ''event_msg'', lr_Timestamp = ''2024-01-01T00:00:00Z'', lr_Payload = []\<rparr>),
     cw_payload := (\<lambda>_. Some \<lparr>ep_Type = ''token_count'', ep_Info = Some counting_info\<rparr>)\<rparr>"

definition counting_line :: gostr where "counting_line = quoted ''token_count'' @ [newline]"

lemma counting_reads:
  "ReadRecordLimit 65535 maxCodexRecordBytes counting_line = (Record counting_line False, [])"
  "ReadRecordLimit 65535 maxCodexRecordBytes [] = (Record [] True, [])"
proof -
  have l: "line_of counting_line = (counting_line, [], False)"
    by (simp add: counting_line_def quoted_def line_of_def newline_def)
  show "ReadRecordLimit 65535 maxCodexRecordBytes counting_line = (Record counting_line False, [])"
    using ReadRecordLimit_of_line[OF l, of maxCodexRecordBytes 65535] by (simp add: counting_line_def quoted_def maxCodexRecordBytes_def)
  show "ReadRecordLimit 65535 maxCodexRecordBytes [] = (Record [] True, [])"
    using ReadRecordLimit_of_line[of "[]" "[]" "[]" True maxCodexRecordBytes 65535] by (simp add: line_of_def maxCodexRecordBytes_def)
qed

lemma counting_event: "length (cx_events (on_token_count m path n
    \<lparr>lr_Type = ''event_msg'', lr_Timestamp = ''2024-01-01T00:00:00Z'', lr_Payload = []\<rparr> counting_info (fresh_state None x))) = 1"
proof -
  have t: "parse_rfc3339 ''2024-01-01T00:00:00Z'' \<noteq> None" by code_simp
  have u: "\<not> isZero (normalizeTokenUsage (ti_Last counting_info))" "\<not> isZero (eventTokenUsage (normalizeTokenUsage (ti_Last counting_info)))"
    by code_simp+
  have s: "single_tokens (normalizeTokenUsage (ti_Last counting_info)) (fresh_state None x)
      = (fresh_state None x, Some (eventTokenUsage (normalizeTokenUsage (ti_Last counting_info))))"
    using u by (simp add: single_tokens_def fresh_state_def)
  have n: "ti_Total counting_info = None" by (simp add: counting_info_def)
  show ?thesis
    using t unfolding on_token_count_def Let_def n s by (auto simp: fresh_state_def split: option.split)
qed

lemma counting_parse: "\<exists>r. fst (parseLogUncached (with_file ''p'' counting_line counting_world) [] sample_index sample_source m no_cursor ''c'') = Inr r
    \<and> length (ps_Events r) = 1"
proof -
  have i: "map_of (ci_metadataByPath sample_index) (so_Path sample_source) \<noteq> None" "ci_sessionFiles sample_index \<noteq> []"
    by (simp_all add: sample_index_def sample_source_def)
  have b: "resolveForkBaseline counting_world dir sample_index ''p'' no_metadata = (sample_index, None)" for dir
    by (simp add: resolveForkBaseline_def forkParentID_def no_metadata_def Let_def)
  have l: "codex_line counting_world [] m ''p'' 1 counting_line st = on_token_count m ''p'' 1
      \<lparr>lr_Type = ''event_msg'', lr_Timestamp = ''2024-01-01T00:00:00Z'', lr_Payload = []\<rparr> counting_info st" for st
    by (simp add: codex_line_def counting_world_def counting_info_def counting_line_def quoted_def has_prefix_def)
  have "length (cx_events (fst (first_pass counting_world [] sample_index sample_source m counting_line))) = 1
      \<and> isl (snd (first_pass counting_world [] sample_index sample_source m counting_line)) = False"
    using counting_event[of m "''p''" 1 sample_index]
    by (simp add: first_pass_def sample_source_def sample_index_def[THEN arg_cong, of ci_metadataByPath] b counting_reads l
        codex_loop.simps[of _ _ _ _ counting_line] codex_loop.simps[of _ _ _ _ "[]"])
  then show ?thesis
    using parse_first[OF i, of counting_line counting_world "[]" m "''c''"] by (auto simp: sample_source_def split: prod.splits sum.splits)
qed

theorem codex_events_counted_witness:
  "\<exists>r. fst (parseLogUncached (with_file ''p'' counting_line counting_world) [] sample_index sample_source ''m'' no_cursor ''c'') = Inr r
    \<and> length (ps_Events r) = 1 \<and> list_all (counted_event ''m'') (ps_Events r)"
proof -
  have "world_i64 (with_file ''p'' counting_line counting_world)"
    by (simp add: world_i64_def with_file_def counting_world_def counting_info_def usage_i64_def is_i64_def min_i64_def max_i64_def)
  then show ?thesis using codex_events_counted counting_parse by blast
qed

end
