(* ===== verification/Generic_Adapter.thy ===== *)
theory Generic_Adapter
  imports Record_Lines Go_Path Usage_Privacy
begin

text \<open>
  Package \<open>internal/adapters/generic\<close>: normalised usage events from JSONL files that the user names.
  A file is read strictly: every record that is not blank has to decode, validate and pass the
  outbound check, or the whole pass over the file fails.
\<close>

definition generic_adapterID :: gostr where "generic_adapterID = ''generic-jsonl''"
definition generic_adapterVersion :: gostr where "generic_adapterVersion = ''0.2.0''"

text \<open>
  The parameters: case tables, the JSON decoders and encoder, the clock (read once per record, at
  the position of the record), and the file system. \<open>gw_regular\<close> is \<open>os.Stat\<close> with the test for a
  regular file.
\<close>

record generic_world =
  gw_ulow :: "nat \<Rightarrow> nat"
  gw_decode :: "gostr \<Rightarrow> ((gostr \<times> json) list \<times> trailing) option"
  gw_unmarshal :: "gostr \<Rightarrow> event option"
  gw_marshal :: "(gostr \<times> json) list \<Rightarrow> gostr option"
  gw_now :: "i64 \<Rightarrow> instant"
  gw_file :: "gostr \<Rightarrow> go_err + gostr"
  gw_inode :: "gostr \<Rightarrow> (i64 \<times> i64) option"
  gw_abs :: "gostr \<Rightarrow> gostr"
  gw_home :: "go_err + gostr"
  gw_glob :: "gostr \<Rightarrow> gostr list option"
  gw_regular :: "gostr \<Rightarrow> go_err + bool"

definition generic_NormalizeModel :: "gostr \<Rightarrow> gostr" where
  "generic_NormalizeModel raw = (let model = trim_space raw in if model \<noteq> [] then model else ''unknown'')"

definition generic_sourceIdentity :: "generic_world \<Rightarrow> gostr \<Rightarrow> gostr" where
  "generic_sourceIdentity w path =
    (case gw_inode w path of
       Some (dev, ino) \<Rightarrow> HashIdentity (gw_abs w path @ '':'' @ int_str dev @ '':'' @ int_str ino)
     | None \<Rightarrow> HashIdentity (gw_abs w path))"

subsection \<open>Discovery\<close>

definition expandHome :: "generic_world \<Rightarrow> gostr \<Rightarrow> go_err + gostr" where
  "expandHome w pattern =
    (if pattern \<noteq> ''~'' \<and> \<not> has_prefix pattern ''~/'' \<and> \<not> has_prefix pattern (CHR ''~'' # [CHR 0x5C]) then Inr pattern
     else (case gw_home w of Inl e \<Rightarrow> Inl e
      | Inr home \<Rightarrow> if pattern = ''~'' then Inr home else Inr (filepath_Join [home, drop 2 pattern])))"

text \<open>One match of a pattern; the list is the paths so far, which are the keys of \<open>seen\<close>.\<close>

definition generic_match :: "generic_world \<Rightarrow> gostr list \<Rightarrow> gostr \<Rightarrow> go_err + gostr list" where
  "generic_match w paths path =
    (let absolute = gw_abs w path in
     if absolute \<in> set paths then Inr paths
     else (case gw_regular w absolute of
        Inl e \<Rightarrow> if NotExist \<in> set e then Inr paths else Inl e
      | Inr regular \<Rightarrow> if regular then Inr (paths @ [absolute]) else Inr paths))"

definition generic_pattern :: "generic_world \<Rightarrow> gostr list \<Rightarrow> gostr \<Rightarrow> go_err + gostr list" where
  "generic_pattern w paths pattern0 =
    (let pattern = trim_space pattern0 in
     if pattern = [] then Inr paths
     else (case expandHome w pattern of Inl e \<Rightarrow> Inl e
      | Inr p \<Rightarrow> (case gw_glob w p of None \<Rightarrow> Inl [] | Some matches \<Rightarrow> fold_err (generic_match w) paths matches)))"

definition generic_Discover :: "generic_world \<Rightarrow> gostr list \<Rightarrow> go_err + source_info list" where
  "generic_Discover w patterns =
    (case fold_err (generic_pattern w) [] patterns of Inl e \<Rightarrow> Inl e
     | Inr paths \<Rightarrow> fold_err (\<lambda>srcs path. case gw_regular w path of Inl e \<Rightarrow> Inl e
         | Inr _ \<Rightarrow> Inr (srcs @ [\<lparr>so_Path = path, so_Identity = generic_sourceIdentity w path\<rparr>])) [] (sort paths))"

subsection \<open>One record\<close>

definition generic_event :: "generic_world \<Rightarrow> gostr \<Rightarrow> gostr \<Rightarrow> i64 \<Rightarrow> event \<Rightarrow> event" where
  "generic_event w machineID identity lineOffset e0 =
    (let e = e0\<lparr>ev_MachineID := machineID, ev_Project := NormalizeProject (gw_ulow w) (ev_Project e0),
           ev_Model := generic_NormalizeModel (ev_Model e0),
           ev_Source := \<lparr>src_Adapter = generic_adapterID, src_AdapterVersion = generic_adapterVersion,
             src_Identity = identity, src_Offset = lineOffset\<rparr>\<rparr>
     in if trim_space (ev_EventID e) = []
        then e\<lparr>ev_EventID := DeterministicID machineID generic_adapterID identity lineOffset (rfc3339_nano (ev_Timestamp e)) (ev_SessionID e)\<rparr>
        else e)"

definition generic_line ::
  "generic_world \<Rightarrow> gostr \<Rightarrow> gostr \<Rightarrow> i64 \<Rightarrow> i64 \<Rightarrow> gostr \<Rightarrow> event list \<Rightarrow> go_err + event list" where
  "generic_line w machineID identity n lineOffset line events =
    (if trim_space line = [] then Inr events
     else (case DecodeOutboundEvent (gw_ulow w) (gw_decode w) (gw_unmarshal w) line of Inl err \<Rightarrow> Inl []
      | Inr e0 \<Rightarrow>
         (let e = generic_event w machineID identity lineOffset e0 in
          case FilterApprovedMetadata (gw_ulow w) (ev_Metadata e) of Inl err \<Rightarrow> Inl []
          | Inr metadata \<Rightarrow>
             (let e' = e\<lparr>ev_Metadata := metadata\<rparr> in
              if validateAt (gw_ulow w) (gw_marshal w) (gw_now w lineOffset) e' \<noteq> None then Inl []
              else if ValidateOutbound (gw_ulow w) e' \<noteq> None then Inl []
              else Inr (events @ [e'])))))"

subsection \<open>A pass\<close>

definition generic_Parse :: "generic_world \<Rightarrow> source_info \<Rightarrow> gostr \<Rightarrow> cursor \<Rightarrow> go_err + parse_result" where
  "generic_Parse w src machineID0 c =
    (let machineID = trim_space machineID0 in
     if machineID = [] then Inl []
     else (case gw_file w (so_Path src) of Inl e \<Rightarrow> Inl e
      | Inr content \<Rightarrow>
         (let identity = (if so_Identity src = [] then generic_sourceIdentity w (so_Path src) else so_Identity src);
              offset = (if cu_Identity c \<noteq> identity \<or> cu_Offset c < 0 \<or> int (length content) < cu_Offset c then 0 else cu_Offset c)
          in case record_loop 1048576 (\<lambda>_. False) (generic_line w machineID identity) [] [] offset 0 (drop (nat offset) content) of
               Inl e \<Rightarrow> Inl e
             | Inr (events, position, n) \<Rightarrow>
                 Inr \<lparr>ps_Events = events, ps_Cursor = \<lparr>cu_Identity = identity, cu_Offset = position, cu_Line = 0, cu_State = []\<rparr>\<rparr>)))"

subsection \<open>Lemmas\<close>

lemma generic_line_prefix:
  "generic_line w m i n p line (E @ es) = (case generic_line w m i n' p line es of Inl e \<Rightarrow> Inl e | Inr es' \<Rightarrow> Inr (E @ es'))"
  by (simp add: generic_line_def Let_def split: sum.split)

lemma generic_loop_prefix:
  "step = generic_line w m i \<Longrightarrow> record_loop limit keep step tooLong (E @ es) p n s =
    (case record_loop limit keep step tooLong es p n' s of Inl e \<Rightarrow> Inl e | Inr (es', p', k) \<Rightarrow> Inr (E @ es', p', n + (k - n')))"
proof (induction limit keep step tooLong es p n' s arbitrary: n rule: record_loop.induct)
  case (1 limit keep step tooLong es p n' s)
  obtain res rest where r: "ReadRecordLimit 65535 limit s = (res, rest)" by fastforce
  note unfold = record_loop.simps[of limit keep step tooLong "E @ es" p n s] record_loop.simps[of limit keep step tooLong es p n' s]
  show ?case
  proof (cases res)
    case RecordTooLong
    then show ?thesis using r by (simp add: unfold)
  next
    case (Record line eof)
    show ?thesis
    proof (cases "line = [] \<and> eof \<or> eof \<and> keep line")
      case True
      then show ?thesis using r Record by (auto simp: unfold)
    next
      case False
      have l: "step (n + 1) p line (E @ es) = (case step (n' + 1) p line es of Inl e \<Rightarrow> Inl e | Inr es' \<Rightarrow> Inr (E @ es'))"
        unfolding "1.prems" by (rule generic_line_prefix)
      show ?thesis
      proof (cases "step (n' + 1) p line es")
        case (Inl e)
        then show ?thesis using r Record False l by (simp add: unfold)
      next
        case (Inr es1)
        have "record_loop limit keep step tooLong (E @ es1) (p + int (length line)) (n + 1) rest =
          (case record_loop limit keep step tooLong es1 (p + int (length line)) (n' + 1) rest of Inl e \<Rightarrow> Inl e
           | Inr (es', p', k) \<Rightarrow> Inr (E @ es', p', n + 1 + (k - (n' + 1))))"
          by (rule "1.IH"[OF r[symmetric] Record _ _ Inr "1.prems"]) (use False in auto)
        then show ?thesis using r Record False l Inr
          by (cases "record_loop limit keep step tooLong es1 (p + int (length line)) (n' + 1) rest") (auto simp: unfold)
      qed
    qed
  qed
qed

definition generic_identity :: "generic_world \<Rightarrow> source_info \<Rightarrow> gostr" where
  "generic_identity w src = (if so_Identity src = [] then generic_sourceIdentity w (so_Path src) else so_Identity src)"

definition generic_offset :: "gostr \<Rightarrow> cursor \<Rightarrow> gostr \<Rightarrow> i64" where
  "generic_offset identity c content = (if cu_Identity c \<noteq> identity \<or> cu_Offset c < 0 \<or> int (length content) < cu_Offset c then 0 else cu_Offset c)"

lemma generic_Parse_content:
  "trim_space m \<noteq> [] \<Longrightarrow> gw_file w (so_Path src) = Inr content \<Longrightarrow> generic_Parse w src m c =
    map_sum id (\<lambda>(events, position, n). \<lparr>ps_Events = events,
        ps_Cursor = \<lparr>cu_Identity = generic_identity w src, cu_Offset = position, cu_Line = 0, cu_State = []\<rparr>\<rparr>)
      (record_loop 1048576 (\<lambda>_. False) (generic_line w (trim_space m) (generic_identity w src)) [] []
        (generic_offset (generic_identity w src) c content) 0 (drop (nat (generic_offset (generic_identity w src) c content)) content))"
  unfolding generic_Parse_def generic_identity_def generic_offset_def Let_def by (simp split: sum.split)

lemma generic_Parse_Inr:
  assumes "generic_Parse w src m c = Inr r"
  obtains content p n where "trim_space m \<noteq> []" "gw_file w (so_Path src) = Inr content"
    "record_loop 1048576 (\<lambda>_. False) (generic_line w (trim_space m) (generic_identity w src)) [] []
      (generic_offset (generic_identity w src) c content) 0 (drop (nat (generic_offset (generic_identity w src) c content)) content)
      = Inr (ps_Events r, p, n)"
    "ps_Cursor r = \<lparr>cu_Identity = generic_identity w src, cu_Offset = p, cu_Line = 0, cu_State = []\<rparr>"
proof -
  have m: "trim_space m \<noteq> []" using assms by (auto simp: generic_Parse_def Let_def)
  obtain content where c: "gw_file w (so_Path src) = Inr content"
    using assms m by (cases "gw_file w (so_Path src)") (simp_all add: generic_Parse_def Let_def)
  have "\<exists>p n. record_loop 1048576 (\<lambda>_. False) (generic_line w (trim_space m) (generic_identity w src)) [] []
      (generic_offset (generic_identity w src) c content) 0 (drop (nat (generic_offset (generic_identity w src) c content)) content)
      = Inr (ps_Events r, p, n) \<and> ps_Cursor r = \<lparr>cu_Identity = generic_identity w src, cu_Offset = p, cu_Line = 0, cu_State = []\<rparr>"
    using assms unfolding generic_Parse_content[OF m c]
    by (cases "record_loop 1048576 (\<lambda>_. False) (generic_line w (trim_space m) (generic_identity w src)) [] []
      (generic_offset (generic_identity w src) c content) 0 (drop (nat (generic_offset (generic_identity w src) c content)) content)") auto
  then show ?thesis using that m c by blast
qed

text \<open>C23: A file of events may be read in pieces. When a pass has read its first complete lines, the pass over
  the grown file that starts from that cursor fails exactly when reading the whole file does, and
  otherwise ends with the same cursor, and the events of the two passes are those of the full
  read, event IDs included: an ID is derived from the position of the record, not from the pass.\<close>

theorem generic_resume:
  assumes lines: "xs = [] \<or> last xs = newline" and identity: "so_Identity src \<noteq> []"
    and files: "gw_file w (so_Path src) = Inr xs" "gw_file w' (so_Path src) = Inr (xs @ ys)" "w' = w\<lparr>gw_file := f\<rparr>"
    and first: "generic_Parse w src m no_cursor = Inr r1"
  shows "generic_Parse w' src m no_cursor =
    (case generic_Parse w' src m (ps_Cursor r1) of Inl e \<Rightarrow> Inl e
     | Inr r2 \<Rightarrow> Inr \<lparr>ps_Events = ps_Events r1 @ ps_Events r2, ps_Cursor = ps_Cursor r2\<rparr>)"
proof -
  let ?step = "generic_line w (trim_space m) (so_Identity src)" and ?K = "\<lambda>_ :: gostr. False"
  have u: "gw_ulow w' = gw_ulow w" "gw_decode w' = gw_decode w" "gw_unmarshal w' = gw_unmarshal w" "gw_marshal w' = gw_marshal w" "gw_now w' = gw_now w"
    unfolding files(3) by simp_all
  have step: "generic_line w' = generic_line w" by (intro ext) (simp only: generic_line_def generic_event_def u)
  have id: "generic_identity w src = so_Identity src" "generic_identity w' src = so_Identity src" using identity by (simp_all add: generic_identity_def)
  have at0: "generic_offset i no_cursor c = 0" for i c by (simp add: generic_offset_def no_cursor_def)
  obtain p n where m: "trim_space m \<noteq> []" and es: "record_loop 1048576 ?K ?step [] [] 0 0 xs = Inr (ps_Events r1, p, n)"
    and c1: "ps_Cursor r1 = \<lparr>cu_Identity = so_Identity src, cu_Offset = p, cu_Line = 0, cu_State = []\<rparr>"
    using files(1) id at0 generic_Parse_Inr[OF first] by (metis Inr_inject nat_0 drop0 nat_zero_as_int)
  have p: "p = int (length xs)" using record_loop_position[OF lines es] by simp
  have full: "record_loop 1048576 ?K ?step [] [] 0 0 (xs @ ys) = record_loop 1048576 ?K ?step [] (ps_Events r1) p n ys"
    using record_loop_append[OF lines, of 1048576 ?K ?step "[]" "[]" 0 0 ys] es by simp
  have rest: "record_loop 1048576 ?K ?step [] (ps_Events r1) p n ys =
    (case record_loop 1048576 ?K ?step [] [] p 0 ys of Inl e \<Rightarrow> Inl e | Inr (es', p', k) \<Rightarrow> Inr (ps_Events r1 @ es', p', n + (k - 0)))"
    using generic_loop_prefix[OF refl, of 1048576 ?K w "trim_space m" "so_Identity src" "[]" "ps_Events r1" "[]"] by simp
  have offset: "generic_offset (so_Identity src) (ps_Cursor r1) (xs @ ys) = p" by (simp add: generic_offset_def c1 p)
  have drop: "drop (nat p) (xs @ ys) = ys" by (simp add: p)
  show ?thesis
    unfolding generic_Parse_content[OF m files(2)] id step offset at0 drop
    using full rest by (cases "record_loop 1048576 ?K ?step [] [] p 0 ys") auto
qed

text \<open>What the extension path lets through. Every event of a pass was validated as the hub validates it,
  passed the outbound privacy check, and names this machine, this adapter and this source; and a
  pass with one record that does not qualify delivers no event at all.\<close>

theorem generic_events_checked:
  assumes "generic_Parse w src m c = Inr r" "e \<in> set (ps_Events r)"
  shows "(\<exists>position. validateAt (gw_ulow w) (gw_marshal w) (gw_now w position) e = None \<and> src_Offset (ev_Source e) = position)
    \<and> ValidateOutbound (gw_ulow w) e = None \<and> ev_MachineID e = trim_space m
    \<and> src_Adapter (ev_Source e) = generic_adapterID \<and> src_Identity (ev_Source e) = cu_Identity (ps_Cursor r)
    \<and> trim_space (ev_EventID e) \<noteq> []"
proof -
  let ?id = "generic_identity w src"
  let ?ok = "\<lambda>e. (\<exists>position. validateAt (gw_ulow w) (gw_marshal w) (gw_now w position) e = None \<and> src_Offset (ev_Source e) = position)
    \<and> ValidateOutbound (gw_ulow w) e = None \<and> ev_MachineID e = trim_space m
    \<and> src_Adapter (ev_Source e) = generic_adapterID \<and> src_Identity (ev_Source e) = ?id \<and> trim_space (ev_EventID e) \<noteq> []"
  have step: "list_all ?ok es'" if a: "list_all ?ok es" and b: "generic_line w (trim_space m) ?id n p line es = Inr es'" for n p line es es'
  proof (cases "trim_space line = []")
    case True
    then show ?thesis using a b by (simp add: generic_line_def)
  next
    case False
    obtain e0 md where e0: "DecodeOutboundEvent (gw_ulow w) (gw_decode w) (gw_unmarshal w) line = Inr e0"
      "es' = es @ [(generic_event w (trim_space m) ?id p e0)\<lparr>ev_Metadata := md\<rparr>]"
      "validateAt (gw_ulow w) (gw_marshal w) (gw_now w p) ((generic_event w (trim_space m) ?id p e0)\<lparr>ev_Metadata := md\<rparr>) = None"
      "ValidateOutbound (gw_ulow w) ((generic_event w (trim_space m) ?id p e0)\<lparr>ev_Metadata := md\<rparr>) = None"
      using b False by (auto simp: generic_line_def Let_def split: sum.splits if_splits)
    have "ev_MachineID (generic_event w (trim_space m) ?id p e0) = trim_space m"
      "src_Adapter (ev_Source (generic_event w (trim_space m) ?id p e0)) = generic_adapterID"
      "src_Identity (ev_Source (generic_event w (trim_space m) ?id p e0)) = ?id"
      "src_Offset (ev_Source (generic_event w (trim_space m) ?id p e0)) = p"
      "trim_space (ev_EventID (generic_event w (trim_space m) ?id p e0)) \<noteq> []"
      using event_id_like_trim[OF hashes_event_id_like(2)] by (simp_all add: generic_event_def Let_def DeterministicID_def)
    then show ?thesis using a e0(2-4) by simp
  qed
  obtain content p n where es: "record_loop 1048576 (\<lambda>_. False) (generic_line w (trim_space m) ?id) [] []
      (generic_offset ?id c content) 0 (drop (nat (generic_offset ?id c content)) content) = Inr (ps_Events r, p, n)"
    "cu_Identity (ps_Cursor r) = ?id" using generic_Parse_Inr[OF assms(1)] by (metis cursor.select_convs(1))
  have "list_all ?ok (ps_Events r)"
    by (rule record_loop_invariant[where P = "list_all ?ok", OF step _ es(1)]) simp_all
  then show ?thesis using assms(2) es(2) by (simp add: list_all_iff)
qed

text \<open>A file of two records.\<close>

definition generic_sample :: "gostr \<Rightarrow> generic_world" where
  "generic_sample content = \<lparr>gw_ulow = (\<lambda>r. r), gw_decode = (\<lambda>_. Some ([], AtEOF)), gw_unmarshal = (\<lambda>_. Some sample_event),
     gw_marshal = (\<lambda>_. Some []), gw_now = (\<lambda>_. 10), gw_file = (\<lambda>_. Inr content), gw_inode = (\<lambda>_. None), gw_abs = (\<lambda>p. p),
     gw_home = Inl [], gw_glob = (\<lambda>_. None), gw_regular = (\<lambda>_. Inr True)\<rparr>"

definition generic_source :: source_info where "generic_source = \<lparr>so_Path = ''/u.jsonl'', so_Identity = ''s''\<rparr>"

definition sample_line :: gostr where "sample_line = ''{}'' @ [newline]"

lemma generic_sample_event:
  "generic_line (generic_sample content) ''m'' ''s'' n p sample_line es =
    Inr (es @ [sample_event\<lparr>ev_Source := \<lparr>src_Adapter = generic_adapterID, src_AdapterVersion = generic_adapterVersion,
      src_Identity = ''s'', src_Offset = p\<rparr>\<rparr>])" if "0 \<le> p"
proof -
  let ?e = "sample_event\<lparr>ev_Source := \<lparr>src_Adapter = generic_adapterID, src_AdapterVersion = generic_adapterVersion, src_Identity = ''s'', src_Offset = p\<rparr>\<rparr>"
  have t: "trim_space sample_line \<noteq> []" by (simp add: sample_line_def newline_def str_eval del: runes.simps(2))
  have d: "DecodeOutboundEvent (\<lambda>r. r) (\<lambda>_. Some ([], AtEOF)) (\<lambda>_. Some sample_event) sample_line = Inr sample_event"
    by (simp add: DecodeOutboundEvent_def)
  have tr: "trim_space ''gpt'' = ''gpt''" "trim_space ''e1'' \<noteq> []" by (simp_all add: str_eval del: runes.simps(2))
  have np: "NormalizeProject (\<lambda>r. r) [] = []"
    by (simp add: NormalizeProject_def trim_right_char_def replace_char_def Let_def str_eval del: runes.simps(2))
  have e: "generic_event (generic_sample content) ''m'' ''s'' p sample_event = ?e"
    by (simp add: generic_event_def generic_sample_def sample_event_def generic_NormalizeModel_def tr np)
  have v: "validateAt (\<lambda>r. r) (\<lambda>_. Some []) 10 ?e = None"
    using that
    by (simp add: sample_event_def validateAt_def validateIdentifier_def validateText_def str_eval generic_adapterID_def generic_adapterVersion_def
      validateEventIDDigest_def eventIDPrefix_def event_schema_version_def zero_time_def nanos_per_day_def
      contains_any_def Accuracy_Valid_def AccuracyReported_def negative_field_def bad_currency_def
      validateTokenTotals_def token_components_def max_i64_def i64_sub_def i64_add_def wrap64_def isASCIIAlpha_def fail_if_def
      upper_ascii_def has_prefix_def del: runes.simps(2))
  have o: "ValidateOutbound (\<lambda>r. r) ?e = None"
    by (simp add: ValidateOutbound_def validateApprovedMetadata_def FilterApprovedMetadata_def sample_event_def fail_if_def contains_any_def
        outbound_identifiers_def identifierContainsSensitiveValue_def looks_secret_def has_prefix_def path_chars_def
        generic_adapterID_def generic_adapterVersion_def str_eval char_of_def bit_0 contains_def)
  have f: "FilterApprovedMetadata (\<lambda>r. r) (ev_Metadata ?e) = Inr None" by (simp add: FilterApprovedMetadata_def sample_event_def)
  have m: "?e\<lparr>ev_Metadata := None\<rparr> = ?e" by (simp add: sample_event_def)
  have w: "gw_ulow (generic_sample content) = (\<lambda>r. r)" "gw_decode (generic_sample content) = (\<lambda>_. Some ([], AtEOF))"
    "gw_unmarshal (generic_sample content) = (\<lambda>_. Some sample_event)" "gw_marshal (generic_sample content) = (\<lambda>_. Some [])"
    "gw_now (generic_sample content) = (\<lambda>_. 10)"
    by (simp_all add: generic_sample_def)
  show ?thesis unfolding generic_line_def w d Let_def sum.case e f m using t v o by simp
qed

lemma generic_sample_parse:
  "generic_Parse (generic_sample sample_line) generic_source ''m'' no_cursor =
    Inr \<lparr>ps_Events = [sample_event\<lparr>ev_Source := \<lparr>src_Adapter = generic_adapterID, src_AdapterVersion = generic_adapterVersion,
      src_Identity = ''s'', src_Offset = 0\<rparr>\<rparr>], ps_Cursor = \<lparr>cu_Identity = ''s'', cu_Offset = 3, cu_Line = 0, cu_State = []\<rparr>\<rparr>"
proof -
  have m: "trim_space ''m'' = ''m''" by (simp add: str_eval del: runes.simps(2))
  have l: "is_line sample_line" "length sample_line \<le> 1048576" by (simp_all add: is_line_def sample_line_def newline_def)
  have f: "gw_file (generic_sample sample_line) (so_Path generic_source) = Inr sample_line" by (simp add: generic_sample_def)
  have i: "generic_identity (generic_sample sample_line) generic_source = ''s''" "generic_offset ''s'' no_cursor sample_line = 0"
    by (simp_all add: generic_identity_def generic_source_def generic_offset_def no_cursor_def)
  have "record_loop 1048576 (\<lambda>_. False) (generic_line (generic_sample sample_line) ''m'' ''s'') [] [] 0 0 sample_line
    = Inr ([sample_event\<lparr>ev_Source := \<lparr>src_Adapter = generic_adapterID, src_AdapterVersion = generic_adapterVersion,
      src_Identity = ''s'', src_Offset = 0\<rparr>\<rparr>], 3, 1)"
    unfolding record_loop_records[OF records_line[OF l]] by (simp add: generic_sample_event) (simp add: sample_line_def)
  then show ?thesis using m by (simp add: generic_Parse_content[OF _ f] i)
qed

theorem generic_resume_witness:
  "\<exists>r1. generic_Parse (generic_sample sample_line) generic_source ''m'' no_cursor = Inr r1 \<and> length (ps_Events r1) = 1
    \<and> generic_Parse (generic_sample (sample_line @ sample_line)) generic_source ''m'' no_cursor =
      (case generic_Parse (generic_sample (sample_line @ sample_line)) generic_source ''m'' (ps_Cursor r1) of Inl e \<Rightarrow> Inl e
       | Inr r2 \<Rightarrow> Inr \<lparr>ps_Events = ps_Events r1 @ ps_Events r2, ps_Cursor = ps_Cursor r2\<rparr>)"
proof -
  have "last sample_line = newline" by (simp add: sample_line_def)
  then show ?thesis
    using generic_resume[of sample_line generic_source "generic_sample sample_line" "generic_sample (sample_line @ sample_line)" sample_line
        "\<lambda>_. Inr (sample_line @ sample_line)", OF _ _ _ _ _ generic_sample_parse] generic_sample_parse
    by (simp add: generic_source_def) (simp add: generic_sample_def)
qed

theorem generic_events_checked_witness:
  "\<exists>r e. generic_Parse (generic_sample sample_line) generic_source ''m'' no_cursor = Inr r \<and> ps_Events r = [e]
    \<and> ValidateOutbound (\<lambda>r. r) e = None \<and> ev_MachineID e = trim_space ''m''"
proof -
  have "e \<in> set (ps_Events \<lparr>ps_Events = [e], ps_Cursor = c\<rparr>)" for e c by simp
  note generic_events_checked[OF generic_sample_parse this]
  then show ?thesis unfolding generic_sample_parse by (auto simp: generic_sample_def)
qed

end
