(* ===== verification/Spec2Isabelle.thy ===== *)
theory Spec2Isabelle
  imports Agent_Hub Agent_Stuck Api_Exports Api_Labels Store_Types Store_Insights Insights_Private Ai_Client Store_Analytics Codex_Adapter Claude_Adapter Generic_Adapter Api_Cache Store_Overview Store_Ingest Store_Heartbeat Usage_Privacy Evolution Catalog Sqlite_Handles Agent_State Api_Security
begin

text \<open>
  Tokemon collects the token usage of coding agents and shows it as an evolving creature. An agent
  (\<open>cmd/tokemon/main.go\<close>, \<open>internal/agent\<close>) runs on each machine: its adapters (\<open>internal/adapters\<close>) read
  the logs of local tools incrementally, what is new is sent to the hub in batches, and cursors and
  fingerprints are committed only after the upload. The hub (\<open>internal/api\<close>) authenticates a batch,
  checks it (\<open>internal/usage\<close>), stores it in SQLite (\<open>internal/database\<close>), prices it with the model
  catalog (\<open>internal/catalog\<close>), and serves the dashboard, the analytics, exports, insights and the
  creature (\<open>internal/evolution\<close>). An optional client (\<open>internal/insights\<close>) asks a language model to
  phrase an insight.

  \<^bold>\<open>Conventions.\<close> A Go string is a list of bytes (\<open>gostr\<close>). Signed 64-bit integers are \<open>int\<close> with
  wrapping operations (\<open>i64_add\<close>, \<open>i64_sub\<close>, ...); floats are rounded rationals with infinities. A Go
  error is a value of a sum or option type. A SQL table is its list of rows and a statement a function
  on it, with the unique indexes as constraints; a transaction that fails gives back the old tables. A
  Go map is an association list with distinct keys. Loops over input are structural folds; the loops of
  a reader or of a calendar that are not have a proved measure or are \<open>partial_function (option)\<close>, whose
  results are then proved to exist. There is no fuel in the model: the retry loop of the agent runs for
  a given list of passes.

  \<^bold>\<open>Libraries.\<close> \<open>Prelude\<close> (errors, lists, maps, the collection \<open>str_eval\<close>), \<open>Grouping\<close> (one accumulator
  per key), \<open>Tables\<close> (the contracts of insert-or-update statements as locales). What the program uses of
  Go's standard library: \<open>Go_Runtime\<close> (integers, UTF-8, \<open>strings\<close>, \<open>strconv\<close>), \<open>Float64\<close>, \<open>Sha256\<close>,
  \<open>Go_Time\<close>, \<open>Go_Zone\<close>, \<open>Go_Parse\<close> and \<open>Go_Calendar\<close> (\<open>time\<close>), \<open>Go_Net\<close> (\<open>net\<close>, headers, base 64, HMAC),
  \<open>Go_Url\<close>, \<open>Go_Csv\<close>, \<open>Go_Path\<close>, \<open>Go_Regexp\<close>.

  \<^bold>\<open>Events.\<close> \<open>Usage_Event\<close> is \<open>usage/event.go\<close>: validation, repair, identities. \<open>Usage_Privacy\<close> is
  \<open>usage/privacy.go\<close>: an accepted batch holds approved fields only. \<open>Catalog\<close> and \<open>Evolution\<close> are the
  packages of these names.

  \<^bold>\<open>Adapters.\<close> \<open>Adapters_Core\<close> is \<open>adapter.go\<close>, \<open>cache.go\<close> and parts of \<open>sqlite.go\<close>; \<open>Sqlite_Handles\<close> is
  the cache of open databases, refined to a least-recently-used list. \<open>Record_Lines\<close> is the common reading
  loop; \<open>Codex_Adapter\<close>, \<open>Claude_Adapter\<close> and \<open>Generic_Adapter\<close> are the three adapters for line-based
  logs. Their main theorems say that reading a log in two passes, the second from the saved cursor,
  gives the same events as reading it once, and name the logs for which that fails.

  \<^bold>\<open>Agent.\<close> \<open>Agent_State\<close> (\<open>state.go\<close>, \<open>delta.go\<close>: cursors, fingerprints, \<open>Pending\<close>, \<open>Commit\<close>; the filter of
  sent events is a locale with two interpretations), \<open>Agent_Client\<close> (\<open>client.go\<close>: splitting, requests,
  replies; a peer with an invariant is a locale), \<open>Agent_Pass\<close> (the pass of \<open>runAgent\<close> and its retry delays).
  \<open>Agent_Hub\<close> puts the model of the hub behind the client and interprets the peer with it: what a pass
  reports is what the hub's totals grow by. \<open>Agent_Stuck\<close> has the sequence of passes and shows how one refused event blocks an agent.

  \<^bold>\<open>Store.\<close> \<open>Store_Events\<close> (the \<open>usage_events\<close> table, its indexes and statements), \<open>Store_Ingest\<close> (\<open>Ingest\<close>
  with its transaction: the tables stay well formed and the lifetime totals stay the sums of the rows),
  \<open>Store_Heartbeat\<close> (heartbeats, health, aliases, purge), \<open>Store_Activity\<close>, \<open>Store_Dashboard\<close>,
  \<open>Store_Overview\<close>, \<open>Store_Analytics\<close> and \<open>Store_Insights\<close> (the read queries: their parts add up to their
  totals), \<open>Store_Types\<close> (stored rows are what the readers expect, so no query fails on what was
  ingested), \<open>Insights_Private\<close> (insights do not depend on identities: non-interference).

  \<^bold>\<open>Server.\<close> \<open>Api_Security\<close> (\<open>security.go\<close>: tokens, logins, throttling), \<open>Api_Cache\<close> (the single-flight caches
  as an interleaved transition system with any number of requests; no acknowledged
  ingestion is missing from what is served), \<open>Api_Hub\<close> (the batch and heartbeat handlers, metrics, alias form),
  \<open>Api_Exports\<close> (JSON and CSV endpoints, links), \<open>Api_Labels\<close> (the functions the templates call).

  \<^bold>\<open>Insight synthesis.\<close> \<open>Ai_Card\<close> and \<open>Ai_Client\<close> are \<open>insights/synthesis.go\<close>: only a checked card is sent,
  only a checked answer is returned or cached, an entry of the cache serves until it expires.

  \<^bold>\<open>Parameters.\<close> The file system, SQLite's driver and float summation, \<open>encoding/json\<close>, \<open>bcrypt\<close>, gzip, URL
  parsing, the zone database, the Unicode tables beyond ASCII, the network and the clock are arguments.
  What a theorem relies on of them is a hypothesis in its statement, and its witness supplies a function.

  \<^bold>\<open>Not modelled.\<close> The pages and their templates (HTML), the command line and its configuration, backup and
  process lock (operating-system calls), the adapters for OpenCode, Copilot, Antigravity, Hermes, OpenClaw
  and ZCode and the registry of adapters, the sprite validator, the version strings. Contexts are not
  cancelled and reads of an open file do not fail, except where a theory says so.
\<close>

end
